(* ===== verification/Jet_Prelude.thy ===== *)
theory Jet_Prelude
  imports Main "HOL-Library.Word"
begin

text \<open>
  The library shared by every component of the Jet development.

  \<^item> The machine types of the Rust sources: \<open>u8\<close>, \<open>u32\<close> and \<open>u64\<close> are words of that
    width; \<open>usize\<close> (64 bits on every platform Jet supports) is a natural number whose
    arithmetic writes out the saturation (\<open>usize_sat_add\<close>) and the wrap-around
    (\<open>usize_sub\<close>: the shipped profiles leave overflow checks off) of the source.
  \<^item> \<open>Result<T, E>\<close> is \<open>'e + 'a\<close> with the error on the left; \<open>CoreError\<close> keeps the
    category, the stable code a caller may branch on and whether it carries native
    detail, and leaves out the prose.
  \<^item> Big-endian byte strings (\<open>to_be_bytes\<close>, \<open>from_be_bytes\<close>) and their inversion.
  \<^item> Rust \<open>String\<close>s whose length or character boundaries matter are lists of Unicode
    scalar values with their UTF-8 width (\<open>utf8_len\<close>).
  \<^item> Three interfaces as locales: \<open>codec\<close> (an encoder and a partial decoder that invert
    each other), \<open>machine\<close> (operations that keep an invariant) and
    \<open>measured_machine\<close> (operations that also never move a measure backwards).
    Each component interprets them on its own operations.
\<close>

section \<open>Machine integers\<close>

type_synonym uuid = nat
type_synonym byte = "8 word"
type_synonym u32 = "32 word"
type_synonym u64 = "64 word"

definition usize_max :: nat where
  "usize_max = 2 ^ 64 - 1"

definition usize_sat_add :: "nat \<Rightarrow> nat \<Rightarrow> nat" where
  "usize_sat_add a b = min (a + b) usize_max"

definition usize_sub :: "nat \<Rightarrow> nat \<Rightarrow> nat" where
  "usize_sub a b = (if b \<le> a then a - b else a + 2 ^ 64 - b)"

definition u64_checked_add :: "u64 \<Rightarrow> u64 \<Rightarrow> u64 option" where
  "u64_checked_add a b = (if unat a + unat b < 2 ^ 64 then Some (a + b) else None)"

definition u64_sat_add :: "u64 \<Rightarrow> u64 \<Rightarrow> u64" where
  "u64_sat_add a b = (if unat a + unat b < 2 ^ 64 then a + b else - 1)"

definition u64_sat_sub :: "u64 \<Rightarrow> u64 \<Rightarrow> u64" where
  "u64_sat_sub a b = (if b \<le> a then a - b else 0)"

definition i64_sat_add :: "int \<Rightarrow> int \<Rightarrow> int" where
  "i64_sat_add a b = max (- (2 ^ 63)) (min (2 ^ 63 - 1) (a + b))"

definition i64_sat_sub :: "int \<Rightarrow> int \<Rightarrow> int" where
  "i64_sat_sub a b = max (- (2 ^ 63)) (min (2 ^ 63 - 1) (a - b))"

lemma usize_sat_add_le: "usize_sat_add a b \<le> m \<Longrightarrow> m < usize_max \<Longrightarrow> usize_sat_add a b = a + b"
  by (simp add: usize_sat_add_def)

lemma usize_sat_add_small [simp]: "a + b \<le> usize_max \<Longrightarrow> usize_sat_add a b = a + b"
  by (simp add: usize_sat_add_def)

lemma usize_sub_le [simp]: "b \<le> a \<Longrightarrow> usize_sub a b = a - b"
  by (simp add: usize_sub_def)

lemma unat_u64_bound: "unat (a :: u64) < 2 ^ 64"
  using unsigned_less [of a] by simp

lemma u64_checked_add_Some:
  "u64_checked_add a b = Some c \<longleftrightarrow> unat a + unat b < 2 ^ 64 \<and> c = a + b"
  by (auto simp: u64_checked_add_def)

lemma u64_checked_add_unat:
  "u64_checked_add a b = Some c \<Longrightarrow> unat c = unat a + unat b"
  by (auto simp: u64_checked_add_def unat_word_ariths split: if_splits)

lemma unat_u64_diff: "b \<le> a \<Longrightarrow> unat (a - b :: u64) = unat a - unat b"
  by (simp add: unat_sub)

lemma unat_of_nat_u64: "n < 2 ^ 64 \<Longrightarrow> unat (of_nat n :: u64) = n"
  by (simp add: unat_of_nat)

lemma unat_of_nat_u32: "n < 2 ^ 32 \<Longrightarrow> unat (of_nat n :: u32) = n"
  by (simp add: unat_of_nat)

section \<open>Results and core errors\<close>

text \<open>\<open>jet-core/src/error.rs\<close>: the categories and the constructors the components use.\<close>

datatype error_category =
    InvalidInput | Unauthorized | Conflict | Unavailable | Incompatible
  | RateLimited | NotFound | OutcomeUnknownCategory | Internal

record core_error =
  category :: error_category
  code :: string
  retryable :: bool
  detailed :: bool

definition invalid_input :: "string \<Rightarrow> core_error" where
  "invalid_input c = \<lparr>category = InvalidInput, code = c, retryable = False, detailed = False\<rparr>"

definition not_found :: "string \<Rightarrow> core_error" where
  "not_found c = \<lparr>category = NotFound, code = c, retryable = False, detailed = False\<rparr>"

definition conflict :: "string \<Rightarrow> core_error" where
  "conflict c = \<lparr>category = Conflict, code = c, retryable = False, detailed = False\<rparr>"

definition internal :: "string \<Rightarrow> core_error" where
  "internal c = \<lparr>category = Internal, code = c, retryable = False, detailed = True\<rparr>"

definition incompatible :: "string \<Rightarrow> core_error" where
  "incompatible c = \<lparr>category = Incompatible, code = c, retryable = False, detailed = False\<rparr>"

definition unavailable_error :: "string \<Rightarrow> core_error" where
  "unavailable_error c = \<lparr>category = Unavailable, code = c, retryable = True, detailed = True\<rparr>"

text \<open>An error without native detail is an answer that may be remembered.\<close>

definition is_authoritative_result :: "core_error \<Rightarrow> bool" where
  "is_authoritative_result e \<longleftrightarrow> \<not> detailed e"

lemmas core_error_defs = invalid_input_def not_found_def conflict_def internal_def incompatible_def
  unavailable_error_def

lemma authoritative_simps [simp]:
  "is_authoritative_result (invalid_input c)" "is_authoritative_result (not_found c)"
  "is_authoritative_result (conflict c)" "is_authoritative_result (incompatible c)"
  "\<not> is_authoritative_result (internal c)" "\<not> is_authoritative_result (unavailable_error c)"
  by (simp_all add: is_authoritative_result_def core_error_defs)

text \<open>The state after an operation that may fail: a refusal changes nothing.\<close>

definition commit_or :: "'s \<Rightarrow> 'e + 's \<Rightarrow> 's" where
  "commit_or s r = (case r of Inl _ \<Rightarrow> s | Inr s' \<Rightarrow> s')"

lemma commit_or_simps [simp]:
  "commit_or s (Inl e) = s"
  "commit_or s (Inr s') = s'"
  by (simp_all add: commit_or_def)

lemma commit_or_inv:
  "P s \<Longrightarrow> (\<And>s'. r = Inr s' \<Longrightarrow> P s') \<Longrightarrow> P (commit_or s r)"
  by (cases r) auto

text \<open>Rust's \<open>?\<close>: the first error ends the computation.\<close>

definition rbind :: "'e + 'a \<Rightarrow> ('a \<Rightarrow> 'e + 'b) \<Rightarrow> 'e + 'b" where
  "rbind r f = (case r of Inl e \<Rightarrow> Inl e | Inr x \<Rightarrow> f x)"

lemma rbind_simps [simp]:
  "rbind (Inl e) f = Inl e"
  "rbind (Inr x) f = f x"
  by (simp_all add: rbind_def)

lemma rbind_Inr_iff: "rbind r f = Inr y \<longleftrightarrow> (\<exists>x. r = Inr x \<and> f x = Inr y)"
  by (cases r) auto

lemma rbind_assoc: "rbind (rbind r f) g = rbind r (\<lambda>x. rbind (f x) g)"
  by (cases r) auto

definition require :: "bool \<Rightarrow> 'e \<Rightarrow> 'e + unit" where
  "require b e = (if b then Inr () else Inl e)"

lemma require_simps [simp]:
  "require True e = Inr ()"
  "require False e = Inl e"
  "(require b e = Inr u) = b"
  "(require b e = Inl e') = (\<not> b \<and> e = e')"
  by (auto simp: require_def)

definition ok_or :: "'a option \<Rightarrow> 'e \<Rightarrow> 'e + 'a" where
  "ok_or x e = (case x of None \<Rightarrow> Inl e | Some y \<Rightarrow> Inr y)"

lemma ok_or_simps [simp]:
  "ok_or None e = Inl e"
  "ok_or (Some x) e = Inr x"
  "(ok_or y e = Inr x) = (y = Some x)"
  by (auto simp: ok_or_def split: option.split)

text \<open>A computation that succeeds with \<open>s\<close> exactly under the condition \<open>P\<close>.\<close>

definition outcome :: "'e + 's \<Rightarrow> bool \<Rightarrow> 's \<Rightarrow> bool" where
  "outcome r P s \<longleftrightarrow> (if P then r = Inr s else (\<exists>e. r = Inl e))"

lemma outcome_Inr [simp]: "outcome (Inr s) True s"
  by (simp add: outcome_def)

lemma outcome_rbind:
  assumes "outcome r P s" and "P \<Longrightarrow> outcome (f s) Q s'"
  shows "outcome (rbind r f) (P \<and> Q) s'"
  using assms by (cases P) (auto simp: outcome_def)

lemma outcome_cong: "outcome r P s \<Longrightarrow> P = Q \<Longrightarrow> (P \<Longrightarrow> s = s') \<Longrightarrow> outcome r Q s'"
  by (auto simp: outcome_def)

section \<open>Big-endian bytes\<close>

fun be_bytes :: "nat \<Rightarrow> nat \<Rightarrow> byte list" where
  "be_bytes 0 n = []"
| "be_bytes (Suc k) n = of_nat (n div 256 ^ k) # be_bytes k n"

fun be_nat :: "byte list \<Rightarrow> nat" where
  "be_nat [] = 0"
| "be_nat (b # bs) = unat b * 256 ^ length bs + be_nat bs"

lemma length_be_bytes [simp]: "length (be_bytes k n) = k"
  by (induction k) auto

lemma unat_byte_bound: "unat (b :: byte) < 256"
  using unsigned_less [of b] by simp

lemma be_nat_bound: "be_nat bs < 256 ^ length bs"
proof (induction bs)
  case Nil
  then show ?case by simp
next
  case (Cons b bs)
  have "unat b * 256 ^ length bs + be_nat bs < unat b * 256 ^ length bs + 256 ^ length bs"
    using Cons by simp
  also have "\<dots> = (unat b + 1) * 256 ^ length bs" by simp
  also have "\<dots> \<le> 256 * 256 ^ length bs"
    using unat_byte_bound [of b] by (intro mult_right_mono) auto
  finally show ?case by simp
qed

lemma be_nat_be_bytes: "be_nat (be_bytes k n) = n mod 256 ^ k"
proof (induction k)
  case 0
  then show ?case by simp
next
  case (Suc k)
  have "be_nat (be_bytes (Suc k) n) = (n div 256 ^ k mod 256) * 256 ^ k + n mod 256 ^ k"
    using Suc by (simp add: unat_of_nat)
  also have "\<dots> = n mod (256 ^ k * 256)"
    by (simp add: mod_mult2_eq [of n "256 ^ k" 256] mult.commute [of "256 ^ k" "n div 256 ^ k mod 256"])
  finally show ?case by (simp add: mult.commute [of "256 ^ k" 256])
qed

lemma be_nat_be_bytes_small [simp]: "n < 256 ^ k \<Longrightarrow> be_nat (be_bytes k n) = n"
  by (simp add: be_nat_be_bytes)

lemma byte_of_nat_add_mult: "(of_nat (n + m * 256) :: byte) = of_nat n"
  by (simp add: word_unat_eq_iff unat_of_nat del: of_nat_add of_nat_mult)

lemma be_bytes_add_mult: "be_bytes k (n + m * 256 ^ k) = be_bytes k n"
proof (induction k arbitrary: m)
  case 0
  then show ?case by simp
next
  case (Suc k)
  have eq: "n + m * 256 ^ Suc k = n + (m * 256) * 256 ^ k" by simp
  have "(n + (m * 256) * 256 ^ k) div 256 ^ k = n div 256 ^ k + m * 256"
    by simp
  then show ?case
    unfolding eq by (simp only: be_bytes.simps byte_of_nat_add_mult Suc)
qed

lemma be_bytes_be_nat: "be_bytes (length bs) (be_nat bs) = bs"
proof (induction bs)
  case Nil
  then show ?case by simp
next
  case (Cons b bs)
  have "(unat b * 256 ^ length bs + be_nat bs) div 256 ^ length bs = unat b"
    using be_nat_bound [of bs] by simp
  moreover have "be_bytes (length bs) (unat b * 256 ^ length bs + be_nat bs) = bs"
    using be_bytes_add_mult [of "length bs" "be_nat bs" "unat b"] Cons by (simp add: add.commute)
  ultimately show ?case by simp
qed

lemma be_bytes_inj:
  "be_bytes k m = be_bytes k n \<Longrightarrow> m < 256 ^ k \<Longrightarrow> n < 256 ^ k \<Longrightarrow> m = n"
  by (metis be_nat_be_bytes_small)

section \<open>Text as Unicode scalar values\<close>

type_synonym ustring = "nat list"

definition utf8_width :: "nat \<Rightarrow> nat" where
  "utf8_width c = (if c < 128 then 1 else if c < 2048 then 2 else if c < 65536 then 3 else 4)"

definition utf8_len :: "ustring \<Rightarrow> nat" where
  "utf8_len s = sum_list (map utf8_width s)"

lemma utf8_width_bounds: "1 \<le> utf8_width c" "utf8_width c \<le> 4"
  by (simp_all add: utf8_width_def)

lemma utf8_len_simps [simp]:
  "utf8_len [] = 0"
  "utf8_len (c # s) = utf8_width c + utf8_len s"
  "utf8_len (s @ t) = utf8_len s + utf8_len t"
  by (simp_all add: utf8_len_def)

lemma utf8_len_0_iff [simp]: "utf8_len s = 0 \<longleftrightarrow> s = []"
  by (cases s) (auto simp: utf8_width_def)

lemma utf8_len_pos [simp]: "0 < utf8_len s \<longleftrightarrow> s \<noteq> []"
  using utf8_len_0_iff [of s] by (simp del: utf8_len_0_iff add: neq0_conv [symmetric])

lemma length_le_utf8_len: "length s \<le> utf8_len s"
proof (induction s)
  case (Cons c s)
  then show ?case using utf8_width_bounds(1) [of c] by simp
qed simp

text \<open>\<open>split_at\<close> of \<open>floor_char_boundary\<close>: the longest prefix of at most \<open>n\<close> bytes.\<close>

fun take_bytes :: "nat \<Rightarrow> ustring \<Rightarrow> ustring \<times> ustring" where
  "take_bytes n [] = ([], [])"
| "take_bytes n (c # s) =
     (if utf8_width c \<le> n
      then (let (a, b) = take_bytes (n - utf8_width c) s in (c # a, b))
      else ([], c # s))"

lemma take_bytes_append: "fst (take_bytes n s) @ snd (take_bytes n s) = s"
  by (induction n s rule: take_bytes.induct) (auto split: prod.splits)

lemma take_bytes_bound: "utf8_len (fst (take_bytes n s)) \<le> n"
proof (induction n s rule: take_bytes.induct)
  case (2 n c s)
  then show ?case by (cases "utf8_width c \<le> n") (auto split: prod.splits)
qed simp

lemma take_bytes_progress: "4 \<le> n \<Longrightarrow> s \<noteq> [] \<Longrightarrow> fst (take_bytes n s) \<noteq> []"
  using utf8_width_bounds(2) [of "hd s"] by (cases s) (auto split: prod.splits)

lemma take_bytes_shorter: "4 \<le> n \<Longrightarrow> s \<noteq> [] \<Longrightarrow> length (snd (take_bytes n s)) < length s"
  using take_bytes_append [of n s] take_bytes_progress [of n s]
  by (metis length_append length_greater_0_conv less_add_same_cancel2)

text \<open>ASCII literals as text, \<open>char::is_control\<close> (general category Cc) and \<open>char::is_whitespace\<close>.\<close>

definition ucs :: "string \<Rightarrow> ustring" where
  "ucs s = map of_char s"

definition is_control :: "nat \<Rightarrow> bool" where
  "is_control c \<longleftrightarrow> c < 32 \<or> (127 \<le> c \<and> c < 160)"

definition is_whitespace :: "nat \<Rightarrow> bool" where
  "is_whitespace c \<longleftrightarrow> (9 \<le> c \<and> c \<le> 13) \<or> (8192 \<le> c \<and> c \<le> 8202) \<or>
     c \<in> {32, 133, 160, 5760, 8232, 8233, 8239, 8287, 12288}"

definition trim :: "ustring \<Rightarrow> ustring" where
  "trim s = rev (dropWhile is_whitespace (rev (dropWhile is_whitespace s)))"

definition join_with :: "nat \<Rightarrow> ustring list \<Rightarrow> ustring" where
  "join_with c ls = (case ls of [] \<Rightarrow> [] | l # rest \<Rightarrow> l @ concat (map ((#) c) rest))"

lemma dropWhile_eq_self: "dropWhile P xs = xs \<longleftrightarrow> xs = [] \<or> \<not> P (hd xs)"
proof (cases xs)
  case (Cons x ys)
  have "length (dropWhile P ys) \<le> length ys" by (simp add: length_dropWhile_le)
  then have "dropWhile P ys \<noteq> x # ys" by (metis impossible_Cons)
  then show ?thesis using Cons by simp
qed simp

lemma trim_eq_self: "trim s = s \<longleftrightarrow> s = [] \<or> \<not> is_whitespace (hd s) \<and> \<not> is_whitespace (last s)"
proof
  assume t: "trim s = s"
  have "length (trim s) \<le> length (dropWhile is_whitespace s)" unfolding trim_def by (metis length_dropWhile_le length_rev)
  moreover have "length (dropWhile is_whitespace s) \<le> length s" by (rule length_dropWhile_le)
  ultimately have "length (dropWhile is_whitespace s) = length s" using t by simp
  then have "takeWhile is_whitespace s = []"
    by (metis add_cancel_left_left length_0_conv length_append takeWhile_dropWhile_id)
  then have d: "dropWhile is_whitespace s = s" using takeWhile_dropWhile_id [of is_whitespace s] by simp
  then have "dropWhile is_whitespace (rev s) = rev s" using t unfolding trim_def by (metis rev_rev_ident)
  then show "s = [] \<or> \<not> is_whitespace (hd s) \<and> \<not> is_whitespace (last s)"
    using d by (auto simp: dropWhile_eq_self hd_rev)
next
  assume "s = [] \<or> \<not> is_whitespace (hd s) \<and> \<not> is_whitespace (last s)"
  then have "dropWhile is_whitespace s = s" "dropWhile is_whitespace (rev s) = rev s"
    by (auto simp: dropWhile_eq_self hd_rev)
  then show "trim s = s" by (simp add: trim_def)
qed

lemma is_control_simps [simp]: "\<not> is_control 32" "is_control 10"
  by (simp_all add: is_control_def)

section \<open>List facts\<close>

lemma find_append: "find P (xs @ ys) = (case find P xs of Some x \<Rightarrow> Some x | None \<Rightarrow> find P ys)"
  by (induction xs) simp_all

lemma sum_list_le_member: "x \<in> set xs \<Longrightarrow> x \<le> sum_list (xs :: nat list)"
  by (rule member_le_sum_list) auto

lemma sum_list_map_mono_filter:
  "sum_list (map f (filter P xs)) \<le> sum_list (map (f :: 'a \<Rightarrow> nat) xs)"
  by (induction xs) auto

section \<open>Interfaces\<close>

text \<open>
  An encoder with a partial decoder. \<open>dec_enc\<close> is the round trip; \<open>enc_dec\<close> says that
  the decoder accepts only the canonical spelling of a value.
\<close>

locale codec =
  fixes enc :: "'a \<Rightarrow> 'b list"
    and dec :: "'b list \<Rightarrow> 'a option"
    and ok :: "'a \<Rightarrow> bool"
  assumes dec_enc: "ok x \<Longrightarrow> dec (enc x) = Some x"
    and enc_dec: "dec bs = Some x \<Longrightarrow> ok x \<and> enc x = bs"
begin

lemma enc_inj: "ok x \<Longrightarrow> ok y \<Longrightarrow> enc x = enc y \<Longrightarrow> x = y"
  by (metis dec_enc option.inject)

lemma dec_Some_iff: "dec bs = Some x \<longleftrightarrow> ok x \<and> bs = enc x"
  using dec_enc enc_dec by blast

lemma dec_unique: "dec bs = Some x \<Longrightarrow> dec cs = Some x \<Longrightarrow> bs = cs"
  using enc_dec by blast

lemma dec_None_iff: "dec bs = None \<longleftrightarrow> (\<forall>x. ok x \<longrightarrow> enc x \<noteq> bs)"
  by (metis dec_Some_iff not_None_eq)

end

text \<open>Operations (with their arguments as one value of type \<open>'o\<close>) that keep an invariant.\<close>

locale machine =
  fixes step :: "'s \<Rightarrow> 'o \<Rightarrow> 's"
    and inv :: "'s \<Rightarrow> bool"
  assumes step_inv: "inv s \<Longrightarrow> inv (step s a)"
begin

lemma run_inv: "inv s \<Longrightarrow> inv (foldl step s as)"
  by (induction as arbitrary: s) (auto intro: step_inv)

end

text \<open>A machine whose operations never move a measure (a cursor, a position) backwards.\<close>

locale measured_machine = machine +
  fixes measured :: "'s \<Rightarrow> 'm :: preorder"
  assumes step_mono: "inv s \<Longrightarrow> measured s \<le> measured (step s a)"
begin

lemma run_mono: "inv s \<Longrightarrow> measured s \<le> measured (foldl step s as)"
proof (induction as arbitrary: s)
  case Nil
  then show ?case by simp
next
  case (Cons a as)
  from Cons.prems have "measured s \<le> measured (step s a)" by (rule step_mono)
  also have "\<dots> \<le> measured (foldl step (step s a) as)"
    using Cons.prems by (intro Cons.IH step_inv)
  finally show ?case by simp
qed

end

end
