(* ===== verification/Jet_Codec.thy ===== *)
theory Jet_Codec
  imports Jet_Prelude
begin

text \<open>
  The two scalar encodings of the wire, \<open>jet-protocol/src/transport/decimal.rs\<close> and
  \<open>hex.rs\<close>: sequences and revisions as canonical decimal strings, keys and digests as
  lowercase hexadecimal of a fixed width. Text is its UTF-8 bytes; \<open>fmt_decimal\<close>,
  \<open>parse_u64\<close> and \<open>fmt_hex_byte\<close> are the standard library's \<open>Display\<close>, \<open>FromStr\<close> and
  \<open>{:02x}\<close>. Both encodings are interpreted as \<open>codec\<close>s: every value has exactly one
  accepted spelling.
\<close>

section \<open>Decimal\<close>

function fmt_decimal :: "nat \<Rightarrow> byte list" where
  "fmt_decimal n =
     (if n < 10 then [of_nat (48 + n)] else fmt_decimal (n div 10) @ [of_nat (48 + n mod 10)])"
  by pat_completeness auto
termination
  by (relation "measure id") auto

declare fmt_decimal.simps [simp del]

definition is_ascii_digit :: "byte \<Rightarrow> bool" where
  "is_ascii_digit b \<longleftrightarrow> 48 \<le> unat b \<and> unat b \<le> 57"

definition digit_value :: "byte \<Rightarrow> nat" where
  "digit_value b = unat b - 48"

definition decimal_value :: "byte list \<Rightarrow> nat" where
  "decimal_value str = foldl (\<lambda>acc b. 10 * acc + digit_value b) 0 str"

definition parse_u64 :: "byte list \<Rightarrow> u64 option" where
  "parse_u64 str =
     (if decimal_value str < 2 ^ 64 then Some (of_nat (decimal_value str)) else None)"

definition decimal_serialize :: "u64 \<Rightarrow> byte list" where
  "decimal_serialize value = fmt_decimal (unat value)"

definition decimal_canonical :: "byte list \<Rightarrow> bool" where
  "decimal_canonical str \<longleftrightarrow>
     str \<noteq> [] \<and> list_all is_ascii_digit str \<and> (str = [48] \<or> hd str \<noteq> 48)"

definition decimal_parse :: "byte list \<Rightarrow> u64 option" where
  "decimal_parse str = (if decimal_canonical str then parse_u64 str else None)"

fun decimal_deserialize :: "byte list \<Rightarrow> unit + u64" where
  "decimal_deserialize str =
     (case decimal_parse str of Some v \<Rightarrow> Inr v | None \<Rightarrow> Inl ())"

fun optional_serialize :: "u64 option \<Rightarrow> byte list option" where
  "optional_serialize (Some v) = Some (decimal_serialize v)"
| "optional_serialize None = None"

fun optional_deserialize :: "byte list option \<Rightarrow> unit + u64 option" where
  "optional_deserialize None = Inr None"
| "optional_deserialize (Some str) =
     (case decimal_parse str of Some v \<Rightarrow> Inr (Some v) | None \<Rightarrow> Inl ())"

lemma unat_digit_byte: "n < 10 \<Longrightarrow> unat (of_nat (48 + n) :: byte) = 48 + n"
  by (simp add: unat_of_nat del: of_nat_add)

lemma digit_byte_digit [simp]: "n < 10 \<Longrightarrow> is_ascii_digit (of_nat (48 + n))"
  by (simp only: is_ascii_digit_def unat_digit_byte) simp

lemma digit_value_digit [simp]: "n < 10 \<Longrightarrow> digit_value (of_nat (48 + n)) = n"
  by (simp only: digit_value_def unat_digit_byte)

lemma digit_value_bound: "is_ascii_digit b \<Longrightarrow> digit_value b < 10"
  by (auto simp: is_ascii_digit_def digit_value_def)

lemma digit_byte_value: "is_ascii_digit b \<Longrightarrow> of_nat (48 + digit_value b) = b"
  by (simp add: is_ascii_digit_def digit_value_def word_unat_eq_iff unat_of_nat del: of_nat_add)

lemma decimal_value_simps [simp]:
  "decimal_value [] = 0"
  "decimal_value (str @ [b]) = 10 * decimal_value str + digit_value b"
  by (simp_all add: decimal_value_def)

lemma decimal_value_single [simp]: "decimal_value [b] = digit_value b"
  using decimal_value_simps(2) [of "[]" b] by simp

lemma digit_byte_eq_48: "n < 10 \<Longrightarrow> (of_nat (48 + n) :: byte) = 48 \<longleftrightarrow> n = 0"
  using unat_digit_byte [of n] by (auto simp: word_unat_eq_iff simp del: of_nat_add)

lemma fmt_decimal_props:
  "fmt_decimal n \<noteq> [] \<and> list_all is_ascii_digit (fmt_decimal n) \<and>
   decimal_value (fmt_decimal n) = n \<and> (0 < n \<longrightarrow> hd (fmt_decimal n) \<noteq> 48)"
proof (induction n rule: fmt_decimal.induct)
  case (1 n)
  show ?case
  proof (cases "n < 10")
    case True
    then show ?thesis
      by (simp add: fmt_decimal.simps [of n] digit_byte_eq_48 del: of_nat_add)
  next
    case False
    then have pos: "0 < n div 10" by simp
    from 1 [OF False] pos False show ?thesis
      by (simp add: fmt_decimal.simps [of n] del: of_nat_add)
  qed
qed

lemma decimal_value_pos:
  assumes "str \<noteq> []" and "list_all is_ascii_digit str" and "hd str \<noteq> 48"
  shows "0 < decimal_value str"
  using assms
proof (induction str rule: rev_induct)
  case (snoc b str)
  show ?case
  proof (cases "str = []")
    case True
    with snoc.prems show ?thesis
      by (auto simp: is_ascii_digit_def digit_value_def word_unat_eq_iff)
  next
    case False
    with snoc show ?thesis by simp
  qed
qed simp

lemma fmt_decimal_value: "decimal_canonical str \<Longrightarrow> fmt_decimal (decimal_value str) = str"
proof (induction str rule: rev_induct)
  case Nil
  then show ?case by (simp add: decimal_canonical_def)
next
  case (snoc b str)
  then have digits: "list_all is_ascii_digit str" "is_ascii_digit b"
    by (simp_all add: decimal_canonical_def)
  note b = digit_value_bound [OF digits(2)] digit_byte_value [OF digits(2)]
  show ?case
  proof (cases "str = []")
    case True
    with b show ?thesis by (simp add: fmt_decimal.simps [of "digit_value b"] del: of_nat_add)
  next
    case False
    with snoc.prems have hd: "hd str \<noteq> 48" by (simp add: decimal_canonical_def)
    then have "fmt_decimal (decimal_value str) = str"
      using False digits by (intro snoc.IH) (simp add: decimal_canonical_def)
    moreover have "0 < decimal_value str"
      using False digits(1) hd by (rule decimal_value_pos)
    ultimately show ?thesis
      using b by (subst fmt_decimal.simps) (simp del: of_nat_add)
  qed
qed

lemma decimal_serialize_canonical: "decimal_canonical (decimal_serialize v)"
proof (cases "unat v = 0")
  case True
  then show ?thesis
    by (simp add: decimal_canonical_def decimal_serialize_def fmt_decimal.simps is_ascii_digit_def)
next
  case False
  then show ?thesis
    using fmt_decimal_props [of "unat v"] by (simp add: decimal_canonical_def decimal_serialize_def)
qed

lemma decimal_parse_serialize: "decimal_parse (decimal_serialize v) = Some v"
  using decimal_serialize_canonical [of v] fmt_decimal_props [of "unat v"] unat_u64_bound [of v]
  by (simp add: decimal_parse_def decimal_serialize_def parse_u64_def)

lemma decimal_serialize_parse:
  assumes "decimal_parse str = Some v"
  shows "decimal_serialize v = str"
proof -
  from assms have "decimal_canonical str" "decimal_value str < 2 ^ 64" "v = of_nat (decimal_value str)"
    by (auto simp: decimal_parse_def parse_u64_def split: if_splits)
  then show ?thesis by (simp add: decimal_serialize_def unat_of_nat_u64 fmt_decimal_value)
qed

interpretation decimal: codec decimal_serialize decimal_parse "\<lambda>_. True"
  by unfold_locales (simp_all add: decimal_parse_serialize decimal_serialize_parse)

section \<open>Hexadecimal\<close>

definition hex_digit :: "nat \<Rightarrow> byte" where
  "hex_digit n = (if n < 10 then of_nat (48 + n) else of_nat (87 + n))"

definition fmt_hex_byte :: "byte \<Rightarrow> byte list" where
  "fmt_hex_byte b = [hex_digit (unat b div 16), hex_digit (unat b mod 16)]"

definition hex_serialize :: "byte list \<Rightarrow> byte list" where
  "hex_serialize bytes = concat (map fmt_hex_byte bytes)"

definition nibble :: "byte \<Rightarrow> nat option" where
  "nibble c =
     (if 48 \<le> unat c \<and> unat c \<le> 57 then Some (unat c - 48)
      else if 97 \<le> unat c \<and> unat c \<le> 102 then Some (unat c - 97 + 10)
      else None)"

fun hex_pairs :: "byte list \<Rightarrow> byte list option" where
  "hex_pairs [] = Some []"
| "hex_pairs [c] = None"
| "hex_pairs (c # d # rest) =
     (case (nibble c, nibble d) of
        (Some high, Some low) \<Rightarrow>
          (case hex_pairs rest of None \<Rightarrow> None | Some bs \<Rightarrow> Some (of_nat (high * 16 + low) # bs))
      | _ \<Rightarrow> None)"

definition hex_deserialize :: "nat \<Rightarrow> byte list \<Rightarrow> byte list option" where
  "hex_deserialize N str = (if length str \<noteq> N * 2 then None else hex_pairs str)"

lemma unat_hex_digit: "n < 16 \<Longrightarrow> unat (hex_digit n) = (if n < 10 then 48 + n else 87 + n)"
  by (simp add: hex_digit_def unat_of_nat del: of_nat_add)

lemma nibble_hex_digit [simp]: "n < 16 \<Longrightarrow> nibble (hex_digit n) = Some n"
  by (auto simp: nibble_def unat_hex_digit)

lemma nibble_Some: "nibble c = Some n \<Longrightarrow> n < 16 \<and> hex_digit n = c"
  by (auto simp: nibble_def hex_digit_def word_unat_eq_iff unat_of_nat simp del: of_nat_add
      split: if_splits)

lemma hex_pairs_byte:
  "hex_pairs (fmt_hex_byte b @ rest) = map_option (\<lambda>bs. b # bs) (hex_pairs rest)"
proof -
  have "unat b div 16 < 16" "unat b mod 16 < 16" using unat_byte_bound [of b] by auto
  moreover have "of_nat (unat b div 16 * 16 + unat b mod 16) = b" by simp
  ultimately show ?thesis
    by (simp add: fmt_hex_byte_def del: of_nat_add of_nat_mult split: option.splits)
qed

lemma hex_pairs_serialize: "hex_pairs (hex_serialize bytes) = Some bytes"
  by (induction bytes) (simp_all add: hex_serialize_def hex_pairs_byte)

lemma hex_serialize_pairs: "hex_pairs str = Some bytes \<Longrightarrow> hex_serialize bytes = str"
proof (induction str arbitrary: bytes rule: hex_pairs.induct)
  case (3 c d rest)
  then obtain h l bs where n: "nibble c = Some h" "nibble d = Some l"
    and rest: "hex_pairs rest = Some bs" and bytes: "bytes = of_nat (h * 16 + l) # bs"
    by (auto split: option.splits)
  have hl: "h < 16" "l < 16" "hex_digit h = c" "hex_digit l = d"
    using n [THEN nibble_Some] by auto
  then have "unat (of_nat (h * 16 + l) :: byte) = h * 16 + l"
    by (simp add: unat_of_nat del: of_nat_add of_nat_mult)
  then have "fmt_hex_byte (of_nat (h * 16 + l)) = [c, d]"
    using hl by (simp add: fmt_hex_byte_def del: of_nat_add of_nat_mult)
  then show ?case using 3 n rest bytes by (simp add: hex_serialize_def del: of_nat_add of_nat_mult)
qed (simp_all add: hex_serialize_def)

lemma length_hex_serialize [simp]: "length (hex_serialize bytes) = length bytes * 2"
  by (induction bytes) (simp_all add: hex_serialize_def fmt_hex_byte_def)

interpretation hex: codec hex_serialize "hex_deserialize N" "\<lambda>bytes. length bytes = N" for N
proof unfold_locales
  show "length bytes = N \<Longrightarrow> hex_deserialize N (hex_serialize bytes) = Some bytes" for bytes
    by (simp add: hex_deserialize_def hex_pairs_serialize)
next
  show "hex_deserialize N str = Some bytes \<Longrightarrow> length bytes = N \<and> hex_serialize bytes = str"
    for str bytes
    using length_hex_serialize [of bytes]
    by (auto simp: hex_deserialize_def dest: hex_serialize_pairs split: if_splits)
qed

section \<open>Properties\<close>

text \<open>
  Decimal strings round-trip for every 64-bit value, and a string is accepted only when it
  is the one canonical spelling of the value it yields, for required and optional fields alike.
\<close>
lemma decimal_codec:
  "decimal_deserialize (decimal_serialize v) = Inr v \<and>
   (decimal_deserialize str = Inr u \<longleftrightarrow> str = decimal_serialize u) \<and>
   (optional_deserialize ostr = Inr ov \<longleftrightarrow> ostr = optional_serialize ov)"
proof (intro conjI)
  show "decimal_deserialize (decimal_serialize v) = Inr v"
    by (simp add: decimal_parse_serialize)
  show "decimal_deserialize str = Inr u \<longleftrightarrow> str = decimal_serialize u" for str u
    using decimal.dec_Some_iff [of str u] by (auto split: option.splits)
  show "optional_deserialize ostr = Inr ov \<longleftrightarrow> ostr = optional_serialize ov"
    using decimal.dec_Some_iff decimal.dec_None_iff decimal.enc_inj
    by (cases ostr; cases ov) (auto split: option.splits)
qed

text \<open>
  The fixed-width hexadecimal codec accepts exactly one spelling of every byte string of its
  width and nothing else (no other length, no uppercase digit, no sign).
\<close>
lemma hex_codec:
  "hex_deserialize N str = Some bytes \<longleftrightarrow> length bytes = N \<and> str = hex_serialize bytes"
  by (rule hex.dec_Some_iff)

end
