(* ===== verification/Jet_Frame.thy ===== *)
theory Jet_Frame
  imports Jet_Prelude
begin

text \<open>
  Length-prefixed frames, \<open>jet-protocol/src/transport/frame.rs\<close>.

  A reader is the list of bytes its peer sent before closing; \<open>read_exact\<close> fails on it
  exactly as Tokio's does at the end of the stream. A writer carries its limits and the
  envelope mode; the transport below it is the parameter \<open>sink\<close>, which says whether
  \<open>write_all\<close> and \<open>flush\<close> of a buffer succeed. The theory shows that writer and reader
  invert each other, that the reader accepts nothing a writer could not have produced,
  and that what it refuses is decided by the header alone.
\<close>

section \<open>Data\<close>

definition MAX_CONTROL_FRAME :: nat where
  "MAX_CONTROL_FRAME = 1024 * 1024"

definition MAX_DATA_FRAME :: nat where
  "MAX_DATA_FRAME = 256 * 1024"

definition LEGACY_HEADER_LEN :: nat where
  "LEGACY_HEADER_LEN = 5"

definition STREAM_HEADER_LEN :: nat where
  "STREAM_HEADER_LEN = 9"

lemmas frame_consts = MAX_CONTROL_FRAME_def MAX_DATA_FRAME_def LEGACY_HEADER_LEN_def
  STREAM_HEADER_LEN_def

datatype stream_id = StreamId (stream_id_get: u32)

definition stream_id_new :: "u32 \<Rightarrow> stream_id option" where
  "stream_id_new value = (if value = 0 then None else Some (StreamId value))"

definition is_connection :: "stream_id \<Rightarrow> bool" where
  "is_connection sid \<longleftrightarrow> stream_id_get sid = 0"

definition CONNECTION_STREAM :: stream_id where
  "CONNECTION_STREAM = StreamId 0"

datatype frame_kind = KControl | KData

fun kind_byte :: "frame_kind \<Rightarrow> byte" where
  "kind_byte KControl = 0"
| "kind_byte KData = 1"

definition kind_from_byte :: "byte \<Rightarrow> frame_kind option" where
  "kind_from_byte b = (if b = 0 then Some KControl else if b = 1 then Some KData else None)"

fun kind_limit :: "frame_kind \<Rightarrow> nat" where
  "kind_limit KControl = MAX_CONTROL_FRAME"
| "kind_limit KData = MAX_DATA_FRAME"

record frame_limits =
  control_limit :: nat
  data_limit :: nat

definition default_limits :: frame_limits where
  "default_limits = \<lparr>control_limit = MAX_CONTROL_FRAME, data_limit = MAX_DATA_FRAME\<rparr>"

definition limits_negotiate :: "frame_limits \<Rightarrow> frame_limits \<Rightarrow> frame_limits" where
  "limits_negotiate self other =
     \<lparr>control_limit = min (control_limit self) (control_limit other),
      data_limit = min (data_limit self) (data_limit other)\<rparr>"

fun limits_for_kind :: "frame_limits \<Rightarrow> frame_kind \<Rightarrow> nat" where
  "limits_for_kind l KControl = control_limit l"
| "limits_for_kind l KData = data_limit l"

datatype frame =
    Control stream_id "byte list"
  | Data stream_id "byte list"

fun frame_stream_id :: "frame \<Rightarrow> stream_id" where
  "frame_stream_id (Control sid payload) = sid"
| "frame_stream_id (Data sid payload) = sid"

fun frame_kind_of :: "frame \<Rightarrow> frame_kind" where
  "frame_kind_of (Control sid payload) = KControl"
| "frame_kind_of (Data sid payload) = KData"

fun frame_payload :: "frame \<Rightarrow> byte list" where
  "frame_payload (Control sid payload) = payload"
| "frame_payload (Data sid payload) = payload"

datatype frame_error =
    Oversized frame_kind nat nat
  | UnknownKind byte
  | InvalidStream frame_kind stream_id
  | MultiplexingDisabled stream_id
  | Closed
  | Io

section \<open>The reader\<close>

definition read_exact :: "nat \<Rightarrow> byte list \<Rightarrow> (byte list \<times> byte list) option" where
  "read_exact n input = (if n \<le> length input then Some (take n input, drop n input) else None)"

definition read_envelope ::
    "bool \<Rightarrow> byte list \<Rightarrow> (stream_id \<times> nat \<times> byte list) option" where
  "read_envelope multiplexed input =
     (if multiplexed then
        (case read_exact (STREAM_HEADER_LEN - 1) input of
           None \<Rightarrow> None
         | Some (envelope, rest) \<Rightarrow>
             Some (StreamId (of_nat (be_nat (take 4 envelope))), be_nat (drop 4 envelope), rest))
      else
        (case read_exact (LEGACY_HEADER_LEN - 1) input of
           None \<Rightarrow> None
         | Some (len, rest) \<Rightarrow> Some (CONNECTION_STREAM, be_nat len, rest)))"

definition make_frame :: "frame_kind \<Rightarrow> stream_id \<Rightarrow> byte list \<Rightarrow> frame" where
  "make_frame kind sid payload =
     (case kind of KControl \<Rightarrow> Control sid payload | KData \<Rightarrow> Data sid payload)"

definition frame_read :: "bool \<Rightarrow> byte list \<Rightarrow> frame_error + (frame \<times> byte list)" where
  "frame_read multiplexed input =
     (case read_exact 1 input of
        None \<Rightarrow> Inl Closed
      | Some (kb, rest) \<Rightarrow>
          (case kind_from_byte (hd kb) of
             None \<Rightarrow> Inl (UnknownKind (hd kb))
           | Some kind \<Rightarrow>
               (case read_envelope multiplexed rest of
                  None \<Rightarrow> Inl Io
                | Some (sid, declared, rest) \<Rightarrow>
                    if multiplexed \<and> kind = KData \<and> is_connection sid
                    then Inl (InvalidStream kind sid)
                    else if declared > kind_limit kind
                    then Inl (Oversized kind declared (kind_limit kind))
                    else
                      (case read_exact declared rest of
                         None \<Rightarrow> Inl Io
                       | Some (payload, rest) \<Rightarrow> Inr (make_frame kind sid payload, rest)))))"

section \<open>The writer\<close>

record frame_writer =
  writer_limits :: frame_limits
  writer_multiplexed :: bool

definition writer_new :: frame_writer where
  "writer_new = \<lparr>writer_limits = default_limits, writer_multiplexed = False\<rparr>"

definition set_limits :: "frame_writer \<Rightarrow> frame_limits \<Rightarrow> frame_writer" where
  "set_limits w l = w\<lparr>writer_limits := l\<rparr>"

definition enable_multiplexing :: "frame_writer \<Rightarrow> frame_writer" where
  "enable_multiplexing w = w\<lparr>writer_multiplexed := True\<rparr>"

definition frame_buffer :: "bool \<Rightarrow> frame \<Rightarrow> byte list" where
  "frame_buffer multiplexed f =
     [kind_byte (frame_kind_of f)] @
     (if multiplexed then be_bytes 4 (unat (stream_id_get (frame_stream_id f))) else []) @
     be_bytes 4 (length (frame_payload f)) @ frame_payload f"

definition frame_write ::
    "frame_writer \<Rightarrow> (byte list \<Rightarrow> bool) \<Rightarrow> frame \<Rightarrow> frame_error + byte list" where
  "frame_write w sink f =
     (let kind = frame_kind_of f;
          sid = frame_stream_id f;
          payload = frame_payload f;
          limit = limits_for_kind (writer_limits w) kind
      in if \<not> writer_multiplexed w \<and> \<not> is_connection sid
         then Inl (MultiplexingDisabled sid)
         else if writer_multiplexed w \<and> kind = KData \<and> is_connection sid
         then Inl (InvalidStream kind sid)
         else if length payload > limit
         then Inl (Oversized kind (length payload) limit)
         else if length payload \<ge> 2 ^ 32
         then Inl (Oversized kind (length payload) limit)
         else (let buffer = frame_buffer (writer_multiplexed w) f
               in if sink buffer then Inr buffer else Inl Io))"

text \<open>A receiving peer keeps reading frames until the stream ends or breaks.\<close>

function read_frames :: "bool \<Rightarrow> byte list \<Rightarrow> frame list \<times> frame_error" where
  "read_frames m input =
     (case frame_read m input of
        Inl e \<Rightarrow> ([], e)
      | Inr (f, rest) \<Rightarrow>
          if length rest < length input
          then (let (fs, e) = read_frames m rest in (f # fs, e))
          else ([f], Io))"
  by pat_completeness auto
termination
  by (relation "measure (\<lambda>(m, input). length input)") auto

declare read_frames.simps [simp del]

section \<open>Basic facts\<close>

lemma kind_from_byte_kind_byte [simp]: "kind_from_byte (kind_byte k) = Some k"
  by (cases k) (simp_all add: kind_from_byte_def)

lemma kind_from_byte_Some [simp]: "kind_from_byte b = Some k \<longleftrightarrow> b = kind_byte k"
  by (cases k) (auto simp: kind_from_byte_def)

lemma make_frame_sel [simp]:
  "frame_stream_id (make_frame k sid p) = sid"
  "frame_kind_of (make_frame k sid p) = k"
  "frame_payload (make_frame k sid p) = p"
  by (cases k; simp add: make_frame_def)+

lemma make_frame_eta [simp]:
  "make_frame (frame_kind_of f) (frame_stream_id f) (frame_payload f) = f"
  by (cases f) (simp_all add: make_frame_def)

lemma read_exact_append [simp]: "read_exact (length xs) (xs @ ys) = Some (xs, ys)"
  by (simp add: read_exact_def)

lemma read_exact_append_eq: "n = length xs \<Longrightarrow> read_exact n (xs @ ys) = Some (xs, ys)"
  by simp

lemma read_exact_Some:
  "read_exact n input = Some (xs, ys) \<longleftrightarrow> input = xs @ ys \<and> length xs = n"
  by (auto simp: read_exact_def split: if_splits)

lemma is_connection_iff: "is_connection sid \<longleftrightarrow> sid = CONNECTION_STREAM"
  by (cases sid) (simp add: is_connection_def CONNECTION_STREAM_def)

lemma stream_id_new_not_connection: "stream_id_new v = Some sid \<Longrightarrow> \<not> is_connection sid"
  by (auto simp: stream_id_new_def is_connection_def split: if_splits)

lemma kind_limit_u32: "kind_limit k < 256 ^ 4"
  by (cases k) (simp_all add: frame_consts)

lemma frame_buffer_nonempty [simp]: "frame_buffer m f \<noteq> []"
  by (simp add: frame_buffer_def)

lemma length_frame_buffer:
  "length (frame_buffer m f) = (if m then STREAM_HEADER_LEN else LEGACY_HEADER_LEN) + length (frame_payload f)"
  by (simp add: frame_buffer_def frame_consts)

text \<open>The frames that can cross a connection in each envelope mode.\<close>

definition frame_ok :: "bool \<Rightarrow> frame \<Rightarrow> bool" where
  "frame_ok m f \<longleftrightarrow>
     (if m then frame_kind_of f = KData \<longrightarrow> \<not> is_connection (frame_stream_id f)
      else is_connection (frame_stream_id f)) \<and>
     length (frame_payload f) \<le> kind_limit (frame_kind_of f)"

definition limits_ok :: "frame_limits \<Rightarrow> bool" where
  "limits_ok l \<longleftrightarrow> (\<forall>k. limits_for_kind l k \<le> kind_limit k)"

lemma default_limits_ok: "limits_ok default_limits"
  unfolding limits_ok_def
proof
  fix k show "limits_for_kind default_limits k \<le> kind_limit k"
    by (cases k) (simp_all add: default_limits_def)
qed

lemma negotiate_for_kind:
  "limits_for_kind (limits_negotiate a b) k = min (limits_for_kind a k) (limits_for_kind b k)"
  by (cases k) (simp_all add: limits_negotiate_def)

lemma negotiate_limits_ok: "limits_ok a \<Longrightarrow> limits_ok (limits_negotiate a b)"
  by (auto simp: limits_ok_def negotiate_for_kind min.coboundedI1)

section \<open>Reading what was written, and only that\<close>

lemma read_envelope_buffer:
  assumes "m \<or> is_connection sid" and "n < 256 ^ 4"
  shows "read_envelope m
      ((if m then be_bytes 4 (unat (stream_id_get sid)) else []) @ be_bytes 4 n @ rest)
    = Some (sid, n, rest)"
proof (cases m)
  case True
  let ?id = "be_bytes 4 (unat (stream_id_get sid))"
  have "unat (stream_id_get sid) < 256 ^ 4"
    using unsigned_less [of "stream_id_get sid"] by simp
  then have id: "be_nat ?id = unat (stream_id_get sid)" by simp
  have "read_exact 8 ((?id @ be_bytes 4 n) @ rest) = Some (?id @ be_bytes 4 n, rest)"
    by (rule read_exact_append_eq) simp
  then show ?thesis
    using True assms(2) by (simp add: read_envelope_def frame_consts id)
next
  case False
  have "read_exact 4 (be_bytes 4 n @ rest) = Some (be_bytes 4 n, rest)"
    by (rule read_exact_append_eq) simp
  then show ?thesis
    using False assms by (simp add: read_envelope_def frame_consts is_connection_iff)
qed

lemma frame_read_buffer:
  assumes "frame_ok m f"
  shows "frame_read m (frame_buffer m f @ rest) = Inr (f, rest)"
proof -
  let ?k = "frame_kind_of f" and ?p = "frame_payload f" and ?s = "frame_stream_id f"
  have kb: "read_exact 1 ([kind_byte ?k] @ xs) = Some ([kind_byte ?k], xs)" for xs
    by (rule read_exact_append_eq) simp
  have "read_envelope m
      ((if m then be_bytes 4 (unat (stream_id_get ?s)) else []) @ be_bytes 4 (length ?p) @ ?p @ rest)
    = Some (?s, length ?p, ?p @ rest)"
    using assms kind_limit_u32 [of ?k]
    by (intro read_envelope_buffer) (auto simp: frame_ok_def split: if_splits)
  then show ?thesis
    using assms
    by (simp add: frame_read_def frame_buffer_def kb [simplified] frame_ok_def split: if_splits)
qed

lemma read_envelope_inv:
  assumes "read_envelope m input = Some (sid, n, rest)"
  shows "input = (if m then be_bytes 4 (unat (stream_id_get sid)) else []) @ be_bytes 4 n @ rest"
    and "m \<or> is_connection sid"
proof -
  show "input = (if m then be_bytes 4 (unat (stream_id_get sid)) else []) @ be_bytes 4 n @ rest"
  proof (cases m)
    case True
    with assms obtain env where input: "input = env @ rest" and len: "length env = 8"
      and sid: "sid = StreamId (of_nat (be_nat (take 4 env)))" and n: "n = be_nat (drop 4 env)"
      by (auto simp: read_envelope_def frame_consts read_exact_Some split: option.splits)
    have l4: "length (take 4 env) = 4" "length (drop 4 env) = 4" using len by auto
    have "be_nat (take 4 env) < 2 ^ 32" using be_nat_bound [of "take 4 env"] l4 by simp
    then have "be_bytes 4 (unat (stream_id_get sid)) = take 4 env"
      using be_bytes_be_nat [of "take 4 env"] l4 sid by (simp add: unat_of_nat_u32)
    moreover have "be_bytes 4 n = drop 4 env"
      using be_bytes_be_nat [of "drop 4 env"] l4 n by simp
    ultimately have "be_bytes 4 (unat (stream_id_get sid)) @ be_bytes 4 n = env"
      by (simp only: append_take_drop_id)
    then show ?thesis using True input by (metis append_assoc)
  next
    case False
    with assms obtain len where "input = len @ rest" "length len = 4" "n = be_nat len"
      by (auto simp: read_envelope_def frame_consts read_exact_Some split: option.splits)
    with False show ?thesis using be_bytes_be_nat [of len] by simp
  qed
  show "m \<or> is_connection sid"
    using assms by (auto simp: read_envelope_def is_connection_iff split: if_splits option.splits)
qed

lemma frame_read_inv:
  assumes "frame_read m input = Inr (f, rest)"
  shows "input = frame_buffer m f @ rest" and "frame_ok m f"
proof -
  from assms obtain kb rest1 kind sid n rest2 payload
    where kb: "read_exact 1 input = Some (kb, rest1)"
      and kind: "kind_from_byte (hd kb) = Some kind"
      and env: "read_envelope m rest1 = Some (sid, n, rest2)"
      and stream: "\<not> (m \<and> kind = KData \<and> is_connection sid)"
      and n: "n \<le> kind_limit kind"
      and pay: "read_exact n rest2 = Some (payload, rest)"
      and f: "f = make_frame kind sid payload"
    by (auto simp: frame_read_def not_less split: option.splits prod.splits if_splits)
  have kb': "kb = [kind_byte kind]" "input = kb @ rest1"
    using kb kind by (auto simp: read_exact_Some length_Suc_conv)
  have pay': "rest2 = payload @ rest" "length payload = n"
    using pay by (simp_all add: read_exact_Some)
  show "input = frame_buffer m f @ rest"
    using kb' pay' read_envelope_inv(1) [OF env] f by (auto simp: frame_buffer_def)
  show "frame_ok m f"
    using stream n f pay' read_envelope_inv(2) [OF env] by (auto simp: frame_ok_def)
qed

lemma frame_read_Inr_iff:
  "frame_read m input = Inr (f, rest) \<longleftrightarrow> frame_ok m f \<and> input = frame_buffer m f @ rest"
  using frame_read_buffer frame_read_inv by blast

lemma frame_write_Inr:
  assumes "frame_write w sink f = Inr bs" and "limits_ok (writer_limits w)"
  shows "bs = frame_buffer (writer_multiplexed w) f" and "frame_ok (writer_multiplexed w) f"
    and "sink bs"
proof -
  have lim: "limits_for_kind (writer_limits w) (frame_kind_of f) \<le> kind_limit (frame_kind_of f)"
    using assms(2) by (simp add: limits_ok_def)
  show "bs = frame_buffer (writer_multiplexed w) f" "sink bs"
    using assms(1) by (auto simp: frame_write_def Let_def split: if_splits)
  show "frame_ok (writer_multiplexed w) f"
    using assms(1) lim by (auto simp: frame_write_def Let_def frame_ok_def split: if_splits)
qed

text \<open>The frame envelope is a codec in both modes.\<close>

definition frame_decode :: "bool \<Rightarrow> byte list \<Rightarrow> frame option" where
  "frame_decode m input =
     (case frame_read m input of Inr (f, []) \<Rightarrow> Some f | _ \<Rightarrow> None)"

lemma frame_decode_Some: "frame_decode m input = Some f \<longleftrightarrow> frame_read m input = Inr (f, [])"
  by (auto simp: frame_decode_def split: sum.splits list.splits)

interpretation stream_envelope: codec "frame_buffer True" "frame_decode True" "frame_ok True"
  by unfold_locales
    (auto simp: frame_decode_Some frame_read_Inr_iff)

interpretation legacy_envelope: codec "frame_buffer False" "frame_decode False" "frame_ok False"
  by unfold_locales
    (auto simp: frame_decode_Some frame_read_Inr_iff)

lemma frame_read_empty [simp]: "frame_read m [] = Inl Closed"
  by (simp add: frame_read_def read_exact_def)

lemma read_frames_Cons:
  assumes "frame_ok m f"
  shows "read_frames m (frame_buffer m f @ rest) =
    (f # fst (read_frames m rest), snd (read_frames m rest))"
  by (subst read_frames.simps)
    (simp add: frame_read_buffer [OF assms] length_frame_buffer frame_consts split: prod.splits)

lemma read_frames_concat:
  "(\<And>f. f \<in> set fs \<Longrightarrow> frame_ok m f) \<Longrightarrow>
   read_frames m (concat (map (frame_buffer m) fs)) = (fs, Closed)"
proof (induction fs)
  case Nil
  then show ?case by (subst read_frames.simps) simp
next
  case (Cons f fs)
  then show ?case by (simp add: read_frames_Cons)
qed

lemma read_exact_mono:
  "read_exact n xs = Some (ys, zs) \<Longrightarrow> read_exact n (xs @ extra) = Some (ys, zs @ extra)"
  by (simp add: read_exact_Some)

lemma read_envelope_mono:
  assumes "read_envelope m xs = Some (s, n, zs)"
  shows "read_envelope m (xs @ extra) = Some (s, n, zs @ extra)"
proof (cases m)
  case True
  with assms obtain env where "read_exact (STREAM_HEADER_LEN - 1) xs = Some (env, zs)"
    and "s = StreamId (of_nat (be_nat (take 4 env)))" "n = be_nat (drop 4 env)"
    by (auto simp: read_envelope_def split: option.splits)
  with True show ?thesis by (simp add: read_envelope_def read_exact_mono)
next
  case False
  with assms obtain len where "read_exact (LEGACY_HEADER_LEN - 1) xs = Some (len, zs)"
    and "s = CONNECTION_STREAM" "n = be_nat len"
    by (auto simp: read_envelope_def split: option.splits)
  with False show ?thesis by (simp add: read_envelope_def read_exact_mono)
qed

lemma frame_read_header_decides:
  assumes "frame_read m input = Inl e" and "e \<noteq> Io" and "e \<noteq> Closed"
  shows "frame_read m (input @ extra) = Inl e"
proof -
  from assms obtain kb rest where kb: "read_exact (Suc 0) input = Some (kb, rest)"
    by (auto simp: frame_read_def split: option.splits)
  then have kb': "read_exact (Suc 0) (input @ extra) = Some (kb, rest @ extra)"
    by (rule read_exact_mono)
  show ?thesis
  proof (cases "kind_from_byte (hd kb)")
    case None
    with assms kb kb' show ?thesis by (simp add: frame_read_def)
  next
    case (Some kind)
    with assms kb obtain sid n rest2 where env: "read_envelope m rest = Some (sid, n, rest2)"
      by (auto simp: frame_read_def split: option.splits)
    note env' = read_envelope_mono [OF env, of extra]
    show ?thesis
      using Some assms kb kb' env env'
      by (auto simp: frame_read_def split: if_splits option.splits prod.splits)
  qed
qed

section \<open>Properties\<close>

text \<open>
  C18: Whatever a writer within the protocol's limits puts on the transport, a reader in the
  same envelope mode returns as the same frame, leaving the following bytes untouched.
\<close>
theorem frame_write_then_read:
  assumes "limits_ok (writer_limits w)" and "frame_write w sink f = Inr bs"
  shows "frame_read (writer_multiplexed w) (bs @ rest) = Inr (f, rest) \<and>
    length (frame_payload f) \<le> limits_for_kind (writer_limits w) (frame_kind_of f)"
  using frame_write_Inr [OF assms(2,1)] frame_read_buffer assms(2)
  by (auto simp: frame_write_def Let_def split: if_splits)

theorem frame_write_then_read_witness:
  "frame_read True (frame_buffer True (Control (StreamId 7) [1, 2]) @ [9]) =
     Inr (Control (StreamId 7) [1, 2], [9])"
proof -
  let ?w = "enable_multiplexing (set_limits writer_new
      (limits_negotiate default_limits \<lparr>control_limit = 64, data_limit = 64\<rparr>))"
  have ok: "limits_ok (writer_limits ?w)"
    by (simp add: enable_multiplexing_def set_limits_def negotiate_limits_ok default_limits_ok)
  have wr: "frame_write ?w (\<lambda>_. True) (Control (StreamId 7) [1, 2]) =
      Inr (frame_buffer True (Control (StreamId 7) [1, 2]))"
    by (simp add: frame_write_def enable_multiplexing_def set_limits_def writer_new_def
        limits_negotiate_def default_limits_def frame_consts)
  show ?thesis
    using frame_write_then_read [OF ok wr, of "[9]"] by (simp add: enable_multiplexing_def)
qed

text \<open>
  C39: A reader returns a frame exactly when its input starts with that frame's one canonical
  encoding and the frame obeys the protocol (payload within its kind's bound; Data never on
  the connection stream). A Byzantine peer can make the reader return nothing else.
\<close>
theorem frame_read_iff_canonical:
  "frame_read m input = Inr (f, rest) \<longleftrightarrow>
     input = frame_buffer m f @ rest \<and>
     length (frame_payload f) \<le> kind_limit (frame_kind_of f) \<and>
     \<not> (m \<and> frame_kind_of f = KData \<and> is_connection (frame_stream_id f)) \<and>
     (m \<or> is_connection (frame_stream_id f))"
  by (auto simp: frame_read_Inr_iff frame_ok_def split: if_splits)

text \<open>
  A refusal other than a broken or closed transport (unknown kind, Data on the connection
  stream, declared length over the bound) is decided by the header: no bytes that follow it
  change the verdict, so the reader never buffers a payload it is going to refuse.
\<close>
lemma frame_read_refusal_final:
  assumes "frame_read m input = Inl e" and "e \<noteq> Io" and "e \<noteq> Closed"
  shows "frame_read m (input @ extra) = Inl e"
  using assms by (rule frame_read_header_decides)

lemma frame_read_refusal_final_witness:
  "frame_read False ([1, 0, 4, 0, 1] @ [5, 6]) = Inl (Oversized KData 262145 262144)"
proof (rule frame_read_refusal_final)
  show "frame_read False [1, 0, 4, 0, 1] = Inl (Oversized KData 262145 262144)"
    by (simp add: frame_read_def read_exact_def read_envelope_def kind_from_byte_def
        frame_consts is_connection_iff)
qed simp_all

end
