(* ===== verification/Jet_Stream.thy ===== *)
theory Jet_Stream
  imports Jet_Frame "HOL-Library.AList"
begin

text \<open>
  Prioritised, credit-controlled stream scheduling: \<open>jet-protocol/src/transport/stream.rs\<close>,
  \<open>terminal_queue.rs\<close>, \<open>stream_control.rs\<close> and \<open>stream_error.rs\<close>.

  The state is the record \<open>outbound_queue\<close> with the fields of \<open>OutboundQueue\<close>; the
  registry of open streams (a \<open>HashMap\<close>) is an association list without duplicate keys.
  Every operation returns \<open>error + state\<close>; an error leaves the state as it was, as the
  early returns of the source do. The JSON encoder of the terminal-gap report
  (\<open>serde_json\<close>) is the parameter \<open>encode_gap\<close>, \<open>None\<close> standing for its failure.
  \<open>write_next\<close> runs against the frame writer of \<open>Jet_Frame\<close>.
\<close>

section \<open>Data\<close>

definition MAX_EVENT_WINDOW_EVENTS :: nat where
  "MAX_EVENT_WINDOW_EVENTS = 1000"

definition MAX_EVENT_WINDOW_BYTES :: nat where
  "MAX_EVENT_WINDOW_BYTES = 2 * 1024 * 1024"

definition MAX_CONTROL_QUEUE_BYTES :: nat where
  "MAX_CONTROL_QUEUE_BYTES = 2 * 1024 * 1024"

definition MAX_BINARY_QUEUE_BYTES :: nat where
  "MAX_BINARY_QUEUE_BYTES = 2 * 1024 * 1024"

definition MAX_OPEN_BINARY_STREAMS :: nat where
  "MAX_OPEN_BINARY_STREAMS = 256"

record outbound_limits =
  lim_control_bytes :: nat
  lim_event_count :: nat
  lim_event_bytes :: nat
  lim_binary_bytes :: nat
  lim_open_streams :: nat

definition default_outbound_limits :: outbound_limits where
  "default_outbound_limits =
     \<lparr>lim_control_bytes = MAX_CONTROL_QUEUE_BYTES,
      lim_event_count = MAX_EVENT_WINDOW_EVENTS,
      lim_event_bytes = MAX_EVENT_WINDOW_BYTES,
      lim_binary_bytes = MAX_BINARY_QUEUE_BYTES,
      lim_open_streams = MAX_OPEN_BINARY_STREAMS\<rparr>"

datatype binary_stream_kind = Terminal | Artifact

record binary_stream =
  bs_kind :: binary_stream_kind
  credit :: u64
  next_offset :: u64

record queued_event =
  cursor :: u64
  ev_frame :: frame

datatype data_queue_outcome =
    Queued
  | TerminalGap u64 u64

record outbound_queue =
  q_limits :: outbound_limits
  control :: "frame list"
  control_bytes :: nat
  events :: "queued_event list"
  event_bytes :: nat
  last_delivered_cursor :: u64
  last_queued_cursor :: u64
  event_awaiting_write :: "u64 option"
  binary :: "frame list"
  ordered :: "frame list"
  binary_bytes :: nat
  streams :: "(stream_id \<times> binary_stream) list"

datatype stream_queue_error =
    ExpectedControl
  | EmptyControl
  | EmptyData
  | ConnectionStream
  | DuplicateStream stream_id
  | TooManyStreams nat
  | UnknownStream stream_id
  | StreamBusy stream_id
  | CreditOverflow stream_id
  | InsufficientCredit stream_id u64 u64
  | OversizedData nat nat
  | Backpressured stream_id nat nat
  | ControlBackpressured nat
  | ControlEncoding
  | SlowConsumer u64
  | EventOutOfOrder u64 u64
  | OffsetOverflow stream_id

section \<open>Operations\<close>

definition queue_with_limits :: "u64 \<Rightarrow> outbound_limits \<Rightarrow> outbound_queue" where
  "queue_with_limits cur lims =
     \<lparr>q_limits = lims, control = [], control_bytes = 0, events = [], event_bytes = 0,
      last_delivered_cursor = cur, last_queued_cursor = cur, event_awaiting_write = None,
      binary = [], ordered = [], binary_bytes = 0, streams = []\<rparr>"

definition queue_new :: "u64 \<Rightarrow> outbound_queue" where
  "queue_new cur = queue_with_limits cur default_outbound_limits"

definition open_binary ::
    "stream_id \<Rightarrow> binary_stream_kind \<Rightarrow> outbound_queue \<Rightarrow> stream_queue_error + outbound_queue" where
  "open_binary sid kind q =
     (if is_connection sid then Inl ConnectionStream
      else if map_of (streams q) sid \<noteq> None then Inl (DuplicateStream sid)
      else if length (streams q) \<ge> lim_open_streams (q_limits q)
      then Inl (TooManyStreams (lim_open_streams (q_limits q)))
      else Inr (q\<lparr>streams :=
        (sid, \<lparr>bs_kind = kind, credit = 0, next_offset = 0\<rparr>) # streams q\<rparr>))"

definition close_binary :: "stream_id \<Rightarrow> outbound_queue \<Rightarrow> stream_queue_error + outbound_queue" where
  "close_binary sid q =
     (if map_of (streams q) sid = None then Inl (UnknownStream sid)
      else if list_ex (\<lambda>f. frame_stream_id f = sid) (binary q)
            \<or> list_ex (\<lambda>f. frame_stream_id f = sid) (control q)
            \<or> list_ex (\<lambda>e. frame_stream_id (ev_frame e) = sid) (events q)
      then Inl (StreamBusy sid)
      else Inr (q\<lparr>streams := AList.delete sid (streams q)\<rparr>))"

definition grant_credit ::
    "stream_id \<Rightarrow> u64 \<Rightarrow> outbound_queue \<Rightarrow> stream_queue_error + outbound_queue" where
  "grant_credit sid bytes q =
     (case map_of (streams q) sid of
        None \<Rightarrow> Inl (UnknownStream sid)
      | Some st \<Rightarrow>
          (case u64_checked_add (credit st) bytes of
             None \<Rightarrow> Inl (CreditOverflow sid)
           | Some c \<Rightarrow>
               Inr (q\<lparr>streams := AList.map_entry sid (\<lambda>st. st\<lparr>credit := c\<rparr>) (streams q)\<rparr>)))"

definition queue_control :: "frame \<Rightarrow> outbound_queue \<Rightarrow> stream_queue_error + outbound_queue" where
  "queue_control f q =
     (case f of
        Data _ _ \<Rightarrow> Inl ExpectedControl
      | Control _ payload \<Rightarrow>
          if payload = [] then Inl EmptyControl
          else
            (let next = usize_sat_add (control_bytes q) (length payload)
             in if length payload > MAX_CONTROL_FRAME \<or> next > lim_control_bytes (q_limits q)
                then Inl (ControlBackpressured (lim_control_bytes (q_limits q)))
                else Inr (q\<lparr>control_bytes := next, control := control q @ [f]\<rparr>)))"

definition queue_event ::
    "u64 \<Rightarrow> frame \<Rightarrow> outbound_queue \<Rightarrow> stream_queue_error + outbound_queue" where
  "queue_event cur f q =
     (case f of
        Data _ _ \<Rightarrow> Inl ExpectedControl
      | Control sid payload \<Rightarrow>
          if payload = [] then Inl EmptyControl
          else if is_connection sid then Inl ConnectionStream
          else if cur \<le> last_queued_cursor q
          then Inl (EventOutOfOrder (last_queued_cursor q) cur)
          else
            (let next_bytes = usize_sat_add (event_bytes q) (length payload)
             in if length payload > MAX_CONTROL_FRAME
                   \<or> length (events q) \<ge> lim_event_count (q_limits q)
                   \<or> next_bytes > lim_event_bytes (q_limits q)
                then Inl (SlowConsumer (last_delivered_cursor q))
                else Inr (q\<lparr>event_bytes := next_bytes, last_queued_cursor := cur,
                           events := events q @ [\<lparr>cursor = cur, ev_frame = f\<rparr>]\<rparr>)))"

definition queue_data ::
    "(u64 \<Rightarrow> u64 \<Rightarrow> byte list option) \<Rightarrow> stream_id \<Rightarrow> byte list \<Rightarrow> outbound_queue \<Rightarrow>
     stream_queue_error + (outbound_queue \<times> data_queue_outcome)" where
  "queue_data encode_gap sid payload q =
     (if length payload > MAX_DATA_FRAME
      then Inl (OversizedData (length payload) MAX_DATA_FRAME)
      else if payload = [] then Inl EmptyData
      else if length payload \<ge> 2 ^ 64 then Inl (OffsetOverflow sid)
      else
        (let requested = of_nat (length payload)
         in case map_of (streams q) sid of
              None \<Rightarrow> Inl (UnknownStream sid)
            | Some st \<Rightarrow>
                if requested > credit st
                then Inl (InsufficientCredit sid (credit st) requested)
                else
                  (case u64_checked_add (next_offset st) requested of
                     None \<Rightarrow> Inl (OffsetOverflow sid)
                   | Some next_off \<Rightarrow>
                       (let next_queued = usize_sat_add (binary_bytes q) (length payload)
                        in if next_queued > lim_binary_bytes (q_limits q)
                           then
                             (case bs_kind st of
                                Terminal \<Rightarrow>
                                  (case encode_gap (next_offset st) requested of
                                     None \<Rightarrow> Inl ControlEncoding
                                   | Some gap \<Rightarrow>
                                       (case queue_control (Control sid gap) q of
                                          Inl e \<Rightarrow> Inl e
                                        | Inr q' \<Rightarrow>
                                            Inr (q'\<lparr>streams := AList.map_entry sid
                                                   (\<lambda>st. st\<lparr>next_offset := next_off\<rparr>) (streams q')\<rparr>,
                                                 TerminalGap (next_offset st) requested)))
                              | Artifact \<Rightarrow>
                                  Inl (Backpressured sid (binary_bytes q)
                                         (lim_binary_bytes (q_limits q))))
                           else
                             Inr (q\<lparr>streams := AList.map_entry sid
                                      (\<lambda>st. st\<lparr>credit := credit st - requested,
                                               next_offset := next_off\<rparr>) (streams q),
                                    binary_bytes := next_queued,
                                    binary := binary q @ [Data sid payload]\<rparr>,
                                  Queued)))))"

definition queue_terminal_frame ::
    "frame \<Rightarrow> outbound_queue \<Rightarrow> stream_queue_error + outbound_queue" where
  "queue_terminal_frame f q =
     (if is_connection (frame_stream_id f) then Inl ConnectionStream
      else
        (case f of
           Data sid payload \<Rightarrow>
             if payload = [] then Inl EmptyData
             else if length payload > MAX_DATA_FRAME
             then Inl (OversizedData (length payload) MAX_DATA_FRAME)
             else
               (let next = usize_sat_add (binary_bytes q) (length payload)
                in if next > lim_binary_bytes (q_limits q)
                   then Inl (Backpressured sid (binary_bytes q) (lim_binary_bytes (q_limits q)))
                   else Inr (q\<lparr>binary_bytes := next, ordered := ordered q @ [f]\<rparr>))
         | Control sid payload \<Rightarrow>
             if payload = [] then Inl EmptyControl
             else
               (let next = usize_sat_add (control_bytes q) (length payload)
                in if length payload > MAX_CONTROL_FRAME \<or> next > lim_control_bytes (q_limits q)
                   then Inl (ControlBackpressured (lim_control_bytes (q_limits q)))
                   else Inr (q\<lparr>control_bytes := next, ordered := ordered q @ [f]\<rparr>))))"

definition next_frame :: "outbound_queue \<Rightarrow> frame option \<times> outbound_queue" where
  "next_frame q =
     (if event_awaiting_write q \<noteq> None then (None, q)
      else
        (case control q of
           f # fs \<Rightarrow>
             (Some f, q\<lparr>control := fs,
                        control_bytes := usize_sub (control_bytes q) (length (frame_payload f))\<rparr>)
         | [] \<Rightarrow>
             (case events q of
                e # es \<Rightarrow>
                  (Some (ev_frame e),
                   q\<lparr>events := es,
                     event_bytes := usize_sub (event_bytes q) (length (frame_payload (ev_frame e))),
                     event_awaiting_write := Some (cursor e)\<rparr>)
              | [] \<Rightarrow>
                  (case ordered q of
                     f # fs \<Rightarrow>
                       (Some f,
                        (case f of
                           Data _ payload \<Rightarrow>
                             q\<lparr>ordered := fs,
                               binary_bytes := usize_sub (binary_bytes q) (length payload)\<rparr>
                         | Control _ payload \<Rightarrow>
                             q\<lparr>ordered := fs,
                               control_bytes := usize_sub (control_bytes q) (length payload)\<rparr>))
                   | [] \<Rightarrow>
                       (case binary q of
                          [] \<Rightarrow> (None, q)
                        | f # fs \<Rightarrow>
                            (Some f, q\<lparr>binary := fs,
                               binary_bytes := usize_sub (binary_bytes q) (length (frame_payload f))\<rparr>))))))"

definition confirm_written :: "outbound_queue \<Rightarrow> outbound_queue" where
  "confirm_written q =
     (case event_awaiting_write q of
        None \<Rightarrow> q
      | Some cur \<Rightarrow> q\<lparr>event_awaiting_write := None, last_delivered_cursor := cur\<rparr>)"

definition write_next ::
    "frame_writer \<Rightarrow> (byte list \<Rightarrow> bool) \<Rightarrow> outbound_queue \<Rightarrow>
     (frame_error + frame option) \<times> outbound_queue" where
  "write_next w sink q =
     (case next_frame q of
        (None, q') \<Rightarrow> (Inr None, q')
      | (Some f, q') \<Rightarrow>
          (case frame_write w sink f of
             Inl e \<Rightarrow> (Inl e, q')
           | Inr _ \<Rightarrow> (Inr (Some f), confirm_written q')))"

definition disconnect_error :: "stream_queue_error \<Rightarrow> u64 option" where
  "disconnect_error e = (case e of SlowConsumer resume_after \<Rightarrow> Some resume_after | _ \<Rightarrow> None)"

section \<open>The invariant\<close>

definition payload_bytes :: "frame list \<Rightarrow> nat" where
  "payload_bytes fs = sum_list (map (length \<circ> frame_payload) fs)"

lemma payload_bytes_simps [simp]:
  "payload_bytes [] = 0"
  "payload_bytes (f # fs) = length (frame_payload f) + payload_bytes fs"
  "payload_bytes (fs @ gs) = payload_bytes fs + payload_bytes gs"
  by (simp_all add: payload_bytes_def)

definition ordered_control :: "frame list \<Rightarrow> frame list" where
  "ordered_control fs = filter (\<lambda>f. frame_kind_of f = KControl) fs"

definition ordered_data :: "frame list \<Rightarrow> frame list" where
  "ordered_data fs = filter (\<lambda>f. frame_kind_of f = KData) fs"

lemma ordered_split_simps [simp]:
  "ordered_control [] = []" "ordered_data [] = []"
  "ordered_control (Control s p # fs) = Control s p # ordered_control fs"
  "ordered_control (Data s p # fs) = ordered_control fs"
  "ordered_data (Control s p # fs) = ordered_data fs"
  "ordered_data (Data s p # fs) = Data s p # ordered_data fs"
  "ordered_control (fs @ gs) = ordered_control fs @ ordered_control gs"
  "ordered_data (fs @ gs) = ordered_data fs @ ordered_data gs"
  by (simp_all add: ordered_control_def ordered_data_def)

text \<open>Byte counters are exact and within their bounds.\<close>

definition bytes_inv :: "outbound_queue \<Rightarrow> bool" where
  "bytes_inv q \<longleftrightarrow>
     control_bytes q = payload_bytes (control q) + payload_bytes (ordered_control (ordered q)) \<and>
     event_bytes q = payload_bytes (map ev_frame (events q)) \<and>
     binary_bytes q = payload_bytes (binary q) + payload_bytes (ordered_data (ordered q)) \<and>
     control_bytes q \<le> lim_control_bytes (q_limits q) \<and>
     event_bytes q \<le> lim_event_bytes (q_limits q) \<and>
     length (events q) \<le> lim_event_count (q_limits q) \<and>
     binary_bytes q \<le> lim_binary_bytes (q_limits q)"

definition lims_small :: "outbound_limits \<Rightarrow> bool" where
  "lims_small l \<longleftrightarrow>
     lim_control_bytes l < usize_max \<and> lim_event_bytes l < usize_max \<and> lim_binary_bytes l < usize_max"

text \<open>Every queued frame is one the stream envelope can carry.\<close>

definition frames_inv :: "outbound_queue \<Rightarrow> bool" where
  "frames_inv q \<longleftrightarrow>
     (\<forall>f \<in> set (control q) \<union> ev_frame ` set (events q) \<union> set (ordered q) \<union> set (binary q).
        frame_ok True f \<and> frame_payload f \<noteq> [])"

text \<open>The registry has no duplicate, no reserved identifier and no more than its bound.\<close>

definition streams_inv :: "outbound_queue \<Rightarrow> bool" where
  "streams_inv q \<longleftrightarrow>
     distinct (map fst (streams q)) \<and> length (streams q) \<le> lim_open_streams (q_limits q) \<and>
     (\<forall>sid \<in> fst ` set (streams q). \<not> is_connection sid) \<and>
     (\<forall>f \<in> set (binary q). \<not> is_connection (frame_stream_id f))"

text \<open>Event cursors, from the last delivered one on, ascend strictly to the last queued one.\<close>

definition pending_cursors :: "outbound_queue \<Rightarrow> u64 list" where
  "pending_cursors q =
     (case event_awaiting_write q of None \<Rightarrow> [] | Some c \<Rightarrow> [c]) @ map cursor (events q)"

definition cursors_inv :: "outbound_queue \<Rightarrow> bool" where
  "cursors_inv q \<longleftrightarrow>
     sorted_wrt (<) (last_delivered_cursor q # pending_cursors q) \<and>
     last_queued_cursor q = last (last_delivered_cursor q # pending_cursors q)"

definition queue_inv :: "outbound_queue \<Rightarrow> bool" where
  "queue_inv q \<longleftrightarrow>
     lims_small (q_limits q) \<and> bytes_inv q \<and> frames_inv q \<and> streams_inv q \<and> cursors_inv q"

lemmas queue_inv_defs = queue_inv_def bytes_inv_def frames_inv_def streams_inv_def cursors_inv_def
  pending_cursors_def lims_small_def

lemma queue_with_limits_inv: "lims_small l \<Longrightarrow> queue_inv (queue_with_limits c l)"
  by (simp add: queue_inv_defs queue_with_limits_def)

lemma default_lims_small: "lims_small default_outbound_limits"
  by (simp add: lims_small_def default_outbound_limits_def usize_max_def
      MAX_CONTROL_QUEUE_BYTES_def MAX_EVENT_WINDOW_BYTES_def MAX_BINARY_QUEUE_BYTES_def)

lemma queue_new_inv: "queue_inv (queue_new c)"
  unfolding queue_new_def by (intro queue_with_limits_inv default_lims_small)

lemma sat_add_within: "usize_sat_add a b \<le> m \<Longrightarrow> m < usize_max \<Longrightarrow> usize_sat_add a b = a + b \<and> a + b \<le> m"
  by (auto simp: usize_sat_add_def)

text \<open>Each part of the invariant reads only its own fields.\<close>

lemma inv_frame_streams [simp]:
  "bytes_inv (q\<lparr>streams := s\<rparr>) = bytes_inv q"
  "frames_inv (q\<lparr>streams := s\<rparr>) = frames_inv q"
  "cursors_inv (q\<lparr>streams := s\<rparr>) = cursors_inv q"
  by (simp_all add: bytes_inv_def frames_inv_def cursors_inv_def pending_cursors_def)

lemma inv_frame_control [simp]:
  "streams_inv (q\<lparr>control_bytes := n, control := fs\<rparr>) = streams_inv q"
  "cursors_inv (q\<lparr>control_bytes := n, control := fs\<rparr>) = cursors_inv q"
  "streams_inv (q\<lparr>control := fs, control_bytes := n\<rparr>) = streams_inv q"
  "cursors_inv (q\<lparr>control := fs, control_bytes := n\<rparr>) = cursors_inv q"
  by (simp_all add: streams_inv_def cursors_inv_def pending_cursors_def)

lemma inv_frame_ordered [simp]:
  "streams_inv (q\<lparr>control_bytes := n, ordered := fs\<rparr>) = streams_inv q"
  "cursors_inv (q\<lparr>control_bytes := n, ordered := fs\<rparr>) = cursors_inv q"
  "streams_inv (q\<lparr>binary_bytes := n, ordered := fs\<rparr>) = streams_inv q"
  "cursors_inv (q\<lparr>binary_bytes := n, ordered := fs\<rparr>) = cursors_inv q"
  "streams_inv (q\<lparr>ordered := fs, control_bytes := n\<rparr>) = streams_inv q"
  "cursors_inv (q\<lparr>ordered := fs, control_bytes := n\<rparr>) = cursors_inv q"
  "streams_inv (q\<lparr>ordered := fs, binary_bytes := n\<rparr>) = streams_inv q"
  "cursors_inv (q\<lparr>ordered := fs, binary_bytes := n\<rparr>) = cursors_inv q"
  by (simp_all add: streams_inv_def cursors_inv_def pending_cursors_def)

lemma inv_frame_binary [simp]:
  "cursors_inv (q\<lparr>binary_bytes := n, binary := fs\<rparr>) = cursors_inv q"
  "cursors_inv (q\<lparr>binary := fs, binary_bytes := n\<rparr>) = cursors_inv q"
  by (simp_all add: cursors_inv_def pending_cursors_def)

lemma frames_invI:
  "frames_inv q \<Longrightarrow> frame_ok True f \<Longrightarrow> frame_payload f \<noteq> [] \<Longrightarrow>
   set (control q') \<union> ev_frame ` set (events q') \<union> set (ordered q') \<union> set (binary q') \<subseteq>
   insert f (set (control q) \<union> ev_frame ` set (events q) \<union> set (ordered q) \<union> set (binary q)) \<Longrightarrow>
   frames_inv q'"
  unfolding frames_inv_def by blast

lemma frames_inv_subset:
  "frames_inv q \<Longrightarrow>
   set (control q') \<union> ev_frame ` set (events q') \<union> set (ordered q') \<union> set (binary q') \<subseteq>
   set (control q) \<union> ev_frame ` set (events q) \<union> set (ordered q) \<union> set (binary q) \<Longrightarrow>
   frames_inv q'"
  unfolding frames_inv_def by blast

lemma open_binary_inv:
  assumes "queue_inv q" and "open_binary sid kind q = Inr q'"
  shows "queue_inv q'"
proof -
  let ?s = "(sid, \<lparr>bs_kind = kind, credit = 0, next_offset = 0\<rparr>) # streams q"
  have q': "q' = q\<lparr>streams := ?s\<rparr>" "\<not> is_connection sid" "map_of (streams q) sid = None"
    "length (streams q) < lim_open_streams (q_limits q)"
    using assms(2) by (auto simp: open_binary_def split: if_splits)
  then have "streams_inv q'"
    using assms(1) by (auto simp: queue_inv_def streams_inv_def map_of_eq_None_iff)
  then show ?thesis using assms(1) q'(1) by (simp add: queue_inv_def)
qed

lemma close_binary_inv:
  assumes "queue_inv q" and "close_binary sid q = Inr q'"
  shows "queue_inv q'"
proof -
  have q': "q' = q\<lparr>streams := AList.delete sid (streams q)\<rparr>"
    using assms(2) by (auto simp: close_binary_def split: if_splits)
  have "length (AList.delete sid (streams q)) \<le> length (streams q)"
    by (rule length_delete_le)
  moreover have "\<forall>s \<in> fst ` set (AList.delete sid (streams q)). \<not> is_connection s"
    using assms(1) dom_delete_subset [of sid "streams q"]
    unfolding queue_inv_def streams_inv_def by blast
  moreover have "distinct (map fst (AList.delete sid (streams q)))"
    using assms(1) by (simp add: queue_inv_def streams_inv_def distinct_delete)
  moreover have "length (streams q) \<le> lim_open_streams (q_limits q)"
    "\<forall>f \<in> set (binary q). \<not> is_connection (frame_stream_id f)"
    using assms(1) by (simp_all add: queue_inv_def streams_inv_def)
  ultimately have "streams_inv q'" by (simp add: q' streams_inv_def)
  then show ?thesis using assms(1) by (simp add: queue_inv_def q')
qed

lemma fst_set_map_entry: "fst ` set (AList.map_entry k f al) = fst ` set al"
  by (induction al) auto

lemma length_map_entry [simp]: "length (AList.map_entry k f al) = length al"
  by (induction al) auto

lemma streams_map_entry_inv:
  "queue_inv q \<Longrightarrow> queue_inv (q\<lparr>streams := AList.map_entry sid g (streams q)\<rparr>)"
  by (simp add: queue_inv_def) (simp add: streams_inv_def fst_set_map_entry distinct_map_entry)

lemma grant_credit_inv:
  assumes "queue_inv q" and "grant_credit sid n q = Inr q'"
  shows "queue_inv q'"
  using assms by (auto simp: grant_credit_def streams_map_entry_inv split: option.splits)

lemma queue_control_Inr:
  assumes "queue_control f q = Inr q'" and "lims_small (q_limits q)"
  obtains sid payload where "f = Control sid payload" and "payload \<noteq> []"
    and "length payload \<le> MAX_CONTROL_FRAME"
    and "control_bytes q + length payload \<le> lim_control_bytes (q_limits q)"
    and "q' = q\<lparr>control_bytes := control_bytes q + length payload, control := control q @ [f]\<rparr>"
proof (cases f)
  case (Control sid payload)
  have "usize_sat_add (control_bytes q) (length payload) \<le> lim_control_bytes (q_limits q)"
    using assms(1) Control by (auto simp: queue_control_def Let_def split: if_splits)
  from sat_add_within [OF this] assms Control that show ?thesis
    by (simp add: queue_control_def lims_small_def Let_def split: if_splits)
qed (use assms in \<open>simp add: queue_control_def\<close>)

lemma queue_control_inv:
  assumes "queue_inv q" and "queue_control f q = Inr q'"
  shows "queue_inv q'"
proof -
  from assms(1) have l: "lims_small (q_limits q)" by (simp add: queue_inv_def)
  from queue_control_Inr [OF assms(2) l] obtain sid payload where f: "f = Control sid payload"
    and p: "payload \<noteq> []" "length payload \<le> MAX_CONTROL_FRAME"
      "control_bytes q + length payload \<le> lim_control_bytes (q_limits q)"
    and q': "q' = q\<lparr>control_bytes := control_bytes q + length payload, control := control q @ [f]\<rparr>" .
  have "frames_inv q'"
    by (rule frames_invI [of q f]) (use assms(1) f p q' in \<open>auto simp: queue_inv_def frame_ok_def\<close>)
  moreover have "bytes_inv q'"
    using assms(1) p f by (simp add: q' queue_inv_def bytes_inv_def)
  ultimately show ?thesis using assms(1) by (simp add: queue_inv_def q')
qed

lemma queue_event_Inr:
  assumes "queue_event cur f q = Inr q'" and "lims_small (q_limits q)"
  obtains sid payload where "f = Control sid payload" and "payload \<noteq> []"
    and "\<not> is_connection sid" and "last_queued_cursor q < cur"
    and "length payload \<le> MAX_CONTROL_FRAME" and "length (events q) < lim_event_count (q_limits q)"
    and "event_bytes q + length payload \<le> lim_event_bytes (q_limits q)"
    and "q' = q\<lparr>event_bytes := event_bytes q + length payload, last_queued_cursor := cur,
                events := events q @ [\<lparr>cursor = cur, ev_frame = f\<rparr>]\<rparr>"
proof (cases f)
  case (Control sid payload)
  have "usize_sat_add (event_bytes q) (length payload) \<le> lim_event_bytes (q_limits q)"
    using assms(1) Control by (auto simp: queue_event_def Let_def split: if_splits)
  from sat_add_within [OF this] assms Control that show ?thesis
    by (simp add: queue_event_def lims_small_def Let_def not_le split: if_splits)
qed (use assms in \<open>simp add: queue_event_def\<close>)

lemma sorted_wrt_snoc_last:
  "sorted_wrt (<) (xs :: u64 list) \<Longrightarrow> xs \<noteq> [] \<Longrightarrow> last xs < c \<Longrightarrow> sorted_wrt (<) (xs @ [c])"
proof (induction xs rule: rev_induct)
  case (snoc x xs)
  then have "\<forall>y \<in> set xs. y < x" "x < c" by (auto simp: sorted_wrt_append)
  then have "\<forall>y \<in> set xs. y < c" using order_less_trans by blast
  with snoc show ?case by (simp add: sorted_wrt_append)
qed simp

lemma queue_event_inv:
  assumes "queue_inv q" and "queue_event cur f q = Inr q'"
  shows "queue_inv q'"
proof -
  from assms(1) have l: "lims_small (q_limits q)" by (simp add: queue_inv_def)
  from queue_event_Inr [OF assms(2) l] obtain sid payload where f: "f = Control sid payload"
    and p: "payload \<noteq> []" "\<not> is_connection sid" "last_queued_cursor q < cur"
      "length payload \<le> MAX_CONTROL_FRAME" "length (events q) < lim_event_count (q_limits q)"
      "event_bytes q + length payload \<le> lim_event_bytes (q_limits q)"
    and q': "q' = q\<lparr>event_bytes := event_bytes q + length payload, last_queued_cursor := cur,
                events := events q @ [\<lparr>cursor = cur, ev_frame = f\<rparr>]\<rparr>" .
  have pc: "pending_cursors q' = pending_cursors q @ [cur]"
    by (simp add: q' pending_cursors_def)
  have c: "cursors_inv q" using assms(1) by (simp add: queue_inv_def)
  have "sorted_wrt (<) ((last_delivered_cursor q # pending_cursors q) @ [cur])"
    by (rule sorted_wrt_snoc_last) (use c p(3) in \<open>simp_all add: cursors_inv_def\<close>)
  moreover have "last_delivered_cursor q' = last_delivered_cursor q" "last_queued_cursor q' = cur"
    by (simp_all add: q')
  ultimately have "cursors_inv q'" by (simp add: cursors_inv_def pc)
  moreover have "frames_inv q'"
    by (rule frames_invI [of q f]) (use assms(1) f p q' in \<open>auto simp: queue_inv_def frame_ok_def\<close>)
  moreover have "bytes_inv q'" "streams_inv q'" "lims_small (q_limits q')"
    using assms(1) p f by (simp_all add: q' queue_inv_def bytes_inv_def streams_inv_def)
  ultimately show ?thesis by (simp add: queue_inv_def)
qed

lemma queue_terminal_frame_Inr:
  assumes "queue_terminal_frame f q = Inr q'" and "lims_small (q_limits q)"
  shows "\<not> is_connection (frame_stream_id f)" and "frame_payload f \<noteq> []"
    and "length (frame_payload f) \<le> kind_limit (frame_kind_of f)"
    and "case f of
        Control sid payload \<Rightarrow> control_bytes q + length payload \<le> lim_control_bytes (q_limits q) \<and>
          q' = q\<lparr>control_bytes := control_bytes q + length payload, ordered := ordered q @ [f]\<rparr>
      | Data sid payload \<Rightarrow> binary_bytes q + length payload \<le> lim_binary_bytes (q_limits q) \<and>
          q' = q\<lparr>binary_bytes := binary_bytes q + length payload, ordered := ordered q @ [f]\<rparr>"
proof -
  show "\<not> is_connection (frame_stream_id f)" "frame_payload f \<noteq> []"
    "length (frame_payload f) \<le> kind_limit (frame_kind_of f)"
    using assms(1)
    by (auto simp: queue_terminal_frame_def Let_def split: if_splits frame.splits)
  show "case f of
        Control sid payload \<Rightarrow> control_bytes q + length payload \<le> lim_control_bytes (q_limits q) \<and>
          q' = q\<lparr>control_bytes := control_bytes q + length payload, ordered := ordered q @ [f]\<rparr>
      | Data sid payload \<Rightarrow> binary_bytes q + length payload \<le> lim_binary_bytes (q_limits q) \<and>
          q' = q\<lparr>binary_bytes := binary_bytes q + length payload, ordered := ordered q @ [f]\<rparr>"
  proof (cases f)
    case (Control sid payload)
    then have "usize_sat_add (control_bytes q) (length payload) \<le> lim_control_bytes (q_limits q)"
      using assms(1) by (auto simp: queue_terminal_frame_def Let_def split: if_splits)
    from sat_add_within [OF this] assms Control show ?thesis
      by (simp add: queue_terminal_frame_def lims_small_def Let_def split: if_splits)
  next
    case (Data sid payload)
    then have "usize_sat_add (binary_bytes q) (length payload) \<le> lim_binary_bytes (q_limits q)"
      using assms(1) by (auto simp: queue_terminal_frame_def Let_def split: if_splits)
    from sat_add_within [OF this] assms Data show ?thesis
      by (simp add: queue_terminal_frame_def lims_small_def Let_def split: if_splits)
  qed
qed

lemma queue_terminal_frame_inv:
  assumes "queue_inv q" and "queue_terminal_frame f q = Inr q'"
  shows "queue_inv q'"
proof -
  from assms(1) have l: "lims_small (q_limits q)" by (simp add: queue_inv_def)
  note t = queue_terminal_frame_Inr [OF assms(2) l]
  have "frames_inv q'"
    by (rule frames_invI [of q f])
      (use assms(1) t in \<open>auto simp: queue_inv_def frame_ok_def split: frame.splits\<close>)
  moreover have "bytes_inv q'"
  proof -
    have b: "bytes_inv q" using assms(1) by (simp add: queue_inv_def)
    show ?thesis
    proof (cases f)
      case (Control sid payload)
      then show ?thesis using b t(4) by (simp add: bytes_inv_def)
    next
      case (Data sid payload)
      then show ?thesis using b t(4) by (simp add: bytes_inv_def)
    qed
  qed
  moreover have "streams_inv q' = streams_inv q" "cursors_inv q' = cursors_inv q"
    "q_limits q' = q_limits q"
    using t(4) by (cases f; simp)+
  ultimately show ?thesis using assms(1) by (simp add: queue_inv_def)
qed


text \<open>
  What an accepted \<open>queue_data\<close> does: the frame is queued and charged against the
  credit, or (Terminal streams only) the loss is reported at control priority and the
  stream's offset still advances.
\<close>

lemma queue_data_Inr:
  assumes "queue_data eg sid payload q = Inr (q', out)" and "lims_small (q_limits q)"
  obtains st where "map_of (streams q) sid = Some st" and "payload \<noteq> []"
    and "length payload \<le> MAX_DATA_FRAME" and "length payload \<le> unat (credit st)"
    and "unat (next_offset st) + length payload < 2 ^ 64"
    and "(out = Queued \<and> binary_bytes q + length payload \<le> lim_binary_bytes (q_limits q) \<and>
          q' = q\<lparr>streams := AList.map_entry sid
                   (\<lambda>s. s\<lparr>credit := credit s - of_nat (length payload),
                           next_offset := next_offset st + of_nat (length payload)\<rparr>) (streams q),
                 binary_bytes := binary_bytes q + length payload,
                 binary := binary q @ [Data sid payload]\<rparr>)
       \<or> (out = TerminalGap (next_offset st) (of_nat (length payload)) \<and> bs_kind st = Terminal \<and>
          (\<exists>gap q1. eg (next_offset st) (of_nat (length payload)) = Some gap \<and>
             queue_control (Control sid gap) q = Inr q1 \<and>
             q' = q1\<lparr>streams := AList.map_entry sid
                   (\<lambda>s. s\<lparr>next_offset := next_offset st + of_nat (length payload)\<rparr>) (streams q1)\<rparr>))"
proof -
  let ?n = "of_nat (length payload) :: u64"
  have len: "payload \<noteq> []" "length payload \<le> MAX_DATA_FRAME"
    using assms(1) by (auto simp: queue_data_def split: if_splits)
  then have n: "length payload < 2 ^ 64" "unat ?n = length payload"
    by (simp_all add: frame_consts unat_of_nat)
  obtain st where st: "map_of (streams q) sid = Some st" and cr: "\<not> ?n > credit st"
    using assms(1) len n(1) by (auto simp: queue_data_def Let_def split: if_splits option.splits)
  obtain off where off: "u64_checked_add (next_offset st) ?n = Some off"
    using assms(1) len n(1) st cr
    by (cases "u64_checked_add (next_offset st) ?n") (simp_all add: queue_data_def Let_def)
  have off': "off = next_offset st + ?n" "unat (next_offset st) + length payload < 2 ^ 64"
    using off n(2) by (auto simp: u64_checked_add_Some)
  have cr': "length payload \<le> unat (credit st)"
    using cr n(2) by (simp add: not_less word_le_nat_alt)
  have guards: "\<not> length payload > MAX_DATA_FRAME" "payload \<noteq> []" "\<not> length payload \<ge> 2 ^ 64"
    using len n(1) by simp_all
  show thesis
  proof (cases "usize_sat_add (binary_bytes q) (length payload) > lim_binary_bytes (q_limits q)")
    case False
    then have "usize_sat_add (binary_bytes q) (length payload) \<le> lim_binary_bytes (q_limits q)" by simp
    from sat_add_within [OF this] assms(2)
    have sat: "usize_sat_add (binary_bytes q) (length payload) = binary_bytes q + length payload"
      "binary_bytes q + length payload \<le> lim_binary_bytes (q_limits q)"
      unfolding lims_small_def by blast+
    have "out = Queued \<and> q' = q\<lparr>streams := AList.map_entry sid
                   (\<lambda>s. s\<lparr>credit := credit s - ?n, next_offset := off\<rparr>) (streams q),
                 binary_bytes := binary_bytes q + length payload,
                 binary := binary q @ [Data sid payload]\<rparr>"
      using assms(1) False guards st cr off sat by (simp add: queue_data_def Let_def)
    then show thesis using that [OF st len cr' off'(2)] sat(2) off'(1) by simp
  next
    case True
    have t: "bs_kind st = Terminal"
      using assms(1) True guards st cr off by (cases "bs_kind st") (simp_all add: queue_data_def Let_def)
    obtain gap where gap: "eg (next_offset st) ?n = Some gap"
      using assms(1) True guards st cr off t
      by (cases "eg (next_offset st) ?n") (simp_all add: queue_data_def Let_def)
    obtain q1 where q1: "queue_control (Control sid gap) q = Inr q1"
      using assms(1) True guards st cr off t gap
      by (cases "queue_control (Control sid gap) q") (simp_all add: queue_data_def Let_def)
    have "out = TerminalGap (next_offset st) ?n \<and>
      q' = q1\<lparr>streams := AList.map_entry sid (\<lambda>s. s\<lparr>next_offset := off\<rparr>) (streams q1)\<rparr>"
      using assms(1) True guards st cr off t gap q1 by (simp add: queue_data_def Let_def)
    then show thesis using that [OF st len cr' off'(2)] t gap q1 off'(1) by blast
  qed
qed

lemma queue_data_inv:
  assumes "queue_inv q" and "queue_data eg sid payload q = Inr (q', out)"
  shows "queue_inv q'"
proof -
  from assms(1) have l: "lims_small (q_limits q)" by (simp add: queue_inv_def)
  from assms(2) l show ?thesis
  proof (rule queue_data_Inr)
    fix st
    assume st: "map_of (streams q) sid = Some st" and p: "payload \<noteq> []"
      "length payload \<le> MAX_DATA_FRAME"
    let ?g = "\<lambda>s. s\<lparr>credit := credit s - of_nat (length payload), next_offset := next_offset st + of_nat (length payload)\<rparr>"
    have nc: "\<not> is_connection sid"
      using assms(1) map_of_SomeD [OF st] by (force simp: queue_inv_def streams_inv_def)
    assume "(out = Queued \<and> binary_bytes q + length payload \<le> lim_binary_bytes (q_limits q) \<and>
          q' = q\<lparr>streams := AList.map_entry sid ?g (streams q),
                 binary_bytes := binary_bytes q + length payload,
                 binary := binary q @ [Data sid payload]\<rparr>)
       \<or> (out = TerminalGap (next_offset st) (of_nat (length payload)) \<and> bs_kind st = Terminal \<and>
          (\<exists>gap q1. eg (next_offset st) (of_nat (length payload)) = Some gap \<and>
             queue_control (Control sid gap) q = Inr q1 \<and>
             q' = q1\<lparr>streams := AList.map_entry sid
                   (\<lambda>s. s\<lparr>next_offset := next_offset st + of_nat (length payload)\<rparr>) (streams q1)\<rparr>))"
    then show ?thesis
    proof (elim disjE conjE exE)
      let ?q = "q\<lparr>streams := AList.map_entry sid ?g (streams q)\<rparr>"
      assume b: "binary_bytes q + length payload \<le> lim_binary_bytes (q_limits q)"
        and q': "q' = q\<lparr>streams := AList.map_entry sid ?g (streams q),
                 binary_bytes := binary_bytes q + length payload,
                 binary := binary q @ [Data sid payload]\<rparr>"
      have i: "queue_inv ?q" by (rule streams_map_entry_inv [OF assms(1)])
      have "frames_inv q'"
        by (rule frames_invI [of ?q "Data sid payload"])
          (use i p q' nc in \<open>auto simp: queue_inv_def frame_ok_def\<close>)
      moreover have "bytes_inv q'" "streams_inv q'"
        using i b nc by (simp_all add: queue_inv_def q')
          (simp_all add: bytes_inv_def streams_inv_def)
      ultimately show ?thesis using assms(1) by (simp add: queue_inv_def q')
    qed (use queue_control_inv [OF assms(1)] streams_map_entry_inv in blast)
  qed
qed


section \<open>Scheduling\<close>

text \<open>The contract of the scheduler: one list in priority order, taken from the front.\<close>

definition schedule :: "outbound_queue \<Rightarrow> frame list" where
  "schedule q = control q @ map ev_frame (events q) @ ordered q @ binary q"

lemma next_frame_awaiting: "event_awaiting_write q \<noteq> None \<Longrightarrow> next_frame q = (None, q)"
  by (auto simp: next_frame_def)

lemma next_frame_schedule:
  assumes "event_awaiting_write q = None"
  shows "schedule q = (case fst (next_frame q) of None \<Rightarrow> [] | Some f \<Rightarrow> [f])
           @ schedule (snd (next_frame q))"
    and "fst (next_frame q) = None \<longleftrightarrow> schedule q = []"
  using assms by (auto simp: next_frame_def schedule_def split: list.splits frame.splits)

lemma next_frame_spec:
  "(case event_awaiting_write q of
      Some _ \<Rightarrow> next_frame q = (None, q)
    | None \<Rightarrow>
        (case schedule q of
           [] \<Rightarrow> next_frame q = (None, q)
         | f # fs \<Rightarrow> fst (next_frame q) = Some f \<and> schedule (snd (next_frame q)) = fs))"
proof (cases "event_awaiting_write q")
  case None
  then show ?thesis
    by (auto simp: next_frame_def schedule_def split: list.splits frame.splits)
qed (simp add: next_frame_awaiting)

text \<open>The byte counters never underflow: each frame taken was counted when it was queued.\<close>

lemma next_frame_bytes_inv:
  assumes "bytes_inv q" and "event_awaiting_write q = None"
  shows "bytes_inv (snd (next_frame q))"
proof (cases "control q")
  case (Cons f fs)
  then show ?thesis using assms by (simp add: next_frame_def bytes_inv_def)
next
  case C: Nil
  show ?thesis
  proof (cases "events q")
    case (Cons e es)
    then show ?thesis using assms C by (simp add: next_frame_def bytes_inv_def)
  next
    case E: Nil
    show ?thesis
    proof (cases "ordered q")
      case (Cons f fs)
      then show ?thesis using assms C E by (cases f) (simp_all add: next_frame_def bytes_inv_def)
    next
      case O: Nil
      then show ?thesis using assms C E
        by (cases "binary q") (simp_all add: next_frame_def bytes_inv_def)
    qed
  qed
qed

lemma next_frame_inv:
  assumes "queue_inv q"
  shows "queue_inv (snd (next_frame q))"
proof (cases "event_awaiting_write q")
  case (Some c)
  then show ?thesis using assms by (simp add: next_frame_def)
next
  case None
  have b: "bytes_inv q" and s: "streams_inv q" and c: "cursors_inv q" and f: "frames_inv q"
    and l: "lims_small (q_limits q)"
    using assms by (simp_all add: queue_inv_def)
  have "lims_small (q_limits (snd (next_frame q)))"
    using l None by (simp add: next_frame_def split: list.split frame.split)
  moreover have "frames_inv (snd (next_frame q))"
    by (rule frames_inv_subset [OF f])
      (use None in \<open>auto simp: next_frame_def split: list.splits frame.splits\<close>)
  moreover have "bytes_inv (snd (next_frame q))"
    by (rule next_frame_bytes_inv [OF b None])
  moreover have "streams_inv (snd (next_frame q))"
    using s None by (simp add: next_frame_def streams_inv_def split: list.split frame.split)
  moreover have "pending_cursors (snd (next_frame q)) = pending_cursors q"
    "last_delivered_cursor (snd (next_frame q)) = last_delivered_cursor q"
    "last_queued_cursor (snd (next_frame q)) = last_queued_cursor q"
    using None by (simp_all add: next_frame_def pending_cursors_def split: list.split frame.split)
  ultimately show ?thesis using c by (simp add: queue_inv_def cursors_inv_def)
qed

lemma next_frame_pending [simp]: "pending_cursors (snd (next_frame q)) = pending_cursors q"
  by (cases "event_awaiting_write q")
    (simp_all add: next_frame_def pending_cursors_def split: list.split frame.split)

lemma next_frame_cursors [simp]:
  "last_delivered_cursor (snd (next_frame q)) = last_delivered_cursor q"
  "last_queued_cursor (snd (next_frame q)) = last_queued_cursor q"
  by (cases "event_awaiting_write q"; simp add: next_frame_def split: list.split frame.split)+

lemma confirm_written_frame [simp]:
  "control (confirm_written q) = control q" "events (confirm_written q) = events q"
  "ordered (confirm_written q) = ordered q" "binary (confirm_written q) = binary q"
  "schedule (confirm_written q) = schedule q" "q_limits (confirm_written q) = q_limits q"
  "event_awaiting_write (confirm_written q) = None"
  by (simp_all add: confirm_written_def schedule_def split: option.split)

lemma confirm_written_inv:
  assumes "queue_inv q"
  shows "queue_inv (confirm_written q)"
proof (cases "event_awaiting_write q")
  case (Some c)
  have "cursors_inv (confirm_written q)"
    using assms Some by (simp add: queue_inv_def cursors_inv_def confirm_written_def pending_cursors_def)
  moreover have "bytes_inv (confirm_written q)" "frames_inv (confirm_written q)"
    "streams_inv (confirm_written q)"
    using assms Some
    by (simp_all add: queue_inv_def confirm_written_def)
      (simp_all add: bytes_inv_def frames_inv_def streams_inv_def)
  ultimately show ?thesis using assms by (simp add: queue_inv_def)
qed (simp add: confirm_written_def assms)

lemma write_next_inv: "queue_inv q \<Longrightarrow> queue_inv (snd (write_next w sink q))"
  using next_frame_inv [of q] confirm_written_inv
  by (auto simp: write_next_def split: prod.splits option.splits sum.splits)

section \<open>Runs of the queue\<close>

text \<open>One call on the queue with its arguments, in the order the connection makes them.\<close>

datatype queue_op =
    OpOpen stream_id binary_stream_kind
  | OpClose stream_id
  | OpGrant stream_id u64
  | OpControl frame
  | OpEvent u64 frame
  | OpData stream_id "byte list"
  | OpTerminalFrame frame
  | OpWrite frame_writer "byte list \<Rightarrow> bool"

fun queue_step ::
    "(u64 \<Rightarrow> u64 \<Rightarrow> byte list option) \<Rightarrow> outbound_queue \<Rightarrow> queue_op \<Rightarrow> outbound_queue" where
  "queue_step eg q (OpOpen sid kind) = commit_or q (open_binary sid kind q)"
| "queue_step eg q (OpClose sid) = commit_or q (close_binary sid q)"
| "queue_step eg q (OpGrant sid n) = commit_or q (grant_credit sid n q)"
| "queue_step eg q (OpControl f) = commit_or q (queue_control f q)"
| "queue_step eg q (OpEvent c f) = commit_or q (queue_event c f q)"
| "queue_step eg q (OpData sid p) = (case queue_data eg sid p q of Inl _ \<Rightarrow> q | Inr (q', _) \<Rightarrow> q')"
| "queue_step eg q (OpTerminalFrame f) = commit_or q (queue_terminal_frame f q)"
| "queue_step eg q (OpWrite w sink) = snd (write_next w sink q)"

lemma queue_step_inv: "queue_inv q \<Longrightarrow> queue_inv (queue_step eg q a)"
  by (cases a)
    (auto intro: commit_or_inv open_binary_inv close_binary_inv grant_credit_inv queue_control_inv
      queue_event_inv queue_data_inv queue_terminal_frame_inv write_next_inv split: sum.split prod.split)

text \<open>Event cursors admitted by a run, and those whose frame it delivered.\<close>

fun event_admitted :: "outbound_queue \<Rightarrow> queue_op \<Rightarrow> u64 list" where
  "event_admitted q (OpEvent c f) = (case queue_event c f q of Inl _ \<Rightarrow> [] | Inr _ \<Rightarrow> [c])"
| "event_admitted q _ = []"

fun event_delivered :: "outbound_queue \<Rightarrow> queue_op \<Rightarrow> u64 list" where
  "event_delivered q (OpWrite w sink) =
     (case next_frame q of
        (None, q') \<Rightarrow> []
      | (Some f, q') \<Rightarrow>
          (case (event_awaiting_write q', frame_write w sink f) of
             (Some c, Inr _) \<Rightarrow> [c]
           | _ \<Rightarrow> []))"
| "event_delivered q _ = []"

fun run_trace ::
    "(outbound_queue \<Rightarrow> queue_op \<Rightarrow> u64 list) \<Rightarrow> (u64 \<Rightarrow> u64 \<Rightarrow> byte list option) \<Rightarrow>
     outbound_queue \<Rightarrow> queue_op list \<Rightarrow> u64 list" where
  "run_trace obs eg q [] = []"
| "run_trace obs eg q (a # as) = obs q a @ run_trace obs eg (queue_step eg q a) as"

lemma pending_frame:
  "open_binary sid kind q = Inr q' \<Longrightarrow> pending_cursors q' = pending_cursors q"
  "close_binary sid q = Inr q' \<Longrightarrow> pending_cursors q' = pending_cursors q"
  "grant_credit sid n q = Inr q' \<Longrightarrow> pending_cursors q' = pending_cursors q"
  "queue_control f q = Inr q' \<Longrightarrow> pending_cursors q' = pending_cursors q"
  "queue_terminal_frame f q = Inr q' \<Longrightarrow> pending_cursors q' = pending_cursors q"
  by (auto simp: open_binary_def close_binary_def grant_credit_def queue_control_def
      queue_terminal_frame_def pending_cursors_def Let_def split: if_splits option.splits frame.splits)

lemma delivered_frame:
  "open_binary sid kind q = Inr q' \<Longrightarrow> last_delivered_cursor q' = last_delivered_cursor q"
  "close_binary sid q = Inr q' \<Longrightarrow> last_delivered_cursor q' = last_delivered_cursor q"
  "grant_credit sid n q = Inr q' \<Longrightarrow> last_delivered_cursor q' = last_delivered_cursor q"
  "queue_control f q = Inr q' \<Longrightarrow> last_delivered_cursor q' = last_delivered_cursor q"
  "queue_terminal_frame f q = Inr q' \<Longrightarrow> last_delivered_cursor q' = last_delivered_cursor q"
  "queue_event c f q = Inr q' \<Longrightarrow> last_delivered_cursor q' = last_delivered_cursor q"
  by (auto simp: open_binary_def close_binary_def grant_credit_def queue_control_def queue_event_def
      queue_terminal_frame_def Let_def split: if_splits option.splits frame.splits)

lemma queue_data_frame:
  assumes "queue_data eg sid p q = Inr (q', out)" and "lims_small (q_limits q)"
  shows "pending_cursors q' = pending_cursors q" and "last_delivered_cursor q' = last_delivered_cursor q"
proof -
  from queue_data_Inr [OF assms]
  show "pending_cursors q' = pending_cursors q"
    by (cases rule: queue_data_Inr [OF assms])
      (auto dest!: pending_frame(4) simp: pending_cursors_def)
  show "last_delivered_cursor q' = last_delivered_cursor q"
    by (cases rule: queue_data_Inr [OF assms]) (auto dest!: delivered_frame(4))
qed

lemma queue_event_pending:
  "queue_event c f q = Inr q' \<Longrightarrow> pending_cursors q' = pending_cursors q @ [c]"
  by (auto simp: queue_event_def pending_cursors_def Let_def split: if_splits frame.splits)

lemma confirm_written_pending:
  "pending_cursors q = (case event_awaiting_write q of None \<Rightarrow> [] | Some c \<Rightarrow> [c])
     @ pending_cursors (confirm_written q)"
  "last_delivered_cursor (confirm_written q) =
     (case event_awaiting_write q of None \<Rightarrow> last_delivered_cursor q | Some c \<Rightarrow> c)"
  by (simp_all add: confirm_written_def pending_cursors_def split: option.split)

lemma write_next_delivers:
  "pending_cursors q = event_delivered q (OpWrite w sink) @ pending_cursors (snd (write_next w sink q))"
  "last_delivered_cursor (snd (write_next w sink q)) =
     last (last_delivered_cursor q # event_delivered q (OpWrite w sink))"
proof -
  obtain r q' where nf: "next_frame q = (r, q')" by (cases "next_frame q")
  have p: "pending_cursors q' = pending_cursors q" "last_delivered_cursor q' = last_delivered_cursor q"
    using next_frame_pending [of q] next_frame_cursors(1) [of q] nf by simp_all
  show "pending_cursors q = event_delivered q (OpWrite w sink) @ pending_cursors (snd (write_next w sink q))"
    using p(1) confirm_written_pending(1) [of q']
    by (auto simp: write_next_def nf split: option.splits sum.splits)
  show "last_delivered_cursor (snd (write_next w sink q)) =
     last (last_delivered_cursor q # event_delivered q (OpWrite w sink))"
    using p(2) confirm_written_pending(2) [of q']
    by (auto simp: write_next_def nf split: option.splits sum.splits)
qed

lemma queue_step_events:
  assumes "queue_inv q"
  shows "pending_cursors q @ event_admitted q a = event_delivered q a @ pending_cursors (queue_step eg q a)"
    and "last_delivered_cursor (queue_step eg q a) = last (last_delivered_cursor q # event_delivered q a)"
proof -
  have l: "lims_small (q_limits q)" using assms by (simp add: queue_inv_def)
  show "pending_cursors q @ event_admitted q a = event_delivered q a @ pending_cursors (queue_step eg q a)"
  proof (cases a)
    case (OpWrite w sink)
    then show ?thesis using write_next_delivers(1) [of q w sink] by simp
  qed (auto simp: commit_or_def pending_frame queue_event_pending queue_data_frame [OF _ l]
      split: sum.split prod.split)
  show "last_delivered_cursor (queue_step eg q a) = last (last_delivered_cursor q # event_delivered q a)"
  proof (cases a)
    case (OpWrite w sink)
    then show ?thesis using write_next_delivers(2) [of w sink q] by simp
  qed (auto simp: commit_or_def delivered_frame queue_data_frame [OF _ l]
      split: sum.split prod.split)
qed

lemma cursors_inv_mono:
  assumes "queue_inv q"
  shows "last_delivered_cursor q \<le> last_delivered_cursor (queue_step eg q a)"
proof (cases "event_delivered q a = []")
  case False
  then have "last (event_delivered q a) \<in> set (pending_cursors q @ event_admitted q a)"
    unfolding queue_step_events(1) [OF assms, of a eg] by simp
  moreover have "event_admitted q a = []" using False by (cases a) auto
  ultimately have "last_delivered_cursor q < last (event_delivered q a)"
    using assms by (simp add: queue_inv_def cursors_inv_def)
  then show ?thesis using False by (simp add: queue_step_events(2) [OF assms])
qed (simp add: queue_step_events(2) [OF assms])

interpretation queue: measured_machine "queue_step eg" queue_inv last_delivered_cursor for eg
  by unfold_locales (simp_all add: queue_step_inv cursors_inv_mono)

lemma run_events:
  "queue_inv q \<Longrightarrow>
   pending_cursors q @ run_trace event_admitted eg q as =
   run_trace event_delivered eg q as @ pending_cursors (foldl (queue_step eg) q as)"
proof (induction as arbitrary: q)
  case (Cons a as)
  let ?q = "queue_step eg q a"
  have "pending_cursors q @ run_trace event_admitted eg q (a # as) =
    event_delivered q a @ pending_cursors ?q @ run_trace event_admitted eg ?q as"
    using queue_step_events(1) [OF Cons.prems, of a eg] by (metis append_assoc run_trace.simps(2))
  also have "pending_cursors ?q @ run_trace event_admitted eg ?q as =
    run_trace event_delivered eg ?q as @ pending_cursors (foldl (queue_step eg) ?q as)"
    by (rule Cons.IH [OF queue_step_inv [OF Cons.prems]])
  finally show ?case by simp
qed simp

lemma run_trace_snoc:
  "run_trace obs eg q (as @ [a]) = run_trace obs eg q as @ obs (foldl (queue_step eg) q as) a"
  by (induction as arbitrary: q) simp_all

lemma run_last_delivered:
  "queue_inv q \<Longrightarrow>
   last_delivered_cursor (foldl (queue_step eg) q as) =
   last (last_delivered_cursor q # run_trace event_delivered eg q as)"
proof (induction as arbitrary: q)
  case (Cons a as)
  show ?case
    using Cons.IH [OF queue_step_inv [OF Cons.prems], of eg a] queue_step_events(2) [OF Cons.prems, of eg a]
    by simp
qed simp

lemma sorted_append_prefix: "sorted_wrt P (xs @ ys) \<Longrightarrow> sorted_wrt P xs"
  by (simp add: sorted_wrt_append)

text \<open>What is delivered, then what is pending, ascends from the cursor the run started at.\<close>

lemma run_admitted_sorted:
  "queue_inv q \<Longrightarrow>
   sorted_wrt (<) (last_delivered_cursor q # pending_cursors q @ run_trace event_admitted eg q as)"
proof (induction as rule: rev_induct)
  case Nil
  then show ?case by (simp add: queue_inv_def cursors_inv_def)
next
  case (snoc a as)
  let ?q = "foldl (queue_step eg) q as"
  have inv: "queue_inv ?q" by (rule queue.run_inv [OF snoc.prems])
  have tr: "run_trace event_admitted eg q (as @ [a]) = run_trace event_admitted eg q as @ event_admitted ?q a"
    by (rule run_trace_snoc)
  show ?case
  proof (cases "event_admitted ?q a")
    case Nil
    then show ?thesis using snoc by (simp add: tr)
  next
    case (Cons c cs)
    then obtain f q' where a: "a = OpEvent c f" "cs = []" and ev: "queue_event c f ?q = Inr q'"
      by (cases a) (auto split: sum.splits)
    let ?l = "last_delivered_cursor q # pending_cursors q @ run_trace event_admitted eg q as"
    have "last ?l = last_queued_cursor ?q"
      using inv run_last_delivered [OF snoc.prems, of eg as] run_events [OF snoc.prems, of eg as]
      by (simp add: queue_inv_def cursors_inv_def last_append split: if_splits)
    moreover have "last_queued_cursor ?q < c"
      using queue_event_Inr [OF ev] inv by (auto simp: queue_inv_def)
    ultimately have "sorted_wrt (<) (?l @ [c])"
      using snoc by (intro sorted_wrt_snoc_last) auto
    then show ?thesis unfolding tr Cons a(2) by simp
  qed
qed

lemma queue_inv_delivered_le: "queue_inv q \<Longrightarrow> last_delivered_cursor q \<le> last_queued_cursor q"
  by (auto simp: queue_inv_def cursors_inv_def intro: order_less_imp_le)

lemma queue_step_limits [simp]: "q_limits (queue_step eg q a) = q_limits q"
proof (cases a)
  case (OpData sid p)
  then show ?thesis
    by (auto simp: queue_data_def queue_control_def Let_def
        split: sum.splits if_splits option.splits binary_stream_kind.splits)
next
  case (OpWrite w sink)
  have "q_limits (snd (next_frame q)) = q_limits q"
    by (simp add: next_frame_def split: option.split list.split frame.split)
  then show ?thesis
    using OpWrite by (auto simp: write_next_def split: prod.splits option.splits sum.splits)
qed (auto simp: commit_or_def open_binary_def close_binary_def grant_credit_def queue_control_def
    queue_event_def queue_terminal_frame_def Let_def
    split: sum.splits if_splits option.splits frame.splits)

lemma run_limits [simp]: "q_limits (foldl (queue_step eg) q as) = q_limits q"
  by (induction as arbitrary: q) simp_all

lemmas outbound_consts = default_outbound_limits_def MAX_CONTROL_QUEUE_BYTES_def
  MAX_EVENT_WINDOW_EVENTS_def MAX_EVENT_WINDOW_BYTES_def MAX_BINARY_QUEUE_BYTES_def
  MAX_OPEN_BINARY_STREAMS_def

lemma map_entry_sel: "map_of (AList.map_entry k f al) k = map_option f (map_of al k)"
  by (induction al) auto

section \<open>Properties\<close>

text \<open>
  C33: However a connection interleaves opening, closing, granting, queueing and writing, its queue
  stays within the protocol's bounds (2 MiB of control, 1000 Events, 2 MiB of Events, 2 MiB of
  binary data, 256 open streams), its byte counters are the exact sums of what is queued, and
  every queued frame is one the stream envelope carries.
\<close>
theorem queue_always_bounded:
  fixes eg as c
  defines "q \<equiv> foldl (queue_step eg) (queue_new c) as"
  shows "control_bytes q = payload_bytes (control q) + payload_bytes (ordered_control (ordered q))
    \<and> control_bytes q \<le> 2097152
    \<and> binary_bytes q = payload_bytes (binary q) + payload_bytes (ordered_data (ordered q))
    \<and> binary_bytes q \<le> 2097152
    \<and> event_bytes q = payload_bytes (map ev_frame (events q)) \<and> event_bytes q \<le> 2097152
    \<and> length (events q) \<le> 1000 \<and> length (streams q) \<le> 256
    \<and> distinct (map fst (streams q)) \<and> list_all (frame_ok True) (schedule q)"
proof -
  have q: "queue_inv q" unfolding q_def by (rule queue.run_inv [OF queue_new_inv])
  have lims: "q_limits q = default_outbound_limits"
    unfolding q_def by (simp add: run_limits queue_new_def queue_with_limits_def)
  show ?thesis
    using q by (auto simp: queue_inv_def bytes_inv_def streams_inv_def frames_inv_def lims
        outbound_consts schedule_def list_all_iff)
qed


text \<open>
  C31: No Event is lost, duplicated or reordered by the queue: after any run the cursors admitted
  are those delivered followed by those still pending, and all of them ascend strictly.
\<close>
theorem events_delivered_in_order:
  fixes eg as c
  defines "q \<equiv> foldl (queue_step eg) (queue_new c) as"
  shows "run_trace event_admitted eg (queue_new c) as =
      run_trace event_delivered eg (queue_new c) as @ pending_cursors q
    \<and> sorted_wrt (<) (c # run_trace event_admitted eg (queue_new c) as)
    \<and> last_delivered_cursor q = last (c # run_trace event_delivered eg (queue_new c) as)"
  unfolding q_def
  using run_events [OF queue_new_inv [of c], of eg as]
    run_admitted_sorted [OF queue_new_inv [of c], of eg as]
    run_last_delivered [OF queue_new_inv [of c], of eg as]
  by (simp add: queue_new_def queue_with_limits_def pending_cursors_def)

text \<open>
  C32: When an Event is refused because its consumer is too slow, the cursor the peer is told to
  resume after is the last Event actually delivered: every Event still pending lies strictly
  after it, so a replay from there misses nothing and repeats nothing delivered.
\<close>
theorem slow_consumer_resume_sound:
  assumes "queue_event cur f (foldl (queue_step eg) (queue_new c) as) = Inl e"
    and "disconnect_error e = Some resume_after"
  shows "resume_after = last (c # run_trace event_delivered eg (queue_new c) as)
    \<and> (\<forall>p \<in> set (pending_cursors (foldl (queue_step eg) (queue_new c) as)). resume_after < p)
    \<and> resume_after < cur"
proof -
  let ?q = "foldl (queue_step eg) (queue_new c) as"
  have inv: "queue_inv ?q" by (rule queue.run_inv [OF queue_new_inv])
  have e: "resume_after = last_delivered_cursor ?q" "last_queued_cursor ?q < cur"
    using assms by (auto simp: queue_event_def disconnect_error_def Let_def
        split: frame.splits if_splits)
  moreover have "last_delivered_cursor ?q = last (c # run_trace event_delivered eg (queue_new c) as)"
    using run_last_delivered [OF queue_new_inv [of c], of eg as]
    by (simp add: queue_new_def queue_with_limits_def)
  moreover have "\<forall>p \<in> set (pending_cursors ?q). last_delivered_cursor ?q < p"
    using inv by (simp add: queue_inv_def cursors_inv_def)
  moreover have "last_delivered_cursor ?q \<le> last_queued_cursor ?q"
    by (rule queue_inv_delivered_le [OF inv])
  ultimately show ?thesis by auto
qed

theorem slow_consumer_resume_sound_witness:
  "queue_event 41 (Control (StreamId 5) (replicate 1048577 0)) (queue_new 40) =
     Inl (SlowConsumer 40) \<and> (40 :: u64) < 41"
proof -
  have e: "queue_event 41 (Control (StreamId 5) (replicate 1048577 0))
      (foldl (queue_step (\<lambda>_ _. None)) (queue_new 40) []) = Inl (SlowConsumer 40)"
    by (simp add: queue_event_def queue_new_def queue_with_limits_def is_connection_iff
        CONNECTION_STREAM_def frame_consts)
  have d: "disconnect_error (SlowConsumer 40) = Some 40" by (simp add: disconnect_error_def)
  show ?thesis using slow_consumer_resume_sound [OF e d] e by simp
qed

text \<open>
  Raw data is queued only within the receiver's credit and the offset space, and its offset
  always advances by exactly its length. Queued bytes are charged against the credit; when the
  queue is full only a Terminal stream may go on, and its loss is reported by a control frame
  (at control priority) carrying the exact missing range before the offset moves.
\<close>
lemma queue_data_accounting:
  assumes "queue_inv q" and "queue_data eg sid payload q = Inr (q', out)"
  shows "\<exists>st st'. map_of (streams q) sid = Some st \<and> map_of (streams q') sid = Some st'
    \<and> length payload \<le> unat (credit st)
    \<and> unat (next_offset st') = unat (next_offset st) + length payload
    \<and> (case out of
         Queued \<Rightarrow> unat (credit st') = unat (credit st) - length payload
           \<and> binary q' = binary q @ [Data sid payload] \<and> control q' = control q
       | TerminalGap off n \<Rightarrow> bs_kind st = Terminal \<and> credit st' = credit st
           \<and> off = next_offset st \<and> unat n = length payload \<and> binary q' = binary q
           \<and> (\<exists>gap. eg off n = Some gap \<and> control q' = control q @ [Control sid gap]))"
proof -
  have l: "lims_small (q_limits q)" using assms(1) by (simp add: queue_inv_def)
  from queue_data_Inr [OF assms(2) l] obtain st where st: "map_of (streams q) sid = Some st"
    and p: "length payload \<le> MAX_DATA_FRAME" "length payload \<le> unat (credit st)"
      "unat (next_offset st) + length payload < 2 ^ 64"
    and out: "(out = Queued \<and> binary_bytes q + length payload \<le> lim_binary_bytes (q_limits q) \<and>
          q' = q\<lparr>streams := AList.map_entry sid
                   (\<lambda>s. s\<lparr>credit := credit s - of_nat (length payload),
                           next_offset := next_offset st + of_nat (length payload)\<rparr>) (streams q),
                 binary_bytes := binary_bytes q + length payload,
                 binary := binary q @ [Data sid payload]\<rparr>)
       \<or> (out = TerminalGap (next_offset st) (of_nat (length payload)) \<and> bs_kind st = Terminal \<and>
          (\<exists>gap q1. eg (next_offset st) (of_nat (length payload)) = Some gap \<and>
             queue_control (Control sid gap) q = Inr q1 \<and>
             q' = q1\<lparr>streams := AList.map_entry sid
                   (\<lambda>s. s\<lparr>next_offset := next_offset st + of_nat (length payload)\<rparr>) (streams q1)\<rparr>))" .
  have n: "unat (of_nat (length payload) :: u64) = length payload"
    using p(1) by (simp add: frame_consts unat_of_nat)
  have off: "unat (next_offset st + of_nat (length payload)) = unat (next_offset st) + length payload"
    using p(3) n by (simp add: unat_word_ariths)
  have cr: "unat (credit st - of_nat (length payload)) = unat (credit st) - length payload"
    using p(2) n by (simp add: unat_u64_diff word_le_nat_alt)
  from out show ?thesis
  proof (elim disjE conjE exE)
    fix gap q1
    assume g: "eg (next_offset st) (of_nat (length payload)) = Some gap"
      and q1: "queue_control (Control sid gap) q = Inr q1"
    have "streams q1 = streams q" "binary q1 = binary q" "control q1 = control q @ [Control sid gap]"
      using q1 by (auto simp: queue_control_def Let_def split: if_splits)
    moreover assume "q' = q1\<lparr>streams := AList.map_entry sid
        (\<lambda>s. s\<lparr>next_offset := next_offset st + of_nat (length payload)\<rparr>) (streams q1)\<rparr>"
      "out = TerminalGap (next_offset st) (of_nat (length payload))" "bs_kind st = Terminal"
    ultimately show ?thesis using st p n off g by (simp add: map_entry_sel)
  qed (use st p n off cr in \<open>simp add: map_entry_sel\<close>)
qed

lemma queue_data_accounting_witness:
  "\<exists>q' st'. queue_data (\<lambda>_ _. Some [1]) (StreamId 1) [7, 8]
       ((queue_new 0)\<lparr>streams := [(StreamId 1, \<lparr>bs_kind = Terminal, credit = 8, next_offset = 0\<rparr>)]\<rparr>)
     = Inr (q', Queued) \<and>
   map_of (streams q') (StreamId 1) = Some st' \<and> unat (next_offset st') = 2 \<and> unat (credit st') = 6"
proof -
  let ?q = "(queue_new 0)\<lparr>streams := [(StreamId 1, \<lparr>bs_kind = Terminal, credit = 8, next_offset = 0\<rparr>)]\<rparr>"
  have "queue_step eg (queue_new 0) (OpOpen (StreamId 1) Terminal) =
      (queue_new 0)\<lparr>streams := [(StreamId 1, \<lparr>bs_kind = Terminal, credit = 0, next_offset = 0\<rparr>)]\<rparr>" for eg
    by (simp add: open_binary_def queue_new_def queue_with_limits_def is_connection_iff
        CONNECTION_STREAM_def outbound_consts)
  then have "?q = foldl (queue_step (\<lambda>_ _. None)) (queue_new 0)
      [OpOpen (StreamId 1) Terminal, OpGrant (StreamId 1) 8]"
    by (simp add: grant_credit_def u64_checked_add_def)
  then have inv: "queue_inv ?q" using queue.run_inv [OF queue_new_inv] by metis
  have "\<exists>q'. queue_data (\<lambda>_ _. Some [1]) (StreamId 1) [7, 8] ?q = Inr (q', Queued)"
    by (simp add: queue_data_def queue_new_def queue_with_limits_def outbound_consts
        u64_checked_add_def frame_consts usize_sat_add_def usize_max_def)
  then obtain q' where d: "queue_data (\<lambda>_ _. Some [1]) (StreamId 1) [7, 8] ?q = Inr (q', Queued)"
    by blast
  show ?thesis using queue_data_accounting [OF inv d] d by auto
qed

end
