(* ===== verification/Jet_Control.thy ===== *)
theory Jet_Control
  imports Jet_Frame
begin

text \<open>
  The strict JSON codec of control frames, \<open>jet-protocol/src/transport/control.rs\<close>.

  \<open>validate_shape\<close> is a one-pass byte scanner that bounds nesting, the entries of one
  collection and the entries of all collections before the JSON parser runs. Its state
  is the stack of open collections (innermost first), the running total and the two
  string flags. The parser behind it (\<open>serde_json::from_slice\<close>) is the parameter
  \<open>from_slice\<close> of \<open>decode_control\<close>.

  The reference is the grammar of JSON texts (\<open>json_text\<close>, with insignificant white
  space): on every JSON text the scanner accepts exactly when the value's depth, widest
  collection and total number of entries are within the limits.
\<close>

section \<open>The scanner\<close>

definition MAX_NESTING_DEPTH :: nat where
  "MAX_NESTING_DEPTH = 64"

definition MAX_COLLECTION_ITEMS :: nat where
  "MAX_COLLECTION_ITEMS = 4096"

definition MAX_CONTROL_ITEMS :: nat where
  "MAX_CONTROL_ITEMS = 8192"

datatype control_error =
    ControlOversized nat nat
  | TooDeep nat
  | CollectionTooLarge nat
  | TooManyItems nat
  | Malformed

record scan_state =
  collections :: "nat list"
  total_items :: nat
  in_string :: bool
  escaped :: bool

definition increment_items :: "nat \<Rightarrow> nat \<Rightarrow> control_error + (nat \<times> nat)" where
  "increment_items items tot =
     (if items + 1 > MAX_COLLECTION_ITEMS then Inl (CollectionTooLarge MAX_COLLECTION_ITEMS)
      else if tot + 1 > MAX_CONTROL_ITEMS then Inl (TooManyItems MAX_CONTROL_ITEMS)
      else Inr (items + 1, tot + 1))"

definition count_entry :: "scan_state \<Rightarrow> control_error + scan_state" where
  "count_entry st =
     (case collections st of
        [] \<Rightarrow> Inr st
      | c # cs \<Rightarrow>
          rbind (increment_items c (total_items st))
            (\<lambda>(c', t'). Inr (st\<lparr>collections := c' # cs, total_items := t'\<rparr>)))"

definition count_first :: "scan_state \<Rightarrow> control_error + scan_state" where
  "count_first st =
     (case collections st of
        [] \<Rightarrow> Inr st
      | c # cs \<Rightarrow> if c = 0 then count_entry st else Inr st)"

definition is_ascii_whitespace :: "byte \<Rightarrow> bool" where
  "is_ascii_whitespace b \<longleftrightarrow> b = 32 \<or> b = 9 \<or> b = 10 \<or> b = 12 \<or> b = 13"

definition scan_byte :: "scan_state \<Rightarrow> byte \<Rightarrow> control_error + scan_state" where
  "scan_byte st b =
     (if in_string st
      then Inr (if escaped st then st\<lparr>escaped := False\<rparr>
                else if b = 92 then st\<lparr>escaped := True\<rparr>
                else if b = 34 then st\<lparr>in_string := False\<rparr>
                else st)
      else if b = 34 then rbind (count_first st) (\<lambda>st. Inr (st\<lparr>in_string := True\<rparr>))
      else if b = 91 \<or> b = 123
      then rbind (count_first st) (\<lambda>st.
             if length (collections st) = MAX_NESTING_DEPTH then Inl (TooDeep MAX_NESTING_DEPTH)
             else Inr (st\<lparr>collections := 0 # collections st\<rparr>))
      else if b = 44 then count_entry st
      else if b = 93 \<or> b = 125 then Inr (st\<lparr>collections := tl (collections st)\<rparr>)
      else if is_ascii_whitespace b then Inr st
      else count_first st)"

fun scan_bytes :: "scan_state \<Rightarrow> byte list \<Rightarrow> control_error + scan_state" where
  "scan_bytes st [] = Inr st"
| "scan_bytes st (b # bs) = rbind (scan_byte st b) (\<lambda>st'. scan_bytes st' bs)"

definition scan_start :: scan_state where
  "scan_start = \<lparr>collections = [], total_items = 0, in_string = False, escaped = False\<rparr>"

definition validate_shape :: "byte list \<Rightarrow> control_error + unit" where
  "validate_shape bytes = rbind (scan_bytes scan_start bytes) (\<lambda>_. Inr ())"

definition decode_control :: "(byte list \<Rightarrow> 'a option) \<Rightarrow> byte list \<Rightarrow> control_error + 'a" where
  "decode_control from_slice bytes =
     (if length bytes > MAX_CONTROL_FRAME then Inl (ControlOversized (length bytes) MAX_CONTROL_FRAME)
      else rbind (validate_shape bytes) (\<lambda>_. ok_or (from_slice bytes) Malformed))"

definition encode_control :: "('a \<Rightarrow> byte list option) \<Rightarrow> 'a \<Rightarrow> control_error + byte list" where
  "encode_control to_vec v = ok_or (to_vec v) Malformed"

section \<open>JSON texts\<close>

datatype json =
    JAtom "byte list"
  | JStr "byte list"
  | JArr "json list"
  | JObj "(byte list \<times> json) list"

definition json_ws :: "byte list \<Rightarrow> bool" where
  "json_ws w \<longleftrightarrow> (\<forall>b \<in> set w. b = 32 \<or> b = 9 \<or> b = 10 \<or> b = 13)"

text \<open>The bytes of numbers, \<open>true\<close>, \<open>false\<close> and \<open>null\<close>.\<close>

definition atom_byte :: "byte \<Rightarrow> bool" where
  "atom_byte b \<longleftrightarrow> 48 \<le> unat b \<and> unat b \<le> 57 \<or> 97 \<le> unat b \<and> unat b \<le> 122
     \<or> b = 69 \<or> b = 43 \<or> b = 45 \<or> b = 46"

fun str_ok :: "byte list \<Rightarrow> bool" where
  "str_ok [] \<longleftrightarrow> True"
| "str_ok (b # bs) \<longleftrightarrow>
     (if b = 34 then False
      else if b = 92 then (case bs of [] \<Rightarrow> False | _ # r \<Rightarrow> str_ok r)
      else str_ok bs)"

definition quoted :: "byte list \<Rightarrow> byte list" where
  "quoted s = [34] @ s @ [34]"

inductive json_text :: "json \<Rightarrow> byte list \<Rightarrow> bool"
  and elems_text :: "json list \<Rightarrow> byte list \<Rightarrow> bool"
  and members_text :: "(byte list \<times> json) list \<Rightarrow> byte list \<Rightarrow> bool"
where
  atom: "a \<noteq> [] \<Longrightarrow> list_all atom_byte a \<Longrightarrow> json_text (JAtom a) a"
| str: "str_ok s \<Longrightarrow> json_text (JStr s) (quoted s)"
| arr0: "json_ws w \<Longrightarrow> json_text (JArr []) ([91] @ w @ [93])"
| arr: "elems_text vs bs \<Longrightarrow> json_text (JArr vs) ([91] @ bs @ [93])"
| obj0: "json_ws w \<Longrightarrow> json_text (JObj []) ([123] @ w @ [125])"
| obj: "members_text ms bs \<Longrightarrow> json_text (JObj ms) ([123] @ bs @ [125])"
| elem1: "json_text v b \<Longrightarrow> json_ws w1 \<Longrightarrow> json_ws w2 \<Longrightarrow> elems_text [v] (w1 @ b @ w2)"
| elems: "json_text v b \<Longrightarrow> json_ws w1 \<Longrightarrow> json_ws w2 \<Longrightarrow> elems_text vs bs \<Longrightarrow>
    elems_text (v # vs) ((w1 @ b @ w2) @ [44] @ bs)"
| member1: "json_text v b \<Longrightarrow> str_ok k \<Longrightarrow> json_ws w1 \<Longrightarrow> json_ws w2 \<Longrightarrow> json_ws w3 \<Longrightarrow> json_ws w4 \<Longrightarrow>
    members_text [(k, v)] (w1 @ quoted k @ w2 @ [58] @ w3 @ b @ w4)"
| members: "json_text v b \<Longrightarrow> str_ok k \<Longrightarrow> json_ws w1 \<Longrightarrow> json_ws w2 \<Longrightarrow> json_ws w3 \<Longrightarrow> json_ws w4 \<Longrightarrow>
    members_text ms bs \<Longrightarrow>
    members_text ((k, v) # ms) ((w1 @ quoted k @ w2 @ [58] @ w3 @ b @ w4) @ [44] @ bs)"

fun json_depth :: "json \<Rightarrow> nat" where
  "json_depth (JAtom a) = 0"
| "json_depth (JStr s) = 0"
| "json_depth (JArr vs) = Suc (fold max (map json_depth vs) 0)"
| "json_depth (JObj ms) = Suc (fold max (map (\<lambda>m. json_depth (snd m)) ms) 0)"

fun json_items :: "json \<Rightarrow> nat" where
  "json_items (JAtom a) = 0"
| "json_items (JStr s) = 0"
| "json_items (JArr vs) = length vs + sum_list (map json_items vs)"
| "json_items (JObj ms) = length ms + sum_list (map (\<lambda>m. json_items (snd m)) ms)"

fun json_widest :: "json \<Rightarrow> nat" where
  "json_widest (JAtom a) = 0"
| "json_widest (JStr s) = 0"
| "json_widest (JArr vs) = fold max (map json_widest vs) (length vs)"
| "json_widest (JObj ms) = fold max (map (\<lambda>m. json_widest (snd m)) ms) (length ms)"

section \<open>The scanner on JSON texts\<close>

definition outside :: "nat list \<Rightarrow> nat \<Rightarrow> scan_state" where
  "outside cs t = \<lparr>collections = cs, total_items = t, in_string = False, escaped = False\<rparr>"

definition touched :: "nat list \<Rightarrow> nat list" where
  "touched cs = (case cs of [] \<Rightarrow> [] | c # r \<Rightarrow> max c 1 # r)"

definition touch_cost :: "nat list \<Rightarrow> nat" where
  "touch_cost cs = (case cs of [] \<Rightarrow> 0 | c # r \<Rightarrow> if c = 0 then 1 else 0)"

lemma outside_simps [simp]:
  "collections (outside cs t) = cs"
  "(outside cs t)\<lparr>collections := cs'\<rparr> = outside cs' t"
  by (simp_all add: outside_def)

lemmas control_consts = MAX_NESTING_DEPTH_def MAX_COLLECTION_ITEMS_def MAX_CONTROL_ITEMS_def

lemma touched_simps [simp]:
  "touched (touched cs) = touched cs" "touch_cost (touched cs) = 0"
  "length (touched cs) = length cs" "touch_cost (Suc c # cs) = 0" "touched (Suc c # cs) = Suc c # cs"
  "touched [] = []" "touch_cost [] = 0"
  by (simp_all add: touched_def touch_cost_def split: list.split)

lemma fold_max_le: "fold max xs a \<le> n \<longleftrightarrow> a \<le> (n :: nat) \<and> (\<forall>x \<in> set xs. x \<le> n)"
  by (induction xs arbitrary: a) auto

lemma add_fold_max_le:
  "a + Suc (fold max xs 0) \<le> (n :: nat) \<longleftrightarrow> a < n \<and> (\<forall>x \<in> set xs. Suc a + x \<le> n)"
proof (cases "a < n")
  case True
  then have "a + Suc (fold max xs 0) \<le> n \<longleftrightarrow> fold max xs 0 \<le> n - Suc a" by auto
  then show ?thesis using True by (fastforce simp: fold_max_le)
qed simp

lemma scan_append: "scan_bytes st (xs @ ys) = rbind (scan_bytes st xs) (\<lambda>st'. scan_bytes st' ys)"
  by (induction xs arbitrary: st) (simp_all add: rbind_assoc)

lemma outcome_count_first:
  assumes "t \<le> MAX_CONTROL_ITEMS"
  shows "outcome (count_first (outside cs t)) (t + touch_cost cs \<le> MAX_CONTROL_ITEMS)
    (outside (touched cs) (t + touch_cost cs))"
  using assms
  by (auto simp: outcome_def count_first_def count_entry_def increment_items_def outside_def
      touched_def touch_cost_def control_consts split: list.split)

lemma scan_ws: "json_ws w \<Longrightarrow> scan_bytes (outside cs t) w = Inr (outside cs t)"
  by (induction w)
    (auto simp: json_ws_def scan_byte_def outside_def is_ascii_whitespace_def)

lemma atom_byte_plain: "atom_byte b \<Longrightarrow> scan_byte (outside cs t) b = count_first (outside cs t)"
  by (auto simp: atom_byte_def scan_byte_def outside_def is_ascii_whitespace_def)

lemma outcome_atom:
  "a \<noteq> [] \<Longrightarrow> list_all atom_byte a \<Longrightarrow> t \<le> MAX_CONTROL_ITEMS \<Longrightarrow>
   outcome (scan_bytes (outside cs t) a) (t + touch_cost cs \<le> MAX_CONTROL_ITEMS)
     (outside (touched cs) (t + touch_cost cs))"
proof (induction a arbitrary: cs t)
  case (Cons b a)
  show ?case
  proof (cases "a = []")
    case True
    then show ?thesis
      using outcome_rbind [OF outcome_count_first [OF Cons.prems(3), of cs], where f = Inr and Q = True]
        Cons.prems by (simp add: atom_byte_plain)
  next
    case False
    have ab: "scan_byte (outside cs t) b = count_first (outside cs t)" "list_all atom_byte a"
      using Cons.prems(2) by (simp_all add: atom_byte_plain)
    have "outcome (scan_bytes (outside cs t) (b # a))
      (t + touch_cost cs \<le> MAX_CONTROL_ITEMS \<and>
       t + touch_cost cs + touch_cost (touched cs) \<le> MAX_CONTROL_ITEMS)
      (outside (touched (touched cs)) (t + touch_cost cs + touch_cost (touched cs)))"
      unfolding scan_bytes.simps ab(1)
      by (rule outcome_rbind [OF outcome_count_first [OF Cons.prems(3)]]) (rule Cons.IH [OF False ab(2)])
    then show ?thesis by simp
  qed
qed simp

lemma scan_str_body:
  "str_ok s \<Longrightarrow> scan_bytes ((outside cs t)\<lparr>in_string := True\<rparr>) (s @ [34]) = Inr (outside cs t)"
proof (induction s rule: str_ok.induct)
  case 1
  then show ?case by (simp add: scan_byte_def outside_def)
next
  case (2 b bs)
  then show ?case
    by (cases bs) (auto simp: scan_byte_def outside_def split: if_splits)
qed

lemma outcome_quoted:
  assumes "str_ok s" and "t \<le> MAX_CONTROL_ITEMS"
  shows "outcome (scan_bytes (outside cs t) (quoted s)) (t + touch_cost cs \<le> MAX_CONTROL_ITEMS)
    (outside (touched cs) (t + touch_cost cs))"
proof -
  have "scan_bytes (outside cs t) (quoted s) = rbind (count_first (outside cs t))
      (\<lambda>st. scan_bytes (st\<lparr>in_string := True\<rparr>) (s @ [34]))"
    by (simp add: quoted_def scan_byte_def rbind_assoc) (simp add: outside_def)
  moreover have "outcome (rbind (count_first (outside cs t))
      (\<lambda>st. scan_bytes (st\<lparr>in_string := True\<rparr>) (s @ [34])))
      (t + touch_cost cs \<le> MAX_CONTROL_ITEMS \<and> True) (outside (touched cs) (t + touch_cost cs))"
    by (rule outcome_rbind [OF outcome_count_first [OF assms(2)]])
      (simp add: scan_str_body [OF assms(1)])
  ultimately show ?thesis by simp
qed

text \<open>One value in any context, then the entries of an array and of an object.\<close>

definition value_fits :: "json \<Rightarrow> nat list \<Rightarrow> nat \<Rightarrow> bool" where
  "value_fits v cs t \<longleftrightarrow>
     length cs + json_depth v \<le> MAX_NESTING_DEPTH \<and> json_widest v \<le> MAX_COLLECTION_ITEMS \<and>
     t + touch_cost cs + json_items v \<le> MAX_CONTROL_ITEMS"

definition after_value :: "json \<Rightarrow> nat list \<Rightarrow> nat \<Rightarrow> scan_state" where
  "after_value v cs t = outside (touched cs) (t + touch_cost cs + json_items v)"

text \<open>\<open>k\<close> entries of the innermost collection are counted before \<open>n\<close> more follow.\<close>

definition entries :: "nat \<Rightarrow> nat \<Rightarrow> nat" where
  "entries k n = max k 1 + n - 1"

definition entries_fit :: "json list \<Rightarrow> nat \<Rightarrow> nat list \<Rightarrow> nat \<Rightarrow> bool" where
  "entries_fit vs k cs t \<longleftrightarrow>
     entries k (length vs) \<le> MAX_COLLECTION_ITEMS \<and>
     (\<forall>v \<in> set vs. Suc (length cs) + json_depth v \<le> MAX_NESTING_DEPTH \<and>
        json_widest v \<le> MAX_COLLECTION_ITEMS) \<and>
     t + (entries k (length vs) - k) + sum_list (map json_items vs) \<le> MAX_CONTROL_ITEMS"

definition after_entries :: "json list \<Rightarrow> nat \<Rightarrow> nat list \<Rightarrow> nat \<Rightarrow> scan_state" where
  "after_entries vs k cs t =
     outside (entries k (length vs) # cs)
       (t + (entries k (length vs) - k) + sum_list (map json_items vs))"

lemma outcome_open:
  assumes "t \<le> MAX_CONTROL_ITEMS" and "length cs \<le> MAX_NESTING_DEPTH" and "b = 91 \<or> b = 123"
  shows "outcome (scan_bytes (outside cs t) [b])
    (t + touch_cost cs \<le> MAX_CONTROL_ITEMS \<and> length cs < MAX_NESTING_DEPTH)
    (outside (0 # touched cs) (t + touch_cost cs))"
proof -
  have "scan_bytes (outside cs t) [b] = rbind (count_first (outside cs t))
      (\<lambda>st. if length (collections st) = MAX_NESTING_DEPTH then Inl (TooDeep MAX_NESTING_DEPTH)
           else Inr (st\<lparr>collections := 0 # collections st\<rparr>))"
    using assms(3) by (cases "count_first (outside cs t)") (auto simp: scan_byte_def outside_def)
  moreover have "outcome \<dots>
      (t + touch_cost cs \<le> MAX_CONTROL_ITEMS \<and> length cs < MAX_NESTING_DEPTH)
      (outside (0 # touched cs) (t + touch_cost cs))"
    by (rule outcome_rbind [OF outcome_count_first [OF assms(1)]])
      (use assms(2) in \<open>auto simp: outcome_def\<close>)
  ultimately show ?thesis by simp
qed

lemma scan_close: "b = 93 \<or> b = 125 \<Longrightarrow> scan_bytes (outside (c # cs) t) [b] = Inr (outside cs t)"
  by (auto simp: scan_byte_def outside_def is_ascii_whitespace_def)

lemma outcome_comma:
  "outcome (scan_bytes (outside (c # cs) t) [44])
     (Suc c \<le> MAX_COLLECTION_ITEMS \<and> Suc t \<le> MAX_CONTROL_ITEMS) (outside (Suc c # cs) (Suc t))"
  by (auto simp: outcome_def scan_byte_def count_entry_def increment_items_def outside_def)

lemma scan_colon: "scan_bytes (outside (Suc c # cs) t) [58] = Inr (outside (Suc c # cs) t)"
  by (simp add: scan_byte_def outside_def count_first_def is_ascii_whitespace_def)

lemma outcome_ws_around:
  assumes "outcome (scan_bytes (outside cs t) b) P (outside cs' t')" and "json_ws w1" and "json_ws w2"
  shows "outcome (scan_bytes (outside cs t) (w1 @ b @ w2)) P (outside cs' t')"
  using assms by (auto simp: scan_append scan_ws outcome_def)

lemma outcome_close:
  assumes "outcome (scan_bytes st bs) P (outside (c # cs) t)" and "b = 93 \<or> b = 125"
  shows "outcome (scan_bytes st (bs @ [b])) P (outside cs t)"
  using assms scan_close [OF assms(2)] by (auto simp: scan_append outcome_def)

lemma touch_cons: "touched (k # cs) = max k 1 # cs" "touch_cost (k # cs) = max k 1 - k"
  by (auto simp: touched_def touch_cost_def)

definition value_scans :: "json \<Rightarrow> byte list \<Rightarrow> bool" where
  "value_scans v b \<longleftrightarrow>
     (\<forall>cs t. t \<le> MAX_CONTROL_ITEMS \<longrightarrow> length cs \<le> MAX_NESTING_DEPTH \<longrightarrow>
        outcome (scan_bytes (outside cs t) b) (value_fits v cs t) (after_value v cs t))"

definition entry_scans :: "json \<Rightarrow> byte list \<Rightarrow> bool" where
  "entry_scans v b \<longleftrightarrow>
     (\<forall>k cs t. t \<le> MAX_CONTROL_ITEMS \<longrightarrow> Suc (length cs) \<le> MAX_NESTING_DEPTH \<longrightarrow>
        outcome (scan_bytes (outside (k # cs) t) b) (value_fits v (k # cs) t) (after_value v (k # cs) t))"

definition entries_scan :: "json list \<Rightarrow> byte list \<Rightarrow> bool" where
  "entries_scan vs bs \<longleftrightarrow> vs \<noteq> [] \<and>
     (\<forall>k cs t. t \<le> MAX_CONTROL_ITEMS \<longrightarrow> Suc (length cs) \<le> MAX_NESTING_DEPTH \<longrightarrow>
        k \<le> MAX_COLLECTION_ITEMS \<longrightarrow>
        outcome (scan_bytes (outside (k # cs) t) bs) (entries_fit vs k cs t) (after_entries vs k cs t))"

lemma entry_scans_elem:
  "value_scans v b \<Longrightarrow> json_ws w1 \<Longrightarrow> json_ws w2 \<Longrightarrow> entry_scans v (w1 @ b @ w2)"
  unfolding entry_scans_def value_scans_def after_value_def
  by (intro allI impI outcome_ws_around) auto

lemma entry_scans_member:
  assumes v: "value_scans v b" and k: "str_ok key"
    and w: "json_ws w1" "json_ws w2" "json_ws w3" "json_ws w4"
  shows "entry_scans v (w1 @ quoted key @ w2 @ [58] @ w3 @ b @ w4)"
  unfolding entry_scans_def
proof (intro allI impI)
  fix n :: nat and cs :: "nat list" and t :: nat
  assume t: "t \<le> MAX_CONTROL_ITEMS" and cs: "Suc (length cs) \<le> MAX_NESTING_DEPTH"
  let ?c = "touch_cost (n # cs)"
  obtain m where m: "touched (n # cs) = Suc m # cs" by (cases n) (auto simp: touch_cons)
  have val: "outcome (scan_bytes (outside (Suc m # cs) (t + ?c)) (w3 @ b @ w4))
      (value_fits v (Suc m # cs) (t + ?c)) (after_value v (Suc m # cs) (t + ?c))"
    if "t + ?c \<le> MAX_CONTROL_ITEMS"
    using v [unfolded value_scans_def, rule_format, of "t + ?c" "Suc m # cs"] w that cs
    unfolding after_value_def by (intro outcome_ws_around) auto
  have "outcome (scan_bytes (outside (n # cs) t) (w1 @ quoted key @ w2 @ [58] @ w3 @ b @ w4))
    (t + ?c \<le> MAX_CONTROL_ITEMS \<and> value_fits v (Suc m # cs) (t + ?c))
    (after_value v (Suc m # cs) (t + ?c))"
    unfolding scan_append [of _ w1] scan_append [of _ "quoted key"] scan_ws [OF w(1)] rbind_simps
    by (rule outcome_rbind [OF outcome_quoted [OF k t]])
      (use val in \<open>simp add: m scan_append [of _ w2] scan_append [of _ "[58]", simplified]
        scan_ws [OF w(2)] scan_colon [simplified]\<close>)
  then show "outcome (scan_bytes (outside (n # cs) t) (w1 @ quoted key @ w2 @ [58] @ w3 @ b @ w4))
    (value_fits v (n # cs) t) (after_value v (n # cs) t)"
    by (rule outcome_cong) (auto simp: value_fits_def after_value_def m)
qed

lemma entries_scan_single:
  assumes "entry_scans v b"
  shows "entries_scan [v] b"
  unfolding entries_scan_def
proof (intro conjI allI impI)
  fix k :: nat and cs :: "nat list" and t :: nat
  assume "t \<le> MAX_CONTROL_ITEMS" "Suc (length cs) \<le> MAX_NESTING_DEPTH" "k \<le> MAX_COLLECTION_ITEMS"
  then show "outcome (scan_bytes (outside (k # cs) t) b) (entries_fit [v] k cs t) (after_entries [v] k cs t)"
    using assms [unfolded entry_scans_def, rule_format, of t cs k]
    by (auto intro!: outcome_cong [of _ "value_fits v (k # cs) t" "after_value v (k # cs) t"]
        simp: value_fits_def entries_fit_def entries_def touch_cons after_value_def
        after_entries_def control_consts)
qed simp

lemma entries_fit_Cons:
  assumes "vs \<noteq> []"
  shows "entries_fit (v # vs) k cs t \<longleftrightarrow>
    value_fits v (k # cs) t \<and>
    (Suc (max k 1) \<le> MAX_COLLECTION_ITEMS \<and>
     Suc (t + (max k 1 - k) + json_items v) \<le> MAX_CONTROL_ITEMS) \<and>
    entries_fit vs (Suc (max k 1)) cs (Suc (t + (max k 1 - k) + json_items v))"
proof -
  obtain n where n: "length vs = Suc n" using assms by (cases vs) auto
  obtain m where m: "max k 1 = m" "k \<le> m" "1 \<le> m" by simp
  have e: "entries k (length (v # vs)) = m + Suc n" "entries (Suc m) (length vs) = m + Suc n"
    using m n by (simp_all add: entries_def)
  show ?thesis
    unfolding entries_fit_def value_fits_def touch_cons e m(1) using m(2,3) by auto
qed

lemma after_entries_Cons:
  assumes "vs \<noteq> []"
  shows "after_entries (v # vs) k cs t =
    after_entries vs (Suc (max k 1)) cs (Suc (t + (max k 1 - k) + json_items v))"
proof -
  obtain n where n: "length vs = Suc n" using assms by (cases vs) auto
  obtain m where m: "max k 1 = m" "k \<le> m" "1 \<le> m" by simp
  have e: "entries k (length (v # vs)) = m + Suc n" "entries (Suc m) (length vs) = m + Suc n"
    using m n by (simp_all add: entries_def)
  show ?thesis unfolding after_entries_def e m(1) using m(2) by (auto intro: arg_cong2 [where f = outside])
qed

lemma entries_scan_Cons:
  assumes "entry_scans v b" and "entries_scan vs bs"
  shows "entries_scan (v # vs) (b @ [44] @ bs)"
  unfolding entries_scan_def
proof (intro conjI allI impI)
  fix k :: nat and cs :: "nat list" and t :: nat
  assume t: "t \<le> MAX_CONTROL_ITEMS" and cs: "Suc (length cs) \<le> MAX_NESTING_DEPTH"
  let ?t = "t + (max k 1 - k) + json_items v"
  have vs: "vs \<noteq> []" using assms(2) by (simp add: entries_scan_def)
  have v: "outcome (scan_bytes (outside (k # cs) t) b) (value_fits v (k # cs) t)
      (outside (max k 1 # cs) ?t)"
    using assms(1) t cs by (simp add: entry_scans_def after_value_def touch_cons)
  have r: "outcome (scan_bytes (outside (Suc (max k 1) # cs) (Suc ?t)) bs)
      (entries_fit vs (Suc (max k 1)) cs (Suc ?t)) (after_entries vs (Suc (max k 1)) cs (Suc ?t))"
    if "Suc (max k 1) \<le> MAX_COLLECTION_ITEMS \<and> Suc ?t \<le> MAX_CONTROL_ITEMS"
    using assms(2) that cs unfolding entries_scan_def by blast
  show "outcome (scan_bytes (outside (k # cs) t) (b @ [44] @ bs)) (entries_fit (v # vs) k cs t)
      (after_entries (v # vs) k cs t)"
    unfolding entries_fit_Cons [OF vs] after_entries_Cons [OF vs] scan_append [of _ b]
      scan_append [of _ "[44]"]
    by (intro outcome_rbind [OF v] outcome_rbind [OF outcome_comma] r)
qed simp

text \<open>From the entries of a collection to the collection.\<close>

lemma value_scans_collection:
  assumes "entries_scan vs bs" and b: "b = 91 \<or> b = 123" and c: "c = 93 \<or> c = 125"
    and d: "json_depth v = Suc (fold max (map json_depth vs) 0)"
    and i: "json_items v = length vs + sum_list (map json_items vs)"
    and w: "json_widest v = fold max (map json_widest vs) (length vs)"
  shows "value_scans v ([b] @ bs @ [c])"
  unfolding value_scans_def
proof (intro allI impI)
  fix cs :: "nat list" and t :: nat
  assume t: "t \<le> MAX_CONTROL_ITEMS" and cs: "length cs \<le> MAX_NESTING_DEPTH"
  let ?t = "t + touch_cost cs"
  have "vs \<noteq> []" using assms(1) by (simp add: entries_scan_def)
  then have n: "entries 0 (length vs) = length vs" by (cases vs) (auto simp: entries_def)
  have e: "outcome (scan_bytes (outside (0 # touched cs) ?t) (bs @ [c]))
      (entries_fit vs 0 (touched cs) ?t) (outside (touched cs) (?t + json_items v))"
    if "?t \<le> MAX_CONTROL_ITEMS \<and> length cs < MAX_NESTING_DEPTH"
    using assms(1) [unfolded entries_scan_def, THEN conjunct2, rule_format, of ?t "touched cs" 0] that n i
    unfolding after_entries_def
    by (intro outcome_close [OF _ c, where c = "length vs"]) (simp add: add.assoc Suc_le_eq)
  have "outcome (scan_bytes (outside cs t) ([b] @ bs @ [c]))
      ((?t \<le> MAX_CONTROL_ITEMS \<and> length cs < MAX_NESTING_DEPTH) \<and> entries_fit vs 0 (touched cs) ?t)
      (outside (touched cs) (?t + json_items v))"
    unfolding scan_append [of _ "[b]"] by (rule outcome_rbind [OF outcome_open [OF t cs b]]) (rule e)
  then show "outcome (scan_bytes (outside cs t) ([b] @ bs @ [c])) (value_fits v cs t) (after_value v cs t)"
  proof (rule outcome_cong)
    show "((?t \<le> MAX_CONTROL_ITEMS \<and> length cs < MAX_NESTING_DEPTH) \<and> entries_fit vs 0 (touched cs) ?t)
      = value_fits v cs t"
      unfolding value_fits_def entries_fit_def n d i w add_fold_max_le fold_max_le by auto
  qed (simp add: after_value_def)
qed

lemma value_scans_empty:
  assumes ws: "json_ws w" and b: "b = 91 \<or> b = 123" and c: "c = 93 \<or> c = 125"
    and v: "json_depth v = 1" "json_items v = 0" "json_widest v = 0"
  shows "value_scans v ([b] @ w @ [c])"
  unfolding value_scans_def
proof (intro allI impI)
  fix cs :: "nat list" and t :: nat
  assume t: "t \<le> MAX_CONTROL_ITEMS" and cs: "length cs \<le> MAX_NESTING_DEPTH"
  have "outcome (scan_bytes (outside cs t) ([b] @ w @ [c]))
      ((t + touch_cost cs \<le> MAX_CONTROL_ITEMS \<and> length cs < MAX_NESTING_DEPTH) \<and> True)
      (outside (touched cs) (t + touch_cost cs))"
    unfolding scan_append [of _ "[b]"]
    by (rule outcome_rbind [OF outcome_open [OF t cs b]])
      (simp add: scan_append scan_ws [OF ws] scan_close [OF c, simplified])
  then show "outcome (scan_bytes (outside cs t) ([b] @ w @ [c])) (value_fits v cs t) (after_value v cs t)"
    by (rule outcome_cong) (auto simp: value_fits_def after_value_def v)
qed

lemma json_text_scans:
  "json_text v b \<Longrightarrow> value_scans v b"
  "elems_text vs bs \<Longrightarrow> entries_scan vs bs"
  "members_text ms bs \<Longrightarrow> entries_scan (map snd ms) bs"
proof (induction rule: json_text_elems_text_members_text.inducts)
  case (atom a)
  then show ?case
    unfolding value_scans_def
    by (auto intro!: outcome_cong [OF outcome_atom] simp: value_fits_def after_value_def)
next
  case (str s)
  then show ?case
    unfolding value_scans_def
    by (auto intro!: outcome_cong [OF outcome_quoted] simp: value_fits_def after_value_def)
next
  case (arr0 w)
  then show ?case by (intro value_scans_empty) auto
next
  case (arr vs bs)
  then show ?case by (intro value_scans_collection) auto
next
  case (obj0 w)
  then show ?case by (intro value_scans_empty) auto
next
  case (obj ms bs)
  then show ?case by (intro value_scans_collection) (auto simp: comp_def)
next
  case (elem1 v b w1 w2)
  then show ?case by (intro entries_scan_single entry_scans_elem)
next
  case (elems v b w1 w2 vs bs)
  then show ?case by (intro entries_scan_Cons entry_scans_elem)
next
  case (member1 v b k w1 w2 w3 w4)
  then show ?case by (simp del: append.simps) (intro entries_scan_single entry_scans_member)
next
  case (members v b k w1 w2 w3 w4 ms bs)
  then show ?case unfolding list.map snd_conv by (intro entries_scan_Cons entry_scans_member)
qed

lemma validate_shape_json:
  assumes "json_text v b" and "json_ws w1" and "json_ws w2"
  shows "validate_shape (w1 @ b @ w2) = Inr () \<longleftrightarrow>
    json_depth v \<le> MAX_NESTING_DEPTH \<and> json_widest v \<le> MAX_COLLECTION_ITEMS \<and>
    json_items v \<le> MAX_CONTROL_ITEMS"
proof -
  have "outcome (scan_bytes (outside [] 0) (w1 @ b @ w2)) (value_fits v [] 0) (after_value v [] 0)"
    using json_text_scans(1) [OF assms(1), unfolded value_scans_def, rule_format, of 0 "[]"] assms(2,3)
    unfolding after_value_def by (intro outcome_ws_around) simp_all
  moreover have "scan_start = outside [] 0" by (simp add: scan_start_def outside_def)
  ultimately show ?thesis
    by (auto simp: validate_shape_def outcome_def value_fits_def rbind_Inr_iff split: if_splits)
qed

section \<open>Properties\<close>

text \<open>
  C40: On every JSON text, with any insignificant white space, the pre-parse scanner accepts exactly
  when the value nests at most 64 deep, has no collection of more than 4096 entries and at
  most 8192 entries in all; the decoder therefore hands the parser no other shape.
\<close>
theorem validate_shape_exact:
  assumes "json_text v b" and "json_ws w1" and "json_ws w2"
  shows "(validate_shape (w1 @ b @ w2) = Inr () \<longleftrightarrow>
      json_depth v \<le> 64 \<and> json_widest v \<le> 4096 \<and> json_items v \<le> 8192) \<and>
    (decode_control from_slice (w1 @ b @ w2) = Inr x \<longleftrightarrow>
      length (w1 @ b @ w2) \<le> 1048576 \<and> json_depth v \<le> 64 \<and> json_widest v \<le> 4096 \<and>
      json_items v \<le> 8192 \<and> from_slice (w1 @ b @ w2) = Some x)"
  using validate_shape_json [OF assms] unfolding control_consts
  by (auto simp: decode_control_def rbind_Inr_iff frame_consts)

theorem validate_shape_exact_witness:
  "validate_shape ([32] @ [91, 49, 44, 34, 92, 34, 44, 34, 93] @ []) = Inr ()"
proof -
  let ?v = "JArr [JAtom [49], JStr [92, 34, 44]]"
  have a: "json_text (JAtom [49]) [49]" by (rule atom) (simp_all add: atom_byte_def)
  have "json_text (JStr [92, 34, 44]) (quoted [92, 34, 44])" by (rule str) simp
  then have "elems_text [JAtom [49], JStr [92, 34, 44]]
      (([] @ [49] @ []) @ [44] @ ([] @ quoted [92, 34, 44] @ []))"
    by (intro elems elem1 a) (simp_all add: json_ws_def)
  from arr [OF this] have t: "json_text ?v [91, 49, 44, 34, 92, 34, 44, 34, 93]"
    by (simp add: quoted_def)
  have "json_ws [32]" "json_ws []" by (simp_all add: json_ws_def)
  from validate_shape_exact [OF t this, of "\<lambda>_. Some ()"] show ?thesis by simp
qed

end
