(* ===== verification/Jet_Session.thy ===== *)
theory Jet_Session
  imports Jet_Stream Jet_Control
begin

text \<open>
  The read and write loops of one daemon connection:
  \<open>jet-daemon/src/connection/session/mod.rs\<close> (\<open>read_requests\<close>) and \<open>writer.rs\<close>
  (\<open>queue_reply\<close>, \<open>write_replies\<close>), with the messages of
  \<open>jet-protocol/src/transport/stream_control.rs\<close> they look at.

  What \<open>serde_json\<close> makes of a payload is the record of parameters \<open>parsers\<close>; every use
  goes through \<open>decode_control\<close>. The concurrency of the loop is in explicit arguments:
  \<open>drain i\<close> says that the draining signal is seen at iteration \<open>i\<close>, \<open>sent i\<close> that the
  request of iteration \<open>i\<close> is taken by the processing task, and the list of batches
  says which replies the writer found waiting together.
\<close>

section \<open>Reading requests\<close>

definition MAX_PENDING_REPLIES :: nat where
  "MAX_PENDING_REPLIES = 16"

definition MULTIPLEXED_STREAMS_MINOR :: u32 where
  "MULTIPLEXED_STREAMS_MINOR = 2"

datatype stream_control =
    Credit u64
  | TerminalGapControl u64 u64
  | TerminalFinished u64
  | ArtifactFinished u64 "byte list"

datatype ordered_reply =
    TerminalAttached u64
  | TerminalResized u64
  | ErrorReply "u64 option"

record ('a, 'm) parsers =
  parse_artifact :: "byte list \<Rightarrow> 'a option"
  parse_message :: "byte list \<Rightarrow> 'm option"
  parse_stream_control :: "byte list \<Rightarrow> stream_control option"
  parse_reply :: "byte list \<Rightarrow> ordered_reply option"

datatype ('a, 'm) request =
    ReqArtifact stream_id 'a
  | ReqControl stream_id "byte list" 'm
  | ReqData stream_id "byte list"
  | ReqCredit stream_id u64

datatype stop =
    Disconnected
  | Draining
  | Protocol core_error

definition wire_error :: "error_category \<Rightarrow> string \<Rightarrow> core_error" where
  "wire_error cat c = \<lparr>category = cat, code = c, retryable = False, detailed = False\<rparr>"

definition malformed :: core_error where
  "malformed = wire_error InvalidInput ''protocol.malformed''"

definition draining_error :: core_error where
  "draining_error = \<lparr>category = Unavailable, code = ''daemon.draining'', retryable = True, detailed = False\<rparr>"

definition frame_stop :: "frame_error \<Rightarrow> stop" where
  "frame_stop e =
     (case e of
        Closed \<Rightarrow> Disconnected
      | Io \<Rightarrow> Disconnected
      | _ \<Rightarrow> Protocol (wire_error InvalidInput ''protocol.invalid_frame''))"

definition classify_frame :: "('a, 'm) parsers \<Rightarrow> u32 \<Rightarrow> frame \<Rightarrow> stop + ('a, 'm) request" where
  "classify_frame ps minor f =
     (case f of
        Data sid payload \<Rightarrow> Inr (ReqData sid payload)
      | Control sid payload \<Rightarrow>
          if MULTIPLEXED_STREAMS_MINOR \<le> minor \<and> is_connection sid
          then Inl (Protocol (wire_error InvalidInput ''protocol.invalid_stream''))
          else
            (case decode_control (parse_artifact ps) payload of
               Inr artifact \<Rightarrow> Inr (ReqArtifact sid artifact)
             | Inl _ \<Rightarrow>
                 (case decode_control (parse_message ps) payload of
                    Inr message \<Rightarrow> Inr (ReqControl sid payload message)
                  | Inl _ \<Rightarrow>
                      (case decode_control (parse_stream_control ps) payload of
                         Inr (Credit bytes) \<Rightarrow> Inr (ReqCredit sid bytes)
                       | Inr _ \<Rightarrow>
                           Inl (Protocol (wire_error InvalidInput ''protocol.unexpected_stream_control''))
                       | Inl _ \<Rightarrow> Inl (Protocol malformed)))))"

function read_requests ::
    "('a, 'm) parsers \<Rightarrow> bool \<Rightarrow> u32 \<Rightarrow> (nat \<Rightarrow> bool) \<Rightarrow> (nat \<Rightarrow> bool) \<Rightarrow> nat \<Rightarrow> byte list \<Rightarrow>
     ('a, 'm) request list \<times> stop" where
  "read_requests ps multiplexed minor drain sent i input =
     (if drain i then ([], Draining)
      else
        (case frame_read multiplexed input of
           Inl e \<Rightarrow> ([], frame_stop e)
         | Inr (f, rest) \<Rightarrow>
             if length rest < length input
             then
               (case classify_frame ps minor f of
                  Inl s \<Rightarrow> ([], s)
                | Inr r \<Rightarrow>
                    if sent i
                    then (let (rs, s) = read_requests ps multiplexed minor drain sent (Suc i) rest
                          in (r # rs, s))
                    else ([], Disconnected))
             else ([], Disconnected)))"
  by pat_completeness auto
termination
  by (relation "measure (\<lambda>(ps, m, minor, drain, sent, i, input). length input)") auto

declare read_requests.simps [simp del]

definition final_error :: "stop \<Rightarrow> core_error option" where
  "final_error s =
     (case s of Disconnected \<Rightarrow> None | Draining \<Rightarrow> Some draining_error | Protocol e \<Rightarrow> Some e)"

lemma wire_error_category [simp]: "category (wire_error cat c) = cat"
  by (simp add: wire_error_def)

lemma classify_frame_refusal:
  assumes "classify_frame ps minor f = Inl stop"
  shows "\<exists>e. stop = Protocol e \<and> category e = InvalidInput"
proof (cases f)
  case (Control sid payload)
  have "stop \<in> Protocol ` (wire_error InvalidInput ` UNIV)"
  proof (cases "MULTIPLEXED_STREAMS_MINOR \<le> minor \<and> is_connection sid")
    case True
    then show ?thesis using assms unfolding Control classify_frame_def frame.case if_P [OF True] by blast
  next
    case False
    note c = assms [unfolded Control classify_frame_def frame.case if_not_P [OF False]]
    from c show ?thesis
      by (cases "decode_control (parse_artifact ps) payload";
          cases "decode_control (parse_message ps) payload";
          cases "decode_control (parse_stream_control ps) payload")
        (auto simp: malformed_def split: stream_control.splits)
  qed
  then show ?thesis by auto
qed (use assms in \<open>simp add: classify_frame_def\<close>)

section \<open>Writing replies\<close>

definition is_ordered :: "('a, 'm) parsers \<Rightarrow> frame \<Rightarrow> bool" where
  "is_ordered ps f =
     (case f of
        Data sid payload \<Rightarrow> True
      | Control sid payload \<Rightarrow>
          (case decode_control (parse_reply ps) payload of
             Inr (ErrorReply None) \<Rightarrow> \<not> is_connection sid
           | _ \<Rightarrow> False)
          \<or> (case decode_control (parse_stream_control ps) payload of
               Inr (TerminalGapControl _ _) \<Rightarrow> True
             | Inr (TerminalFinished _) \<Rightarrow> True
             | Inr (ArtifactFinished _ _) \<Rightarrow> True
             | _ \<Rightarrow> False)
          \<or> (case decode_control (parse_reply ps) payload of
               Inr (TerminalAttached _) \<Rightarrow> True
             | Inr (TerminalResized _) \<Rightarrow> True
             | _ \<Rightarrow> False)
          \<or> (case decode_control (parse_artifact ps) payload of Inr _ \<Rightarrow> True | Inl _ \<Rightarrow> False))"

definition queue_reply ::
    "('a, 'm) parsers \<Rightarrow> frame \<Rightarrow> outbound_queue \<Rightarrow> stream_queue_error + outbound_queue" where
  "queue_reply ps f q = (if is_ordered ps f then queue_terminal_frame f q else queue_control f q)"

fun queue_batch ::
    "('a, 'm) parsers \<Rightarrow> frame list \<Rightarrow> outbound_queue \<Rightarrow> stream_queue_error + outbound_queue" where
  "queue_batch ps [] q = Inr q"
| "queue_batch ps (f # fs) q = rbind (queue_reply ps f q) (queue_batch ps fs)"

text \<open>
  The inner loop: write until the queue has nothing to hand out. Each round takes one
  frame off the schedule or ends the loop.
\<close>

lemma next_frame_Some_schedule:
  "next_frame q = (Some f, q') \<Longrightarrow> schedule q = f # schedule q'"
  by (cases "event_awaiting_write q")
    (auto simp: next_frame_awaiting dest: next_frame_schedule(1))

lemma write_next_Some_schedule:
  "write_next w sink q = (Inr (Some f), q') \<Longrightarrow> schedule q = f # schedule q'"
  by (auto simp: write_next_def dest!: next_frame_Some_schedule split: prod.splits option.splits sum.splits)

function write_pending ::
    "frame_writer \<Rightarrow> (byte list \<Rightarrow> bool) \<Rightarrow> outbound_queue \<Rightarrow> byte list \<times> bool \<times> outbound_queue" where
  "write_pending w sink q =
     (case write_next w sink q of
        (Inl e, q') \<Rightarrow> ([], False, q')
      | (Inr None, q') \<Rightarrow> ([], True, q')
      | (Inr (Some f), q') \<Rightarrow>
          (let (out, ok, q'') = write_pending w sink q'
           in (frame_buffer (writer_multiplexed w) f @ out, ok, q'')))"
  by pat_completeness auto
termination
proof (relation "measure (\<lambda>(w, sink, q). length (schedule q))", goal_cases)
  case 1
  then show ?case by simp
next
  case 2
  then show ?case by (auto dest!: write_next_Some_schedule [OF sym])
qed

declare write_pending.simps [simp del]

fun write_replies ::
    "('a, 'm) parsers \<Rightarrow> frame_writer \<Rightarrow> (byte list \<Rightarrow> bool) \<Rightarrow> frame list list \<Rightarrow> outbound_queue \<Rightarrow>
     byte list \<times> bool" where
  "write_replies ps w sink [] q = ([], True)"
| "write_replies ps w sink (batch # batches) q =
     (case queue_batch ps batch q of
        Inl e \<Rightarrow> ([], False)
      | Inr q' \<Rightarrow>
          (case write_pending w sink q' of
             (out, False, q'') \<Rightarrow> (out, False)
           | (out, True, q'') \<Rightarrow>
               (let (out', ok) = write_replies ps w sink batches q'' in (out @ out', ok))))"

section \<open>What the peer sees\<close>

lemma frame_write_default:
  assumes "frame_ok True f" and "writer_multiplexed w" and "writer_limits w = default_limits"
  shows "frame_write w (\<lambda>_. True) f = Inr (frame_buffer True f)"
proof -
  have lim: "limits_for_kind default_limits k = kind_limit k" for k
    by (cases k) (simp_all add: default_limits_def)
  have "length (frame_payload f) < 2 ^ 32"
    using assms(1) kind_limit_u32 [of "frame_kind_of f"] by (simp add: frame_ok_def)
  then show ?thesis
    using assms by (auto simp: frame_write_def frame_ok_def lim Let_def)
qed

definition idle :: "outbound_queue \<Rightarrow> bool" where
  "idle q \<longleftrightarrow> queue_inv q \<and> schedule q = [] \<and> event_awaiting_write q = None \<and>
     q_limits q = default_outbound_limits"

lemma idle_new: "idle (queue_new c)"
  using queue_new_inv [of c]
  by (simp add: idle_def queue_new_def queue_with_limits_def schedule_def)

lemma schedule_frame_ok: "queue_inv q \<Longrightarrow> f \<in> set (schedule q) \<Longrightarrow> frame_ok True f"
  by (auto simp: queue_inv_def frames_inv_def schedule_def)

lemma write_pending_all:
  assumes "queue_inv q" and "event_awaiting_write q = None" and "q_limits q = default_outbound_limits"
    and w: "writer_multiplexed w" "writer_limits w = default_limits"
  shows "\<exists>q'. write_pending w (\<lambda>_. True) q = (concat (map (frame_buffer True) (schedule q)), True, q')
    \<and> idle q'"
  using assms(1-3)
proof (induction "length (schedule q)" arbitrary: q)
  case 0
  then have "schedule q = []" by simp
  moreover have "next_frame q = (None, q)"
    using next_frame_spec [of q] 0 calculation by simp
  then have "write_next w (\<lambda>_. True) q = (Inr None, q)" by (simp add: write_next_def)
  then have "write_pending w (\<lambda>_. True) q = ([], True, q)"
    by (subst write_pending.simps) simp
  ultimately show ?case using 0 by (auto simp: idle_def)
next
  case (Suc n)
  then obtain f fs where sch: "schedule q = f # fs" by (cases "schedule q") auto
  obtain q1 where nf: "next_frame q = (Some f, q1)" and q1: "schedule q1 = fs"
    using next_frame_spec [of q] Suc.prems(2) sch by (cases "next_frame q") auto
  have ok: "frame_write w (\<lambda>_. True) f = Inr (frame_buffer True f)"
    using frame_write_default [OF schedule_frame_ok [OF Suc.prems(1)] w] sch by simp
  let ?q = "confirm_written q1"
  have wn: "write_next w (\<lambda>_. True) q = (Inr (Some f), ?q)" by (simp add: write_next_def nf ok)
  have "queue_inv ?q" "q_limits ?q = q_limits q"
    using write_next_inv [OF Suc.prems(1), of w "\<lambda>_. True"]
      queue_step_limits [of _ q "OpWrite w (\<lambda>_. True)"] wn by simp_all
  moreover have "n = length (schedule ?q)" using Suc.hyps(2) sch q1 by simp
  ultimately obtain q' where "write_pending w (\<lambda>_. True) ?q =
      (concat (map (frame_buffer True) fs), True, q')" and "idle q'"
    using Suc.hyps(1) [of ?q] Suc.prems q1 by auto
  then show ?case
    using w by (subst write_pending.simps) (simp add: wn sch)
qed

text \<open>A batch the queue takes whole: within the byte bounds, every frame valid on its path.\<close>

definition batch_ok :: "('a, 'm) parsers \<Rightarrow> frame list \<Rightarrow> bool" where
  "batch_ok ps batch \<longleftrightarrow>
     payload_bytes batch \<le> MAX_CONTROL_QUEUE_BYTES \<and>
     list_all (\<lambda>f. frame_ok True f \<and> frame_payload f \<noteq> [] \<and>
                   (is_ordered ps f \<longrightarrow> \<not> is_connection (frame_stream_id f))) batch"

lemma queue_reply_accepts:
  assumes "queue_inv q" and lims: "q_limits q = default_outbound_limits" and "events q = []" and "binary q = []"
    and "payload_bytes (control q) + payload_bytes (ordered q) + length (frame_payload f) \<le> MAX_CONTROL_QUEUE_BYTES"
    and "frame_ok True f" and "frame_payload f \<noteq> []"
    and "is_ordered ps f \<Longrightarrow> \<not> is_connection (frame_stream_id f)"
  shows "\<exists>q'. queue_reply ps f q = Inr q' \<and> queue_inv q' \<and> q_limits q' = default_outbound_limits \<and>
    events q' = [] \<and> binary q' = [] \<and> event_awaiting_write q' = event_awaiting_write q \<and>
    control q' = control q @ (if is_ordered ps f then [] else [f]) \<and>
    ordered q' = ordered q @ (if is_ordered ps f then [f] else [])"
proof -
  have split: "payload_bytes (ordered_control fs) \<le> payload_bytes fs"
    "payload_bytes (ordered_data fs) \<le> payload_bytes fs" for fs
    by (simp_all add: ordered_control_def ordered_data_def payload_bytes_def sum_list_map_mono_filter)
  have b: "control_bytes q + length (frame_payload f) \<le> MAX_CONTROL_QUEUE_BYTES"
    "binary_bytes q + length (frame_payload f) \<le> MAX_BINARY_QUEUE_BYTES"
    using assms(1,4,5) split [of "ordered q"]
    by (auto simp: queue_inv_def bytes_inv_def MAX_CONTROL_QUEUE_BYTES_def MAX_BINARY_QUEUE_BYTES_def)
  have sat: "usize_sat_add (control_bytes q) (length (frame_payload f)) = control_bytes q + length (frame_payload f)"
    "usize_sat_add (binary_bytes q) (length (frame_payload f)) = binary_bytes q + length (frame_payload f)"
    using b by (auto simp: usize_max_def MAX_CONTROL_QUEUE_BYTES_def MAX_BINARY_QUEUE_BYTES_def)
  show ?thesis
  proof (cases f)
    case (Data sid p)
    then have o: "is_ordered ps f" by (simp add: is_ordered_def)
    have "queue_reply ps f q = Inr (q\<lparr>binary_bytes := binary_bytes q + length p, ordered := ordered q @ [f]\<rparr>)"
      using assms Data o sat b
      by (auto simp: queue_reply_def queue_terminal_frame_def frame_ok_def Let_def default_outbound_limits_def)
    then show ?thesis
      using o assms queue_terminal_frame_inv [OF assms(1), of f] by (auto simp: queue_reply_def)
  next
    case (Control sid p)
    show ?thesis
    proof (cases "is_ordered ps f")
      case True
      have "queue_reply ps f q = Inr (q\<lparr>control_bytes := control_bytes q + length p, ordered := ordered q @ [f]\<rparr>)"
        using assms Control True sat b
        by (auto simp: queue_reply_def queue_terminal_frame_def frame_ok_def Let_def default_outbound_limits_def)
      then show ?thesis
        using True assms queue_terminal_frame_inv [OF assms(1), of f] by (auto simp: queue_reply_def)
    next
      case False
      have "queue_reply ps f q = Inr (q\<lparr>control_bytes := control_bytes q + length p, control := control q @ [f]\<rparr>)"
        using assms Control False sat b
        by (auto simp: queue_reply_def queue_control_def frame_ok_def Let_def default_outbound_limits_def)
      then show ?thesis
        using False assms queue_control_inv [OF assms(1), of f] by (auto simp: queue_reply_def)
    qed
  qed
qed

lemma queue_batch_accepts:
  assumes "queue_inv q" and "q_limits q = default_outbound_limits" and "events q = []" and "binary q = []"
    and "payload_bytes (control q) + payload_bytes (ordered q) + payload_bytes batch \<le> MAX_CONTROL_QUEUE_BYTES"
    and "list_all (\<lambda>f. frame_ok True f \<and> frame_payload f \<noteq> [] \<and>
           (is_ordered ps f \<longrightarrow> \<not> is_connection (frame_stream_id f))) batch"
  shows "\<exists>q'. queue_batch ps batch q = Inr q' \<and> queue_inv q' \<and> q_limits q' = default_outbound_limits \<and>
    event_awaiting_write q' = event_awaiting_write q \<and>
    schedule q' = (control q @ filter (\<lambda>f. \<not> is_ordered ps f) batch) @ ordered q @ filter (is_ordered ps) batch"
  using assms
proof (induction batch arbitrary: q)
  case Nil
  then show ?case by (simp add: schedule_def)
next
  case (Cons f batch)
  from Cons.prems queue_reply_accepts [of q f ps] obtain q1 where
    q1: "queue_reply ps f q = Inr q1" "queue_inv q1" "q_limits q1 = default_outbound_limits"
      "events q1 = []" "binary q1 = []" "event_awaiting_write q1 = event_awaiting_write q"
      "control q1 = control q @ (if is_ordered ps f then [] else [f])"
      "ordered q1 = ordered q @ (if is_ordered ps f then [f] else [])"
    by auto
  from Cons.IH [OF q1(2-5)] q1(6-8) Cons.prems(5,6) obtain q' where
    "queue_batch ps batch q1 = Inr q'" "queue_inv q'" "q_limits q' = default_outbound_limits"
    "event_awaiting_write q' = event_awaiting_write q1"
    "schedule q' = (control q1 @ filter (\<lambda>f. \<not> is_ordered ps f) batch) @ ordered q1 @ filter (is_ordered ps) batch"
    by (auto split: if_splits)
  then show ?case using q1 by (auto split: if_splits)
qed

lemma write_replies_all:
  assumes w: "writer_multiplexed w" "writer_limits w = default_limits"
  shows "idle q \<Longrightarrow> list_all (batch_ok ps) batches \<Longrightarrow>
    write_replies ps w (\<lambda>_. True) batches q =
    (concat (map (frame_buffer True)
       (concat (map (\<lambda>b. filter (\<lambda>f. \<not> is_ordered ps f) b @ filter (is_ordered ps) b) batches))), True)"
proof (induction batches arbitrary: q)
  case (Cons batch batches)
  have e: "events q = []" "binary q = []" "control q = []" "ordered q = []"
    using Cons.prems(1) by (simp_all add: idle_def schedule_def)
  from queue_batch_accepts [of q batch ps] Cons.prems e obtain q1 where
    q1: "queue_batch ps batch q = Inr q1" "queue_inv q1" "q_limits q1 = default_outbound_limits"
      "event_awaiting_write q1 = None"
      "schedule q1 = filter (\<lambda>f. \<not> is_ordered ps f) batch @ filter (is_ordered ps) batch"
    by (auto simp: idle_def batch_ok_def)
  from write_pending_all [OF q1(2,4,3) w] obtain q2 where
    "write_pending w (\<lambda>_. True) q1 = (concat (map (frame_buffer True) (schedule q1)), True, q2)" "idle q2"
    by blast
  then show ?case using Cons q1 by simp
qed simp

lemma read_requests_frame:
  assumes "frame_ok m f" and "\<not> drain i"
  shows "read_requests ps m minor drain sent i (frame_buffer m f @ rest) =
    (case classify_frame ps minor f of
       Inl s \<Rightarrow> ([], s)
     | Inr r \<Rightarrow> if sent i
         then (r # fst (read_requests ps m minor drain sent (Suc i) rest),
               snd (read_requests ps m minor drain sent (Suc i) rest))
         else ([], Disconnected))"
  using assms
  by (subst read_requests.simps)
    (simp add: frame_read_buffer length_frame_buffer frame_consts split: sum.split prod.split)

lemma read_requests_prefix:
  "list_all (frame_ok m) fs \<Longrightarrow> map (classify_frame ps minor) fs = map Inr rs \<Longrightarrow>
   read_requests ps m minor (\<lambda>_. False) (\<lambda>_. True) i (concat (map (frame_buffer m) fs) @ rest) =
   (rs @ fst (read_requests ps m minor (\<lambda>_. False) (\<lambda>_. True) (i + length fs) rest),
    snd (read_requests ps m minor (\<lambda>_. False) (\<lambda>_. True) (i + length fs) rest))"
proof (induction fs arbitrary: rs i)
  case (Cons f fs)
  then obtain r rs' where rs: "rs = r # rs'" "classify_frame ps minor f = Inr r"
    "map (classify_frame ps minor) fs = map Inr rs'" by (cases rs) auto
  have "read_requests ps m minor (\<lambda>_. False) (\<lambda>_. True) i
      (frame_buffer m f @ concat (map (frame_buffer m) fs) @ rest) =
    (r # fst (read_requests ps m minor (\<lambda>_. False) (\<lambda>_. True) (Suc i) (concat (map (frame_buffer m) fs) @ rest)),
     snd (read_requests ps m minor (\<lambda>_. False) (\<lambda>_. True) (Suc i) (concat (map (frame_buffer m) fs) @ rest)))"
    using Cons.prems rs by (simp add: read_requests_frame)
  then show ?case using Cons.IH [OF _ rs(3)] Cons.prems rs by simp
qed simp

section \<open>Properties\<close>

text \<open>
  C34: Replies reach the peer complete and in order: whatever batches the writer picks up (each
  within the queue's byte bounds), the peer reading the connection gets, batch by batch, first
  the direct replies and then the ordered terminal and artifact frames, each group in the
  order it was sent, and nothing else; so ordered frames are never reordered across batches.
\<close>
theorem replies_reach_peer_in_order:
  assumes "writer_multiplexed w" and "writer_limits w = default_limits" and "list_all (batch_ok ps) batches"
  shows "snd (write_replies ps w (\<lambda>_. True) batches (queue_new 0)) \<and>
    read_frames True (fst (write_replies ps w (\<lambda>_. True) batches (queue_new 0))) =
      (concat (map (\<lambda>b. filter (\<lambda>f. \<not> is_ordered ps f) b @ filter (is_ordered ps) b) batches), Closed) \<and>
    filter (is_ordered ps) (fst (read_frames True
        (fst (write_replies ps w (\<lambda>_. True) batches (queue_new 0))))) =
      filter (is_ordered ps) (concat batches)"
proof -
  let ?out = "concat (map (\<lambda>b. filter (\<lambda>f. \<not> is_ordered ps f) b @ filter (is_ordered ps) b) batches)"
  have ok: "f \<in> set ?out \<Longrightarrow> frame_ok True f" for f
    using assms(3) by (auto simp: list_all_iff batch_ok_def)
  note wr = write_replies_all [OF assms(1,2) idle_new [of 0] assms(3)]
  have s: "snd (write_replies ps w (\<lambda>_. True) batches (queue_new 0))" by (simp add: wr)
  have r: "read_frames True (fst (write_replies ps w (\<lambda>_. True) batches (queue_new 0))) = (?out, Closed)"
    unfolding wr fst_conv by (rule read_frames_concat [OF ok])
  have "filter (is_ordered ps) ?out = filter (is_ordered ps) (concat batches)"
    by (simp add: filter_concat comp_def)
  with s r show ?thesis by simp
qed

definition no_parsers :: "(unit, unit) parsers" where
  "no_parsers = \<lparr>parse_artifact = \<lambda>_. None, parse_message = \<lambda>_. None,
     parse_stream_control = \<lambda>_. None, parse_reply = \<lambda>_. None\<rparr>"

theorem replies_reach_peer_in_order_witness:
  "read_frames True (fst (write_replies no_parsers (enable_multiplexing writer_new) (\<lambda>_. True)
      [[Data (StreamId 1) [7], Control (StreamId 2) [8]]] (queue_new 0))) =
    ([Control (StreamId 2) [8], Data (StreamId 1) [7]], Closed)"
proof -
  have o: "\<not> is_ordered no_parsers (Control (StreamId 2) [8])" "is_ordered no_parsers (Data (StreamId 1) [7])"
    by (auto simp: is_ordered_def no_parsers_def decode_control_def split: sum.splits ordered_reply.splits
        dest!: sym [of _ "Inr _"] simp: rbind_Inr_iff)
  have b: "list_all (batch_ok no_parsers) [[Data (StreamId 1) [7], Control (StreamId 2) [8]]]"
    using o by (simp add: batch_ok_def frame_ok_def is_connection_iff CONNECTION_STREAM_def
        frame_consts MAX_CONTROL_QUEUE_BYTES_def)
  show ?thesis
    using replies_reach_peer_in_order [OF _ _ b, of "enable_multiplexing writer_new"] o
    by (simp add: enable_multiplexing_def writer_new_def)
qed

text \<open>
  The requests handed to the core are exactly the peer's frames, classified, in order, and the
  first frame that violates the session protocol ends the session with its error: nothing the
  peer sent after it is looked at.
\<close>
lemma requests_stop_at_violation:
  assumes "list_all (frame_ok m) (fs @ [f])" and "map (classify_frame ps minor) fs = map Inr rs"
    and "classify_frame ps minor f = Inl stop"
  shows "read_requests ps m minor (\<lambda>_. False) (\<lambda>_. True) 0 (concat (map (frame_buffer m) (fs @ [f])) @ extra) = (rs, stop)
    \<and> (\<exists>e. stop = Protocol e \<and> final_error stop = Some e \<and> category e = InvalidInput)"
proof -
  have "read_requests ps m minor (\<lambda>_. False) (\<lambda>_. True) (length fs) (frame_buffer m f @ extra) = ([], stop)"
    using assms by (simp add: read_requests_frame)
  then have "read_requests ps m minor (\<lambda>_. False) (\<lambda>_. True) 0 (concat (map (frame_buffer m) (fs @ [f])) @ extra) = (rs, stop)"
    using read_requests_prefix [of m fs ps minor rs 0] assms by simp
  moreover have "\<exists>e. stop = Protocol e \<and> final_error stop = Some e \<and> category e = InvalidInput"
    using classify_frame_refusal [OF assms(3)] by (auto simp: final_error_def)
  ultimately show ?thesis by blast
qed

lemma requests_stop_at_violation_witness:
  "read_requests no_parsers True 2 (\<lambda>_. False) (\<lambda>_. True) 0
     (concat (map (frame_buffer True) ([Data (StreamId 3) [1]] @ [Control (StreamId 0) [2]])) @ [9, 9]) =
   ([ReqData (StreamId 3) [1]], Protocol (wire_error InvalidInput ''protocol.invalid_stream''))"
  using requests_stop_at_violation [of True "[Data (StreamId 3) [1]]" "Control (StreamId 0) [2]"
      no_parsers 2 "[ReqData (StreamId 3) [1]]"
      "Protocol (wire_error InvalidInput ''protocol.invalid_stream'')" "[9, 9]"]
  by (simp add: frame_ok_def is_connection_def frame_consts classify_frame_def MULTIPLEXED_STREAMS_MINOR_def)

end
