(* ===== verification/Jet_Turn.thy ===== *)
theory Jet_Turn
  imports Jet_Codec
begin

text \<open>
  The Turn queue of a Conversation: \<open>jet-core/src/turn/{mod,queue,dispatch}.rs\<close>, with the
  authority gate of \<open>plane_transfer/mod.rs\<close> that every admission asks first.

  \<open>conv\<close> is what the Plane store holds for one Conversation: whether it exists, its
  authority, the stored queue (in one of its two envelopes), the pending count and the
  Event journal. An operation is one write transaction: it returns the new contents, or
  the refusal after which the transaction is rolled back (\<open>commit_or\<close>). Failures of the
  database itself also roll back and are left out. Fresh identities (\<open>Uuid::now_v7\<close>) and
  the size of the encoded review Event (\<open>serde_json\<close>) are arguments. A failed \<open>expect\<close> is
  the error \<open>''panic''\<close>. The evidence of an Auto-continue decision is carried as \<open>'r\<close>, with
  only its status read here; the decisions are not modelled.
\<close>

section \<open>Data\<close>

datatype turn_source = User | Schedule | AutoContinue

datatype turn_state =
    Queued_Turn | Active | Completed | Superseded | Canceled | Withdrawn | Failed | OutcomeUnknown

record turn =
  t_id :: uuid
  t_sequence :: u64
  t_client :: uuid
  t_source :: turn_source
  t_state :: turn_state
  t_run :: "uuid option"

datatype schedule_firing_outcome = FiringQueued | FiringSuperseded | FiringExpired

text \<open>A local date and time is its number of seconds from 1970-01-01T00:00:00.\<close>

record schedule_firing =
  sf_id :: uuid
  sf_local :: int
  sf_due :: int

record scheduled_task =
  st_id :: uuid
  st_conversation :: uuid
  st_client :: uuid
  st_zone :: string
  st_time :: string
  st_prompt :: ustring
  st_next :: schedule_firing

record schedule_input =
  si_schedule :: uuid
  si_firing :: schedule_firing

record review_comment =
  rc_path :: ustring
  rc_line :: u32
  rc_comment :: ustring

record entry =
  e_model :: "string option"
  e_retry_run :: "uuid option"
  e_schedule :: "schedule_input option"
  e_turn :: turn
  e_prompt :: ustring
  e_review :: "review_comment list option"
  e_command :: uuid

datatype auto_continue_status =
    Disabled | Deferred | Pending | Dispatched | RetryCanceled | Exhausted

datatype auto_continue_policy = PolicyOff | PolicyRetry u32 u32 u32 ustring

record 'r auto_retry =
  ar_evidence :: 'r
  ar_status :: auto_continue_status

record 'r turn_queue =
  q_quota_until :: "int option"
  q_override :: "auto_continue_policy option"
  q_auto :: "'r auto_retry option"
  q_sequence :: u64
  q_entries :: "entry list"

definition empty_queue :: "'r turn_queue" where
  "empty_queue = \<lparr>q_quota_until = None, q_override = None, q_auto = None, q_sequence = 0, q_entries = []\<rparr>"

datatype 'r stored_queue = Guarded "'r turn_queue" | Legacy "'r turn_queue"

datatype event_actor =
    HarnessActor uuid uuid
  | RunSupervisor uuid uuid
  | InteractiveClient uuid
  | AutoContinueActor uuid
  | ScheduledTaskActor uuid uuid

datatype event_subject = OnConversation uuid | OnRun uuid uuid

datatype 'r event_kind =
    TurnChanged turn
  | ReviewSubmitted uuid "review_comment list"
  | TurnInput uuid ustring
  | AutoContinueChanged "'r auto_retry"
  | ScheduleCreated scheduled_task
  | ScheduleCanceled uuid
  | ScheduleFired uuid schedule_firing schedule_firing_outcome

record 'r event =
  ev_kind :: "'r event_kind"
  ev_origin :: event_actor
  ev_subject :: event_subject
  ev_at :: int

datatype authority_state = Home | Prepared | Relinquished

record 'r conv =
  c_id :: uuid
  c_exists :: bool
  c_authority :: authority_state
  c_frozen :: bool
  c_queue :: "'r stored_queue option"
  c_pending :: nat
  c_journal :: "'r event list"

section \<open>Authority, loading and saving\<close>

definition conversation_not_found :: core_error where
  "conversation_not_found = not_found ''conversation.not_found''"

definition not_authoritative :: core_error where
  "not_authoritative = conflict ''conversation.not_authoritative''"

definition require_not_frozen :: "'r conv \<Rightarrow> core_error + unit" where
  "require_not_frozen c = require (\<not> c_frozen c) (conflict ''conversation.transfer_prepared'')"

definition require_authoritative :: "'r conv \<Rightarrow> core_error + unit" where
  "require_authoritative c =
     (case c_authority c of
        Home \<Rightarrow> require_not_frozen c
      | Prepared \<Rightarrow> Inl not_authoritative
      | Relinquished \<Rightarrow> Inl not_authoritative)"

definition require_authoritative_id :: "'r conv \<Rightarrow> core_error + unit" where
  "require_authoritative_id c =
     rbind (require (c_exists c) conversation_not_found) (\<lambda>_. require_authoritative c)"

definition paused_by_transfer :: "core_error \<Rightarrow> core_error + unit" where
  "paused_by_transfer e =
     require (code e = ''conversation.not_authoritative'' \<or> code e = ''conversation.transfer_prepared'') e"

fun into_queue :: "'r stored_queue \<Rightarrow> 'r turn_queue" where
  "into_queue (Guarded q) = q"
| "into_queue (Legacy q) = q"

definition load_queue :: "'r conv \<Rightarrow> core_error + 'r turn_queue" where
  "load_queue c =
     rbind (require (c_exists c) conversation_not_found) (\<lambda>_.
       Inr (case c_queue c of None \<Rightarrow> empty_queue | Some s \<Rightarrow> into_queue s))"

definition is_queued :: "entry \<Rightarrow> bool" where
  "is_queued e \<longleftrightarrow> t_state (e_turn e) = Queued_Turn"

definition save_queue :: "'r turn_queue \<Rightarrow> 'r conv \<Rightarrow> 'r conv" where
  "save_queue q c =
     c\<lparr>c_queue := Some (if q_quota_until q \<noteq> None \<or> list_ex (\<lambda>e. e_retry_run e \<noteq> None) (q_entries q)
                      then Guarded q else Legacy q),
       c_pending := length (filter is_queued (q_entries q))\<rparr>"

definition snapshot_turns :: "'r conv \<Rightarrow> core_error + turn list" where
  "snapshot_turns c = rbind (load_queue c) (\<lambda>q. Inr (map e_turn (q_entries q)))"

definition append_event ::
    "'r event_kind \<Rightarrow> event_actor \<Rightarrow> event_subject \<Rightarrow> int \<Rightarrow> 'r conv \<Rightarrow> 'r conv" where
  "append_event k origin subj now c =
     c\<lparr>c_journal := c_journal c @ [\<lparr>ev_kind = k, ev_origin = origin, ev_subject = subj, ev_at = now\<rparr>]\<rparr>"

section \<open>Journalling a change\<close>

definition state_origin :: "uuid \<Rightarrow> turn \<Rightarrow> core_error + event_actor" where
  "state_origin actor t =
     (case t_state t of
        Completed \<Rightarrow> rbind (ok_or (t_run t) (internal ''panic'')) (\<lambda>r. Inr (HarnessActor r (t_client t)))
      | Active \<Rightarrow> rbind (ok_or (t_run t) (internal ''panic'')) (\<lambda>r. Inr (RunSupervisor r (t_client t)))
      | Failed \<Rightarrow> rbind (ok_or (t_run t) (internal ''panic'')) (\<lambda>r. Inr (RunSupervisor r (t_client t)))
      | OutcomeUnknown \<Rightarrow> rbind (ok_or (t_run t) (internal ''panic'')) (\<lambda>r. Inr (RunSupervisor r (t_client t)))
      | _ \<Rightarrow> Inr (InteractiveClient actor))"

definition entry_origin :: "uuid \<Rightarrow> entry \<Rightarrow> core_error + event_actor" where
  "entry_origin actor e =
     (let t = e_turn e;
          waiting = (t_state t = Queued_Turn \<or> t_state t = Superseded)
      in rbind (state_origin actor t) (\<lambda>origin.
           let origin = (if e_retry_run e \<noteq> None \<and> waiting then AutoContinueActor (t_client t) else origin)
           in Inr (if waiting
                   then (case e_schedule e of
                           None \<Rightarrow> origin
                         | Some i \<Rightarrow> ScheduledTaskActor (si_schedule i) (t_client t))
                   else origin)))"

definition entry_subject :: "uuid \<Rightarrow> turn \<Rightarrow> event_subject" where
  "entry_subject cid t = (case t_run t of None \<Rightarrow> OnConversation cid | Some r \<Rightarrow> OnRun cid r)"

function prompt_chunks :: "ustring \<Rightarrow> ustring list" where
  "prompt_chunks s =
     (if s = [] then []
      else fst (take_bytes 8192 s) # prompt_chunks (snd (take_bytes 8192 s)))"
  by pat_completeness auto
termination
  by (relation "measure length") (auto intro: take_bytes_shorter)

declare prompt_chunks.simps [simp del]

definition changed_events :: "uuid \<Rightarrow> uuid \<Rightarrow> entry \<Rightarrow> int \<Rightarrow> event_actor \<Rightarrow> 'r event list" where
  "changed_events actor cid e now origin =
     (let t = e_turn e;
          subj = entry_subject cid t;
          ev = (\<lambda>k o'. \<lparr>ev_kind = k, ev_origin = o', ev_subject = subj, ev_at = now\<rparr>)
      in [ev (TurnChanged t) origin] @
         (if t_state t = Queued_Turn
          then (case e_review e of
                  None \<Rightarrow> []
                | Some cs \<Rightarrow> [ev (ReviewSubmitted (t_id t) cs) (InteractiveClient actor)]) @
               map (\<lambda>chunk. ev (TurnInput (t_id t) chunk) origin) (prompt_chunks (e_prompt e))
          else []))"

definition changed :: "uuid \<Rightarrow> entry \<Rightarrow> int \<Rightarrow> 'r conv \<Rightarrow> core_error + 'r conv" where
  "changed actor e now c =
     rbind (entry_origin actor e) (\<lambda>origin.
       Inr (c\<lparr>c_journal := c_journal c @ changed_events actor (c_id c) e now origin\<rparr>))"

definition auto_continue_changed :: "uuid \<Rightarrow> 'r auto_retry \<Rightarrow> int \<Rightarrow> 'r conv \<Rightarrow> 'r conv" where
  "auto_continue_changed actor retry now c =
     append_event (AutoContinueChanged retry) (AutoContinueActor actor) (OnConversation (c_id c)) now c"

section \<open>Admission, withdrawal\<close>

datatype admission =
    AdmitScheduled ustring schedule_input
  | AdmitPrompt ustring
  | AdmitReview ustring "review_comment list"

fun into_parts :: "admission \<Rightarrow> ustring \<times> review_comment list option \<times> schedule_input option" where
  "into_parts (AdmitScheduled p i) = (p, None, Some i)"
| "into_parts (AdmitPrompt p) = (p, None, None)"
| "into_parts (AdmitReview p cs) = (p, Some cs, None)"

definition replaced :: "turn_source \<Rightarrow> entry \<Rightarrow> bool" where
  "replaced src e \<longleftrightarrow>
     t_state (e_turn e) = Queued_Turn \<and>
     ((src \<noteq> User \<and> t_source (e_turn e) = src) \<or> (src = User \<and> t_source (e_turn e) = AutoContinue))"

definition set_state :: "turn_state \<Rightarrow> entry \<Rightarrow> entry" where
  "set_state s e = e\<lparr>e_turn := (e_turn e)\<lparr>t_state := s\<rparr>\<rparr>"

definition prompt_total :: "entry list \<Rightarrow> nat" where
  "prompt_total es = sum_list (map (utf8_len \<circ> e_prompt) es)"

definition prepare ::
    "uuid \<Rightarrow> uuid \<Rightarrow> uuid \<Rightarrow> turn_source \<Rightarrow> admission \<Rightarrow> 'r conv \<Rightarrow>
     core_error + ('r turn_queue \<times> entry list)" where
  "prepare fresh actor command src adm c =
     (let (prompt, review, sched) = into_parts adm
      in if prompt = [] \<or> utf8_len prompt > 65536 then Inl (invalid_input ''turn.invalid_prompt'')
         else
           rbind (require_authoritative_id c) (\<lambda>_.
           rbind (load_queue c) (\<lambda>q.
             let kept = filter (\<lambda>e. \<not> replaced src e) (q_entries q);
                 removed = map (set_state (if src = User then Canceled else Superseded))
                             (filter (replaced src) (q_entries q))
             in if length kept \<ge> 128 \<or> prompt_total kept + utf8_len prompt > 1024 * 1024
                then Inl (conflict ''turn.queue_full'')
                else
                  rbind (ok_or (u64_checked_add (q_sequence q) 1) (conflict ''turn.sequence_exhausted'')) (\<lambda>sq.
                    let e = \<lparr>e_model = None, e_retry_run = None, e_schedule = sched,
                             e_turn = \<lparr>t_id = (case sched of None \<Rightarrow> fresh | Some i \<Rightarrow> sf_id (si_firing i)),
                                       t_sequence = sq, t_client = actor, t_source = src,
                                       t_state = Queued_Turn, t_run = None\<rparr>,
                             e_prompt = prompt, e_review = review, e_command = command\<rparr>
                    in Inr (q\<lparr>q_sequence := sq, q_entries := kept @ [e],
                              q_auto := (if src = User
                                         then map_option (\<lambda>r. r\<lparr>ar_status := RetryCanceled\<rparr>) (q_auto q)
                                         else q_auto q)\<rparr>,
                            removed @ [e])))))"

fun changed_all :: "uuid \<Rightarrow> entry list \<Rightarrow> int \<Rightarrow> 'r conv \<Rightarrow> core_error + 'r conv" where
  "changed_all actor [] now c = Inr c"
| "changed_all actor (e # es) now c = rbind (changed actor e now c) (changed_all actor es now)"

definition commit_turns ::
    "uuid \<Rightarrow> 'r turn_queue \<Rightarrow> entry list \<Rightarrow> int \<Rightarrow> 'r conv \<Rightarrow> core_error + 'r conv" where
  "commit_turns actor q changes now c =
     (let c1 = (if list_ex (\<lambda>e. t_source (e_turn e) = AutoContinue \<and> t_state (e_turn e) = Canceled) changes
                then (case q_auto q of None \<Rightarrow> c | Some r \<Rightarrow> auto_continue_changed actor r now c)
                else c)
      in rbind (changed_all actor changes now c1) (\<lambda>c2. Inr (save_queue q c2)))"

definition admit ::
    "uuid \<Rightarrow> uuid \<Rightarrow> uuid \<Rightarrow> turn_source \<Rightarrow> admission \<Rightarrow> int \<Rightarrow> 'r conv \<Rightarrow> core_error + 'r conv" where
  "admit fresh actor command src adm now c =
     rbind (prepare fresh actor command src adm c) (\<lambda>(q, changes).
       commit_turns actor q changes now c)"

definition ascii :: "string \<Rightarrow> ustring" where
  "ascii s = map of_char s"

definition review_prompt :: "review_comment list \<Rightarrow> ustring" where
  "review_prompt cs =
     ascii ''Review comments:'' @ [10] @
     concat (map (\<lambda>r. [10] @ rc_path r @ [58] @ map unat (fmt_decimal (unat (rc_line r))) @ [10]
                      @ rc_comment r @ [10]) cs)"

definition admit_review ::
    "(review_comment list \<Rightarrow> nat) \<Rightarrow> uuid \<Rightarrow> uuid \<Rightarrow> uuid \<Rightarrow> review_comment list \<Rightarrow> int \<Rightarrow> 'r conv \<Rightarrow>
     core_error + 'r conv" where
  "admit_review encoded_len fresh actor command cs now c =
     (if cs = [] \<or> length cs > 128 then Inl (invalid_input ''review.invalid_comments'')
      else if list_ex (\<lambda>r. rc_line r = 0 \<or> rc_comment r = [] \<or> utf8_len (rc_comment r) > 8192) cs
      then Inl (invalid_input ''review.invalid_comment'')
      else if utf8_len (review_prompt cs) > 65536 then Inl (invalid_input ''review.too_large'')
      else if encoded_len cs > 65536 then Inl (invalid_input ''review.too_large'')
      else admit fresh actor command User (AdmitReview (review_prompt cs) cs) now c)"

definition find_index :: "('a \<Rightarrow> bool) \<Rightarrow> 'a list \<Rightarrow> nat option" where
  "find_index P xs = (let i = length (takeWhile (\<lambda>x. \<not> P x) xs) in if i < length xs then Some i else None)"

definition remove_at :: "nat \<Rightarrow> 'a list \<Rightarrow> 'a list" where
  "remove_at i xs = take i xs @ drop (Suc i) xs"

definition withdraw :: "uuid \<Rightarrow> uuid \<Rightarrow> int \<Rightarrow> 'r conv \<Rightarrow> core_error + 'r conv" where
  "withdraw actor tid now c =
     rbind (load_queue c) (\<lambda>q.
     rbind (ok_or (find_index (\<lambda>e. t_id (e_turn e) = tid) (q_entries q)) (not_found ''turn.not_found'')) (\<lambda>i.
       let e = q_entries q ! i;
           t = e_turn e
       in if t_client t \<noteq> actor \<or> t_source t \<noteq> User \<or> t_state t \<noteq> Queued_Turn
          then Inl (conflict ''turn.withdraw_denied'')
          else
            rbind (changed actor (set_state Withdrawn e) now c) (\<lambda>c'.
              Inr (save_queue (q\<lparr>q_entries := remove_at i (q_entries q)\<rparr>) c'))))"

section \<open>Claiming and settling\<close>

definition ready :: "'r turn_queue \<Rightarrow> bool" where
  "ready q \<longleftrightarrow> q_entries q \<noteq> [] \<and> list_all is_queued (q_entries q)"

definition active_turn :: "uuid \<Rightarrow> 'r turn_queue \<Rightarrow> uuid option" where
  "active_turn run q =
     map_option (\<lambda>e. t_id (e_turn e))
       (find (\<lambda>e. t_state (e_turn e) = Active \<and> t_run (e_turn e) = Some run) (q_entries q))"

definition claim :: "uuid \<Rightarrow> 'r turn_queue \<Rightarrow> (entry \<times> 'r turn_queue) option" where
  "claim run q =
     (if \<not> ready q then None
      else
        (case q_entries q of
           [] \<Rightarrow> None
         | e # es \<Rightarrow>
             (let e' = e\<lparr>e_turn := (e_turn e)\<lparr>t_state := Active, t_run := Some run\<rparr>\<rparr>
              in Some (e', q\<lparr>q_entries := e' # es\<rparr>))))"

text \<open>What the claiming transaction reads of the Run and of the rest of the Plane.\<close>

record run_facts =
  rf_known :: bool
  rf_active :: bool
  rf_plan_turn :: "uuid option"
  rf_native :: "string option"
  rf_disconnected :: bool
  rf_source_offset :: u64
  rf_partial :: nat
  rf_checkpoint_open :: bool
  rf_delivery_blocks :: bool
  rf_matches_selection :: bool
  rf_energy :: "core_error option"
  rf_task_due :: "int list"

definition CATCH_UP_MS :: int where
  "CATCH_UP_MS = 7 * 24 * 60 * 60 * 1000"

definition i64_min :: int where
  "i64_min = - (2 ^ 63)"

definition schedule_expired :: "schedule_input \<Rightarrow> int \<Rightarrow> bool" where
  "schedule_expired i now \<longleftrightarrow> sf_due (si_firing i) < max (now - CATCH_UP_MS) i64_min"

definition can_dispatch :: "int list \<Rightarrow> 'r turn_queue \<Rightarrow> int \<Rightarrow> bool" where
  "can_dispatch due q now \<longleftrightarrow>
     ready q \<and> (case q_quota_until q of None \<Rightarrow> True | Some d \<Rightarrow> d \<le> now) \<and>
     (case q_entries q of
        [] \<Rightarrow> True
      | e # _ \<Rightarrow>
          (case e_schedule e of
             None \<Rightarrow> True
           | Some i \<Rightarrow> \<not> schedule_expired i now \<and> list_all (\<lambda>d. now < d) due))"

definition claimed :: "entry \<Rightarrow> 'r turn_queue \<Rightarrow> int \<Rightarrow> 'r conv \<Rightarrow> 'r turn_queue \<times> 'r conv" where
  "claimed e q now c =
     (case (e_retry_run e, q_auto q) of
        (Some _, Some r) \<Rightarrow>
          (let r' = r\<lparr>ar_status := Dispatched\<rparr>
           in (q\<lparr>q_auto := Some r', q_quota_until := None\<rparr>,
               auto_continue_changed (t_client (e_turn e)) r' now c))
      | _ \<Rightarrow> (q\<lparr>q_quota_until := None\<rparr>, c))"

definition dispatch_turn ::
    "run_facts \<Rightarrow> uuid \<Rightarrow> int \<Rightarrow> 'r conv \<Rightarrow> core_error + ('r conv \<times> (uuid \<times> ustring) option)" where
  "dispatch_turn rf run now c =
     (if \<not> rf_known rf \<or> (rf_plan_turn rf = None \<and> rf_native rf = None)
         \<or> \<not> rf_active rf \<or> rf_disconnected rf \<or> rf_source_offset rf = 0 \<or> rf_partial rf \<noteq> 0
         \<or> rf_checkpoint_open rf
      then Inr (c, None)
      else
        (case require_authoritative_id c of
           Inl e \<Rightarrow> rbind (paused_by_transfer e) (\<lambda>_. Inr (c, None))
         | Inr _ \<Rightarrow>
             if rf_delivery_blocks rf then Inr (c, None)
             else
               rbind (load_queue c) (\<lambda>q.
                 if \<not> can_dispatch (rf_task_due rf) q now \<or> \<not> rf_matches_selection rf
                 then Inr (c, None)
                 else
                   (case rf_energy rf of
                      Some e \<Rightarrow>
                        if code e = ''energy.budget_exhausted'' then Inr (c, None) else Inl e
                    | None \<Rightarrow>
                        (case claim run q of
                           None \<Rightarrow> Inr (c, None)
                         | Some (e, q1) \<Rightarrow>
                             (let (q2, c1) = claimed e q1 now c
                              in rbind (changed (t_client (e_turn e)) e now c1) (\<lambda>c2.
                                   Inr (save_queue q2 c2, Some (t_id (e_turn e), e_prompt e)))))))))"

datatype settlement = SettleCompleted uuid | SettleCanceled | SettleFailed | SettleUnknown

fun settlement_state :: "settlement \<Rightarrow> turn_state" where
  "settlement_state (SettleCompleted tid) = Completed"
| "settlement_state SettleCanceled = Canceled"
| "settlement_state SettleFailed = Failed"
| "settlement_state SettleUnknown = OutcomeUnknown"

definition invalid_completion :: core_error where
  "invalid_completion = conflict ''turn.invalid_completion''"

definition settle :: "uuid \<Rightarrow> settlement \<Rightarrow> int \<Rightarrow> 'r conv \<Rightarrow> core_error + 'r conv" where
  "settle run settlement now c =
     rbind (load_queue c) (\<lambda>q.
       case find_index (\<lambda>e. t_run (e_turn e) = Some run) (q_entries q) of
         None \<Rightarrow>
           (case settlement of
              SettleCompleted tid \<Rightarrow> if tid \<noteq> run then Inl invalid_completion else Inr c
            | _ \<Rightarrow> Inr c)
       | Some i \<Rightarrow>
           (let e = q_entries q ! i;
                s = settlement_state settlement
            in if (case settlement of SettleCompleted tid \<Rightarrow> tid \<noteq> t_id (e_turn e) | _ \<Rightarrow> False)
               then Inl invalid_completion
               else if t_state (e_turn e) = s then Inr c
               else
                 (let e' = set_state s e;
                      es = (if s = OutcomeUnknown then (q_entries q)[i := e'] else remove_at i (q_entries q))
                  in rbind (changed (t_client (e_turn e)) e' now c) (\<lambda>c'.
                       Inr (save_queue (q\<lparr>q_entries := es\<rparr>) c')))))"

section \<open>The invariant\<close>

definition queue_of :: "'r conv \<Rightarrow> 'r turn_queue" where
  "queue_of c = (case c_queue c of None \<Rightarrow> empty_queue | Some s \<Rightarrow> into_queue s)"

text \<open>
  Only the first entry may be claimed, sequences ascend, the capacity bounds hold and each
  background source has at most one waiting entry.
\<close>

definition slot_count :: "turn_source \<Rightarrow> entry list \<Rightarrow> nat" where
  "slot_count s es = length (filter (\<lambda>e. is_queued e \<and> t_source (e_turn e) = s) es)"

definition slot_inv :: "entry list \<Rightarrow> bool" where
  "slot_inv es \<longleftrightarrow> (\<forall>s. s \<noteq> User \<longrightarrow> slot_count s es \<le> 1)"

lemma slot_count_simps [simp]:
  "slot_count s [] = 0"
  "slot_count s (e # es) = (if is_queued e \<and> t_source (e_turn e) = s then 1 else 0) + slot_count s es"
  "slot_count s (a @ b) = slot_count s a + slot_count s b"
  by (simp_all add: slot_count_def)

lemma slot_count_filter: "slot_count s (filter P es) \<le> slot_count s es"
  by (induction es) auto

definition entry_ok :: "entry \<Rightarrow> bool" where
  "entry_ok e \<longleftrightarrow>
     (is_queued e \<and> t_run (e_turn e) = None \<or>
      t_state (e_turn e) \<in> {Active, OutcomeUnknown} \<and> t_run (e_turn e) \<noteq> None) \<and>
     e_prompt e \<noteq> [] \<and> utf8_len (e_prompt e) \<le> 65536"

definition before :: "entry \<Rightarrow> entry \<Rightarrow> bool" where
  "before a b \<longleftrightarrow> t_sequence (e_turn a) < t_sequence (e_turn b) \<and> is_queued b"

definition entries_inv :: "entry list \<Rightarrow> bool" where
  "entries_inv es \<longleftrightarrow>
     sorted_wrt before es \<and> list_all entry_ok es \<and> length es \<le> 128 \<and>
     prompt_total es \<le> 1024 * 1024 \<and> slot_inv es"

definition claimed_seqs :: "'r event list \<Rightarrow> u64 list" where
  "claimed_seqs j =
     concat (map (\<lambda>ev. case ev_kind ev of
                         TurnChanged t \<Rightarrow> if t_state t = Active then [t_sequence t] else []
                       | _ \<Rightarrow> []) j)"

definition claims_inv :: "'r turn_queue \<Rightarrow> u64 list \<Rightarrow> bool" where
  "claims_inv q cl \<longleftrightarrow>
     sorted_wrt (<) cl \<and>
     (\<forall>s \<in> set cl. s \<le> q_sequence q \<and> (\<forall>e \<in> set (q_entries q). is_queued e \<longrightarrow> s < t_sequence (e_turn e)))"

definition turns_inv :: "'r conv \<Rightarrow> bool" where
  "turns_inv c \<longleftrightarrow>
     entries_inv (q_entries (queue_of c)) \<and>
     (\<forall>e \<in> set (q_entries (queue_of c)). t_sequence (e_turn e) \<le> q_sequence (queue_of c)) \<and>
     claims_inv (queue_of c) (claimed_seqs (c_journal c))"

lemma claimed_seqs_append [simp]: "claimed_seqs (a @ b) = claimed_seqs a @ claimed_seqs b"
  by (simp add: claimed_seqs_def)

lemma claimed_seqs_inputs: "claimed_seqs (map (\<lambda>k. \<lparr>ev_kind = TurnInput t k, ev_origin = ac, ev_subject = sj, ev_at = n\<rparr>) ks) = []"
  by (induction ks) (simp_all add: claimed_seqs_def)

lemma claimed_seqs_changed:
  "claimed_seqs (changed_events actor cid e now origin) =
     (if t_state (e_turn e) = Active then [t_sequence (e_turn e)] else [])"
  unfolding changed_events_def Let_def claimed_seqs_append claimed_seqs_inputs [symmetric]
  by (simp add: claimed_seqs_inputs split: option.split) (simp add: claimed_seqs_def)

lemma load_queue_Inr [simp]: "load_queue c = Inr q \<longleftrightarrow> c_exists c \<and> q = queue_of c"
  by (auto simp: load_queue_def queue_of_def rbind_Inr_iff)

lemma queue_of_save [simp]: "queue_of (save_queue q c) = q"
  by (simp add: queue_of_def save_queue_def)

lemma save_queue_frame [simp]:
  "c_journal (save_queue q c) = c_journal c" "c_exists (save_queue q c) = c_exists c"
  by (simp_all add: save_queue_def)

lemma changed_Inr:
  "changed actor e now c = Inr c' \<longleftrightarrow>
     (\<exists>origin. entry_origin actor e = Inr origin \<and>
        c' = c\<lparr>c_journal := c_journal c @ changed_events actor (c_id c) e now origin\<rparr>)"
  by (auto simp: changed_def rbind_Inr_iff)

lemma changed_claims:
  "changed actor e now c = Inr c' \<Longrightarrow>
   claimed_seqs (c_journal c') =
     claimed_seqs (c_journal c) @ (if t_state (e_turn e) = Active then [t_sequence (e_turn e)] else [])"
  by (auto simp: changed_Inr claimed_seqs_changed)

lemma changed_all_claims:
  "changed_all actor es now c = Inr c' \<Longrightarrow> list_all (\<lambda>e. t_state (e_turn e) \<noteq> Active) es \<Longrightarrow>
   claimed_seqs (c_journal c') = claimed_seqs (c_journal c)"
proof (induction es arbitrary: c)
  case (Cons e es)
  then obtain c1 where "changed actor e now c = Inr c1" "changed_all actor es now c1 = Inr c'"
    by (auto simp: rbind_Inr_iff)
  then show ?case using Cons changed_claims [of actor e now c c1] by simp
qed simp

lemma auto_continue_changed_claims [simp]:
  "claimed_seqs (c_journal (auto_continue_changed actor r now c)) = claimed_seqs (c_journal c)"
  by (simp add: auto_continue_changed_def append_event_def claimed_seqs_def)

lemma find_index_Some:
  assumes "find_index P xs = Some i"
  obtains a x b where "xs = a @ x # b" and "i = length a" and "P x" and "xs ! i = x"
    and "remove_at i xs = a @ b" and "\<And>y. xs[i := y] = a @ y # b"
proof -
  define a where "a = takeWhile (\<lambda>x. \<not> P x) xs"
  have i: "i = length a" "i < length xs"
    using assms by (auto simp: find_index_def Let_def a_def split: if_splits)
  have app: "xs = a @ dropWhile (\<lambda>x. \<not> P x) xs" by (simp add: a_def)
  with i have "dropWhile (\<lambda>x. \<not> P x) xs \<noteq> []" by (metis append_Nil2 less_irrefl)
  then obtain x b where d: "dropWhile (\<lambda>x. \<not> P x) xs = x # b" "P x" by (metis hd_dropWhile list.collapse)
  with app have xs: "xs = a @ x # b" by simp
  show thesis
    by (rule that [OF xs i(1) d(2)]) (simp_all add: xs i(1) remove_at_def)
qed

text \<open>The invariant of the entries survives dropping any of them.\<close>

lemma slot_inv_filter: "slot_inv es \<Longrightarrow> slot_inv (filter P es)"
  unfolding slot_inv_def using slot_count_filter le_trans by blast

lemma prompt_total_simps [simp]:
  "prompt_total [] = 0" "prompt_total (e # es) = utf8_len (e_prompt e) + prompt_total es"
  "prompt_total (a @ b) = prompt_total a + prompt_total b"
  by (simp_all add: prompt_total_def)

lemma prompt_total_filter: "prompt_total (filter P es) \<le> prompt_total es"
  by (induction es) auto

lemma entries_inv_filter:
  assumes "entries_inv es"
  shows "entries_inv (filter P es)"
proof -
  have "length (filter P es) \<le> 128"
    using assms length_filter_le [of P es] unfolding entries_inv_def by linarith
  moreover have "prompt_total (filter P es) \<le> 1024 * 1024"
    using assms prompt_total_filter [of P es] by (simp add: entries_inv_def)
  moreover have "sorted_wrt before (filter P es)" "list_all entry_ok (filter P es)" "slot_inv (filter P es)"
    using assms by (auto simp: entries_inv_def sorted_wrt_filter slot_inv_filter list_all_iff)
  ultimately show ?thesis by (simp add: entries_inv_def)
qed

lemma slot_inv_drop_one: "slot_inv (a @ x # b) \<Longrightarrow> slot_inv (a @ b)"
  unfolding slot_inv_def by (metis slot_count_simps(2,3) add_leD1 add_leD2 add_le_mono1 le_add2 le_trans add.commute add.left_commute)

lemma entries_inv_drop_one:
  "entries_inv (a @ x # b) \<Longrightarrow> entries_inv (a @ b)"
  using slot_inv_drop_one [of a x b] by (auto simp: entries_inv_def sorted_wrt_append)

lemma slot_inv_demote: "slot_inv (a @ x # b) \<Longrightarrow> \<not> is_queued y \<Longrightarrow> slot_inv (a @ y # b)"
  using slot_inv_drop_one [of a x b] by (simp add: slot_inv_def)

text \<open>A claimed entry has no entry before it.\<close>

lemma claimed_is_first: "sorted_wrt before (a @ x # b) \<Longrightarrow> \<not> is_queued x \<Longrightarrow> a = []"
  by (cases a) (auto simp: before_def)

section \<open>Every operation keeps the invariant\<close>

lemma u64_succ_greater: "u64_checked_add a 1 = Some b \<Longrightarrow> a < b"
  by (auto simp: word_less_nat_alt dest: u64_checked_add_unat)

lemma is_queued_set_state [simp]: "is_queued (set_state s e) \<longleftrightarrow> s = Queued_Turn"
  by (simp add: is_queued_def set_state_def)

text \<open>What an accepted admission computes.\<close>

lemma prepare_Inr:
  assumes "prepare fresh actor command src adm c = Inr (q', changes)"
  obtains e where "q_entries q' = filter (\<lambda>e. \<not> replaced src e) (q_entries (queue_of c)) @ [e]"
    and "changes = map (set_state (if src = User then Canceled else Superseded))
           (filter (replaced src) (q_entries (queue_of c))) @ [e]"
    and "is_queued e" and "t_run (e_turn e) = None" and "t_source (e_turn e) = src"
    and "t_sequence (e_turn e) = q_sequence q'" and "q_sequence (queue_of c) < q_sequence q'"
    and "t_client (e_turn e) = actor" and "e_prompt e = fst (into_parts adm)"
    and "e_prompt e \<noteq> []" and "utf8_len (e_prompt e) \<le> 65536"
    and "length (filter (\<lambda>e. \<not> replaced src e) (q_entries (queue_of c))) < 128"
    and "prompt_total (filter (\<lambda>e. \<not> replaced src e) (q_entries (queue_of c))) + utf8_len (e_prompt e)
           \<le> 1024 * 1024"
    and "c_exists c" and "require_authoritative_id c = Inr ()"
proof -
  obtain prompt review sched where parts: "into_parts adm = (prompt, review, sched)"
    by (cases "into_parts adm")
  let ?kept = "filter (\<lambda>e. \<not> replaced src e) (q_entries (queue_of c))"
  have p: "prompt \<noteq> []" "utf8_len prompt \<le> 65536"
    using assms by (auto simp: prepare_def parts split: if_splits)
  have a: "require_authoritative_id c = Inr ()" "c_exists c"
    using assms p by (auto simp: prepare_def parts rbind_Inr_iff)
  have f: "length ?kept < 128" "prompt_total ?kept + utf8_len prompt \<le> 1024 * 1024"
    using assms p a by (auto simp: prepare_def parts rbind_Inr_iff Let_def split: if_splits)
  obtain sq where sq: "u64_checked_add (q_sequence (queue_of c)) 1 = Some sq"
    using assms p a f
    by (cases "u64_checked_add (q_sequence (queue_of c)) 1")
      (auto simp: prepare_def parts rbind_Inr_iff Let_def split: if_splits)
  note greater = u64_succ_greater [OF sq]
  let ?e = "\<lparr>e_model = None, e_retry_run = None, e_schedule = sched,
     e_turn = \<lparr>t_id = (case sched of None \<Rightarrow> fresh | Some i \<Rightarrow> sf_id (si_firing i)),
               t_sequence = sq, t_client = actor, t_source = src, t_state = Queued_Turn, t_run = None\<rparr>,
     e_prompt = prompt, e_review = review, e_command = command\<rparr>"
  have r: "q_entries q' = ?kept @ [?e]" "q_sequence q' = sq"
    "changes = map (set_state (if src = User then Canceled else Superseded))
       (filter (replaced src) (q_entries (queue_of c))) @ [?e]"
    using assms p a f sq by (auto simp: prepare_def parts rbind_Inr_iff Let_def split: if_splits)
  show thesis
    by (rule that [of ?e]) (use p a f r greater in \<open>simp_all add: is_queued_def parts\<close>)
qed

lemma slot_count_replaced:
  "src \<noteq> User \<Longrightarrow> slot_count src (filter (\<lambda>e. \<not> replaced src e) es) = 0"
  by (induction es) (auto simp: replaced_def is_queued_def)

lemma prepare_entries_inv:
  assumes "prepare fresh actor command src adm c = Inr (q', changes)" and "turns_inv c"
  shows "entries_inv (q_entries q')" and "\<forall>e \<in> set (q_entries q'). t_sequence (e_turn e) \<le> q_sequence q'"
    and "claims_inv q' (claimed_seqs (c_journal c))"
    and "list_all (\<lambda>e. t_state (e_turn e) \<noteq> Active) changes"
proof -
  let ?es = "q_entries (queue_of c)"
  from prepare_Inr [OF assms(1)] obtain e where
    es: "q_entries q' = filter (\<lambda>e. \<not> replaced src e) ?es @ [e]"
    and ch: "changes = map (set_state (if src = User then Canceled else Superseded))
           (filter (replaced src) ?es) @ [e]"
    and e: "is_queued e" "t_run (e_turn e) = None" "t_source (e_turn e) = src"
      "t_sequence (e_turn e) = q_sequence q'" "q_sequence (queue_of c) < q_sequence q'"
      "e_prompt e \<noteq> []" "utf8_len (e_prompt e) \<le> 65536"
    and cap: "length (filter (\<lambda>e. \<not> replaced src e) ?es) < 128"
      "prompt_total (filter (\<lambda>e. \<not> replaced src e) ?es) + utf8_len (e_prompt e) \<le> 1024 * 1024" .
  have k: "entries_inv (filter (\<lambda>e. \<not> replaced src e) ?es)"
    using assms(2) by (simp add: turns_inv_def entries_inv_filter)
  have le: "\<forall>x \<in> set ?es. t_sequence (e_turn x) \<le> q_sequence (queue_of c)"
    using assms(2) by (simp add: turns_inv_def)
  have lt: "\<forall>x \<in> set ?es. t_sequence (e_turn x) < q_sequence q'"
    using le e(5) by (blast intro: order_le_less_trans)
  have "slot_inv (q_entries q')"
    unfolding slot_inv_def
  proof (intro allI impI)
    fix s assume s: "s \<noteq> User"
    show "slot_count s (q_entries q') \<le> 1"
      using k s slot_count_replaced [of src ?es] e(3)
      by (cases "s = src") (auto simp: es entries_inv_def slot_inv_def)
  qed
  then show "entries_inv (q_entries q')"
    using k e cap lt by (auto simp: es entries_inv_def sorted_wrt_append before_def entry_ok_def list_all_iff)
  show "\<forall>e \<in> set (q_entries q'). t_sequence (e_turn e) \<le> q_sequence q'"
    using lt e(4) by (auto simp: es intro: order_less_imp_le)
  show "claims_inv q' (claimed_seqs (c_journal c))"
    using assms(2) e(4,5) by (fastforce simp: turns_inv_def claims_inv_def es)
  show "list_all (\<lambda>e. t_state (e_turn e) \<noteq> Active) changes"
    using e(1) by (auto simp: ch list_all_iff set_state_def is_queued_def)
qed

lemma commit_turns_Inr:
  assumes "commit_turns actor q changes now c = Inr c'"
    and "list_all (\<lambda>e. t_state (e_turn e) \<noteq> Active) changes"
  shows "queue_of c' = q" and "claimed_seqs (c_journal c') = claimed_seqs (c_journal c)"
proof -
  show "queue_of c' = q" using assms(1) by (auto simp: commit_turns_def Let_def rbind_Inr_iff)
  show "claimed_seqs (c_journal c') = claimed_seqs (c_journal c)"
    using assms by (auto simp: commit_turns_def Let_def rbind_Inr_iff dest!: changed_all_claims
        split: if_splits option.splits)
qed

lemma admit_inv:
  assumes "turns_inv c" and "admit fresh actor command src adm now c = Inr c'"
  shows "turns_inv c'"
proof -
  from assms(2) obtain q changes where p: "prepare fresh actor command src adm c = Inr (q, changes)"
    and cm: "commit_turns actor q changes now c = Inr c'"
    by (auto simp: admit_def rbind_Inr_iff)
  note i = prepare_entries_inv [OF p assms(1)]
  from commit_turns_Inr [OF cm i(4)] i show ?thesis by (simp add: turns_inv_def)
qed

lemma admit_review_inv:
  "turns_inv c \<Longrightarrow> admit_review len fresh actor command cs now c = Inr c' \<Longrightarrow> turns_inv c'"
  by (auto simp: admit_review_def intro: admit_inv split: if_splits)

lemma claims_inv_drop:
  assumes "claims_inv q cl" and "set es \<subseteq> set (q_entries q)"
  shows "claims_inv (q\<lparr>q_entries := es\<rparr>) cl"
  using assms by (auto simp: claims_inv_def)

lemma turns_inv_remove:
  assumes "turns_inv c" and "q_entries (queue_of c) = a @ x # b"
    and "queue_of c' = (queue_of c)\<lparr>q_entries := a @ b\<rparr>"
    and "claimed_seqs (c_journal c') = claimed_seqs (c_journal c)"
  shows "turns_inv c'"
  using assms claims_inv_drop [of "queue_of c" "claimed_seqs (c_journal c)" "a @ b"]
    entries_inv_drop_one [of a x b]
  by (auto simp: turns_inv_def)

lemma withdraw_inv:
  assumes "turns_inv c" and "withdraw actor tid now c = Inr c'"
  shows "turns_inv c'"
proof -
  let ?q = "queue_of c"
  from assms(2) obtain i c1 where i: "find_index (\<lambda>e. t_id (e_turn e) = tid) (q_entries ?q) = Some i"
    and ch: "changed actor (set_state Withdrawn (q_entries ?q ! i)) now c = Inr c1"
    and c': "c' = save_queue (?q\<lparr>q_entries := remove_at i (q_entries ?q)\<rparr>) c1"
    by (auto simp: withdraw_def rbind_Inr_iff Let_def split: if_splits)
  from find_index_Some [OF i] obtain a x b where x: "q_entries ?q = a @ x # b" "q_entries ?q ! i = x"
    "remove_at i (q_entries ?q) = a @ b" by metis
  have "claimed_seqs (c_journal c') = claimed_seqs (c_journal c)"
    using changed_claims [OF ch] by (simp add: c' set_state_def)
  then show ?thesis
    by (intro turns_inv_remove [OF assms(1) x(1)]) (simp_all add: c' x(3))
qed

lemma settle_Inr:
  assumes "settle run settlement now c = Inr c'"
  obtains "c' = c"
  | a x b c1 where "q_entries (queue_of c) = a @ x # b" and "t_run (e_turn x) = Some run"
    and "t_state (e_turn x) \<noteq> settlement_state settlement"
    and "changed (t_client (e_turn x)) (set_state (settlement_state settlement) x) now c = Inr c1"
    and "c' = save_queue ((queue_of c)\<lparr>q_entries :=
           a @ (if settlement_state settlement = OutcomeUnknown
                then [set_state OutcomeUnknown x] else []) @ b\<rparr>) c1"
    and "\<And>tid. settlement = SettleCompleted tid \<Longrightarrow> t_id (e_turn x) = tid"
proof (cases "find_index (\<lambda>e. t_run (e_turn e) = Some run) (q_entries (queue_of c))")
  case None
  then show thesis using assms that(1)
    by (auto simp: settle_def rbind_Inr_iff split: settlement.splits if_splits)
next
  case (Some i)
  from find_index_Some [OF this] obtain a x b where
    x: "q_entries (queue_of c) = a @ x # b" "t_run (e_turn x) = Some run" "q_entries (queue_of c) ! i = x"
      "remove_at i (q_entries (queue_of c)) = a @ b" "\<And>y. (q_entries (queue_of c))[i := y] = a @ y # b"
    by metis
  let ?s = "settlement_state settlement"
  show thesis
  proof (cases "t_state (e_turn x) = ?s")
    case True
    then show thesis using assms that(1) Some x(3)
      by (auto simp: settle_def rbind_Inr_iff Let_def split: if_splits)
  next
    case False
    obtain c1 where "changed (t_client (e_turn x)) (set_state ?s x) now c = Inr c1"
      and "c' = save_queue ((queue_of c)\<lparr>q_entries :=
           a @ (if ?s = OutcomeUnknown then [set_state OutcomeUnknown x] else []) @ b\<rparr>) c1"
      using assms Some x(3-5) False
      by (auto simp: settle_def rbind_Inr_iff Let_def split: if_splits)
    moreover have "\<And>tid. settlement = SettleCompleted tid \<Longrightarrow> t_id (e_turn x) = tid"
      using assms Some x(3) by (auto simp: settle_def rbind_Inr_iff Let_def split: if_splits)
    ultimately show thesis using that(2) [OF x(1,2) False] by blast
  qed
qed

lemma settlement_not_active [simp]: "settlement_state s \<noteq> Active" "settlement_state s \<noteq> Queued_Turn"
  by (cases s; simp)+

lemma settle_inv:
  assumes "turns_inv c" and "settle run settlement now c = Inr c'"
  shows "turns_inv c'"
proof (cases rule: settle_Inr [OF assms(2)])
  case (2 a x b c1)
  have cl: "claimed_seqs (c_journal c') = claimed_seqs (c_journal c)"
    using changed_claims [OF 2(4)] 2(5) by (simp add: set_state_def)
  show ?thesis
  proof (cases "settlement_state settlement = OutcomeUnknown")
    case False
    then show ?thesis using turns_inv_remove [OF assms(1) 2(1)] cl 2(5) by simp
  next
    case True
    let ?y = "set_state OutcomeUnknown x"
    have inv: "entries_inv (a @ x # b)" using assms(1) 2(1) by (simp add: turns_inv_def)
    then have "\<not> is_queued x" using 2(2) by (auto simp: entries_inv_def entry_ok_def is_queued_def)
    then have a: "a = []" using inv claimed_is_first by (auto simp: entries_inv_def)
    have y: "t_sequence (e_turn ?y) = t_sequence (e_turn x)" "e_prompt ?y = e_prompt x"
      "t_run (e_turn ?y) = Some run" "t_state (e_turn ?y) = OutcomeUnknown" "\<not> is_queued ?y"
      using 2(2) by (simp_all add: set_state_def is_queued_def)
    have "entries_inv (?y # b)"
      using inv a y slot_inv_demote [of "[]" x b ?y]
      by (auto simp: entries_inv_def before_def entry_ok_def)
    then show ?thesis
      using assms(1) cl 2(1,5) True a y by (auto simp: turns_inv_def claims_inv_def)
  qed
qed (use assms in simp)

definition activate :: "uuid \<Rightarrow> entry \<Rightarrow> entry" where
  "activate run e = e\<lparr>e_turn := (e_turn e)\<lparr>t_state := Active, t_run := Some run\<rparr>\<rparr>"

lemma claim_Some:
  "claim run q = Some (e', q') \<longleftrightarrow>
     (\<exists>e es. q_entries q = e # es \<and> list_all is_queued (e # es) \<and> e' = activate run e \<and>
        q' = q\<lparr>q_entries := e' # es\<rparr>)"
  by (auto simp: claim_def ready_def activate_def Let_def split: list.splits)

lemma claimed_frame:
  assumes "claimed e q now c = (q', c')"
  shows "q_entries q' = q_entries q" and "q_sequence q' = q_sequence q" and "q_quota_until q' = None"
    and "claimed_seqs (c_journal c') = claimed_seqs (c_journal c)" and "c_id c' = c_id c"
  using assms
  by (auto simp: claimed_def Let_def auto_continue_changed_def append_event_def claimed_seqs_def
      split: option.splits)

lemma dispatch_None: "dispatch_turn rf run now c = Inr (c', None) \<Longrightarrow> c' = c"
  by (auto simp: dispatch_turn_def rbind_Inr_iff Let_def split: if_splits option.splits sum.splits prod.splits)

lemma dispatch_Some:
  assumes "dispatch_turn rf run now c = Inr (c', Some (tid, prompt))"
  obtains e es where "q_entries (queue_of c) = e # es" and "list_all is_queued (e # es)"
    and "tid = t_id (e_turn e)" and "prompt = e_prompt e"
    and "q_entries (queue_of c') = activate run e # es" and "q_sequence (queue_of c') = q_sequence (queue_of c)"
    and "claimed_seqs (c_journal c') = claimed_seqs (c_journal c) @ [t_sequence (e_turn e)]"
    and "require_authoritative_id c = Inr ()" and "can_dispatch (rf_task_due rf) (queue_of c) now"
    and "rf_active rf" and "\<not> rf_disconnected rf" and "rf_partial rf = 0" and "\<not> rf_checkpoint_open rf"
proof -
  have g: "rf_active rf" "\<not> rf_disconnected rf" "rf_partial rf = 0" "\<not> rf_checkpoint_open rf"
    "require_authoritative_id c = Inr ()" "can_dispatch (rf_task_due rf) (queue_of c) now"
    using assms
    by (auto simp: dispatch_turn_def rbind_Inr_iff split: if_splits option.splits sum.splits prod.splits)
  obtain e' q1 where cl: "claim run (queue_of c) = Some (e', q1)"
    using assms
    by (cases "claim run (queue_of c)")
      (auto simp: dispatch_turn_def rbind_Inr_iff split: if_splits option.splits sum.splits)
  then obtain e es where e: "q_entries (queue_of c) = e # es" "list_all is_queued (e # es)"
    "e' = activate run e" "q1 = (queue_of c)\<lparr>q_entries := e' # es\<rparr>"
    by (auto simp: claim_Some)
  obtain q2 c1 where cd: "claimed e' q1 now c = (q2, c1)" by (cases "claimed e' q1 now c")
  obtain c2 where ch: "changed (t_client (e_turn e')) e' now c1 = Inr c2" and c': "c' = save_queue q2 c2"
    and r: "tid = t_id (e_turn e')" "prompt = e_prompt e'"
    using assms cl cd
    by (auto simp: dispatch_turn_def rbind_Inr_iff split: if_splits option.splits sum.splits)
  note f = claimed_frame [OF cd]
  have "claimed_seqs (c_journal c') = claimed_seqs (c_journal c) @ [t_sequence (e_turn e)]"
    using changed_claims [OF ch] f(4) by (simp add: c' e(3) activate_def)
  then show thesis
    using that [OF e(1,2)] r f(1,2) g by (simp add: c' e(3,4)) (simp add: activate_def)
qed

lemma dispatch_inv:
  assumes "turns_inv c" and "dispatch_turn rf run now c = Inr (c', out)"
  shows "turns_inv c'"
proof (cases out)
  case None
  then show ?thesis using assms dispatch_None by blast
next
  case (Some tp)
  obtain tid prompt where "out = Some (tid, prompt)" using Some by (cases tp) auto
  from dispatch_Some [OF assms(2) [unfolded this]] obtain e es where
    es: "q_entries (queue_of c) = e # es" "list_all is_queued (e # es)"
    and c': "q_entries (queue_of c') = activate run e # es" "q_sequence (queue_of c') = q_sequence (queue_of c)"
    "claimed_seqs (c_journal c') = claimed_seqs (c_journal c) @ [t_sequence (e_turn e)]" .
  have inv: "entries_inv (e # es)" using assms(1) es by (simp add: turns_inv_def)
  have y: "t_sequence (e_turn (activate run e)) = t_sequence (e_turn e)"
    "e_prompt (activate run e) = e_prompt e" "t_run (e_turn (activate run e)) = Some run"
    "t_state (e_turn (activate run e)) = Active" "\<not> is_queued (activate run e)"
    by (simp_all add: activate_def is_queued_def)
  have "entries_inv (activate run e # es)"
    using inv y slot_inv_demote [of "[]" e es "activate run e"]
    by (auto simp: entries_inv_def before_def entry_ok_def)
  moreover have "claims_inv (queue_of c') (claimed_seqs (c_journal c'))"
    using assms(1) es inv y c'
    by (auto simp: turns_inv_def claims_inv_def sorted_wrt_append entries_inv_def before_def)
  ultimately show ?thesis using assms(1) es c' y by (simp add: turns_inv_def)
qed

section \<open>Runs of the queue\<close>

datatype turn_op =
    OpAdmit uuid uuid uuid turn_source admission int
  | OpReview "review_comment list \<Rightarrow> nat" uuid uuid uuid "review_comment list" int
  | OpWithdraw uuid uuid int
  | OpDispatch run_facts uuid int
  | OpSettle uuid settlement int

fun turn_step :: "'r conv \<Rightarrow> turn_op \<Rightarrow> 'r conv" where
  "turn_step c (OpAdmit fresh actor command src adm now) = commit_or c (admit fresh actor command src adm now c)"
| "turn_step c (OpReview len fresh actor command cs now) =
     commit_or c (admit_review len fresh actor command cs now c)"
| "turn_step c (OpWithdraw actor tid now) = commit_or c (withdraw actor tid now c)"
| "turn_step c (OpDispatch rf run now) = (case dispatch_turn rf run now c of Inl _ \<Rightarrow> c | Inr (c', _) \<Rightarrow> c')"
| "turn_step c (OpSettle run settlement now) = commit_or c (settle run settlement now c)"

lemma turn_step_inv: "turns_inv c \<Longrightarrow> turns_inv (turn_step c a)"
  by (cases a)
    (auto intro: commit_or_inv admit_inv admit_review_inv withdraw_inv settle_inv dispatch_inv
      split: sum.split prod.split)

interpretation turns: machine turn_step turns_inv
  by unfold_locales (rule turn_step_inv)

definition new_conv :: "uuid \<Rightarrow> 'r conv" where
  "new_conv cid = \<lparr>c_id = cid, c_exists = True, c_authority = Home, c_frozen = False, c_queue = None,
     c_pending = 0, c_journal = []\<rparr>"

lemma new_conv_inv: "turns_inv (new_conv cid)"
  by (simp add: turns_inv_def new_conv_def queue_of_def empty_queue_def entries_inv_def slot_inv_def
      claims_inv_def claimed_seqs_def)

lemma prompt_chunks_props:
  "concat (prompt_chunks s) = s \<and> (\<forall>k \<in> set (prompt_chunks s). k \<noteq> [] \<and> utf8_len k \<le> 8192)"
proof (induction s rule: prompt_chunks.induct)
  case (1 s)
  show ?case
  proof (cases "s = []")
    case True
    then show ?thesis by (simp add: prompt_chunks.simps)
  next
    case False
    then have "prompt_chunks s = fst (take_bytes 8192 s) # prompt_chunks (snd (take_bytes 8192 s))"
      by (subst prompt_chunks.simps) simp
    then show ?thesis
      using 1 False take_bytes_append [of 8192 s] take_bytes_bound [of 8192 s] take_bytes_progress [of 8192 s]
      by simp
  qed
qed

section \<open>Properties\<close>

text \<open>
  C29: Whatever clients, schedules, retries, dispatches and settlements do to a Conversation, its Turn
  queue keeps its shape: at most 128 entries and 1 MiB of input, every prompt of 1 to 65536
  bytes, sequences strictly ascending, nothing but the first entry ever claimed by a Run, and
  at most one waiting entry for each background source.
\<close>
theorem turn_queue_always_well_formed:
  fixes ops cid
  defines "es \<equiv> q_entries (queue_of (foldl turn_step (new_conv cid :: 'r conv) ops))"
  shows "length es \<le> 128 \<and> prompt_total es \<le> 1048576
    \<and> list_all (\<lambda>e. 1 \<le> utf8_len (e_prompt e) \<and> utf8_len (e_prompt e) \<le> 65536) es
    \<and> sorted_wrt (<) (map (t_sequence \<circ> e_turn) es)
    \<and> list_all (\<lambda>e. t_state (e_turn e) = Queued_Turn \<and> t_run (e_turn e) = None) (tl es)
    \<and> slot_count Schedule es \<le> 1 \<and> slot_count AutoContinue es \<le> 1"
proof -
  have "turns_inv (foldl turn_step (new_conv cid :: 'r conv) ops)"
    by (rule turns.run_inv [OF new_conv_inv])
  then have inv: "entries_inv es" by (simp add: turns_inv_def es_def)
  have "sorted_wrt (<) (map (t_sequence \<circ> e_turn) es)"
    using inv unfolding entries_inv_def sorted_wrt_map
    by (auto simp: before_def elim: sorted_wrt_mono_rel [rotated])
  moreover have "list_all (\<lambda>e. t_state (e_turn e) = Queued_Turn \<and> t_run (e_turn e) = None) (tl es)"
    using inv by (cases es) (auto simp: entries_inv_def before_def entry_ok_def is_queued_def list_all_iff)
  moreover have "list_all (\<lambda>e. 1 \<le> utf8_len (e_prompt e) \<and> utf8_len (e_prompt e) \<le> 65536) es"
    using inv by (auto simp: entries_inv_def entry_ok_def list_all_iff Suc_le_eq)
  ultimately show ?thesis using inv by (simp add: entries_inv_def slot_inv_def)
qed

text \<open>
  C1: No input is delivered twice or out of order: over any history the sequence numbers claimed for
  delivery, as journalled, ascend strictly, and everything still waiting was admitted later.
\<close>
theorem turns_claimed_once_in_order:
  fixes ops cid
  defines "c \<equiv> foldl turn_step (new_conv cid) ops"
  shows "sorted_wrt (<) (claimed_seqs (c_journal c)) \<and>
    list_all (\<lambda>s. list_all (\<lambda>e. s < t_sequence (e_turn e))
      (filter (\<lambda>e. t_state (e_turn e) = Queued_Turn) (q_entries (queue_of c)))) (claimed_seqs (c_journal c))"
  using turns.run_inv [OF new_conv_inv, of cid ops]
  by (auto simp: c_def turns_inv_def claims_inv_def is_queued_def list_all_iff)

text \<open>
  A dispatch hands out the oldest input only: nothing else of the Conversation is claimed, the
  Conversation is authoritative here, the Run is attached at a committed source boundary, and
  the claim is durable in the same transaction before the prompt leaves.
\<close>
lemma dispatch_claims_oldest:
  assumes "turns_inv c" and "dispatch_turn rf run now c = Inr (c', Some (tid, prompt))"
  shows "\<exists>e es. q_entries (queue_of c) = e # es
    \<and> list_all (\<lambda>x. t_state (e_turn x) = Queued_Turn) (e # es)
    \<and> list_all (\<lambda>x. t_sequence (e_turn e) < t_sequence (e_turn x)) es
    \<and> tid = t_id (e_turn e) \<and> prompt = e_prompt e
    \<and> active_turn run (queue_of c') = Some tid \<and> tl (q_entries (queue_of c')) = es
    \<and> c_authority c = Home \<and> \<not> c_frozen c
    \<and> rf_active rf \<and> \<not> rf_disconnected rf \<and> rf_partial rf = 0"
proof -
  from dispatch_Some [OF assms(2)] obtain e es where
    e: "q_entries (queue_of c) = e # es" "list_all is_queued (e # es)" "tid = t_id (e_turn e)"
      "prompt = e_prompt e" "q_entries (queue_of c') = activate run e # es"
      "require_authoritative_id c = Inr ()" "rf_active rf" "\<not> rf_disconnected rf" "rf_partial rf = 0" .
  have "c_authority c = Home \<and> \<not> c_frozen c"
    using e(6) by (auto simp: require_authoritative_id_def require_authoritative_def require_not_frozen_def
        rbind_Inr_iff split: authority_state.splits)
  moreover have "list_all (\<lambda>x. t_sequence (e_turn e) < t_sequence (e_turn x)) es"
    using assms(1) e(1) by (auto simp: turns_inv_def entries_inv_def before_def list_all_iff)
  moreover have "active_turn run (queue_of c') = Some tid"
    using e(3,5) by (simp add: active_turn_def activate_def)
  ultimately show ?thesis using e by (auto simp: is_queued_def list_all_iff)
qed

lemmas admit_eval = admit_def prepare_def commit_turns_def changed_def entry_origin_def state_origin_def
  changed_events_def entry_subject_def save_queue_def is_queued_def load_queue_def empty_queue_def
  require_authoritative_id_def require_authoritative_def require_not_frozen_def new_conv_def
  utf8_width_def u64_checked_add_def queue_of_def

definition demo_run :: run_facts where
  "demo_run = \<lparr>rf_known = True, rf_active = True, rf_plan_turn = Some 1, rf_native = None,
     rf_disconnected = False, rf_source_offset = 1, rf_partial = 0, rf_checkpoint_open = False,
     rf_delivery_blocks = False, rf_matches_selection = True, rf_energy = None, rf_task_due = []\<rparr>"

lemma dispatch_claims_oldest_witness:
  "\<exists>c'. dispatch_turn demo_run 5 0 (turn_step (new_conv 1 :: unit conv) (OpAdmit 9 7 8 User (AdmitPrompt [104]) 0))
       = Inr (c', Some (9, [104])) \<and> active_turn 5 (queue_of c') = Some 9"
proof -
  let ?c = "turn_step (new_conv 1 :: unit conv) (OpAdmit 9 7 8 User (AdmitPrompt [104]) 0)"
  have inv: "turns_inv ?c" by (rule turn_step_inv [OF new_conv_inv])
  have "\<exists>c'. dispatch_turn demo_run 5 0 ?c = Inr (c', Some (9, [104]))"
    by (simp add: admit_eval Let_def dispatch_turn_def demo_run_def can_dispatch_def ready_def claim_def
        claimed_def)
  then obtain c' where d: "dispatch_turn demo_run 5 0 ?c = Inr (c', Some (9, [104]))" by blast
  show ?thesis using dispatch_claims_oldest [OF inv d] d by blast
qed

text \<open>
  C38: Admission never drops user work or claimed work: an accepted input is appended under the next
  sequence number, exactly the waiting background entries it replaces leave the queue (newer
  input of the same background source, or a pending automatic continuation when the user
  speaks), each journalled with its final state.
\<close>
theorem admission_keeps_user_work:
  assumes "prepare fresh actor command src adm c = Inr (q', changes)"
  shows "\<exists>e. q_entries q' = filter (\<lambda>x. \<not> replaced src x) (q_entries (queue_of c)) @ [e]
    \<and> t_sequence (e_turn e) = q_sequence q' \<and> q_sequence (queue_of c) < q_sequence q'
    \<and> t_client (e_turn e) = actor \<and> t_source (e_turn e) = src \<and> e_prompt e = fst (into_parts adm)
    \<and> (\<forall>x \<in> set (q_entries (queue_of c)).
         t_source (e_turn x) = User \<or> t_state (e_turn x) \<noteq> Queued_Turn \<longrightarrow> x \<in> set (q_entries q'))
    \<and> map e_turn changes = map (\<lambda>x. (e_turn x)\<lparr>t_state := (if src = User then Canceled else Superseded)\<rparr>)
        (filter (replaced src) (q_entries (queue_of c))) @ [e_turn e]"
proof -
  from prepare_Inr [OF assms] obtain e where
    e: "q_entries q' = filter (\<lambda>e. \<not> replaced src e) (q_entries (queue_of c)) @ [e]"
      "changes = map (set_state (if src = User then Canceled else Superseded))
           (filter (replaced src) (q_entries (queue_of c))) @ [e]"
      "t_source (e_turn e) = src" "t_sequence (e_turn e) = q_sequence q'"
      "q_sequence (queue_of c) < q_sequence q'" "t_client (e_turn e) = actor"
      "e_prompt e = fst (into_parts adm)" .
  then show ?thesis by (intro exI [of _ e]) (auto simp: replaced_def set_state_def)
qed

theorem admission_keeps_user_work_witness:
  "\<exists>q' changes. prepare 9 7 8 User (AdmitPrompt [104, 105]) (new_conv 1 :: unit conv) = Inr (q', changes)
     \<and> length (q_entries q') = 1 \<and> map t_client (map e_turn changes) = [7]"
proof -
  have "\<exists>q' changes. prepare 9 7 8 User (AdmitPrompt [104, 105]) (new_conv 1 :: unit conv) = Inr (q', changes)"
    by (simp add: prepare_def new_conv_def require_authoritative_id_def require_authoritative_def
        require_not_frozen_def load_queue_def empty_queue_def utf8_width_def u64_checked_add_def Let_def)
  then obtain q' changes where
    p: "prepare 9 7 8 User (AdmitPrompt [104, 105]) (new_conv 1 :: unit conv) = Inr (q', changes)" by blast
  from admission_keeps_user_work [OF p] obtain e where
    "q_entries q' = filter (\<lambda>x. \<not> replaced User x) (q_entries (queue_of (new_conv 1 :: unit conv))) @ [e]"
    "t_client (e_turn e) = 7"
    "map e_turn changes = map (\<lambda>x. (e_turn x)\<lparr>t_state := (if User = User then Canceled else Superseded)\<rparr>)
        (filter (replaced User) (q_entries (queue_of (new_conv 1 :: unit conv)))) @ [e_turn e]"
    by blast
  moreover have "q_entries (queue_of (new_conv 1 :: unit conv)) = []"
    by (simp add: new_conv_def queue_of_def empty_queue_def)
  ultimately have "length (q_entries q') = 1" "map e_turn changes = [e_turn e]" "t_client (e_turn e) = 7"
    by simp_all
  with p show ?thesis by (metis list.simps(8,9))
qed

text \<open>
  The journal keeps an admitted prompt exactly: it is split at character boundaries into
  non-empty Events of at most 8192 bytes whose concatenation is the original text.
\<close>
lemma prompt_journalled_exactly:
  "concat (prompt_chunks s) = s \<and>
   list_all (\<lambda>k. 1 \<le> utf8_len k \<and> utf8_len k \<le> 8192) (prompt_chunks s)"
  using prompt_chunks_props [of s] by (auto simp: list_all_iff Suc_le_eq)

end
