(* ===== verification/Jet_Schedule.thy ===== *)
theory Jet_Schedule
  imports Jet_Turn
begin

text \<open>
  Scheduled tasks: \<open>jet-core/src/schedule/{mod,clock,work}.rs\<close> on the tables of
  \<open>jet-store/src/schedule.rs\<close>.

  \<open>sched\<close> is one Conversation with the enabled schedules the store keeps for it, ordered by
  identity. The time zone database and the calendar (\<open>jiff\<close>, \<open>chrono\<close>) and the name-based
  identities (\<open>uuid\<close>) are the parameter \<open>clock_lib\<close>: local times and instants are counts of
  seconds, and a zone is the three questions \<open>clock.rs\<close> asks of it. What is relied on of a
  zone is \<open>tz_bounded\<close>: its offsets stay within the documented range of 25:59:59, and the
  transition after an instant lies after it. The loop that looks for the first occurrence is a
  partial function, and that it always answers is one of the properties.
\<close>

section \<open>The clock\<close>

datatype ambiguous_offset = Unambiguous int | Fold int int | Gap int int

record tz =
  tz_name :: "string option"
  tz_ambiguous :: "int \<Rightarrow> ambiguous_offset"
  tz_offset :: "int \<Rightarrow> int"
  tz_following :: "int \<Rightarrow> int option"

record clock_lib =
  cl_get :: "string \<Rightarrow> tz option"
  cl_instant :: "int \<Rightarrow> bool"
  cl_civil :: "int \<Rightarrow> bool"
  cl_uuid5 :: "uuid \<Rightarrow> int \<Rightarrow> uuid"

definition invalid_time :: core_error where
  "invalid_time = invalid_input ''schedule.invalid_time''"

definition time_zone :: "clock_lib \<Rightarrow> string \<Rightarrow> core_error + tz" where
  "time_zone L name =
     ok_or (case cl_get L name of
              None \<Rightarrow> None
            | Some z \<Rightarrow> if name \<noteq> ''Factory'' \<and> tz_name z = Some name then Some z else None) invalid_time"

definition to_timestamp :: "clock_lib \<Rightarrow> int \<Rightarrow> int \<Rightarrow> int option" where
  "to_timestamp L off civil = (if cl_instant L (civil - off) then Some (civil - off) else None)"

definition resolve_instant :: "clock_lib \<Rightarrow> tz \<Rightarrow> int \<Rightarrow> int option" where
  "resolve_instant L z local =
     (case tz_ambiguous z local of
        Unambiguous off \<Rightarrow> to_timestamp L off local
      | Fold bef aft \<Rightarrow>
          (case to_timestamp L bef local of
             None \<Rightarrow> to_timestamp L aft local
           | Some earlier \<Rightarrow> if tz_offset z earlier = bef then Some earlier else to_timestamp L aft local)
      | Gap bef aft \<Rightarrow>
          (case to_timestamp L aft local of
             None \<Rightarrow> None
           | Some ahead \<Rightarrow> tz_following z ahead))"

definition resolve :: "clock_lib \<Rightarrow> uuid \<Rightarrow> tz \<Rightarrow> int \<Rightarrow> core_error + schedule_firing" where
  "resolve L sid z local =
     rbind (require (cl_civil L local) invalid_time) (\<lambda>_.
     rbind (ok_or (resolve_instant L z local) invalid_time) (\<lambda>instant.
       Inr \<lparr>sf_id = cl_uuid5 L sid local, sf_local = local, sf_due = instant * 1000\<rparr>))"

definition DAY :: int where
  "DAY = 86400"

definition two_digits :: "char \<Rightarrow> char \<Rightarrow> int \<Rightarrow> int option" where
  "two_digits a b bound =
     (let x = of_char a - 48; y = of_char b - 48; n = 10 * x + y
      in if 0 \<le> x \<and> x \<le> 9 \<and> 0 \<le> y \<and> y \<le> 9 \<and> n < bound then Some n else None)"

text \<open>Exactly the texts that parse as \<open>%H:%M:%S\<close>, print back the same and do not end in \<open>:60\<close>.\<close>

fun local_time :: "string \<Rightarrow> int option" where
  "local_time [h1, h2, c1, m1, m2, c2, s1, s2] =
     (if c1 = CHR '':'' \<and> c2 = CHR '':'' then
        (case (two_digits h1 h2 24, two_digits m1 m2 60, two_digits s1 s2 60) of
           (Some h, Some m, Some s) \<Rightarrow> Some (3600 * h + 60 * m + s)
         | _ \<Rightarrow> None)
      else None)"
| "local_time _ = None"

partial_function (option) first_from ::
    "clock_lib \<Rightarrow> uuid \<Rightarrow> tz \<Rightarrow> int \<Rightarrow> int \<Rightarrow> (core_error + schedule_firing) option" where
  "first_from L sid z now local =
     (case resolve L sid z local of
        Inl e \<Rightarrow> Some (Inl e)
      | Inr firing \<Rightarrow>
          if sf_due firing > now then Some (Inr firing)
          else first_from L sid z now (local + DAY))"

text \<open>\<open>FixedOffset::east_opt\<close> takes an offset of less than a day in either direction.\<close>

definition east_opt :: "int \<Rightarrow> bool" where
  "east_opt seconds \<longleftrightarrow> - DAY < seconds \<and> seconds < DAY"

definition first_firing ::
    "clock_lib \<Rightarrow> uuid \<Rightarrow> string \<Rightarrow> string \<Rightarrow> int \<Rightarrow> (core_error + schedule_firing) option" where
  "first_firing L sid zone time now =
     (case time_zone L zone of
        Inl e \<Rightarrow> Some (Inl e)
      | Inr z \<Rightarrow>
          (case local_time time of
             None \<Rightarrow> Some (Inl invalid_time)
           | Some t \<Rightarrow>
               if \<not> cl_instant L (now div 1000) then Some (Inl invalid_time)
               else if \<not> east_opt (tz_offset z (now div 1000)) then Some (Inl invalid_time)
               else (let date = (now div 1000 + tz_offset z (now div 1000)) div DAY
                     in first_from L sid z now (date * DAY + t))))"

definition next_firing :: "clock_lib \<Rightarrow> scheduled_task \<Rightarrow> core_error + schedule_firing" where
  "next_firing L task =
     rbind (time_zone L (st_zone task)) (\<lambda>z. resolve L (st_id task) z (sf_local (st_next task) + DAY))"

section \<open>The schedules of a Conversation\<close>

record 'r sched =
  s_conv :: "'r conv"
  s_retain :: bool
  s_tasks :: "scheduled_task list"
  s_deletions :: "(uuid \<times> int) list"

definition scheduled_task_of :: "uuid \<Rightarrow> 'r sched \<Rightarrow> scheduled_task option" where
  "scheduled_task_of sid s = find (\<lambda>t. st_id t = sid) (s_tasks s)"

definition save_schedule :: "scheduled_task \<Rightarrow> 'r sched \<Rightarrow> 'r sched" where
  "save_schedule task s =
     s\<lparr>s_tasks := (if scheduled_task_of (st_id task) s \<noteq> None
                   then map (\<lambda>t. if st_id t = st_id task then task else t) (s_tasks s)
                   else insort_key st_id task (s_tasks s))\<rparr>"

definition delete_schedule :: "uuid \<Rightarrow> int \<Rightarrow> 'r sched \<Rightarrow> 'r sched" where
  "delete_schedule sid now s =
     s\<lparr>s_tasks := filter (\<lambda>t. st_id t \<noteq> sid) (s_tasks s), s_deletions := s_deletions s @ [(sid, now)]\<rparr>"

definition snapshot_schedules :: "'r sched \<Rightarrow> core_error + scheduled_task list" where
  "snapshot_schedules s = rbind (load_queue (s_conv s)) (\<lambda>_. Inr (s_tasks s))"

definition create_schedule ::
    "clock_lib \<Rightarrow> uuid \<Rightarrow> uuid \<Rightarrow> string \<Rightarrow> string \<Rightarrow> ustring \<Rightarrow> int \<Rightarrow> 'r sched \<Rightarrow>
     (core_error + ('r sched \<times> scheduled_task)) option" where
  "create_schedule L fresh actor zone time prompt now s =
     (case snapshot_schedules s of
        Inl e \<Rightarrow> Some (Inl e)
      | Inr existing \<Rightarrow>
          if length existing \<ge> 32 \<or> prompt = [] \<or> utf8_len prompt > 8192
          then Some (Inl (invalid_input ''schedule.limit''))
          else if \<not> s_retain s then Some (Inl (invalid_input ''schedule.retention''))
          else
            map_option (\<lambda>r. rbind r (\<lambda>firing.
                let task = \<lparr>st_id = fresh, st_conversation = c_id (s_conv s), st_client = actor,
                            st_zone = zone, st_time = time, st_prompt = prompt, st_next = firing\<rparr>;
                    s1 = save_schedule task s
                in Inr (s1\<lparr>s_conv := append_event (ScheduleCreated task) (InteractiveClient actor)
                                      (OnConversation (c_id (s_conv s))) now (s_conv s1)\<rparr>, task)))
              (first_firing L fresh zone time now))"

fun cancel_entries ::
    "uuid \<Rightarrow> uuid \<Rightarrow> int \<Rightarrow> entry list \<Rightarrow> 'r conv \<Rightarrow> core_error + (entry list \<times> 'r conv)" where
  "cancel_entries actor sid now [] c = Inr ([], c)"
| "cancel_entries actor sid now (e # es) c =
     (if (case e_schedule e of None \<Rightarrow> False | Some i \<Rightarrow> si_schedule i = sid) \<and> t_state (e_turn e) = Queued_Turn
      then rbind (changed actor (set_state Canceled e) now c) (cancel_entries actor sid now es)
      else rbind (cancel_entries actor sid now es c) (\<lambda>(kept, c'). Inr (e # kept, c')))"

definition cancel_schedule :: "uuid \<Rightarrow> uuid \<Rightarrow> int \<Rightarrow> 'r sched \<Rightarrow> core_error + 'r sched" where
  "cancel_schedule actor sid now s =
     rbind (ok_or (scheduled_task_of sid s) (not_found ''schedule.not_found'')) (\<lambda>task.
     rbind (load_queue (s_conv s)) (\<lambda>q.
     rbind (cancel_entries actor sid now (q_entries q) (s_conv s)) (\<lambda>(kept, c).
       let s1 = delete_schedule sid now (s\<lparr>s_conv := save_queue (q\<lparr>q_entries := kept\<rparr>) c\<rparr>)
       in Inr (s1\<lparr>s_conv := append_event (ScheduleCanceled sid) (InteractiveClient actor)
                             (OnConversation (c_id (s_conv s))) now (s_conv s1)\<rparr>))))"

section \<open>Firing\<close>

definition fire_outcome ::
    "int \<Rightarrow> scheduled_task \<Rightarrow> schedule_firing \<Rightarrow> 'r conv \<Rightarrow> core_error + (schedule_firing_outcome \<times> 'r conv)" where
  "fire_outcome now task nxt c =
     (let due = sf_due (st_next task);
          expired = (due < max (now - CATCH_UP_MS) i64_min);
          passed = (if expired then FiringExpired else FiringSuperseded)
      in if \<not> expired \<and> sf_due nxt > now then
           rbind (load_queue c) (\<lambda>q.
             if list_ex (\<lambda>e. t_state (e_turn e) = Queued_Turn \<and>
                          (case e_schedule e of None \<Rightarrow> False | Some i \<Rightarrow> sf_due (si_firing i) > due)) (q_entries q)
             then Inr (passed, c)
             else
               rbind (prepare 0 (st_client task) (sf_id (st_next task)) Schedule
                        (AdmitScheduled (st_prompt task) \<lparr>si_schedule = st_id task, si_firing = st_next task\<rparr>) c)
                 (\<lambda>(q', changes).
                    rbind (commit_turns (st_client task) q' changes now c) (\<lambda>c'. Inr (FiringQueued, c'))))
         else Inr (passed, c))"

definition fire_event :: "scheduled_task \<Rightarrow> schedule_firing_outcome \<Rightarrow> int \<Rightarrow> 'r conv \<Rightarrow> 'r conv" where
  "fire_event task how now c =
     append_event (ScheduleFired (st_id task) (st_next task) how)
       (ScheduledTaskActor (st_id task) (st_client task)) (OnConversation (c_id c)) now c"

fun advance_loop ::
    "clock_lib \<Rightarrow> nat \<Rightarrow> int \<Rightarrow> scheduled_task \<Rightarrow> 'r conv \<Rightarrow> core_error + (scheduled_task \<times> 'r conv)" where
  "advance_loop L 0 now task c = Inr (task, c)"
| "advance_loop L (Suc n) now task c =
     (if sf_due (st_next task) > now then Inr (task, c)
      else
        rbind (next_firing L task) (\<lambda>nxt.
        rbind (fire_outcome now task nxt c) (\<lambda>(how, c').
          advance_loop L n now (task\<lparr>st_next := nxt\<rparr>) (fire_event task how now c'))))"

definition advance :: "clock_lib \<Rightarrow> scheduled_task \<Rightarrow> int \<Rightarrow> 'r sched \<Rightarrow> core_error + 'r sched" where
  "advance L task now s =
     (case require_authoritative_id (s_conv s) of
        Inl e \<Rightarrow> rbind (paused_by_transfer e) (\<lambda>_. Inr s)
      | Inr _ \<Rightarrow>
          rbind (advance_loop L 128 now task (s_conv s)) (\<lambda>(task', c).
            Inr (save_schedule task' (s\<lparr>s_conv := c\<rparr>))))"

fun expire_entries :: "int \<Rightarrow> entry list \<Rightarrow> 'r conv \<Rightarrow> core_error + (entry list \<times> 'r conv)" where
  "expire_entries now [] c = Inr ([], c)"
| "expire_entries now (e # es) c =
     (case e_schedule e of
        Some i \<Rightarrow>
          if t_state (e_turn e) = Queued_Turn \<and> schedule_expired i now
          then rbind (changed (t_client (e_turn e)) (set_state Canceled e) now c) (\<lambda>c1.
                 expire_entries now es
                   (append_event (ScheduleFired (si_schedule i) (si_firing i) FiringExpired)
                      (ScheduledTaskActor (si_schedule i) (t_client (e_turn e))) (OnConversation (c_id c)) now c1))
          else rbind (expire_entries now es c) (\<lambda>(kept, c'). Inr (e # kept, c'))
      | None \<Rightarrow> rbind (expire_entries now es c) (\<lambda>(kept, c'). Inr (e # kept, c')))"

definition expire :: "int \<Rightarrow> 'r conv \<Rightarrow> core_error + 'r conv" where
  "expire now c =
     rbind (load_queue c) (\<lambda>q.
     rbind (expire_entries now (q_entries q) c) (\<lambda>(kept, c').
       Inr (if kept \<noteq> q_entries q then save_queue (q\<lparr>q_entries := kept\<rparr>) c' else c')))"

definition due_schedules :: "int \<Rightarrow> uuid option \<Rightarrow> 'r sched \<Rightarrow> scheduled_task list" where
  "due_schedules now after s =
     take 100 (filter (\<lambda>t. sf_due (st_next t) \<le> now \<and> (case after of None \<Rightarrow> True | Some a \<Rightarrow> a < st_id t)) (s_tasks s))"

fun perform_page ::
    "clock_lib \<Rightarrow> int \<Rightarrow> scheduled_task list \<Rightarrow> 'r sched \<Rightarrow> core_error option \<times> 'r sched" where
  "perform_page L now [] s = (None, s)"
| "perform_page L now (t # ts) s =
     (case scheduled_task_of (st_id t) s of
        None \<Rightarrow> perform_page L now ts s
      | Some task \<Rightarrow>
          (case advance L task now s of
             Inr s' \<Rightarrow> perform_page L now ts s'
           | Inl e \<Rightarrow> if code e \<noteq> ''turn.queue_full'' then (Some e, s) else perform_page L now ts s))"

lemma save_schedule_ids:
  "scheduled_task_of (st_id task) s \<noteq> None \<Longrightarrow> map st_id (s_tasks (save_schedule task s)) = map st_id (s_tasks s)"
  by (simp add: save_schedule_def)

lemma scheduled_task_of_Some: "scheduled_task_of sid s = Some t \<Longrightarrow> t \<in> set (s_tasks s) \<and> st_id t = sid"
  by (auto simp: scheduled_task_of_def find_Some_iff)

lemma scheduled_task_of_cong: "s_tasks s' = s_tasks s \<Longrightarrow> scheduled_task_of sid s' = scheduled_task_of sid s"
  by (simp add: scheduled_task_of_def)

lemma advance_loop_id: "advance_loop L n now task c = Inr (task', c') \<Longrightarrow> st_id task' = st_id task"
  by (induction n arbitrary: task c) (auto simp: rbind_Inr_iff split: if_splits)

lemma advance_ids:
  assumes "advance L task now s = Inr s'" and "scheduled_task_of (st_id task) s \<noteq> None"
  shows "map st_id (s_tasks s') = map st_id (s_tasks s)"
proof (cases "require_authoritative_id (s_conv s)")
  case (Inl e)
  then show ?thesis using assms(1) by (auto simp: advance_def rbind_Inr_iff)
next
  case (Inr u)
  then obtain task' c where al: "advance_loop L 128 now task (s_conv s) = Inr (task', c)"
    and s': "s' = save_schedule task' (s\<lparr>s_conv := c\<rparr>)"
    using assms(1) by (auto simp: advance_def rbind_Inr_iff)
  then have "scheduled_task_of (st_id task') (s\<lparr>s_conv := c\<rparr>) \<noteq> None"
    using assms(2) advance_loop_id [OF al] scheduled_task_of_cong [of "s\<lparr>s_conv := c\<rparr>" s] by simp
  from save_schedule_ids [OF this] show ?thesis by (simp add: s')
qed

lemma perform_page_ids: "map st_id (s_tasks (snd (perform_page L now ts s))) = map st_id (s_tasks s)"
proof (induction L now ts s rule: perform_page.induct)
  case (2 L now t ts s)
  show ?case
  proof (cases "scheduled_task_of (st_id t) s")
    case (Some task)
    with 2 advance_ids [of L task now s] scheduled_task_of_Some [OF Some] show ?thesis
      by (auto split: sum.split)
  qed (use 2 in simp)
qed simp

function perform_due ::
    "clock_lib \<Rightarrow> int \<Rightarrow> uuid option \<Rightarrow> 'r sched \<Rightarrow> core_error option \<times> 'r sched" where
  "perform_due L now after s =
     (let due = due_schedules now after s
      in if due = [] then (None, s)
         else
           (case perform_page L now due s of
              (Some e, s') \<Rightarrow> (Some e, s')
            | (None, s') \<Rightarrow> perform_due L now (Some (st_id (last due))) s'))"
  by pat_completeness auto
termination
proof (relation "measure (\<lambda>(L, now, after, s).
    length (filter (\<lambda>i. case after of None \<Rightarrow> True | Some a \<Rightarrow> a < i) (map st_id (s_tasks s))))", goal_cases)
  case 1
  then show ?case by simp
next
  case (2 L now after s due o' s')
  let ?P = "\<lambda>i. case after of None \<Rightarrow> True | Some a \<Rightarrow> a < i"
  have ids: "map st_id (s_tasks s') = map st_id (s_tasks s)"
    using perform_page_ids [of L now due s] 2(3) [symmetric] by simp
  have "last due \<in> set due" using 2(2) by simp
  then have l: "st_id (last due) \<in> set (map st_id (s_tasks s))" "?P (st_id (last due))"
    unfolding 2(1) due_schedules_def by (auto dest!: in_set_takeD)
  have "filter ((<) (st_id (last due))) (map st_id (s_tasks s))
      = filter ((<) (st_id (last due))) (filter ?P (map st_id (s_tasks s)))"
    using l(2) by (auto intro!: filter_cong split: option.splits)
  also have "length \<dots> < length (filter ?P (map st_id (s_tasks s)))"
    using l by (intro length_filter_less [of "st_id (last due)"]) auto
  finally show ?case unfolding in_measure prod.case ids option.case .
qed

declare perform_due.simps [simp del]

definition perform_schedules :: "clock_lib \<Rightarrow> int \<Rightarrow> 'r sched \<Rightarrow> core_error option \<times> 'r sched" where
  "perform_schedules L now s =
     (case perform_due L now None s of
        (Some e, s') \<Rightarrow> (Some e, s')
      | (None, s') \<Rightarrow>
          if c_pending (s_conv s') > 0
          then (case expire now (s_conv s') of
                  Inl e \<Rightarrow> (Some e, s')
                | Inr c \<Rightarrow> (None, s'\<lparr>s_conv := c\<rparr>))
          else (None, s'))"

section \<open>The first occurrence\<close>

definition offset_ok :: "int \<Rightarrow> bool" where
  "offset_ok off \<longleftrightarrow> \<bar>off\<bar> \<le> 93599"

definition tz_bounded :: "tz \<Rightarrow> bool" where
  "tz_bounded z \<longleftrightarrow>
     (\<forall>l. case tz_ambiguous z l of
            Unambiguous off \<Rightarrow> offset_ok off
          | Fold bef aft \<Rightarrow> offset_ok bef \<and> offset_ok aft
          | Gap bef aft \<Rightarrow> offset_ok bef \<and> offset_ok aft) \<and>
     (\<forall>t u. tz_following z t = Some u \<longrightarrow> t < u)"

lemma to_timestamp_Some: "to_timestamp L off l = Some t \<longleftrightarrow> cl_instant L t \<and> t = l - off"
  by (auto simp: to_timestamp_def)

lemma resolve_Inr:
  "resolve L sid z l = Inr f \<longleftrightarrow>
     cl_civil L l \<and> (\<exists>t. resolve_instant L z l = Some t \<and>
       f = \<lparr>sf_id = cl_uuid5 L sid l, sf_local = l, sf_due = t * 1000\<rparr>)"
  by (auto simp: resolve_def rbind_Inr_iff)

lemma resolve_instant_bound:
  assumes "tz_bounded z" and "resolve_instant L z l = Some t"
  shows "l - 93599 \<le> t"
proof -
  have z: "case tz_ambiguous z l of Unambiguous off \<Rightarrow> offset_ok off | Fold b a \<Rightarrow> offset_ok b \<and> offset_ok a
      | Gap b a \<Rightarrow> offset_ok b \<and> offset_ok a" and foll: "\<And>u v. tz_following z u = Some v \<Longrightarrow> u < v"
    using assms(1) by (auto simp: tz_bounded_def)
  show ?thesis
    using z assms(2) foll
    by (fastforce simp: resolve_instant_def to_timestamp_Some offset_ok_def
        split: ambiguous_offset.splits option.splits if_splits)
qed

lemma first_from_future:
  assumes "tz_bounded z"
  shows "\<exists>r. first_from L sid z now l = Some r \<and>
    (\<forall>f. r = Inr f \<longrightarrow> now < sf_due f \<and>
       (\<exists>n. resolve L sid z (l + int n * DAY) = Inr f \<and>
          (\<forall>m < n. \<exists>g. resolve L sid z (l + int m * DAY) = Inr g \<and> sf_due g \<le> now)))"
proof (induction "nat (now div 1000 + 93600 - l)" arbitrary: l rule: less_induct)
  case less
  show ?case
  proof (cases "resolve L sid z l")
    case (Inl e)
    then show ?thesis by (subst first_from.simps) simp
  next
    case (Inr f)
    show ?thesis
    proof (cases "now < sf_due f")
      case True
      then show ?thesis using Inr
        by (subst first_from.simps) (auto intro!: exI [of _ "0::nat"])
    next
      case False
      from Inr obtain t where "resolve_instant L z l = Some t" and "sf_due f = t * 1000"
        by (auto simp: resolve_Inr)
      with resolve_instant_bound [OF assms] False have "l - 93599 \<le> now div 1000" by fastforce
      then have "nat (now div 1000 + 93600 - (l + DAY)) < nat (now div 1000 + 93600 - l)"
        by (simp add: DAY_def)
      from less [OF this] obtain r where r: "first_from L sid z now (l + DAY) = Some r"
        and next_day: "\<And>f. r = Inr f \<Longrightarrow> now < sf_due f \<and>
          (\<exists>n. resolve L sid z (l + DAY + int n * DAY) = Inr f \<and>
            (\<forall>m < n. \<exists>g. resolve L sid z (l + DAY + int m * DAY) = Inr g \<and> sf_due g \<le> now))"
        by blast
      have "now < sf_due f' \<and> (\<exists>n. resolve L sid z (l + int n * DAY) = Inr f' \<and>
            (\<forall>m < n. \<exists>g. resolve L sid z (l + int m * DAY) = Inr g \<and> sf_due g \<le> now))"
        if "r = Inr f'" for f'
      proof -
        from next_day [OF that] obtain n where n: "now < sf_due f'"
          "resolve L sid z (l + int (Suc n) * DAY) = Inr f'"
          "\<forall>m < n. \<exists>g. resolve L sid z (l + int (Suc m) * DAY) = Inr g \<and> sf_due g \<le> now"
          by (auto simp: algebra_simps)
        have "\<exists>g. resolve L sid z (l + int m * DAY) = Inr g \<and> sf_due g \<le> now" if "m < Suc n" for m
          using n(3) that Inr False by (cases m) auto
        with n(1,2) show ?thesis by blast
      qed
      then show ?thesis using Inr False r by (subst first_from.simps) simp
    qed
  qed
qed

section \<open>What the journal says of schedules\<close>

definition queued_firings :: "uuid \<Rightarrow> 'r event list \<Rightarrow> int list" where
  "queued_firings sid j =
     concat (map (\<lambda>ev. case ev_kind ev of
                         ScheduleFired i f how \<Rightarrow> if i = sid \<and> how = FiringQueued then [sf_local f] else []
                       | _ \<Rightarrow> []) j)"

definition created_schedules :: "'r event list \<Rightarrow> uuid list" where
  "created_schedules j =
     concat (map (\<lambda>ev. case ev_kind ev of ScheduleCreated t \<Rightarrow> [st_id t] | _ \<Rightarrow> []) j)"

lemma queued_firings_append [simp]: "queued_firings sid (a @ b) = queued_firings sid a @ queued_firings sid b"
  by (simp add: queued_firings_def)

lemma created_schedules_append [simp]: "created_schedules (a @ b) = created_schedules a @ created_schedules b"
  by (simp add: created_schedules_def)

text \<open>Everything the Turn queue itself journals leaves both alone.\<close>

fun turn_kind :: "'r event_kind \<Rightarrow> bool" where
  "turn_kind (ScheduleCreated _) = False"
| "turn_kind (ScheduleFired _ _ how) = (how \<noteq> FiringQueued)"
| "turn_kind _ = True"

definition turn_ext :: "'r conv \<Rightarrow> 'r conv \<Rightarrow> bool" where
  "turn_ext c c' \<longleftrightarrow>
     c_id c' = c_id c \<and> c_exists c' = c_exists c \<and>
     (\<exists>evs. c_journal c' = c_journal c @ evs \<and> list_all (\<lambda>ev. turn_kind (ev_kind ev)) evs)"

lemma turn_kinds_silent:
  "list_all (\<lambda>ev. turn_kind (ev_kind ev)) evs \<Longrightarrow> queued_firings sid evs = [] \<and> created_schedules evs = []"
  by (induction evs) (auto simp: queued_firings_def created_schedules_def split: event_kind.splits)

lemma turn_ext_firings:
  "turn_ext c c' \<Longrightarrow> queued_firings sid (c_journal c') = queued_firings sid (c_journal c) \<and>
     created_schedules (c_journal c') = created_schedules (c_journal c)"
  by (auto simp: turn_ext_def dest: turn_kinds_silent)

lemma turn_ext_refl [simp, intro]: "turn_ext c c"
  by (simp add: turn_ext_def)

lemma turn_ext_trans [trans]: "turn_ext a b \<Longrightarrow> turn_ext b c \<Longrightarrow> turn_ext a c"
  by (auto simp: turn_ext_def)

lemma turn_ext_save [simp]: "turn_ext c (save_queue q c') = turn_ext c c'"
  by (simp add: turn_ext_def save_queue_def)

lemma turn_ext_append: "turn_kind k \<Longrightarrow> turn_ext c (append_event k a s now c)"
  by (simp add: turn_ext_def append_event_def)

lemma changed_events_kinds: "list_all (\<lambda>ev. turn_kind (ev_kind ev)) (changed_events actor cid e now origin)"
  by (auto simp: changed_events_def Let_def list_all_iff split: option.split)

lemma turn_ext_changed: "changed actor e now c = Inr c' \<Longrightarrow> turn_ext c c'"
  by (auto simp: changed_Inr turn_ext_def changed_events_kinds)

lemma turn_ext_changed_all: "changed_all actor es now c = Inr c' \<Longrightarrow> turn_ext c c'"
  by (induction es arbitrary: c) (auto simp: rbind_Inr_iff intro: turn_ext_trans turn_ext_changed)

lemma turn_ext_auto: "turn_ext c (auto_continue_changed actor r now c)"
  by (simp add: auto_continue_changed_def turn_ext_append)

lemma turn_ext_commit: "commit_turns actor q es now c = Inr c' \<Longrightarrow> turn_ext c c'"
  by (auto simp: commit_turns_def Let_def rbind_Inr_iff
      intro: turn_ext_trans [OF turn_ext_auto] dest!: turn_ext_changed_all split: if_splits option.splits)

lemma turn_ext_claimed: "claimed e q now c = (q', c') \<Longrightarrow> turn_ext c c'"
  by (auto simp: claimed_def Let_def intro: turn_ext_auto split: option.splits)

lemma turn_ext_admit: "admit fresh actor command src adm now c = Inr c' \<Longrightarrow> turn_ext c c'"
  by (auto simp: admit_def rbind_Inr_iff intro: turn_ext_commit)

lemma turn_ext_review: "admit_review len fresh actor command cs now c = Inr c' \<Longrightarrow> turn_ext c c'"
  unfolding admit_review_def by (simp add: turn_ext_admit split: if_splits)

lemma turn_ext_withdraw: "withdraw actor tid now c = Inr c' \<Longrightarrow> turn_ext c c'"
  by (auto simp: withdraw_def rbind_Inr_iff Let_def dest: turn_ext_changed split: if_splits)

lemma turn_ext_settle: "settle run st now c = Inr c' \<Longrightarrow> turn_ext c c'"
  by (erule settle_Inr) (auto dest: turn_ext_changed)

lemma turn_ext_dispatch:
  assumes "dispatch_turn rf run now c = Inr (c', out)"
  shows "turn_ext c c'"
proof (cases out)
  case None
  then show ?thesis using assms dispatch_None by fastforce
next
  case (Some p)
  obtain e q1 q2 c1 c2 where "claimed e q1 now c = (q2, c1)" "changed (t_client (e_turn e)) e now c1 = Inr c2"
    and c': "c' = save_queue q2 c2"
    using assms Some
    by (auto simp: dispatch_turn_def rbind_Inr_iff Let_def split: if_splits option.splits sum.splits prod.splits)
  then have "turn_ext c c1" "turn_ext c1 c2" by (auto dest: turn_ext_claimed turn_ext_changed)
  then show ?thesis unfolding c' by (simp add: turn_ext_trans [of c c1 c2])
qed

lemma turn_step_ext: "turn_ext c (turn_step c a)"
proof (cases a)
  case (OpAdmit x1 x2 x3 x4 x5 x6)
  then show ?thesis by (auto intro: commit_or_inv turn_ext_admit)
next
  case (OpReview x1 x2 x3 x4 x5 x6)
  then show ?thesis by (auto intro: commit_or_inv turn_ext_review)
next
  case (OpWithdraw x1 x2 x3)
  then show ?thesis by (auto intro: commit_or_inv turn_ext_withdraw)
next
  case (OpDispatch x1 x2 x3)
  then show ?thesis by (auto dest: turn_ext_dispatch split: sum.split)
next
  case (OpSettle x1 x2 x3)
  then show ?thesis by (auto intro: commit_or_inv turn_ext_settle)
qed

text \<open>Steps that journal without touching the queue or the claims.\<close>

definition quiet :: "'r conv \<Rightarrow> 'r conv \<Rightarrow> bool" where
  "quiet c c' \<longleftrightarrow>
     turn_ext c c' \<and> queue_of c' = queue_of c \<and> claimed_seqs (c_journal c') = claimed_seqs (c_journal c)"

lemma quiet_refl [simp, intro]: "quiet c c"
  by (simp add: quiet_def)

lemma quiet_trans: "quiet a b \<Longrightarrow> quiet b c \<Longrightarrow> quiet a c"
  by (auto simp: quiet_def intro: turn_ext_trans)

lemma quiet_changed: "changed actor e now c = Inr c' \<Longrightarrow> t_state (e_turn e) \<noteq> Active \<Longrightarrow> quiet c c'"
  using turn_ext_changed [of actor e now c c'] changed_claims [of actor e now c c']
  by (auto simp: quiet_def changed_Inr queue_of_def)

lemma append_event_frame [simp]:
  "queue_of (append_event k a sb now c) = queue_of c" "c_id (append_event k a sb now c) = c_id c"
  "c_exists (append_event k a sb now c) = c_exists c"
  "c_journal (append_event k a sb now c) = c_journal c @ [\<lparr>ev_kind = k, ev_origin = a, ev_subject = sb, ev_at = now\<rparr>]"
  by (simp_all add: append_event_def queue_of_def)

lemma quiet_expired: "quiet c (append_event (ScheduleFired i f FiringExpired) a sb now c)"
  by (simp add: quiet_def turn_ext_append claimed_seqs_def)

definition of_schedule :: "uuid \<Rightarrow> entry \<Rightarrow> bool" where
  "of_schedule sid e \<longleftrightarrow>
     (case e_schedule e of None \<Rightarrow> False | Some i \<Rightarrow> si_schedule i = sid) \<and> t_state (e_turn e) = Queued_Turn"

lemma cancel_entries_kept:
  "cancel_entries actor sid now es c = Inr (kept, c') \<Longrightarrow>
   kept = filter (\<lambda>e. \<not> of_schedule sid e) es \<and> quiet c c'"
proof (induction es arbitrary: c kept)
  case (Cons e es)
  show ?case
  proof (cases "of_schedule sid e")
    case True
    with Cons.prems obtain c1 where c1: "changed actor (set_state Canceled e) now c = Inr c1"
      "cancel_entries actor sid now es c1 = Inr (kept, c')"
      by (auto simp: of_schedule_def rbind_Inr_iff split: option.splits)
    have "quiet c c1" using quiet_changed [OF c1(1)] by (simp add: set_state_def)
    with Cons.IH [OF c1(2)] True show ?thesis by (auto intro: quiet_trans)
  next
    case False
    then obtain kept' where "cancel_entries actor sid now es c = Inr (kept', c')" "kept = e # kept'"
      using Cons.prems by (auto simp: of_schedule_def rbind_Inr_iff split: option.splits if_splits)
    with Cons.IH False show ?thesis by auto
  qed
qed simp

definition lapsed :: "int \<Rightarrow> entry \<Rightarrow> bool" where
  "lapsed now e \<longleftrightarrow>
     t_state (e_turn e) = Queued_Turn \<and>
     (case e_schedule e of None \<Rightarrow> False | Some i \<Rightarrow> schedule_expired i now)"

lemma expire_entries_kept:
  "expire_entries now es c = Inr (kept, c') \<Longrightarrow>
   kept = filter (\<lambda>e. \<not> lapsed now e) es \<and> quiet c c'"
proof (induction es arbitrary: c kept)
  case (Cons e es)
  show ?case
  proof (cases "lapsed now e")
    case True
    then obtain i where i: "e_schedule e = Some i" "t_state (e_turn e) = Queued_Turn" "schedule_expired i now"
      by (auto simp: lapsed_def split: option.splits)
    with Cons.prems obtain c1 where c1: "changed (t_client (e_turn e)) (set_state Canceled e) now c = Inr c1"
      "expire_entries now es (append_event (ScheduleFired (si_schedule i) (si_firing i) FiringExpired)
         (ScheduledTaskActor (si_schedule i) (t_client (e_turn e))) (OnConversation (c_id c)) now c1) = Inr (kept, c')"
      by (auto simp: rbind_Inr_iff)
    have "quiet c c1" using quiet_changed [OF c1(1)] by (simp add: set_state_def)
    note quiet_trans [OF quiet_trans [OF this quiet_expired]]
    with Cons.IH [OF c1(2)] True show ?thesis by auto
  next
    case False
    then obtain kept' where "expire_entries now es c = Inr (kept', c')" "kept = e # kept'"
      using Cons.prems by (auto simp: lapsed_def rbind_Inr_iff split: option.splits if_splits)
    with Cons.IH False show ?thesis by auto
  qed
qed simp

lemma turns_inv_filter:
  assumes "turns_inv c" and "queue_of c' = (queue_of c)\<lparr>q_entries := filter P (q_entries (queue_of c))\<rparr>"
    and "claimed_seqs (c_journal c') = claimed_seqs (c_journal c)"
  shows "turns_inv c'"
  using assms claims_inv_drop [of "queue_of c" "claimed_seqs (c_journal c)" "filter P (q_entries (queue_of c))"]
  by (auto simp: turns_inv_def entries_inv_filter)

lemma turns_inv_quiet: "turns_inv c \<Longrightarrow> quiet c c' \<Longrightarrow> turns_inv c'"
  by (simp add: turns_inv_def quiet_def)

lemma expire_ok:
  assumes "expire now c = Inr c'"
  shows "turn_ext c c'" and "turns_inv c \<Longrightarrow> turns_inv c'"
    and "q_entries (queue_of c') = filter (\<lambda>e. \<not> lapsed now e) (q_entries (queue_of c))"
proof -
  obtain c1 where k: "expire_entries now (q_entries (queue_of c)) c =
      Inr (filter (\<lambda>e. \<not> lapsed now e) (q_entries (queue_of c)), c1)" and q: "quiet c c1"
    and c': "c' = (if filter (\<lambda>e. \<not> lapsed now e) (q_entries (queue_of c)) \<noteq> q_entries (queue_of c)
        then save_queue ((queue_of c)\<lparr>q_entries := filter (\<lambda>e. \<not> lapsed now e) (q_entries (queue_of c))\<rparr>) c1 else c1)"
    using assms expire_entries_kept by (fastforce simp: expire_def rbind_Inr_iff)
  show "turn_ext c c'" using q by (simp add: c' quiet_def)
  show "q_entries (queue_of c') = filter (\<lambda>e. \<not> lapsed now e) (q_entries (queue_of c))"
    using q by (simp add: c' quiet_def)
  show "turns_inv c \<Longrightarrow> turns_inv c'"
    using q turns_inv_quiet [OF _ q] turns_inv_filter [of c c' "\<lambda>e. \<not> lapsed now e"]
    by (simp add: c' quiet_def)
qed

section \<open>Advancing a schedule\<close>

lemma fire_outcome_ok:
  assumes "fire_outcome now task nxt c = Inr (how, c')"
  shows "turn_ext c c'" and "turns_inv c \<Longrightarrow> turns_inv c'"
    and "how = FiringQueued \<Longrightarrow> now - CATCH_UP_MS \<le> sf_due (st_next task) \<and> now < sf_due nxt"
proof -
  have "c' = c \<and> how \<noteq> FiringQueued \<or>
    (\<exists>q changes. prepare 0 (st_client task) (sf_id (st_next task)) Schedule
        (AdmitScheduled (st_prompt task) \<lparr>si_schedule = st_id task, si_firing = st_next task\<rparr>) c = Inr (q, changes)
      \<and> commit_turns (st_client task) q changes now c = Inr c'
      \<and> now - CATCH_UP_MS \<le> sf_due (st_next task) \<and> now < sf_due nxt)"
    using assms by (auto simp: fire_outcome_def Let_def rbind_Inr_iff split: if_splits)
  then consider "c' = c" "how \<noteq> FiringQueued"
    | "admit 0 (st_client task) (sf_id (st_next task)) Schedule
        (AdmitScheduled (st_prompt task) \<lparr>si_schedule = st_id task, si_firing = st_next task\<rparr>) now c = Inr c'"
      "now - CATCH_UP_MS \<le> sf_due (st_next task) \<and> now < sf_due nxt"
    by (auto simp: admit_def rbind_Inr_iff)
  note cases = this
  show "turn_ext c c'" by (cases rule: cases) (auto intro: turn_ext_admit)
  show "turns_inv c \<Longrightarrow> turns_inv c'" by (cases rule: cases) (auto intro: admit_inv)
  show "how = FiringQueued \<Longrightarrow> now - CATCH_UP_MS \<le> sf_due (st_next task) \<and> now < sf_due nxt"
    by (cases rule: cases) auto
qed

lemma fire_event_frame [simp]:
  "c_id (fire_event task how now c) = c_id c" "c_exists (fire_event task how now c) = c_exists c"
  "turns_inv (fire_event task how now c) = turns_inv c"
  "created_schedules (c_journal (fire_event task how now c)) = created_schedules (c_journal c)"
  "queued_firings sid (c_journal (fire_event task how now c)) =
     queued_firings sid (c_journal c) @ (if st_id task = sid \<and> how = FiringQueued then [sf_local (st_next task)] else [])"
  by (simp_all add: fire_event_def turns_inv_def claimed_seqs_def created_schedules_def queued_firings_def)

lemma next_firing_local: "next_firing L task = Inr nxt \<Longrightarrow> sf_local nxt = sf_local (st_next task) + DAY"
  by (auto simp: next_firing_def rbind_Inr_iff resolve_Inr)

text \<open>The occurrences admitted so far precede the next one of their schedule.\<close>

definition fired_before :: "scheduled_task \<Rightarrow> 'r conv \<Rightarrow> bool" where
  "fired_before task c \<longleftrightarrow> (\<forall>l \<in> set (queued_firings (st_id task) (c_journal c)). l < sf_local (st_next task))"

definition fired_sorted :: "'r conv \<Rightarrow> bool" where
  "fired_sorted c \<longleftrightarrow> (\<forall>sid. sorted_wrt (<) (queued_firings sid (c_journal c)))"

definition same_task :: "scheduled_task \<Rightarrow> scheduled_task \<Rightarrow> bool" where
  "same_task t t' \<longleftrightarrow>
     st_id t' = st_id t \<and> st_prompt t' = st_prompt t \<and> st_client t' = st_client t \<and> st_zone t' = st_zone t \<and>
     st_time t' = st_time t \<and> st_conversation t' = st_conversation t"

lemma same_task_refl [simp]: "same_task t t"
  by (simp add: same_task_def)

definition fired_ext :: "uuid \<Rightarrow> 'r conv \<Rightarrow> 'r conv \<Rightarrow> bool" where
  "fired_ext sid c c' \<longleftrightarrow>
     c_id c' = c_id c \<and> c_exists c' = c_exists c \<and>
     created_schedules (c_journal c') = created_schedules (c_journal c) \<and>
     (\<forall>o'. o' \<noteq> sid \<longrightarrow> queued_firings o' (c_journal c') = queued_firings o' (c_journal c))"

lemma turn_ext_fired: "turn_ext c c' \<Longrightarrow> fired_ext sid c c'"
  using turn_ext_firings [of c c'] by (auto simp: fired_ext_def turn_ext_def)

lemma fired_ext_trans: "fired_ext sid a b \<Longrightarrow> fired_ext sid b c \<Longrightarrow> fired_ext sid a c"
  by (simp add: fired_ext_def)

lemma fire_step:
  assumes "next_firing L task = Inr nxt" and "fire_outcome now task nxt c = Inr (how, c1)"
    and "fired_before task c" and "fired_sorted c"
  defines "c' \<equiv> fire_event task how now c1" and "task' \<equiv> task\<lparr>st_next := nxt\<rparr>"
  shows "fired_before task' c'" and "fired_sorted c'" and "fired_ext (st_id task) c c'"
    and "turns_inv c \<Longrightarrow> turns_inv c'"
proof -
  note f = fire_outcome_ok [OF assms(2)]
  have q: "queued_firings sid (c_journal c1) = queued_firings sid (c_journal c)" for sid
    using turn_ext_firings [OF f(1)] by blast
  have l: "sf_local (st_next task) < sf_local nxt" using next_firing_local [OF assms(1)] by (simp add: DAY_def)
  show "fired_before task' c'"
    using assms(3) l by (auto simp: fired_before_def c'_def task'_def q)
  show "fired_sorted c'"
    using assms(3,4) by (auto simp: fired_sorted_def fired_before_def c'_def q sorted_wrt_append)
  show "fired_ext (st_id task) c c'"
    using turn_ext_fired [OF f(1), of "st_id task"] by (auto simp: fired_ext_def c'_def)
  show "turns_inv c \<Longrightarrow> turns_inv c'" using f(2) by (simp add: c'_def)
qed

lemma advance_loop_ok:
  "advance_loop L n now task c = Inr (task', c') \<Longrightarrow> fired_before task c \<Longrightarrow> fired_sorted c \<Longrightarrow> turns_inv c \<Longrightarrow>
   fired_before task' c' \<and> fired_sorted c' \<and> turns_inv c' \<and> fired_ext (st_id task) c c' \<and> same_task task task'"
proof (induction n arbitrary: task c)
  case 0
  then show ?case by (simp add: fired_ext_def)
next
  case (Suc n)
  show ?case
  proof (cases "now < sf_due (st_next task)")
    case True
    then show ?thesis using Suc.prems by (simp add: fired_ext_def)
  next
    case False
    then obtain nxt how c1 where step: "next_firing L task = Inr nxt" "fire_outcome now task nxt c = Inr (how, c1)"
      and rest: "advance_loop L n now (task\<lparr>st_next := nxt\<rparr>) (fire_event task how now c1) = Inr (task', c')"
      using Suc.prems(1) by (auto simp: rbind_Inr_iff)
    note s = fire_step [OF step Suc.prems(2,3)]
    from Suc.IH [OF rest s(1,2) s(4) [OF Suc.prems(4)]] s(3) show ?thesis
      by (auto simp: same_task_def intro: fired_ext_trans)
  qed
qed

section \<open>Histories of a Conversation with schedules\<close>

datatype sched_op =
    TurnOp turn_op
  | OpCreate clock_lib uuid uuid string string ustring int
  | OpCancel uuid uuid int
  | OpTick clock_lib int

text \<open>A fresh identity (\<open>Uuid::now_v7\<close>) was never given to a schedule before.\<close>

fun sched_step :: "'r sched \<Rightarrow> sched_op \<Rightarrow> 'r sched" where
  "sched_step s (TurnOp a) = s\<lparr>s_conv := turn_step (s_conv s) a\<rparr>"
| "sched_step s (OpCreate L fresh actor zone time prompt now) =
     (if fresh \<in> set (created_schedules (c_journal (s_conv s))) then s
      else (case create_schedule L fresh actor zone time prompt now s of
              Some (Inr (s', task)) \<Rightarrow> s'
            | _ \<Rightarrow> s))"
| "sched_step s (OpCancel actor sid now) = commit_or s (cancel_schedule actor sid now s)"
| "sched_step s (OpTick L now) = snd (perform_schedules L now s)"

definition task_ok :: "'r conv \<Rightarrow> scheduled_task \<Rightarrow> bool" where
  "task_ok c t \<longleftrightarrow>
     st_id t \<in> set (created_schedules (c_journal c)) \<and> fired_before t c \<and>
     1 \<le> utf8_len (st_prompt t) \<and> utf8_len (st_prompt t) \<le> 8192"

definition sched_inv :: "'r sched \<Rightarrow> bool" where
  "sched_inv s \<longleftrightarrow>
     turns_inv (s_conv s) \<and> fired_sorted (s_conv s) \<and>
     (\<forall>sid. sid \<notin> set (created_schedules (c_journal (s_conv s))) \<longrightarrow>
        queued_firings sid (c_journal (s_conv s)) = []) \<and>
     sorted_wrt (<) (map st_id (s_tasks s)) \<and> length (s_tasks s) \<le> 32 \<and>
     (\<forall>t \<in> set (s_tasks s). task_ok (s_conv s) t)"

lemma sched_inv_ext:
  assumes "sched_inv s" and "turn_ext (s_conv s) c" and "turns_inv c"
  shows "sched_inv (s\<lparr>s_conv := c\<rparr>)"
  using assms turn_ext_firings [OF assms(2)]
  by (auto simp: sched_inv_def task_ok_def fired_sorted_def fired_before_def)

lemma sched_inv_advance:
  assumes "sched_inv s" and "scheduled_task_of sid s = Some task" and "advance L task now s = Inr s'"
  shows "sched_inv s'"
proof (cases "require_authoritative_id (s_conv s)")
  case (Inl e)
  then show ?thesis using assms(1,3) by (auto simp: advance_def rbind_Inr_iff)
next
  case (Inr u)
  then obtain task' c where al: "advance_loop L 128 now task (s_conv s) = Inr (task', c)"
    and s': "s' = save_schedule task' (s\<lparr>s_conv := c\<rparr>)"
    using assms(3) by (auto simp: advance_def rbind_Inr_iff)
  have t: "task \<in> set (s_tasks s)" "st_id task = sid" using scheduled_task_of_Some [OF assms(2)] by auto
  have ok: "task_ok (s_conv s) task" "fired_sorted (s_conv s)" "turns_inv (s_conv s)"
    using assms(1) t by (auto simp: sched_inv_def)
  from advance_loop_ok [OF al _ ok(2,3)] ok(1) have a: "fired_before task' c" "fired_sorted c" "turns_inv c"
    "fired_ext (st_id task) (s_conv s) c" "same_task task task'" by (auto simp: task_ok_def)
  have tasks: "s_tasks s' = map (\<lambda>x. if st_id x = st_id task then task' else x) (s_tasks s)"
    using assms(2) t(2) a(5) scheduled_task_of_cong [of "s\<lparr>s_conv := c\<rparr>" s]
    by (simp add: s' save_schedule_def same_task_def)
  have conv: "s_conv s' = c" by (simp add: s' save_schedule_def)
  have ids: "map st_id (s_tasks s') = map st_id (s_tasks s)"
    using a(5) by (simp add: tasks same_task_def)
  have "task_ok c x" if "x \<in> set (s_tasks s')" for x
    using that assms(1) a ok(1)
    by (auto simp: tasks sched_inv_def task_ok_def fired_ext_def same_task_def fired_before_def split: if_splits)
  moreover have "length (s_tasks s') = length (s_tasks s)" by (simp add: tasks)
  moreover have "queued_firings o' (c_journal c) = []"
    if "o' \<notin> set (created_schedules (c_journal c))" for o'
  proof -
    have e: "created_schedules (c_journal c) = created_schedules (c_journal (s_conv s))"
      "o' \<noteq> st_id task \<Longrightarrow> queued_firings o' (c_journal c) = queued_firings o' (c_journal (s_conv s))"
      using a(4) by (auto simp: fired_ext_def)
    then have "o' \<noteq> st_id task" using that ok(1) by (auto simp: task_ok_def)
    then show ?thesis using e that assms(1) by (simp add: sched_inv_def)
  qed
  ultimately show ?thesis using assms(1) a(2,3) ids conv by (auto simp: sched_inv_def)
qed

lemma sched_inv_page: "sched_inv s \<Longrightarrow> sched_inv (snd (perform_page L now ts s))"
  by (induction L now ts s rule: perform_page.induct)
    (auto dest: sched_inv_advance split: option.split sum.split)

lemma sched_inv_due: "sched_inv s \<Longrightarrow> sched_inv (snd (perform_due L now after s))"
proof (induction L now after s rule: perform_due.induct)
  case (1 L now after s)
  obtain r s' where p: "perform_page L now (due_schedules now after s) s = (r, s')" by fastforce
  then have "sched_inv s'" using sched_inv_page [OF 1(2), of L now "due_schedules now after s"] by simp
  then show ?case using 1(1) [OF refl _ p [symmetric]] 1(2) p
    by (subst perform_due.simps) (auto simp: Let_def split: option.split)
qed

lemma sched_inv_expire:
  "sched_inv s \<Longrightarrow> expire now (s_conv s) = Inr c \<Longrightarrow> sched_inv (s\<lparr>s_conv := c\<rparr>)"
  using expire_ok [of now "s_conv s" c] sched_inv_ext [of s c] by (simp add: sched_inv_def)

lemma sched_inv_perform: "sched_inv s \<Longrightarrow> sched_inv (snd (perform_schedules L now s))"
  using sched_inv_due [of s L now None]
  by (cases "perform_due L now None s")
    (auto simp: perform_schedules_def sched_inv_expire split: option.split sum.split)

lemma sched_inv_cancel:
  assumes "sched_inv s" and "cancel_schedule actor sid now s = Inr s'"
  shows "sched_inv s'"
proof -
  let ?c = "s_conv s"
  let ?es = "filter (\<lambda>e. \<not> of_schedule sid e) (q_entries (queue_of ?c))"
  obtain c where q: "quiet ?c c"
    and s': "s' = (delete_schedule sid now s)\<lparr>s_conv := append_event (ScheduleCanceled sid)
        (InteractiveClient actor) (OnConversation (c_id ?c)) now (save_queue ((queue_of ?c)\<lparr>q_entries := ?es\<rparr>) c)\<rparr>"
    using assms(2) cancel_entries_kept
    by (fastforce simp: cancel_schedule_def rbind_Inr_iff Let_def delete_schedule_def)
  define d where "d = append_event (ScheduleCanceled sid) (InteractiveClient actor) (OnConversation (c_id ?c)) now
      (save_queue ((queue_of ?c)\<lparr>q_entries := ?es\<rparr>) c)"
  have ext: "turn_ext ?c d"
    unfolding d_def using q by (intro turn_ext_trans [OF _ turn_ext_append]) (simp_all add: quiet_def)
  have "turns_inv d"
    by (rule turns_inv_filter [of ?c]) (use q assms(1) in \<open>auto simp: d_def quiet_def sched_inv_def claimed_seqs_def\<close>)
  from sched_inv_ext [OF assms(1) ext this] have "sched_inv (s\<lparr>s_conv := d\<rparr>)" .
  moreover have "length (filter (\<lambda>t. st_id t \<noteq> sid) (s_tasks s)) \<le> 32"
    using assms(1) length_filter_le [of "\<lambda>t. st_id t \<noteq> sid" "s_tasks s"] unfolding sched_inv_def by linarith
  ultimately show ?thesis
    unfolding s' d_def [symmetric]
    by (auto simp: sched_inv_def delete_schedule_def sorted_wrt_map sorted_wrt_filter)
qed

lemma sorted_insort_task:
  "sorted_wrt (<) (map st_id ts) \<Longrightarrow> st_id t \<notin> set (map st_id ts) \<Longrightarrow> sorted_wrt (<) (map st_id (insort_key st_id t ts))"
  by (induction ts) (auto simp: set_insort_key)

lemma create_schedule_Some:
  assumes "create_schedule L fresh actor zone time prompt now s = Some (Inr (s', task))"
  obtains firing where "first_firing L fresh zone time now = Some (Inr firing)"
    and "task = \<lparr>st_id = fresh, st_conversation = c_id (s_conv s), st_client = actor, st_zone = zone,
                  st_time = time, st_prompt = prompt, st_next = firing\<rparr>"
    and "length (s_tasks s) < 32" and "prompt \<noteq> []" and "utf8_len prompt \<le> 8192" and "s_retain s"
    and "s' = (save_schedule task s)\<lparr>s_conv := append_event (ScheduleCreated task) (InteractiveClient actor)
                 (OnConversation (c_id (s_conv s))) now (s_conv s)\<rparr>"
  using assms
  by (auto simp: create_schedule_def snapshot_schedules_def rbind_Inr_iff Let_def save_schedule_def
      split: sum.splits if_splits option.splits)

lemma sched_inv_create:
  assumes "sched_inv s" and "fresh \<notin> set (created_schedules (c_journal (s_conv s)))"
    and "create_schedule L fresh actor zone time prompt now s = Some (Inr (s', task))"
  shows "sched_inv s'"
proof -
  from create_schedule_Some [OF assms(3)] obtain firing where
    task: "task = \<lparr>st_id = fresh, st_conversation = c_id (s_conv s), st_client = actor, st_zone = zone,
                  st_time = time, st_prompt = prompt, st_next = firing\<rparr>"
    and lim: "length (s_tasks s) < 32" "prompt \<noteq> []" "utf8_len prompt \<le> 8192"
    and s': "s' = (save_schedule task s)\<lparr>s_conv := append_event (ScheduleCreated task) (InteractiveClient actor)
                 (OnConversation (c_id (s_conv s))) now (s_conv s)\<rparr>" .
  let ?c = "s_conv s'"
  have new: "\<forall>t \<in> set (s_tasks s). st_id t \<noteq> fresh" using assms(1,2) by (auto simp: sched_inv_def task_ok_def)
  then have tasks: "s_tasks s' = insort_key st_id task (s_tasks s)"
    by (auto simp: s' save_schedule_def scheduled_task_of_def find_None_iff task)
  have j: "created_schedules (c_journal ?c) = created_schedules (c_journal (s_conv s)) @ [fresh]"
    "queued_firings sid (c_journal ?c) = queued_firings sid (c_journal (s_conv s))" for sid
    by (simp_all add: s' created_schedules_def queued_firings_def task)
  have t: "turns_inv ?c" using assms(1) by (simp add: s' sched_inv_def turns_inv_def claimed_seqs_def)
  have srt: "sorted_wrt (<) (map st_id (s_tasks s'))"
    unfolding tasks using assms(1) new by (intro sorted_insort_task) (auto simp: sched_inv_def task)
  have fresh_empty: "queued_firings fresh (c_journal (s_conv s)) = []" using assms(1,2) by (simp add: sched_inv_def)
  have "task_ok ?c x" if "x \<in> set (s_tasks s')" for x
    using that assms(1) lim(2,3) utf8_len_pos [of prompt] fresh_empty
    by (auto simp: tasks set_insort_key task_ok_def fired_before_def j sched_inv_def task Suc_le_eq)
  then show ?thesis using assms(1) t srt j lim(1) by (auto simp: sched_inv_def fired_sorted_def tasks)
qed

lemma sched_step_inv: "sched_inv s \<Longrightarrow> sched_inv (sched_step s a)"
proof (cases a)
  case (TurnOp t)
  assume "sched_inv s"
  then show ?thesis unfolding TurnOp sched_step.simps
    by (rule sched_inv_ext) (use \<open>sched_inv s\<close> in \<open>auto simp: sched_inv_def intro: turn_step_ext turn_step_inv\<close>)
next
  case (OpCreate L fresh actor zone time prompt now)
  then show "sched_inv s \<Longrightarrow> ?thesis" by (auto dest: sched_inv_create split: option.split sum.split)
next
  case (OpCancel actor sid now)
  then show "sched_inv s \<Longrightarrow> ?thesis" by (auto intro: commit_or_inv sched_inv_cancel)
next
  case (OpTick L now)
  then show "sched_inv s \<Longrightarrow> ?thesis" by (simp add: sched_inv_perform)
qed

interpretation schedules: machine sched_step sched_inv
  by unfold_locales (rule sched_step_inv)

definition new_sched :: "uuid \<Rightarrow> 'r sched" where
  "new_sched cid = \<lparr>s_conv = new_conv cid, s_retain = True, s_tasks = [], s_deletions = []\<rparr>"

lemma new_sched_inv: "sched_inv (new_sched cid)"
  using new_conv_inv [of cid]
  by (simp add: sched_inv_def new_sched_def fired_sorted_def)
    (simp add: new_conv_def queued_firings_def)

lemma advance_loop_window:
  "advance_loop L n now task c = Inr (task', c') \<Longrightarrow>
   now < sf_due (st_next task') \<or> sf_local (st_next task') = sf_local (st_next task) + int n * DAY"
proof (induction n arbitrary: task c)
  case (Suc n)
  show ?case
  proof (cases "now < sf_due (st_next task)")
    case False
    then obtain nxt how c1 where step: "next_firing L task = Inr nxt"
      and rest: "advance_loop L n now (task\<lparr>st_next := nxt\<rparr>) (fire_event task how now c1) = Inr (task', c')"
      using Suc.prems(1) by (auto simp: rbind_Inr_iff)
    from Suc.IH [OF rest] next_firing_local [OF step] show ?thesis by (auto simp: algebra_simps)
  qed (use Suc.prems in simp)
qed simp

text \<open>An occurrence is queued only when it ends the catching up.\<close>

definition caught_up :: "int \<Rightarrow> scheduled_task \<Rightarrow> scheduled_task \<Rightarrow> 'r event \<Rightarrow> bool" where
  "caught_up now task task' ev \<longleftrightarrow>
     (\<forall>sid f. ev_kind ev = ScheduleFired sid f FiringQueued \<longrightarrow>
        sid = st_id task \<and> now - CATCH_UP_MS \<le> sf_due f \<and> sf_due f \<le> now \<and> now < sf_due (st_next task') \<and>
        sf_local (st_next task') = sf_local f + DAY)"

lemma advance_loop_journal:
  "advance_loop L n now task c = Inr (task', c') \<Longrightarrow>
   \<exists>evs. c_journal c' = c_journal c @ evs \<and> (\<forall>ev \<in> set evs. caught_up now task task' ev)"
proof (induction n arbitrary: task c)
  case (Suc n)
  show ?case
  proof (cases "now < sf_due (st_next task)")
    case False
    then obtain nxt how c1 where step: "next_firing L task = Inr nxt" "fire_outcome now task nxt c = Inr (how, c1)"
      and rest: "advance_loop L n now (task\<lparr>st_next := nxt\<rparr>) (fire_event task how now c1) = Inr (task', c')"
      using Suc.prems(1) by (auto simp: rbind_Inr_iff)
    note f = fire_outcome_ok [OF step(2)]
    from f(1) obtain es where es: "c_journal c1 = c_journal c @ es" "list_all (\<lambda>ev. turn_kind (ev_kind ev)) es"
      by (auto simp: turn_ext_def)
    have quiet: "caught_up now task task' ev" if "ev \<in> set es" for ev
      using es(2) that by (fastforce simp: list_all_iff caught_up_def)
    let ?ev = "\<lparr>ev_kind = ScheduleFired (st_id task) (st_next task) how,
      ev_origin = ScheduledTaskActor (st_id task) (st_client task), ev_subject = OnConversation (c_id c1), ev_at = now\<rparr>"
    from Suc.IH [OF rest] obtain es' where es': "c_journal c' = c_journal c @ es @ ?ev # es'"
      "\<forall>ev \<in> set es'. caught_up now task task' ev"
      by (auto simp: fire_event_def es(1) caught_up_def)
    have "caught_up now task task' ?ev"
    proof (cases "how = FiringQueued")
      case True
      from f(3) [OF True] rest have "task' = task\<lparr>st_next := nxt\<rparr>" by (cases n) auto
      with f(3) [OF True] False next_firing_local [OF step(1)] show ?thesis by (simp add: caught_up_def)
    qed (simp add: caught_up_def)
    with quiet es' show ?thesis by (intro exI [of _ "es @ ?ev # es'"]) auto
  qed (use Suc.prems in simp)
qed simp

lemma sorted_ids_unique: "sorted_wrt (<) (map st_id ts) \<Longrightarrow> length (filter (\<lambda>t. st_id t = sid) ts) \<le> 1"
  by (induction ts) (auto simp: filter_empty_conv)

section \<open>Properties\<close>

text \<open>
  C30: No occurrence of a schedule is delivered twice: over any history of clients, schedules,
  dispatches, settlements and ticks of the clock, the occurrences of a schedule admitted to the
  Turn queue have strictly ascending local times, whatever happened in between (restarts, missed
  days, a full queue, cancellations), and everything still to come is later.
\<close>
theorem occurrences_admitted_once:
  fixes ops cid
  defines "s \<equiv> foldl sched_step (new_sched cid :: 'r sched) ops"
  shows "sorted_wrt (<) (queued_firings sid (c_journal (s_conv s)) @
      map (sf_local \<circ> st_next) (filter (\<lambda>t. st_id t = sid) (s_tasks s)))"
proof -
  have inv: "sched_inv s" unfolding s_def by (rule schedules.run_inv [OF new_sched_inv])
  then have "length (filter (\<lambda>t. st_id t = sid) (s_tasks s)) \<le> 1"
    by (intro sorted_ids_unique) (simp add: sched_inv_def)
  then have "sorted_wrt (<) (map (sf_local \<circ> st_next) (filter (\<lambda>t. st_id t = sid) (s_tasks s)))"
    by (cases "filter (\<lambda>t. st_id t = sid) (s_tasks s)") auto
  then show ?thesis
    using inv by (auto simp: sorted_wrt_append sched_inv_def fired_sorted_def task_ok_def fired_before_def)
qed

text \<open>
  C36: A schedule admits only the newest missed occurrence and only within the catch-up window: of the
  Events that advancing appends, one that reports an occurrence as queued names an occurrence
  due within the last seven days, and the schedule's next occurrence is the following day's and
  still to come. Advancing leaves the next occurrence in the future unless it has worked through
  its bound of 128 missed days.
\<close>
theorem advance_catches_up:
  assumes "advance_loop L 128 now task c = Inr (task', c')"
  shows "\<exists>evs. c_journal c' = c_journal c @ evs \<and>
    (\<forall>ev \<in> set evs. \<forall>sid f. ev_kind ev = ScheduleFired sid f FiringQueued \<longrightarrow>
       sid = st_id task \<and> now - 604800000 \<le> sf_due f \<and> sf_due f \<le> now \<and> now < sf_due (st_next task') \<and>
       sf_local (st_next task') = sf_local f + 86400) \<and>
    (now < sf_due (st_next task') \<or> sf_local (st_next task') = sf_local (st_next task) + 128 * 86400)"
  using advance_loop_journal [OF assms] advance_loop_window [OF assms]
  by (auto simp: caught_up_def CATCH_UP_MS_def DAY_def)

text \<open>
  C35: Creating a schedule always finds its first occurrence: with a zone whose offsets stay in the
  documented range the search ends, and the occurrence it answers is the earliest of the daily
  local times, from the current local date on, whose selected instant is still to come.
\<close>
theorem first_occurrence_found:
  assumes "time_zone L zone = Inr z" and "tz_bounded z"
  shows "\<exists>r. first_firing L sid zone time now = Some r \<and>
    (\<forall>f. r = Inr f \<longrightarrow> now < sf_due f \<and>
       (\<exists>t n. local_time time = Some t \<and>
          (let day = (\<lambda>m. ((now div 1000 + tz_offset z (now div 1000)) div 86400 + int m) * 86400 + t)
           in resolve L sid z (day n) = Inr f \<and>
              (\<forall>m < n. \<exists>g. resolve L sid z (day m) = Inr g \<and> sf_due g \<le> now))))"
proof (cases "local_time time")
  case None
  then show ?thesis using assms(1) by (simp add: first_firing_def)
next
  case (Some t)
  let ?d = "(now div 1000 + tz_offset z (now div 1000)) div 86400 * 86400 + t"
  from first_from_future [OF assms(2), of L sid now ?d] obtain r where
    r: "first_from L sid z now ?d = Some r"
    "\<And>f. r = Inr f \<Longrightarrow> now < sf_due f \<and>
       (\<exists>n. resolve L sid z (?d + int n * DAY) = Inr f \<and>
          (\<forall>m < n. \<exists>g. resolve L sid z (?d + int m * DAY) = Inr g \<and> sf_due g \<le> now))" by blast
  show ?thesis
  proof (cases "cl_instant L (now div 1000) \<and> east_opt (tz_offset z (now div 1000))")
    case True
    then have "first_firing L sid zone time now = Some r"
      using assms(1) Some r(1) by (simp add: first_firing_def DAY_def)
    moreover have "?d + int m * DAY = ((now div 1000 + tz_offset z (now div 1000)) div 86400 + int m) * 86400 + t" for m
      by (simp add: DAY_def algebra_simps)
    ultimately show ?thesis using Some r(2) unfolding Let_def by (metis (mono_tags, lifting))
  qed (use assms(1) Some in \<open>auto simp: first_firing_def\<close>)
qed

text \<open>A zone without transitions, at UTC.\<close>

definition utc :: tz where
  "utc = \<lparr>tz_name = Some ''UTC'', tz_ambiguous = (\<lambda>_. Unambiguous 0), tz_offset = (\<lambda>_. 0),
          tz_following = (\<lambda>_. None)\<rparr>"

definition utc_lib :: clock_lib where
  "utc_lib = \<lparr>cl_get = (\<lambda>n. if n = ''UTC'' then Some utc else None), cl_instant = (\<lambda>_. True),
              cl_civil = (\<lambda>_. True), cl_uuid5 = (\<lambda>sid l. sid + nat l)\<rparr>"

definition demo_task :: scheduled_task where
  "demo_task = \<lparr>st_id = 7, st_conversation = 1, st_client = 2, st_zone = ''UTC'', st_time = ''00:00:10'',
                st_prompt = [65], st_next = \<lparr>sf_id = 17, sf_local = 10, sf_due = 10000\<rparr>\<rparr>"

lemma utc_zone: "time_zone utc_lib ''UTC'' = Inr utc" "tz_bounded utc"
  by (simp_all add: time_zone_def utc_lib_def utc_def tz_bounded_def offset_ok_def)

theorem first_occurrence_found_witness:
  "\<exists>r. first_firing utc_lib 7 ''UTC'' ''00:00:10'' 20000 = Some r \<and> (\<forall>f. r = Inr f \<longrightarrow> 20000 < sf_due f)"
  using first_occurrence_found [OF utc_zone, of 7 "''00:00:10''" 20000] by blast

lemma advance_loop_done: "now < sf_due (st_next t) \<Longrightarrow> advance_loop L n now t c = Inr (t, c)"
  by (cases n) simp_all

lemma demo_next: "next_firing utc_lib demo_task = Inr \<lparr>sf_id = 7 + 86410, sf_local = 86410, sf_due = 86410000\<rparr>"
  using utc_zone(1)
  by (simp add: next_firing_def demo_task_def resolve_def resolve_instant_def utc_def to_timestamp_def utc_lib_def
      DAY_def require_def ok_or_def)

lemma demo_fire:
  "\<exists>c'. fire_outcome 20000 demo_task \<lparr>sf_id = 7 + 86410, sf_local = 86410, sf_due = 86410000\<rparr> (new_conv 1) =
     Inr (FiringQueued, c')"
  by (simp add: fire_outcome_def demo_task_def CATCH_UP_MS_def i64_min_def new_conv_def admit_eval Let_def
      load_queue_def empty_queue_def)

theorem advance_catches_up_witness:
  "\<exists>t' c'. advance_loop utc_lib 128 20000 demo_task (new_conv 1 :: nat conv) = Inr (t', c') \<and>
     20000 < sf_due (st_next t')"
proof -
  from demo_fire obtain c1 :: "nat conv" where "fire_outcome 20000 demo_task
      \<lparr>sf_id = 7 + 86410, sf_local = 86410, sf_due = 86410000\<rparr> (new_conv 1) = Inr (FiringQueued, c1)" by blast
  then have "advance_loop utc_lib (Suc 127) 20000 demo_task (new_conv 1) =
      advance_loop utc_lib 127 20000 (demo_task\<lparr>st_next := \<lparr>sf_id = 7 + 86410, sf_local = 86410, sf_due = 86410000\<rparr>\<rparr>)
        (fire_event demo_task FiringQueued 20000 c1)"
    unfolding advance_loop.simps demo_next by (simp add: demo_task_def)
  also have "\<dots> = Inr (demo_task\<lparr>st_next := \<lparr>sf_id = 7 + 86410, sf_local = 86410, sf_due = 86410000\<rparr>\<rparr>,
      fire_event demo_task FiringQueued 20000 c1)"
    by (rule advance_loop_done) simp
  finally have a: "advance_loop utc_lib 128 20000 demo_task (new_conv 1) =
      Inr (demo_task\<lparr>st_next := \<lparr>sf_id = 7 + 86410, sf_local = 86410, sf_due = 86410000\<rparr>\<rparr>,
        fire_event demo_task FiringQueued 20000 c1)" by simp
  from advance_catches_up [OF a] a show ?thesis by (auto simp: demo_task_def)
qed

end
