(* ===== verification/Jet_Name.thy ===== *)
theory Jet_Name
  imports Jet_Prelude
begin

text \<open>
  Names and who may set them: \<open>jet-core/src/conversation/name.rs\<close>.

  A name is text with the authority that supplied it. The order of authorities is
  \<open>precedence\<close>; \<open>replaces\<close> says which candidate may take the place of the current name.
\<close>

datatype name_source = Manual | Utility | HarnessNative | Deterministic

record name =
  nm_value :: ustring
  nm_source :: name_source

definition MAX_NAME_BYTES :: nat where
  "MAX_NAME_BYTES = 256"

fun precedence :: "name_source \<Rightarrow> nat" where
  "precedence Manual = 4"
| "precedence Utility = 3"
| "precedence HarnessNative = 2"
| "precedence Deterministic = 1"

definition validated :: "ustring \<Rightarrow> name_source \<Rightarrow> core_error + name" where
  "validated v src =
     (if v = [] \<or> utf8_len v > MAX_NAME_BYTES \<or> trim v \<noteq> v \<or> list_ex is_control v
      then Inl (invalid_input ''name.invalid'')
      else Inr \<lparr>nm_value = v, nm_source = src\<rparr>)"

definition manual :: "ustring \<Rightarrow> core_error + name" where
  "manual v = validated v Manual"

definition harness_native :: "ustring \<Rightarrow> core_error + name" where
  "harness_native v = validated v HarnessNative"

definition process_label :: "ustring \<Rightarrow> core_error + ustring" where
  "process_label v = rbind (validated v HarnessNative) (\<lambda>n. Inr (nm_value n))"

definition replaces :: "name \<Rightarrow> name \<Rightarrow> bool" where
  "replaces candidate current \<longleftrightarrow>
     nm_source candidate = Manual \<or>
     (nm_source current \<noteq> Manual \<and> precedence (nm_source current) \<le> precedence (nm_source candidate))"

section \<open>What a validated name is\<close>

definition name_ok :: "ustring \<Rightarrow> bool" where
  "name_ok v \<longleftrightarrow> v \<noteq> [] \<and> utf8_len v \<le> 256 \<and> \<not> is_whitespace (hd v) \<and> \<not> is_whitespace (last v) \<and>
     list_all (\<lambda>c. \<not> is_control c) v"

lemma validated_Inr: "validated v src = Inr n \<longleftrightarrow> name_ok v \<and> n = \<lparr>nm_value = v, nm_source = src\<rparr>"
  by (auto simp: validated_def name_ok_def MAX_NAME_BYTES_def trim_eq_self list_ex_iff list_all_iff)

lemma replaces_order: "replaces b a \<longleftrightarrow> precedence (nm_source a) \<le> precedence (nm_source b)"
  by (cases "nm_source a"; cases "nm_source b") (simp_all add: replaces_def)

end
