(* ===== verification/Jet_Guard.thy ===== *)
theory Jet_Guard
  imports Jet_Prelude
begin

text \<open>
  What Automatic review may decide at all: the eligible actions of
  \<open>jet-core/src/review/action.rs\<close>, the settlement of a reviewer's answer of \<open>review/output.rs\<close>,
  and the per-turn limits of \<open>review/guard.rs\<close>, on the types of \<open>review/mod.rs\<close>.

  Parsing JSON (\<open>serde_json\<close>) is an argument: \<open>shell_of\<close> reads the action of a request,
  \<open>answer_of\<close> the bytes of a reviewer; both give None for what the deserializer refuses.
\<close>

section \<open>Requests and answers\<close>

record approval_request =
  aq_id :: ustring
  aq_tool :: ustring
  aq_action :: ustring

datatype review_risk = Low | Medium | High | Critical

datatype review_authorization = Absent | Partial | Sufficient

datatype review_decision = Allow | Deny

record review_verdict =
  rv_risk :: review_risk
  rv_authorization :: review_authorization
  rv_decision :: review_decision
  rv_rationale :: ustring

datatype reviewer = Native | Equivalent

datatype review_outcome =
    OutcomeDenied string
  | Decided review_verdict review_decision
  | OutcomeUnavailable string

record automatic_review_policy =
  po_version :: nat
  po_consent :: bool

record approval_review =
  rw_id :: uuid
  rw_run :: uuid
  rw_request :: approval_request
  rw_reviewer :: "reviewer option"
  rw_provider :: "string option"
  rw_binding :: "uuid option"
  rw_model :: "ustring option"
  rw_policy :: automatic_review_policy
  rw_outcome :: review_outcome

definition REQUEST_ID_BYTES :: nat where "REQUEST_ID_BYTES = 128"
definition TOOL_BYTES :: nat where "TOOL_BYTES = 128"
definition ACTION_BYTES :: nat where "ACTION_BYTES = 4096"
definition TRANSCRIPT_BYTES :: nat where "TRANSCRIPT_BYTES = 12 * 1024"
definition RATIONALE_BYTES :: nat where "RATIONALE_BYTES = 1024"

definition validate_request :: "approval_request \<Rightarrow> core_error + unit" where
  "validate_request q =
     require
       (\<not> (aq_id q = [] \<or> utf8_len (aq_id q) > REQUEST_ID_BYTES \<or> list_ex is_control (aq_id q) \<or>
           aq_tool q = [] \<or> utf8_len (aq_tool q) > TOOL_BYTES \<or> list_ex is_control (aq_tool q) \<or>
           utf8_len (aq_action q) > ACTION_BYTES))
       (invalid_input ''review.request_invalid'')"

definition unavailable :: "string \<Rightarrow> core_error" where
  "unavailable c = conflict c"

section \<open>Eligible actions\<close>

datatype operation = WorkingDirectory | LiteralOutput | NoOp

record shell =
  sh_command :: ustring
  sh_cwd :: "ustring option"
  sh_timeout :: "u32 option"

definition is_ascii_alphanumeric :: "nat \<Rightarrow> bool" where
  "is_ascii_alphanumeric c \<longleftrightarrow> (48 \<le> c \<and> c \<le> 57) \<or> (65 \<le> c \<and> c \<le> 90) \<or> (97 \<le> c \<and> c \<le> 122)"

definition char_whitespace :: "nat \<Rightarrow> bool" where
  "char_whitespace c \<longleftrightarrow> c \<in> {9, 10, 12, 13, 32}"

fun split_ws :: "ustring \<Rightarrow> ustring list" where
  "split_ws [] = [[]]"
| "split_ws (c # s) =
     (if char_whitespace c then [] # split_ws s
      else (case split_ws s of [] \<Rightarrow> [[c]] | w # ws \<Rightarrow> (c # w) # ws))"

definition split_ascii_whitespace :: "ustring \<Rightarrow> ustring list" where
  "split_ascii_whitespace s = filter (\<lambda>w. w \<noteq> []) (split_ws s)"

definition command_tool :: ustring where
  "command_tool = ucs ''item/commandExecution/requestApproval''"

definition operation_of :: "(ustring \<Rightarrow> shell option) \<Rightarrow> approval_request \<Rightarrow> operation option" where
  "operation_of shell_of q =
     (if aq_tool q \<noteq> ucs ''Bash'' \<and> aq_tool q \<noteq> command_tool then None
      else
        (case shell_of (aq_action q) of
           None \<Rightarrow> None
         | Some sh \<Rightarrow>
             if list_ex (\<lambda>c. \<not> is_ascii_alphanumeric c \<and> c \<notin> set (ucs '' /-_'')) (sh_command sh) then None
             else
               (case split_ascii_whitespace (sh_command sh) of
                  [] \<Rightarrow> None
                | w # ws \<Rightarrow>
                    if ws = [] \<and> w = ucs ''/bin/pwd'' then Some WorkingDirectory
                    else if w = ucs ''/bin/echo'' then Some LiteralOutput
                    else if ws = [] \<and> (w = ucs ''/usr/bin/true'' \<or> w = ucs ''/bin/true'') then Some NoOp
                    else None)))"

definition same_action :: "(ustring \<Rightarrow> shell option) \<Rightarrow> approval_request \<Rightarrow> approval_request \<Rightarrow> bool" where
  "same_action shell_of a b =
     (if aq_tool a \<noteq> aq_tool b then False
      else if aq_tool a \<noteq> command_tool then aq_action a = aq_action b
      else
        (case (shell_of (aq_action a), shell_of (aq_action b)) of
           (Some s, Some t) \<Rightarrow> sh_command s = sh_command t \<and> sh_cwd s = sh_cwd t \<and> sh_timeout s = sh_timeout t
         | _ \<Rightarrow> aq_action a = aq_action b))"

section \<open>Settling an answer\<close>

fun settle_verdict :: "review_decision \<Rightarrow> review_risk \<Rightarrow> review_authorization \<Rightarrow> review_decision" where
  "settle_verdict Deny _ _ = Deny"
| "settle_verdict Allow Critical _ = Deny"
| "settle_verdict Allow High Absent = Deny"
| "settle_verdict Allow High Partial = Deny"
| "settle_verdict Allow High Sufficient = Allow"
| "settle_verdict Allow Low _ = Allow"
| "settle_verdict Allow Medium _ = Allow"

definition settle_review :: "review_verdict \<Rightarrow> review_decision" where
  "settle_review v = settle_verdict (rv_decision v) (rv_risk v) (rv_authorization v)"

definition validate_answer :: "(byte list \<Rightarrow> review_verdict option) \<Rightarrow> byte list \<Rightarrow> core_error + review_verdict" where
  "validate_answer answer_of bytes =
     rbind (ok_or (answer_of bytes) (unavailable ''review.output_invalid'')) (\<lambda>a.
       if trim (rv_rationale a) = [] \<or> utf8_len (rv_rationale a) > RATIONALE_BYTES \<or> list_ex is_control (rv_rationale a)
       then Inl (unavailable ''review.output_invalid'')
       else Inr a)"

section \<open>The guard of one turn\<close>

datatype retry = NotGranted | Granted | Consumed

record denied =
  dn_review :: uuid
  dn_request :: approval_request
  dn_retry :: retry

record guard =
  gd_turn :: u32
  gd_pending :: "uuid option"
  gd_history :: "review_decision list"
  gd_stopped :: bool
  gd_denied :: "denied list"

definition default_guard :: "u32 \<Rightarrow> guard" where
  "default_guard turn = \<lparr>gd_turn = turn, gd_pending = None, gd_history = [], gd_stopped = False, gd_denied = []\<rparr>"

text \<open>\<open>iter_mut().find(..)\<close> followed by an assignment: the first match is changed.\<close>

fun update_first :: "('a \<Rightarrow> bool) \<Rightarrow> ('a \<Rightarrow> 'a) \<Rightarrow> 'a list \<Rightarrow> 'a list option" where
  "update_first P f [] = None"
| "update_first P f (x # xs) =
     (if P x then Some (f x # xs) else map_option ((#) x) (update_first P f xs))"

definition guard_admit ::
    "(ustring \<Rightarrow> shell option) \<Rightarrow> u32 \<Rightarrow> uuid \<Rightarrow> approval_request \<Rightarrow> guard \<Rightarrow> (core_error + unit) \<times> guard" where
  "guard_admit shell_of turn review q g0 =
     (let g = (if gd_turn g0 \<noteq> turn then default_guard turn else g0)
      in if gd_pending g \<noteq> None then (Inl (unavailable ''review.in_progress''), g)
         else
           (case update_first (\<lambda>d. dn_retry d = Granted \<and> same_action shell_of (dn_request d) q)
                   (\<lambda>d. d\<lparr>dn_retry := Consumed\<rparr>) (gd_denied g) of
              Some ds \<Rightarrow> (Inr (), g\<lparr>gd_denied := ds, gd_pending := Some review\<rparr>)
            | None \<Rightarrow>
                if gd_stopped g then (Inl (unavailable ''review.denial_budget''), g)
                else if list_ex (\<lambda>d. operation_of shell_of (dn_request d) = operation_of shell_of q) (gd_denied g)
                then (Inl (unavailable ''review.workaround_denied''), g)
                else (Inr (), g\<lparr>gd_pending := Some review\<rparr>)))"

definition guard_authorize :: "u32 \<Rightarrow> uuid \<Rightarrow> guard \<Rightarrow> core_error + guard" where
  "guard_authorize turn review g =
     rbind (ok_or (update_first (\<lambda>d. gd_turn g = turn \<and> dn_review d = review \<and> dn_retry d = NotGranted)
                     (\<lambda>d. d\<lparr>dn_retry := Granted\<rparr>) (gd_denied g))
                  (unavailable ''review.retry_unavailable'')) (\<lambda>ds. Inr (g\<lparr>gd_denied := ds\<rparr>))"

definition stop_reached :: "review_decision list \<Rightarrow> bool" where
  "stop_reached h \<longleftrightarrow>
     3 \<le> length (takeWhile (\<lambda>d. d = Deny) (rev h)) \<or> 10 \<le> length (filter (\<lambda>d. d = Deny) h)"

fun outcome_decision :: "review_outcome \<Rightarrow> review_decision option" where
  "outcome_decision (Decided v d) = Some d"
| "outcome_decision (OutcomeDenied r) = Some Deny"
| "outcome_decision (OutcomeUnavailable r) = None"

definition guard_record :: "approval_review \<Rightarrow> guard \<Rightarrow> guard" where
  "guard_record rw g0 =
     (let g = (if gd_pending g0 = Some (rw_id rw) then g0\<lparr>gd_pending := None\<rparr> else g0)
      in case outcome_decision (rw_outcome rw) of
           None \<Rightarrow> g
         | Some decision \<Rightarrow>
             (let g = (if decision = Deny \<and> \<not> list_ex (\<lambda>d. dn_review d = rw_id rw) (gd_denied g)
                       then g\<lparr>gd_denied := gd_denied g @ [\<lparr>dn_review = rw_id rw, dn_request = rw_request rw, dn_retry = NotGranted\<rparr>]\<rparr>
                       else g)
              in if gd_stopped g then g
                 else
                   (let pushed = gd_history g @ [decision];
                        h = (if length pushed > 50 then tl pushed else pushed)
                    in g\<lparr>gd_history := h, gd_stopped := stop_reached h\<rparr>)))"

section \<open>Operations of one turn\<close>

datatype guard_op = Admit uuid approval_request | Authorize uuid | Record approval_review

fun guard_step :: "(ustring \<Rightarrow> shell option) \<Rightarrow> guard_op \<Rightarrow> guard \<Rightarrow> guard" where
  "guard_step p (Admit r q) g = snd (guard_admit p (gd_turn g) r q g)"
| "guard_step p (Authorize r) g = commit_or g (guard_authorize (gd_turn g) r g)"
| "guard_step p (Record rw) g = guard_record rw g"

text \<open>The admissions of one kind of work, and the grants a user gave, along a sequence of operations.\<close>

fun admissions :: "(ustring \<Rightarrow> shell option) \<Rightarrow> operation option \<Rightarrow> guard_op list \<Rightarrow> guard \<Rightarrow> nat" where
  "admissions p k [] g = 0"
| "admissions p k (a # as) g =
     (case a of
        Admit r q \<Rightarrow> if operation_of p q = k \<and> fst (guard_admit p (gd_turn g) r q g) = Inr () then 1 else 0
      | _ \<Rightarrow> 0) + admissions p k as (guard_step p a g)"

fun authorizations :: "(ustring \<Rightarrow> shell option) \<Rightarrow> guard_op list \<Rightarrow> guard \<Rightarrow> nat" where
  "authorizations p [] g = 0"
| "authorizations p (a # as) g =
     (case a of
        Authorize r \<Rightarrow> if guard_authorize (gd_turn g) r g \<noteq> Inl (unavailable ''review.retry_unavailable'') then 1 else 0
      | _ \<Rightarrow> 0) + authorizations p as (guard_step p a g)"

definition granted :: "guard \<Rightarrow> nat" where
  "granted g = length (filter (\<lambda>d. dn_retry d = Granted) (gd_denied g))"

definition denied_kind :: "(ustring \<Rightarrow> shell option) \<Rightarrow> operation option \<Rightarrow> guard \<Rightarrow> bool" where
  "denied_kind p k g \<longleftrightarrow> gd_stopped g \<or> list_ex (\<lambda>d. operation_of p (dn_request d) = k) (gd_denied g)"

section \<open>Grants are spent\<close>

lemma update_first_SomeE:
  assumes "update_first P f xs = Some ys"
  obtains a x b where "xs = a @ x # b" and "P x" and "ys = a @ f x # b"
  using assms
proof (induction xs arbitrary: ys thesis)
  case (Cons x xs)
  show ?case
  proof (cases "P x")
    case True
    then show ?thesis using Cons.prems(1) [of "[]" x xs] Cons.prems(2) by simp
  next
    case False
    then obtain zs where "update_first P f xs = Some zs" and ys: "ys = x # zs" using Cons.prems(2) by auto
    from Cons.IH [OF _ this(1)] obtain a y b where "xs = a @ y # b" "P y" "zs = a @ f y # b" by blast
    then show ?thesis using Cons.prems(1) [of "x # a" y b] ys by simp
  qed
qed simp

lemma update_first_None: "update_first P f xs = None \<longleftrightarrow> \<not> list_ex P xs"
  by (induction xs) auto

lemma guard_admit_turn [simp]: "gd_turn (snd (guard_admit p t r q g)) = t"
  by (auto simp: guard_admit_def Let_def default_guard_def split: option.split)

lemma guard_record_turn [simp]: "gd_turn (guard_record rw g) = gd_turn g"
  by (auto simp: guard_record_def Let_def split: option.split)

lemma guard_record_granted [simp]: "granted (guard_record rw g) = granted g"
  by (auto simp: guard_record_def granted_def Let_def split: option.split)

lemma guard_record_denied_kind: "denied_kind p k g \<Longrightarrow> denied_kind p k (guard_record rw g)"
  by (auto simp: guard_record_def denied_kind_def Let_def split: option.split)

lemma guard_authorize_Inr:
  assumes "guard_authorize t r g = Inr g'"
  shows "granted g' = Suc (granted g)" and "denied_kind p k g' = denied_kind p k g" and "gd_turn g' = gd_turn g"
proof -
  obtain ds where "update_first (\<lambda>d. gd_turn g = t \<and> dn_review d = r \<and> dn_retry d = NotGranted)
      (\<lambda>d. d\<lparr>dn_retry := Granted\<rparr>) (gd_denied g) = Some ds" and g': "g' = g\<lparr>gd_denied := ds\<rparr>"
    using assms by (auto simp: guard_authorize_def ok_or_def rbind_Inr_iff split: option.splits)
  from update_first_SomeE [OF this(1)] obtain a x b where
    "gd_denied g = a @ x # b" "dn_retry x = NotGranted" "ds = a @ x\<lparr>dn_retry := Granted\<rparr> # b" by metis
  then show "granted g' = Suc (granted g)" "denied_kind p k g' = denied_kind p k g" "gd_turn g' = gd_turn g"
    by (auto simp: g' granted_def denied_kind_def)
qed

lemma guard_admit_cases:
  assumes "gd_turn g = t"
  obtains (refused) e where "guard_admit p t r q g = (Inl e, g)"
  | (fresh) "guard_admit p t r q g = (Inr (), g\<lparr>gd_pending := Some r\<rparr>)" and "\<not> denied_kind p (operation_of p q) g"
  | (spent) a d b where "gd_denied g = a @ d # b" and "dn_retry d = Granted"
      and "guard_admit p t r q g =
        (Inr (), g\<lparr>gd_denied := a @ d\<lparr>dn_retry := Consumed\<rparr> # b, gd_pending := Some r\<rparr>)"
proof (cases "gd_pending g")
  case (Some x)
  then show thesis using refused assms by (simp add: guard_admit_def)
next
  case None
  let ?u = "update_first (\<lambda>d. dn_retry d = Granted \<and> same_action p (dn_request d) q) (\<lambda>d. d\<lparr>dn_retry := Consumed\<rparr>) (gd_denied g)"
  show thesis
  proof (cases ?u)
    case (Some ds)
    from update_first_SomeE [OF this] obtain a d b where
      "gd_denied g = a @ d # b" "dn_retry d = Granted" "ds = a @ d\<lparr>dn_retry := Consumed\<rparr> # b" by metis
    then show thesis using spent [of a d b] Some None assms by (simp add: guard_admit_def)
  next
    case none: None
    show thesis
    proof (cases "denied_kind p (operation_of p q) g")
      case True
      then show thesis
        using refused none None assms by (cases "gd_stopped g") (simp_all add: guard_admit_def denied_kind_def)
    next
      case False
      then show thesis using fresh none None assms by (simp add: guard_admit_def denied_kind_def)
    qed
  qed
qed

text \<open>One operation of a turn in which the work of kind \<open>k\<close> was denied.\<close>

lemma guard_step_accounting:
  assumes "denied_kind p k g"
  shows "admissions p k [a] g + granted (guard_step p a g) \<le> granted g + authorizations p [a] g \<and>
    denied_kind p k (guard_step p a g) \<and> gd_turn (guard_step p a g) = gd_turn g"
proof (cases a)
  case (Admit r q)
  show ?thesis
    by (rule guard_admit_cases [of g "gd_turn g" p r q]) (use Admit assms in \<open>auto simp: granted_def denied_kind_def\<close>)
next
  case (Authorize r)
  then show ?thesis
    using assms guard_authorize_Inr(1,3) guard_authorize_Inr(2) [where p = p and k = k]
    by (cases "guard_authorize (gd_turn g) r g") auto
next
  case (Record rw)
  then show ?thesis using assms by (simp add: guard_record_denied_kind)
qed

text \<open>
  C22: Denied work needs a person. Once a kind of work was denied in a turn, or the turn's denial
  budget is spent, every further admission of that kind for the rest of the turn spends one grant of a user,
  so there are never more of them than grants: those already open plus those given since.
\<close>
theorem denied_work_needs_grant:
  assumes "denied_kind p k g"
  shows "admissions p k ops g \<le> granted g + authorizations p ops g"
proof -
  have "denied_kind p k g \<Longrightarrow> admissions p k ops g \<le> granted g + authorizations p ops g" for g
  proof (induction ops arbitrary: g)
    case (Cons a ops)
    from guard_step_accounting [OF Cons.prems, of a] Cons.IH [of "guard_step p a g"] show ?case by simp
  qed simp
  with assms show ?thesis by blast
qed

text \<open>Two requests the adapters of this repository ask for: the same echo, with other correlation.\<close>

definition demo_shell :: "ustring \<Rightarrow> shell option" where
  "demo_shell s = Some \<lparr>sh_command = s, sh_cwd = None, sh_timeout = None\<rparr>"

definition demo_request :: "string \<Rightarrow> approval_request" where
  "demo_request c = \<lparr>aq_id = ucs ''1'', aq_tool = ucs ''Bash'', aq_action = ucs c\<rparr>"

definition demo_guard :: guard where
  "demo_guard = (default_guard 3)\<lparr>gd_denied := [\<lparr>dn_review = 7, dn_request = demo_request ''/bin/echo a'', dn_retry = NotGranted\<rparr>]\<rparr>"

lemma demo_operation [simp]:
  "operation_of demo_shell (demo_request ''/bin/echo a'') = Some LiteralOutput"
  "operation_of demo_shell (demo_request ''/bin/echo b'') = Some LiteralOutput"
  by (simp_all add: operation_of_def demo_request_def demo_shell_def ucs_def split_ascii_whitespace_def
      char_whitespace_def is_ascii_alphanumeric_def)

theorem denied_work_needs_grant_witness:
  "denied_kind demo_shell (Some LiteralOutput) demo_guard \<and>
   admissions demo_shell (Some LiteralOutput)
     [Admit 8 (demo_request ''/bin/echo b''), Authorize 7, Admit 9 (demo_request ''/bin/echo a'')] demo_guard \<le>
   granted demo_guard + authorizations demo_shell
     [Admit 8 (demo_request ''/bin/echo b''), Authorize 7, Admit 9 (demo_request ''/bin/echo a'')] demo_guard"
proof -
  have d: "denied_kind demo_shell (Some LiteralOutput) demo_guard"
    by (simp add: denied_kind_def demo_guard_def)
  show ?thesis using denied_work_needs_grant [OF d] d by blast
qed

section \<open>The guard stays bounded\<close>

definition guard_inv :: "guard \<Rightarrow> bool" where
  "guard_inv g \<longleftrightarrow> length (gd_history g) \<le> 50 \<and> distinct (map dn_review (gd_denied g)) \<and>
     gd_stopped g = stop_reached (gd_history g)"

lemma update_first_map:
  assumes "update_first P f xs = Some ys" and "\<And>x. h (f x) = h x"
  shows "map h ys = map h xs"
  by (rule update_first_SomeE [OF assms(1)]) (simp add: assms(2))

lemma default_guard_inv [simp]: "guard_inv (default_guard t)"
  by (simp add: guard_inv_def default_guard_def stop_reached_def)

lemma guard_admit_inv: "guard_inv g \<Longrightarrow> guard_inv (snd (guard_admit p t r q g))"
proof -
  assume "guard_inv g"
  then have i: "guard_inv (if gd_turn g \<noteq> t then default_guard t else g)" (is "guard_inv ?g") by simp
  have "gd_turn ?g = t" by (simp add: default_guard_def)
  from this have "guard_inv (snd (guard_admit p t r q ?g))"
    by (rule guard_admit_cases [of ?g t p r q]) (use i in \<open>simp_all add: guard_inv_def del: if_split_asm\<close>)
  moreover have "guard_admit p t r q ?g = guard_admit p t r q g" by (simp add: guard_admit_def default_guard_def)
  ultimately show ?thesis by simp
qed

lemma guard_authorize_inv: "guard_inv g \<Longrightarrow> guard_inv (commit_or g (guard_authorize t r g))"
  using update_first_map [of "\<lambda>d. gd_turn g = t \<and> dn_review d = r \<and> dn_retry d = NotGranted"
      "\<lambda>d. d\<lparr>dn_retry := Granted\<rparr>" "gd_denied g" _ dn_review]
  by (simp add: guard_authorize_def guard_inv_def ok_or_def split: option.split)

lemma guard_record_inv: "guard_inv g \<Longrightarrow> guard_inv (guard_record rw g)"
  by (auto simp: guard_record_def guard_inv_def Let_def list_ex_iff split: option.split)

interpretation guarded: machine "\<lambda>g a. guard_step p a g" guard_inv for p
proof
  show "guard_inv (guard_step p a g)" if "guard_inv g" for g a
    using that by (cases a) (simp_all add: guard_admit_inv guard_authorize_inv guard_record_inv)
qed

text \<open>A grant once given is not given again.\<close>

definition spent :: "uuid \<Rightarrow> guard \<Rightarrow> bool" where
  "spent r g \<longleftrightarrow> list_ex (\<lambda>d. dn_review d = r \<and> dn_retry d \<noteq> NotGranted) (gd_denied g)"

lemma spent_final: "guard_inv g \<Longrightarrow> spent r g \<Longrightarrow> guard_authorize t r g = Inl (unavailable ''review.retry_unavailable'')"
proof -
  assume inv: "guard_inv g" and "spent r g"
  then obtain x where x: "x \<in> set (gd_denied g)" "dn_review x = r" "dn_retry x \<noteq> NotGranted"
    by (auto simp: spent_def list_ex_iff)
  have "\<not> list_ex (\<lambda>d. gd_turn g = t \<and> dn_review d = r \<and> dn_retry d = NotGranted) (gd_denied g)"
  proof
    assume "list_ex (\<lambda>d. gd_turn g = t \<and> dn_review d = r \<and> dn_retry d = NotGranted) (gd_denied g)"
    then obtain y where "y \<in> set (gd_denied g)" "dn_review y = r" "dn_retry y = NotGranted" by (auto simp: list_ex_iff)
    then show False using x inv unfolding guard_inv_def distinct_map inj_on_def by metis
  qed
  then show ?thesis by (simp add: guard_authorize_def update_first_None [THEN iffD2])
qed

lemma spent_step: "spent r g \<Longrightarrow> spent r (guard_step p a g)"
proof (cases a)
  case (Admit r' q)
  assume s: "spent r g"
  show ?thesis
    by (rule guard_admit_cases [of g "gd_turn g" p r' q]) (use Admit s in \<open>auto simp: spent_def\<close>)
next
  case (Authorize r')
  assume s: "spent r g"
  show ?thesis
  proof (cases "update_first (\<lambda>d. gd_turn g = gd_turn g \<and> dn_review d = r' \<and> dn_retry d = NotGranted)
      (\<lambda>d. d\<lparr>dn_retry := Granted\<rparr>) (gd_denied g)")
    case None
    then show ?thesis using s Authorize by (simp add: guard_authorize_def)
  next
    case (Some ds)
    then show ?thesis
      using s Authorize by (rule_tac update_first_SomeE [OF Some]) (auto simp: guard_authorize_def spent_def)
  qed
next
  case (Record rw)
  assume "spent r g"
  with Record show ?thesis by (auto simp: spent_def guard_record_def Let_def split: option.split)
qed

text \<open>
  In every turn, whatever is asked, granted and recorded, the guard stays bounded and a denied
  review is granted at most once: after a user granted a retry, every later grant for the
  same review in that turn is refused, also when the retry was meanwhile used.
\<close>
lemma retry_granted_once:
  assumes "guard_authorize u r (foldl (\<lambda>g a. guard_step p a g) (default_guard t) ops) = Inr g'"
  shows "guard_authorize t' r (foldl (\<lambda>g a. guard_step p a g) g' ops') =
      Inl (unavailable ''review.retry_unavailable'') \<and>
    length (gd_history (foldl (\<lambda>g a. guard_step p a g) g' ops')) \<le> 50"
proof -
  let ?g = "foldl (\<lambda>g a. guard_step p a g) (default_guard t) ops"
  have inv: "guard_inv ?g" by (rule guarded.run_inv) simp
  from guard_authorize_inv [OF this, of u r] assms have inv': "guard_inv g'" by simp
  obtain ds where u: "update_first (\<lambda>d. gd_turn ?g = u \<and> dn_review d = r \<and> dn_retry d = NotGranted)
      (\<lambda>d. d\<lparr>dn_retry := Granted\<rparr>) (gd_denied ?g) = Some ds" and g': "g' = ?g\<lparr>gd_denied := ds\<rparr>"
    using assms by (auto simp: guard_authorize_def ok_or_def rbind_Inr_iff split: option.splits)
  have "spent r g'" by (rule update_first_SomeE [OF u]) (auto simp: spent_def g')
  then have "spent r (foldl (\<lambda>g a. guard_step p a g) g' ops')"
    by (induction ops' arbitrary: g') (simp_all add: spent_step)
  moreover have i: "guard_inv (foldl (\<lambda>g a. guard_step p a g) g' ops')" by (rule guarded.run_inv [OF inv'])
  ultimately show ?thesis using spent_final by (simp add: guard_inv_def)
qed

definition demo_review :: approval_review where
  "demo_review = \<lparr>rw_id = 7, rw_run = 1, rw_request = demo_request ''/bin/echo a'', rw_reviewer = None, rw_provider = None,
     rw_binding = None, rw_model = None, rw_policy = \<lparr>po_version = 2, po_consent = False\<rparr>,
     rw_outcome = OutcomeDenied ''review.action_not_supported''\<rparr>"

lemma retry_granted_once_witness:
  "\<exists>g'. guard_authorize 3 7 (foldl (\<lambda>g a. guard_step demo_shell a g) (default_guard 3) [Record demo_review]) = Inr g' \<and>
     guard_authorize 3 7 (foldl (\<lambda>g a. guard_step demo_shell a g) g' [Admit 9 (demo_request ''/bin/echo a'')]) =
       Inl (unavailable ''review.retry_unavailable'')"
proof -
  have "\<exists>g'. guard_authorize 3 7 (foldl (\<lambda>g a. guard_step demo_shell a g) (default_guard 3) [Record demo_review]) = Inr g'"
    by (simp add: guard_record_def demo_review_def default_guard_def guard_authorize_def Let_def)
  then obtain g' where g: "guard_authorize 3 7
      (foldl (\<lambda>g a. guard_step demo_shell a g) (default_guard 3) [Record demo_review]) = Inr g'" by blast
  from retry_granted_once [OF g, of 3 "[Admit 9 (demo_request ''/bin/echo a'')]"] g show ?thesis by auto
qed

end
