(* ===== verification/Jet_Path.thy ===== *)
theory Jet_Path
  imports Jet_Prelude "HOL-Library.Sublist"
begin

text \<open>
  Paths relative to a registered root: \<open>jet-core/src/filesystem/relative_path.rs\<close>.

  An absolute path is the list of its components below \<open>/\<close>. The filesystem is an argument:
  \<open>fs_lstat\<close> is \<open>symlink_metadata\<close> (the entry itself, links not followed) and
  \<open>fs_canonicalize\<close> is \<open>canonicalize\<close>. What the operating system documents of the two is
  \<open>lawful_fs\<close>.
\<close>

type_synonym path = "ustring list"

datatype io_error = IoNotFound | IoNotADirectory | IoInvalidFilename | IoLoop | IoOther

datatype lstat = LinkEntry | OtherEntry | LstatError io_error

record filesystem =
  fs_lstat :: "path \<Rightarrow> lstat"
  fs_canonicalize :: "path \<Rightarrow> io_error + path"

definition MAX_COMPONENT_BYTES :: nat where "MAX_COMPONENT_BYTES = 255"
definition MAX_PATH_BYTES :: nat where "MAX_PATH_BYTES = 4096"

definition too_long :: core_error where
  "too_long = invalid_input ''path.too_long''"

section \<open>The text of a path\<close>

definition SLASH :: nat where "SLASH = 47"
definition BACKSLASH :: nat where "BACKSLASH = 92"

fun split_on :: "nat \<Rightarrow> ustring \<Rightarrow> ustring list" where
  "split_on d [] = [[]]"
| "split_on d (c # s) =
     (if c = d then [] # split_on d s
      else (case split_on d s of [] \<Rightarrow> [[c]] | w # ws \<Rightarrow> (c # w) # ws))"

definition is_absolute_form :: "ustring \<Rightarrow> bool" where
  "is_absolute_form t \<longleftrightarrow> (case t of [] \<Rightarrow> False | c # _ \<Rightarrow> c = SLASH \<or> c = BACKSLASH)"

definition require_component :: "ustring \<Rightarrow> core_error + unit" where
  "require_component c =
     (if c = [] then Inl (invalid_input ''path.platform_form'')
      else if c = ucs ''.'' then Inl (invalid_input ''path.platform_form'')
      else if c = ucs ''..'' then Inl (invalid_input ''path.parent_traversal'')
      else if utf8_len c > MAX_COMPONENT_BYTES then Inl too_long
      else if list_ex (\<lambda>x. x = BACKSLASH \<or> is_control x) c then Inl (invalid_input ''path.platform_form'')
      else Inr ())"

fun require_components :: "ustring list \<Rightarrow> core_error + unit" where
  "require_components [] = Inr ()"
| "require_components (c # cs) = rbind (require_component c) (\<lambda>_. require_components cs)"

definition parse_path :: "ustring \<Rightarrow> core_error + ustring" where
  "parse_path t =
     (if t = [] then Inl (invalid_input ''path.empty'')
      else if 0 \<in> set t then Inl (invalid_input ''path.nul'')
      else if is_absolute_form t then Inl (invalid_input ''path.absolute'')
      else if utf8_len t > MAX_PATH_BYTES then Inl too_long
      else rbind (require_components (split_on SLASH t)) (\<lambda>_. Inr t))"

section \<open>Resolution under a root\<close>

definition path_len :: "path \<Rightarrow> nat" where
  "path_len p = (if p = [] then 1 else sum_list (map (\<lambda>c. 1 + utf8_len c) p))"

definition verify_root :: "filesystem \<Rightarrow> path \<Rightarrow> core_error + path" where
  "verify_root fs granted =
     (case fs_canonicalize fs granted of
        Inl _ \<Rightarrow> Inl (unavailable_error ''path.root_unreachable'')
      | Inr now \<Rightarrow> if now \<noteq> granted then Inl (conflict ''path.root_moved'') else Inr now)"

definition unreadable :: "io_error \<Rightarrow> core_error" where
  "unreadable e = (if e = IoInvalidFilename then too_long else unavailable_error ''path.unreadable'')"

definition link_error :: "io_error \<Rightarrow> core_error" where
  "link_error e =
     (if e \<in> {IoLoop, IoNotFound, IoNotADirectory} then invalid_input ''path.link_unresolvable'' else unreadable e)"

fun resolve_from :: "filesystem \<Rightarrow> path \<Rightarrow> path \<Rightarrow> ustring list \<Rightarrow> core_error + path" where
  "resolve_from fs root current [] = Inr current"
| "resolve_from fs root current (c # cs) =
     (let candidate = current @ [c]
      in case fs_lstat fs candidate of
           LinkEntry \<Rightarrow>
             (case fs_canonicalize fs candidate of
                Inl e \<Rightarrow> Inl (link_error e)
              | Inr target \<Rightarrow>
                  if \<not> prefix root target then Inl (invalid_input ''path.escapes_root'')
                  else resolve_from fs root target cs)
         | OtherEntry \<Rightarrow> resolve_from fs root candidate cs
         | LstatError e \<Rightarrow>
             if e = IoNotFound \<or> e = IoNotADirectory then Inr (candidate @ cs)
             else Inl (unreadable e))"

definition resolve_within :: "filesystem \<Rightarrow> ustring \<Rightarrow> path \<Rightarrow> core_error + path" where
  "resolve_within fs t root =
     (if path_len root + 1 + utf8_len t \<ge> MAX_PATH_BYTES then Inl too_long
      else resolve_from fs root root (split_on SLASH t))"

section \<open>Splitting and joining\<close>

lemma split_on_nonempty [simp]: "split_on d s \<noteq> []"
  by (induction s) (auto split: list.split)

lemma join_split: "join_with d (split_on d s) = s"
proof (induction s)
  case (Cons c s)
  then show ?case by (cases "split_on d s") (auto simp: join_with_def split: list.splits)
qed (simp add: join_with_def)

lemma split_append: "d \<notin> set w \<Longrightarrow> split_on d (w @ d # s) = w # split_on d s"
  by (induction w) auto

lemma split_no_sep: "d \<notin> set w \<Longrightarrow> split_on d w = [w]"
  by (induction w) auto

lemma join_Cons2: "join_with d (w # v # ws) = w @ d # join_with d (v # ws)"
  by (simp add: join_with_def)

lemma split_join: "ws \<noteq> [] \<Longrightarrow> \<forall>w \<in> set ws. d \<notin> set w \<Longrightarrow> split_on d (join_with d ws) = ws"
proof (induction ws)
  case (Cons w ws)
  show ?case
  proof (cases ws)
    case Nil
    then show ?thesis using Cons.prems by (simp add: join_with_def split_no_sep)
  next
    case (Cons v vs)
    then show ?thesis using Cons.IH Cons.prems by (simp add: join_Cons2 split_append)
  qed
qed simp

lemma split_no_member: "w \<in> set (split_on d s) \<Longrightarrow> d \<notin> set w"
proof (induction s arbitrary: w)
  case (Cons c s)
  then show ?case by (cases "split_on d s") (auto split: if_splits)
qed simp

section \<open>The accepted paths\<close>

definition component_ok :: "ustring \<Rightarrow> bool" where
  "component_ok c \<longleftrightarrow> c \<noteq> [] \<and> c \<noteq> ucs ''.'' \<and> c \<noteq> ucs ''..'' \<and> utf8_len c \<le> 255 \<and>
     list_all (\<lambda>x. x \<noteq> SLASH \<and> x \<noteq> BACKSLASH \<and> \<not> is_control x) c"

lemma require_component_Inr: "SLASH \<notin> set c \<Longrightarrow> require_component c = Inr () \<longleftrightarrow> component_ok c"
  by (auto simp: require_component_def component_ok_def MAX_COMPONENT_BYTES_def list_ex_iff list_all_iff)

lemma require_components_Inr:
  "\<forall>c \<in> set cs. SLASH \<notin> set c \<Longrightarrow> require_components cs = Inr () \<longleftrightarrow> list_all component_ok cs"
  by (induction cs) (auto simp: rbind_Inr_iff require_component_Inr)

lemma component_ok_no_control: "component_ok c \<Longrightarrow> x \<in> set c \<Longrightarrow> \<not> is_control x \<and> x \<noteq> BACKSLASH"
  by (auto simp: component_ok_def list_all_iff)

lemma set_join: "set (join_with d ws) \<subseteq> insert d (\<Union> (set ` set ws))"
  by (cases ws) (auto simp: join_with_def)

text \<open>
  A text is accepted as a path exactly when it is one or more well-formed components joined by
  a slash, at most 4096 bytes long, and then it is those components that are walked: no component
  is empty, a dot or a parent, longer than 255 bytes, or holds a separator of any platform or a control character.
\<close>
lemma path_parse_exact:
  "parse_path t = Inr p \<longleftrightarrow>
     p = t \<and> utf8_len t \<le> 4096 \<and>
     (\<exists>cs. cs \<noteq> [] \<and> list_all component_ok cs \<and> t = join_with SLASH cs \<and> split_on SLASH t = cs)"
proof
  assume "parse_path t = Inr p"
  then have "p = t" "utf8_len t \<le> 4096" "require_components (split_on SLASH t) = Inr ()"
    by (auto simp: parse_path_def MAX_PATH_BYTES_def rbind_Inr_iff split: if_splits)
  moreover from this(3) have "list_all component_ok (split_on SLASH t)"
    using require_components_Inr [of "split_on SLASH t"] split_no_member by blast
  ultimately show "p = t \<and> utf8_len t \<le> 4096 \<and>
     (\<exists>cs. cs \<noteq> [] \<and> list_all component_ok cs \<and> t = join_with SLASH cs \<and> split_on SLASH t = cs)"
    using join_split [of SLASH t] by auto
next
  assume r: "p = t \<and> utf8_len t \<le> 4096 \<and>
     (\<exists>cs. cs \<noteq> [] \<and> list_all component_ok cs \<and> t = join_with SLASH cs \<and> split_on SLASH t = cs)"
  then obtain cs where cs: "cs \<noteq> []" "list_all component_ok cs" "t = join_with SLASH cs" "split_on SLASH t = cs" by blast
  then obtain c rest where c: "cs = c # rest" "component_ok c" by (cases cs) auto
  then obtain x xs where x: "c = x # xs" "x \<noteq> SLASH" "x \<noteq> BACKSLASH"
    by (cases c) (auto simp: component_ok_def)
  have hd: "\<exists>ys. t = x # ys" using cs(3) c x by (simp add: join_with_def)
  have "0 \<notin> set t"
  proof
    assume "0 \<in> set t"
    then have "0 \<in> \<Union> (set ` set cs)" using set_join [of SLASH cs] cs(3) by (auto simp: SLASH_def)
    then obtain w where "w \<in> set cs" "0 \<in> set w" by blast
    then have "\<not> is_control 0" using cs(2) component_ok_no_control by (meson list_all_iff)
    then show False by (simp add: is_control_def)
  qed
  moreover have "require_components (split_on SLASH t) = Inr ()"
    using cs(2,4) require_components_Inr [of cs] split_no_member by blast
  moreover have "t \<noteq> []" "\<not> is_absolute_form t" using hd x by (auto simp: is_absolute_form_def)
  ultimately show "parse_path t = Inr p" using r by (simp add: parse_path_def MAX_PATH_BYTES_def)
qed

section \<open>Resolution never leaves the root\<close>

definition no_links :: "filesystem \<Rightarrow> path \<Rightarrow> bool" where
  "no_links fs p \<longleftrightarrow> (\<forall>q. prefix q p \<longrightarrow> fs_lstat fs q \<noteq> LinkEntry)"

text \<open>
  Where the operating system arrives when it walks a path from \<open>cur\<close>: a dot stays, a parent goes back up, a link
  is followed.
\<close>

fun destination :: "filesystem \<Rightarrow> path \<Rightarrow> path \<Rightarrow> io_error + path" where
  "destination fs cur [] = Inr cur"
| "destination fs cur (c # cs) =
     (if c = ucs ''.'' then destination fs cur cs
      else if c = ucs ''..'' then destination fs (butlast cur) cs
      else case fs_lstat fs (cur @ [c]) of
             LinkEntry \<Rightarrow> (case fs_canonicalize fs (cur @ [c]) of Inl e \<Rightarrow> Inl e | Inr t \<Rightarrow> destination fs t cs)
           | _ \<Rightarrow> destination fs (cur @ [c]) cs)"

definition no_dots :: "path \<Rightarrow> bool" where
  "no_dots p \<longleftrightarrow> list_all (\<lambda>c. c \<noteq> ucs ''.'' \<and> c \<noteq> ucs ''..'') p"

text \<open>
  What the operating system documents: a canonical path has no link, dot or parent in it, and below an entry
  that does not exist, or is no directory, there is no link.
\<close>

definition lawful_fs :: "filesystem \<Rightarrow> bool" where
  "lawful_fs fs \<longleftrightarrow>
     (\<forall>p t. fs_canonicalize fs p = Inr t \<longrightarrow> no_links fs t \<and> no_dots t) \<and>
     (\<forall>p e q. fs_lstat fs p = LstatError e \<longrightarrow> e = IoNotFound \<or> e = IoNotADirectory \<longrightarrow>
        fs_lstat fs (p @ q) \<noteq> LinkEntry)"

lemma no_links_snoc: "no_links fs p \<Longrightarrow> fs_lstat fs (p @ [c]) \<noteq> LinkEntry \<Longrightarrow> no_links fs (p @ [c])"
  by (auto simp: no_links_def)

lemma no_links_below:
  assumes "lawful_fs fs" and "no_links fs p" and "fs_lstat fs (p @ [c]) = LstatError e" and "e = IoNotFound \<or> e = IoNotADirectory"
  shows "no_links fs (p @ c # cs)"
  unfolding no_links_def
proof (intro allI impI)
  fix q
  assume "prefix q (p @ c # cs)"
  then consider "prefix q p" | r where "q = (p @ [c]) @ r"
    by (metis append.assoc append_Cons append_Nil prefix_append prefix_def prefix_Cons same_prefix_prefix)
  then show "fs_lstat fs q \<noteq> LinkEntry"
  proof cases
    case 1
    then show ?thesis using assms(2) by (simp add: no_links_def)
  next
    case 2
    have "fs_lstat fs ((p @ [c]) @ r) \<noteq> LinkEntry" using assms(1,3,4) unfolding lawful_fs_def by blast
    then show ?thesis using 2 by simp
  qed
qed

lemma destination_plain:
  assumes "no_links fs (cur @ p)" and "no_dots p"
  shows "destination fs cur p = Inr (cur @ p)"
  using assms
proof (induction p arbitrary: cur)
  case (Cons c p)
  have "fs_lstat fs (cur @ [c]) \<noteq> LinkEntry" using Cons.prems(1) by (simp add: no_links_def prefix_def)
  moreover have "no_links fs ((cur @ [c]) @ p)" using Cons.prems(1) by simp
  ultimately show ?case using Cons.IH [of "cur @ [c]"] Cons.prems(2) by (simp add: no_dots_def split: lstat.splits)
qed simp

lemma resolve_from_confined:
  assumes "lawful_fs fs" and "resolve_from fs root cur cs = Inr p" and "prefix root cur" and "no_links fs cur"
    and "no_dots cur" and "no_dots cs"
  shows "prefix root p \<and> no_links fs p \<and> no_dots p"
  using assms(2-6)
proof (induction cs arbitrary: cur)
  case (Cons c cs)
  have dots: "no_dots (cur @ [c])" "no_dots cs" "no_dots (cur @ c # cs)" using Cons.prems(4,5) by (simp_all add: no_dots_def)
  show ?case
  proof (cases "fs_lstat fs (cur @ [c])")
    case LinkEntry
    then obtain target where t: "fs_canonicalize fs (cur @ [c]) = Inr target" "prefix root target"
        "resolve_from fs root target cs = Inr p"
      using Cons.prems(1) by (auto split: sum.splits if_splits)
    moreover have "no_links fs target \<and> no_dots target" using assms(1) t(1) unfolding lawful_fs_def by blast
    ultimately show ?thesis using Cons.IH dots(2) by blast
  next
    case OtherEntry
    then show ?thesis using Cons.IH [of "cur @ [c]"] Cons.prems(1-3) dots by (simp add: no_links_snoc prefix_append)
  next
    case (LstatError e)
    then have "e = IoNotFound \<or> e = IoNotADirectory" and p: "p = cur @ c # cs"
      using Cons.prems(1) by (auto split: if_splits)
    then show ?thesis
      using no_links_below [OF assms(1) Cons.prems(3) LstatError] Cons.prems(2) dots(3) by (simp add: prefix_append)
  qed
qed simp

lemma parsed_no_dots: "parse_path t = Inr t' \<Longrightarrow> no_dots (split_on SLASH t')"
  unfolding path_parse_exact by (auto simp: component_ok_def no_dots_def list_all_iff)

text \<open>
  C16: Whatever links the tree holds, a text accepted as a relative path and resolved under a verified root names a place
  under that root: the path has no link, dot or parent in it, and the operating system that walks it arrives at exactly
  that place, so the operation that follows touches nothing outside.
\<close>
theorem resolved_path_confined:
  assumes "lawful_fs fs" and "parse_path text = Inr t" and "verify_root fs granted = Inr root" and "resolve_within fs t root = Inr p"
  shows "prefix root p \<and> no_links fs p \<and> destination fs [] p = Inr p"
proof -
  have "fs_canonicalize fs granted = Inr root" using assms(3) by (auto simp: verify_root_def split: sum.splits if_splits)
  then have root: "no_links fs root" "no_dots root" using assms(1) unfolding lawful_fs_def by blast+
  have "prefix root p \<and> no_links fs p \<and> no_dots p"
    using resolve_from_confined [OF assms(1) _ _ root parsed_no_dots [OF assms(2)], of root p] assms(4)
    by (simp add: resolve_within_def split: if_splits)
  then show ?thesis using destination_plain [of fs "[]" p] by simp
qed

text \<open>A root \<open>/r\<close> that holds a link \<open>/r/l\<close> to its directory \<open>/r/d\<close>, and nothing else.\<close>

definition demo_fs :: filesystem where
  "demo_fs = \<lparr>fs_lstat = (\<lambda>p. if p \<in> {[], [ucs ''r''], [ucs ''r'', ucs ''d'']} then OtherEntry
                else if p = [ucs ''r'', ucs ''l''] then LinkEntry else LstatError IoNotFound),
     fs_canonicalize = (\<lambda>p. if p = [ucs ''r'', ucs ''l''] then Inr [ucs ''r'', ucs ''d'']
                else if p = [ucs ''r''] then Inr p else Inl IoNotFound)\<rparr>"

lemma demo_fs_lawful: "lawful_fs demo_fs"
  by (auto simp: lawful_fs_def demo_fs_def no_links_def no_dots_def ucs_def prefix_Cons append_eq_Cons_conv split: if_splits)

theorem resolved_path_confined_witness:
  "resolve_within demo_fs (ucs ''l/new'') [ucs ''r''] = Inr [ucs ''r'', ucs ''d'', ucs ''new''] \<and>
   prefix [ucs ''r''] [ucs ''r'', ucs ''d'', ucs ''new''] \<and>
   destination demo_fs [] [ucs ''r'', ucs ''d'', ucs ''new''] = Inr [ucs ''r'', ucs ''d'', ucs ''new'']"
proof -
  have v: "verify_root demo_fs [ucs ''r''] = Inr [ucs ''r'']" by (simp add: verify_root_def demo_fs_def ucs_def)
  have t: "parse_path (ucs ''l/new'') = Inr (ucs ''l/new'')"
    by (simp add: parse_path_def is_absolute_form_def require_component_def MAX_PATH_BYTES_def MAX_COMPONENT_BYTES_def ucs_def
      utf8_width_def SLASH_def BACKSLASH_def is_control_def)
  have r: "resolve_within demo_fs (ucs ''l/new'') [ucs ''r''] = Inr [ucs ''r'', ucs ''d'', ucs ''new'']"
    by (simp add: resolve_within_def demo_fs_def ucs_def path_len_def MAX_PATH_BYTES_def utf8_width_def SLASH_def)
  from resolved_path_confined [OF demo_fs_lawful t v r] r show ?thesis by blast
qed

text \<open>The parent component the text check refuses would have left the root: \<open>/r/../x\<close> is \<open>/x\<close>.\<close>

lemma parent_would_escape:
  "resolve_within demo_fs (ucs ''../x'') [ucs ''r''] = Inr [ucs ''r'', ucs ''..'', ucs ''x''] \<and>
   destination demo_fs [] [ucs ''r'', ucs ''..'', ucs ''x''] = Inr [ucs ''x'']"
  by (simp add: resolve_within_def demo_fs_def ucs_def path_len_def MAX_PATH_BYTES_def utf8_width_def SLASH_def)

end
