(* ===== verification/Jet_Evidence.thy ===== *)
theory Jet_Evidence
  imports Jet_Path
begin

text \<open>
  Who changed a file: the receipts of \<open>jet-core/src/checkpoint/change_evidence.rs\<close> and the data of
  \<open>checkpoint/mod.rs\<close> and \<open>checkpoint/state.rs\<close> they are kept in.

  Git objects and modes are text. A receipt says that one operation took a path from one
  content to another; a changed file is attributed only along a complete chain of receipts.
\<close>

section \<open>Data\<close>

datatype change_origin =
    UserEdit uuid | WorkspaceTerminal uuid | HarnessChange uuid | Mixed | ExternalOrUnknown

record change_evidence =
  ce_activity :: ustring
  ce_origin :: change_origin
  ce_path :: ustring
  ce_before_object :: ustring
  ce_after_object :: ustring
  ce_before_mode :: ustring
  ce_after_mode :: ustring

record changed_file =
  cf_path :: ustring
  cf_before_size :: "u64 option"
  cf_after_size :: "u64 option"
  cf_before_object :: "ustring option"
  cf_after_object :: "ustring option"
  cf_before_mode :: ustring
  cf_after_mode :: ustring
  cf_origin :: change_origin

datatype artifact_availability = DiskPressure | Stored | RunBudgetExceeded | ArtifactSizeExceeded

record change_artifact =
  ca_availability :: artifact_availability
  ca_sha256 :: ustring
  ca_size :: u64

record omitted_file =
  of_path :: ustring
  of_size :: u64
  of_mode :: ustring

record change_snapshot =
  sn_omitted :: "omitted_file list"
  sn_commit :: ustring
  sn_tree :: ustring
  sn_uncommitted :: change_artifact

record tracking =
  tk_between :: "change_evidence list"
  tk_between_incomplete :: bool
  tk_evidence :: "change_evidence list"
  tk_incomplete :: bool
  tk_baseline :: change_snapshot
  tk_active :: "change_snapshot option"
  tk_terminal :: "change_snapshot option"
  tk_completed :: u32

definition invalid_evidence :: core_error where
  "invalid_evidence = invalid_input ''checkpoint.invalid_evidence''"

section \<open>Receipts\<close>

definition object_valid :: "ustring \<Rightarrow> bool" where
  "object_valid v \<longleftrightarrow> (utf8_len v = 40 \<or> utf8_len v = 64) \<and>
     list_all (\<lambda>b. (48 \<le> b \<and> b \<le> 57) \<or> (97 \<le> b \<and> b \<le> 102)) v"

definition mode_valid :: "ustring \<Rightarrow> bool" where
  "mode_valid v \<longleftrightarrow> v \<in> {ucs ''000000'', ucs ''100644'', ucs ''100755'', ucs ''120000'', ucs ''160000''}"

definition source_valid :: "uuid \<Rightarrow> change_origin \<Rightarrow> bool" where
  "source_valid run o' =
     (case o' of
        HarnessChange source \<Rightarrow> source = run
      | UserEdit _ \<Rightarrow> True
      | WorkspaceTerminal _ \<Rightarrow> True
      | Mixed \<Rightarrow> False
      | ExternalOrUnknown \<Rightarrow> False)"

definition validate_evidence :: "uuid \<Rightarrow> change_evidence \<Rightarrow> core_error + unit" where
  "validate_evidence run ev =
     rbind (parse_path (ce_path ev)) (\<lambda>_.
       require
         (\<not> (\<not> source_valid run (ce_origin ev) \<or> ce_activity ev = [] \<or> utf8_len (ce_activity ev) > 256 \<or>
             \<not> object_valid (ce_before_object ev) \<or> \<not> object_valid (ce_after_object ev) \<or>
             \<not> mode_valid (ce_before_mode ev) \<or> \<not> mode_valid (ce_after_mode ev)))
         invalid_evidence)"

datatype window = ActiveTurn | BetweenTurns

text \<open>
  The receipts of one window after a further one: unchanged when the window is incomplete or
  the receipt repeats, given up when it contradicts or overflows; the flag says whether the
  Event and the state are written.
\<close>

definition add_receipt ::
    "change_evidence \<Rightarrow> change_evidence list \<Rightarrow> bool \<Rightarrow> change_evidence list \<times> bool \<times> bool" where
  "add_receipt ev receipts incomplete =
     (if incomplete then (receipts, incomplete, False)
      else
        (let prior = find (\<lambda>p. ce_activity p = ce_activity ev \<and> ce_path p = ce_path ev) receipts
         in if prior = Some ev then (receipts, incomplete, False)
            else if prior \<noteq> None \<or> length receipts \<ge> 256 then (receipts, True, True)
            else (receipts @ [ev], False, True)))"

definition record_receipt ::
    "change_evidence \<Rightarrow> window \<Rightarrow> bool \<Rightarrow> tracking \<Rightarrow> core_error + (tracking \<times> bool)" where
  "record_receipt ev w terminal tk =
     (if w = ActiveTurn \<and> tk_active tk \<noteq> None
      then (case add_receipt ev (tk_evidence tk) (tk_incomplete tk) of
              (rs, inc, written) \<Rightarrow> Inr (tk\<lparr>tk_evidence := rs, tk_incomplete := inc\<rparr>, written))
      else if w = BetweenTurns \<and> tk_active tk = None \<and> \<not> terminal
      then (case add_receipt ev (tk_between tk) (tk_between_incomplete tk) of
              (rs, inc, written) \<Rightarrow> Inr (tk\<lparr>tk_between := rs, tk_between_incomplete := inc\<rparr>, written))
      else Inl invalid_evidence)"

section \<open>Attribution\<close>

fun merge_origin :: "change_origin option \<Rightarrow> change_origin \<Rightarrow> change_origin" where
  "merge_origin None r = r"
| "merge_origin (Some prior) r =
     (if prior = ExternalOrUnknown then ExternalOrUnknown
      else if r = ExternalOrUnknown then ExternalOrUnknown
      else if prior = r then prior
      else Mixed)"

fun attribute_walk ::
    "ustring \<Rightarrow> ustring \<Rightarrow> change_origin option \<Rightarrow> change_evidence list \<Rightarrow>
     ustring \<times> ustring \<times> change_origin option \<times> bool" where
  "attribute_walk obj mode origin [] = (obj, mode, origin, True)"
| "attribute_walk obj mode origin (r # rs) =
     (if ce_before_object r \<noteq> obj \<or> ce_before_mode r \<noteq> mode then (obj, mode, origin, False)
      else attribute_walk (ce_after_object r) (ce_after_mode r) (Some (merge_origin origin (ce_origin r))) rs)"

definition attribute_file :: "change_evidence list \<Rightarrow> changed_file \<Rightarrow> changed_file" where
  "attribute_file evidence f =
     (case (cf_before_object f, cf_after_object f) of
        (Some obj, Some after) \<Rightarrow>
          (case attribute_walk obj (cf_before_mode f) None (filter (\<lambda>e. ce_path e = cf_path f) evidence) of
             (obj', mode', origin, complete) \<Rightarrow>
               f\<lparr>cf_origin :=
                   if complete \<and> obj' = after \<and> mode' = cf_after_mode f
                   then (case origin of Some o' \<Rightarrow> o' | None \<Rightarrow> ExternalOrUnknown)
                   else ExternalOrUnknown\<rparr>)
      | _ \<Rightarrow> f\<lparr>cf_origin := ExternalOrUnknown\<rparr>)"

definition attribute :: "changed_file list \<Rightarrow> change_evidence list \<Rightarrow> changed_file list" where
  "attribute files evidence = map (attribute_file evidence) files"

section \<open>Only a complete chain implies an origin\<close>

text \<open>The receipts lead from one content and mode to the other, each starting where the one before ended.\<close>

fun linked :: "ustring \<times> ustring \<Rightarrow> change_evidence list \<Rightarrow> ustring \<times> ustring \<Rightarrow> bool" where
  "linked s [] t \<longleftrightarrow> s = t"
| "linked s (r # rs) t \<longleftrightarrow>
     (ce_before_object r, ce_before_mode r) = s \<and> linked (ce_after_object r, ce_after_mode r) rs t"

definition merged :: "change_origin option \<Rightarrow> change_evidence list \<Rightarrow> change_origin option" where
  "merged o' rs = fold (\<lambda>r acc. Some (merge_origin acc (ce_origin r))) rs o'"

lemma attribute_walk_linked:
  "(case attribute_walk obj mode o' rs of
      (obj', mode', origin, complete) \<Rightarrow> complete \<and> obj' = a \<and> mode' = m \<and> origin = x) \<longleftrightarrow>
   linked (obj, mode) rs (a, m) \<and> merged o' rs = x"
  by (induction rs arbitrary: obj mode o') (auto simp: merged_def)

lemma merged_Some:
  assumes "x \<noteq> Mixed" "x \<noteq> ExternalOrUnknown"
  shows "merged (Some y) rs = Some x \<longleftrightarrow> y = x \<and> list_all (\<lambda>r. ce_origin r = x) rs"
proof (induction rs arbitrary: y)
  case (Cons r rs)
  have "merged (Some y) (r # rs) = merged (Some (merge_origin (Some y) (ce_origin r))) rs"
    by (simp add: merged_def)
  then show ?case using Cons.IH [of "merge_origin (Some y) (ce_origin r)"] assms by auto
qed (auto simp: merged_def)

lemma merged_None:
  assumes "x \<noteq> Mixed" "x \<noteq> ExternalOrUnknown"
  shows "merged None rs = Some x \<longleftrightarrow> rs \<noteq> [] \<and> list_all (\<lambda>r. ce_origin r = x) rs"
proof (cases rs)
  case (Cons r rest)
  then have "merged None rs = merged (Some (ce_origin r)) rest" by (simp add: merged_def)
  then show ?thesis using merged_Some [OF assms, of "ce_origin r" rest] Cons by auto
qed (simp add: merged_def)

lemma attribute_file_origin:
  assumes "x \<noteq> ExternalOrUnknown"
  shows "cf_origin (attribute_file evidence f) = x \<longleftrightarrow>
    (\<exists>b a. cf_before_object f = Some b \<and> cf_after_object f = Some a \<and>
       linked (b, cf_before_mode f) (filter (\<lambda>e. ce_path e = cf_path f) evidence) (a, cf_after_mode f) \<and>
       merged None (filter (\<lambda>e. ce_path e = cf_path f) evidence) = Some x)"
proof (cases "cf_before_object f")
  case None
  then show ?thesis using assms by (simp add: attribute_file_def)
next
  case b: (Some b)
  show ?thesis
  proof (cases "cf_after_object f")
    case None
    then show ?thesis using assms b by (simp add: attribute_file_def)
  next
    case a: (Some a)
    let ?rs = "filter (\<lambda>e. ce_path e = cf_path f) evidence"
    obtain obj mode origin complete where w: "attribute_walk b (cf_before_mode f) None ?rs = (obj, mode, origin, complete)"
      by (cases "attribute_walk b (cf_before_mode f) None ?rs") auto
    have "cf_origin (attribute_file evidence f) = x \<longleftrightarrow>
        complete \<and> obj = a \<and> mode = cf_after_mode f \<and> origin = Some x"
      using assms a b w by (cases origin) (auto simp: attribute_file_def)
    also have "\<dots> \<longleftrightarrow> linked (b, cf_before_mode f) ?rs (a, cf_after_mode f) \<and> merged None ?rs = Some x"
      using attribute_walk_linked [where obj = b and mode = "cf_before_mode f" and o' = None and rs = ?rs and a = a
          and m = "cf_after_mode f" and x = "Some x"] w by simp
    finally show ?thesis using a b by simp
  qed
qed

text \<open>
  C21: A changed file is attributed to one origin exactly when there are receipts for its path, all of that
  origin, that lead without a gap from its content and mode before the turn to those after it.
  A missing, reordered or foreign receipt, or omitted content, never yields an origin.
\<close>
theorem attribution_is_evidence:
  assumes "x \<noteq> Mixed" and "x \<noteq> ExternalOrUnknown"
  shows "cf_origin (attribute_file evidence f) = x \<longleftrightarrow>
    (\<exists>b a. cf_before_object f = Some b \<and> cf_after_object f = Some a \<and>
       filter (\<lambda>e. ce_path e = cf_path f) evidence \<noteq> [] \<and>
       list_all (\<lambda>r. ce_origin r = x) (filter (\<lambda>e. ce_path e = cf_path f) evidence) \<and>
       linked (b, cf_before_mode f) (filter (\<lambda>e. ce_path e = cf_path f) evidence) (a, cf_after_mode f))"
  using attribute_file_origin [of x evidence f] merged_None [of x] assms by auto

definition demo_receipt :: "string \<Rightarrow> string \<Rightarrow> change_evidence" where
  "demo_receipt b a = \<lparr>ce_activity = ucs a, ce_origin = HarnessChange 4, ce_path = ucs ''f'', ce_before_object = ucs b,
     ce_after_object = ucs a, ce_before_mode = ucs ''100644'', ce_after_mode = ucs ''100644''\<rparr>"

definition demo_file :: changed_file where
  "demo_file = \<lparr>cf_path = ucs ''f'', cf_before_size = None, cf_after_size = None, cf_before_object = Some (ucs ''a''),
     cf_after_object = Some (ucs ''c''), cf_before_mode = ucs ''100644'', cf_after_mode = ucs ''100644'',
     cf_origin = ExternalOrUnknown\<rparr>"

theorem attribution_is_evidence_witness:
  "cf_origin (attribute_file [demo_receipt ''a'' ''b'', demo_receipt ''b'' ''c''] demo_file) = HarnessChange 4 \<and>
   cf_origin (attribute_file [demo_receipt ''b'' ''c''] demo_file) \<noteq> HarnessChange 4"
  using attribution_is_evidence [of "HarnessChange 4" "[demo_receipt ''a'' ''b'', demo_receipt ''b'' ''c'']" demo_file]
    attribution_is_evidence [of "HarnessChange 4" "[demo_receipt ''b'' ''c'']" demo_file]
  by (simp add: demo_receipt_def demo_file_def ucs_def)

section \<open>Receipts stay bounded\<close>

definition receipts_inv :: "change_evidence list \<Rightarrow> bool" where
  "receipts_inv rs \<longleftrightarrow> length rs \<le> 256 \<and> distinct (map (\<lambda>r. (ce_activity r, ce_path r)) rs)"

definition tracking_inv :: "tracking \<Rightarrow> bool" where
  "tracking_inv tk \<longleftrightarrow> receipts_inv (tk_evidence tk) \<and> receipts_inv (tk_between tk)"

lemma add_receipt_inv:
  assumes "receipts_inv rs" and "add_receipt ev rs inc = (rs', inc', written)"
  shows "receipts_inv rs'"
proof -
  have "find (\<lambda>p. ce_activity p = ce_activity ev \<and> ce_path p = ce_path ev) rs = None \<Longrightarrow>
      (ce_activity ev, ce_path ev) \<notin> (\<lambda>r. (ce_activity r, ce_path r)) ` set rs"
    by (auto simp: find_None_iff)
  then show ?thesis
    using assms by (auto simp: add_receipt_def receipts_inv_def Let_def split: if_splits)
qed

lemma record_receipt_inv: "tracking_inv tk \<Longrightarrow> record_receipt ev w t tk = Inr (tk', written) \<Longrightarrow> tracking_inv tk'"
  by (auto simp: record_receipt_def tracking_inv_def dest: add_receipt_inv split: if_splits prod.splits)

end
