(* ===== verification/Jet_Run.thy ===== *)
theory Jet_Run
  imports Jet_Turn Jet_Name Jet_Guard Jet_Evidence
begin

text \<open>
  One Run and its managed execution: the projection of \<open>jet-core/src/run/state/{mod,projection}.rs\<close> and
  \<open>run/observation.rs\<close>, the lifecycle of \<open>command/lifecycle.rs\<close> and \<open>command/mutation.rs\<close>, control
  requests of \<open>run/execution_control.rs\<close> and \<open>run/execution_control_effect.rs\<close>, naming of
  \<open>conversation/name.rs\<close>, and the change tracking of \<open>checkpoint/{state,change_evidence}.rs\<close>.

  \<open>exec\<close> is what the Plane store holds for one Run: its row, the immutable plan and the state
  of its execution, its Conversation with the Turn queue (\<open>Jet_Turn\<close>), its checkpoints, queued
  control Effects, and the Events of the Run in order (those of the Turn queue are in the
  journal of \<open>conv\<close>). An operation is one write transaction. Usage reports, the
  Auto-continue decision and the Git deliveries a checkpoint may queue are not part of this state.
  What Git answers (\<open>git_answers\<close>) and the digest of an observation are arguments.
\<close>

section \<open>Data\<close>

datatype run_lifecycle =
    L_Created | L_Starting | L_Active | L_Stopping | L_Completed | L_Failed | L_Canceled | L_Lost

fun is_terminal :: "run_lifecycle \<Rightarrow> bool" where
  "is_terminal L_Created = False"
| "is_terminal L_Starting = False"
| "is_terminal L_Active = False"
| "is_terminal L_Stopping = False"
| "is_terminal L_Completed = True"
| "is_terminal L_Failed = True"
| "is_terminal L_Canceled = True"
| "is_terminal L_Lost = True"

fun successor :: "run_lifecycle \<Rightarrow> run_lifecycle option" where
  "successor L_Created = Some L_Starting"
| "successor L_Starting = Some L_Active"
| "successor L_Active = Some L_Stopping"
| "successor _ = None"

definition may_transition :: "run_lifecycle \<Rightarrow> run_lifecycle \<Rightarrow> bool" where
  "may_transition from to =
     (case to of
        L_Created \<Rightarrow> successor from = Some to
      | L_Starting \<Rightarrow> successor from = Some to
      | L_Active \<Rightarrow> successor from = Some to
      | L_Stopping \<Rightarrow> successor from = Some to
      | L_Completed \<Rightarrow> from = L_Active \<or> from = L_Stopping
      | L_Failed \<Rightarrow> \<not> is_terminal from
      | L_Canceled \<Rightarrow> \<not> is_terminal from
      | L_Lost \<Rightarrow> \<not> is_terminal from)"

datatype run_activity =
    Working | WaitingForUser | WaitingForApproval | WaitingForAuth | WaitingForQuota | Reconnecting

datatype process_role = HelperRole | HarnessRole

record managed_process =
  mp_pid :: nat
  mp_role :: process_role
  mp_label :: "ustring option"
  mp_running :: bool

datatype turn_outcome = TurnDone | TurnInterrupted

datatype run_control = InterruptTurn | StopRun

datatype termination_stage = NativeCancellation | StageInterrupt | StageTerminate | StageKill | Unobserved

record run_termination =
  te_control :: run_control
  te_stage :: termination_stage

record control_request =
  cr_control :: run_control
  cr_correlation :: "uuid option"

datatype execution_signal = SignalInterrupt | SignalTerminate | SignalKill

fun signal_stage :: "execution_signal \<Rightarrow> termination_stage" where
  "signal_stage SignalInterrupt = StageInterrupt"
| "signal_stage SignalTerminate = StageTerminate"
| "signal_stage SignalKill = StageKill"

record source_prefix =
  sp_count :: nat
  sp_digest :: string

definition no_prefix :: source_prefix where
  "no_prefix = \<lparr>sp_count = 0, sp_digest = []\<rparr>"

datatype observation =
    Model ustring
  | FileChanged change_evidence
  | TurnStarted
  | TurnEnded turn_outcome
  | CompletedLegacy ustring
  | TurnCompleted uuid ustring
  | Started nat nat
  | ConversationTitle ustring
  | RunTitle ustring
  | ProcessTitle nat ustring
  | Activity run_activity
  | ApprovalRequested approval_request
  | Output ustring "ustring list"
  | NativeConversation ustring
  | Progress u64 ustring
  | Ended "int option"
  | LaunchFailed
  | Disconnected
  | Reconnected
  | Lost

datatype source_boundary = PendingBoundary | CompleteBoundary u64 ustring

record run_state =
  rs_model :: "ustring option"
  rs_quota_wait :: bool
  rs_review :: guard
  rs_changes :: "tracking option"
  rs_activity :: "run_activity option"
  rs_disconnected :: bool
  rs_processes :: "managed_process list"
  rs_native :: "ustring option"
  rs_exit :: "int option"
  rs_offset :: u64
  rs_checkpoint :: ustring
  rs_partial :: source_prefix
  rs_control :: "control_request option"
  rs_termination :: "run_termination option"

record launch_plan =
  lp_client :: uuid
  lp_turn :: "uuid option"
  lp_visa :: "uuid option"

record run_row =
  rr_revision :: nat
  rr_lifecycle :: run_lifecycle
  rr_name :: name
  rr_ended :: "int option"

record conversation_row =
  cw_revision :: nat
  cw_name :: name

record change_checkpoint =
  cc_before_evidence :: "change_evidence list"
  cc_before_incomplete :: bool
  cc_evidence :: "change_evidence list"
  cc_incomplete :: bool
  cc_turn :: u32
  cc_outcome :: turn_outcome
  cc_before :: change_snapshot
  cc_after :: change_snapshot
  cc_files :: "changed_file list"
  cc_artifact :: change_artifact

datatype run_event =
    RunLifecycleChanged run_lifecycle run_lifecycle
  | RunTerminated run_termination
  | RunProcessesChanged "managed_process list"
  | RunActivityChanged "run_activity option"
  | ApprovalRequestedEvent approval_request
  | RunOutput ustring "ustring list"
  | RunNativeConversation ustring
  | RunControlRequested run_control
  | ConversationNameChanged name
  | RunNameChanged name
  | ChangeEvidenceRecorded u32 change_evidence
  | ChangeCheckpointRecorded u32 turn_outcome change_artifact
  | ApprovalReviewed approval_review
  | ApprovalRetryAuthorized uuid

record run_event_row =
  re_kind :: run_event
  re_actor :: event_actor
  re_at :: int

record 'r exec =
  x_id :: uuid
  x_run :: "run_row option"
  x_execution :: "(launch_plan \<times> run_state) option"
  x_conversation :: "conversation_row option"
  x_conv :: "'r conv"
  x_checkpoints :: "change_checkpoint list"
  x_effects :: "uuid list"
  x_events :: "run_event_row list"

section \<open>Store operations\<close>

definition missing_run :: core_error where
  "missing_run = not_found ''run.execution_not_found''"

definition invalid_observation :: core_error where
  "invalid_observation = conflict ''run.invalid_observation''"

definition append_run :: "event_actor \<Rightarrow> run_event \<Rightarrow> int \<Rightarrow> 'r exec \<Rightarrow> 'r exec" where
  "append_run actor k now x = x\<lparr>x_events := x_events x @ [\<lparr>re_kind = k, re_actor = actor, re_at = now\<rparr>]\<rparr>"

definition append_all :: "event_actor \<Rightarrow> run_event list \<Rightarrow> int \<Rightarrow> 'r exec \<Rightarrow> 'r exec" where
  "append_all actor ks now x = fold (\<lambda>k. append_run actor k now) ks x"

definition save_state :: "run_state \<Rightarrow> 'r exec \<Rightarrow> 'r exec" where
  "save_state s x = x\<lparr>x_execution := map_option (\<lambda>(p, _). (p, s)) (x_execution x)\<rparr>"

text \<open>
  \<open>UPDATE runs\<close> with the trigger that advances the revision when the lifecycle differs:
  \<open>ended_at\<close> becomes the new end whenever there is one.
\<close>

definition set_lifecycle :: "run_lifecycle \<Rightarrow> int \<Rightarrow> run_row \<Rightarrow> run_row" where
  "set_lifecycle l now r =
     r\<lparr>rr_lifecycle := l, rr_revision := (if rr_lifecycle r \<noteq> l then rr_revision r + 1 else rr_revision r),
       rr_ended := (if is_terminal l then Some now else rr_ended r)\<rparr>"

definition update_run_lifecycle :: "run_lifecycle \<Rightarrow> int \<Rightarrow> 'r exec \<Rightarrow> 'r exec" where
  "update_run_lifecycle l now x = x\<lparr>x_run := map_option (set_lifecycle l now) (x_run x)\<rparr>"

definition update_run_name :: "name \<Rightarrow> 'r exec \<Rightarrow> 'r exec" where
  "update_run_name n x = x\<lparr>x_run := map_option (\<lambda>r. r\<lparr>rr_name := n, rr_revision := rr_revision r + 1\<rparr>) (x_run x)\<rparr>"

definition update_conversation_name :: "name \<Rightarrow> 'r exec \<Rightarrow> 'r exec" where
  "update_conversation_name n x =
     x\<lparr>x_conversation := map_option (\<lambda>c. c\<lparr>cw_name := n, cw_revision := cw_revision c + 1\<rparr>) (x_conversation x)\<rparr>"

section \<open>Naming\<close>

definition apply_harness_conversation :: "event_actor \<Rightarrow> ustring \<Rightarrow> int \<Rightarrow> 'r exec \<Rightarrow> core_error + 'r exec" where
  "apply_harness_conversation actor v now x =
     rbind (harness_native v) (\<lambda>candidate.
     rbind (ok_or (x_conversation x) (not_found ''conversation.not_found'')) (\<lambda>existing.
       if \<not> replaces candidate (cw_name existing) then Inr x
       else Inr (append_run actor (ConversationNameChanged candidate) now (update_conversation_name candidate x))))"

definition apply_harness_run :: "event_actor \<Rightarrow> ustring \<Rightarrow> int \<Rightarrow> 'r exec \<Rightarrow> core_error + 'r exec" where
  "apply_harness_run actor v now x =
     rbind (harness_native v) (\<lambda>candidate.
     rbind (ok_or (x_run x) (not_found ''run.not_found'')) (\<lambda>existing.
       if \<not> replaces candidate (rr_name existing) then Inr x
       else Inr (append_run actor (RunNameChanged candidate) now (update_run_name candidate x))))"

definition set_conversation_name :: "uuid \<Rightarrow> nat \<Rightarrow> ustring \<Rightarrow> int \<Rightarrow> 'r exec \<Rightarrow> core_error + 'r exec" where
  "set_conversation_name client expected v now x =
     rbind (manual v) (\<lambda>n.
     rbind (ok_or (x_conversation x) (not_found ''conversation.not_found'')) (\<lambda>existing.
       if cw_revision existing \<noteq> expected then Inl (conflict ''conversation.revision_conflict'')
       else Inr (append_run (InteractiveClient client) (ConversationNameChanged n) now (update_conversation_name n x))))"

definition set_run_name :: "uuid \<Rightarrow> nat \<Rightarrow> ustring \<Rightarrow> int \<Rightarrow> 'r exec \<Rightarrow> core_error + 'r exec" where
  "set_run_name client expected v now x =
     rbind (manual v) (\<lambda>n.
     rbind (ok_or (x_run x) (not_found ''run.not_found'')) (\<lambda>existing.
       if rr_revision existing \<noteq> expected then Inl (conflict ''run.revision_conflict'')
       else Inr (append_run (InteractiveClient client) (RunNameChanged n) now (update_run_name n x))))"

section \<open>The projection\<close>

definition executing :: "run_lifecycle \<Rightarrow> bool" where
  "executing l \<longleftrightarrow> l = L_Active \<or> l = L_Stopping"

type_synonym applied = "run_lifecycle \<times> run_state \<times> run_event list"

definition set_activity :: "run_activity option \<Rightarrow> run_state \<times> run_event list \<Rightarrow> run_state \<times> run_event list" where
  "set_activity a = (\<lambda>(s, evs).
     if rs_activity s \<noteq> a then (s\<lparr>rs_activity := a\<rparr>, evs @ [RunActivityChanged a]) else (s, evs))"

definition stop_processes :: "run_state \<times> run_event list \<Rightarrow> run_state \<times> run_event list" where
  "stop_processes = (\<lambda>(s, evs).
     (let ps = map (\<lambda>p. p\<lparr>mp_running := False\<rparr>) (rs_processes s)
      in (s\<lparr>rs_processes := ps\<rparr>, evs @ [RunProcessesChanged ps])))"

definition apply_native :: "run_lifecycle \<Rightarrow> run_state \<Rightarrow> ustring \<Rightarrow> core_error + applied" where
  "apply_native l s identity =
     (if executing l \<and> identity \<noteq> [] \<and> utf8_len identity \<le> 4096
      then Inr (l, s\<lparr>rs_native := Some identity\<rparr>, [RunNativeConversation identity])
      else Inl invalid_observation)"

definition apply_turn_ended :: "run_lifecycle \<Rightarrow> run_state \<Rightarrow> turn_outcome \<Rightarrow> core_error + applied" where
  "apply_turn_ended l s out =
     (if \<not> executing l then Inl invalid_observation
      else if out = TurnInterrupted \<and> map_option cr_control (rs_control s) = Some InterruptTurn
      then (let t = \<lparr>te_control = InterruptTurn, te_stage = NativeCancellation\<rparr>
            in Inr (l, s\<lparr>rs_control := None, rs_termination := Some t\<rparr>, [RunTerminated t]))
      else Inr (l, s, []))"

definition apply_started :: "run_lifecycle \<Rightarrow> run_state \<Rightarrow> nat \<Rightarrow> nat \<Rightarrow> core_error + applied" where
  "apply_started l s helper harness =
     (if l = L_Starting \<and> helper > 0 \<and> harness > 0 \<and> helper \<noteq> harness
      then (let ps = [\<lparr>mp_pid = helper, mp_role = HelperRole, mp_label = None, mp_running = True\<rparr>,
                      \<lparr>mp_pid = harness, mp_role = HarnessRole, mp_label = None, mp_running = True\<rparr>];
                (s', evs) = set_activity (Some Working) (s\<lparr>rs_processes := ps\<rparr>, [RunProcessesChanged ps])
            in Inr (L_Active, s', evs))
      else Inl invalid_observation)"

definition apply_ended :: "run_lifecycle \<Rightarrow> run_state \<Rightarrow> int option \<Rightarrow> core_error + applied" where
  "apply_ended l s exit_code =
     (if \<not> executing l then Inl invalid_observation
      else
        (let next = (if rs_control s \<noteq> None then L_Canceled
                     else if exit_code = Some 0 then L_Completed else L_Failed);
             (s', evs) = stop_processes (set_activity None (s\<lparr>rs_exit := exit_code\<rparr>, []))
         in Inr (next, s', evs)))"

definition apply_lost :: "run_lifecycle \<Rightarrow> run_state \<Rightarrow> core_error + applied" where
  "apply_lost l s0 =
     (let s = s0\<lparr>rs_partial := no_prefix\<rparr>
      in if is_terminal l then Inr (l, s, [])
         else
           (let (s', evs) = stop_processes (set_activity None (s\<lparr>rs_disconnected := False\<rparr>, []))
            in Inr (L_Lost, s', evs)))"

definition apply_process_title :: "run_lifecycle \<Rightarrow> run_state \<Rightarrow> nat \<Rightarrow> ustring \<Rightarrow> core_error + applied" where
  "apply_process_title l s pid title =
     (if \<not> executing l then Inl invalid_observation
      else
        rbind (process_label title) (\<lambda>label.
          case find (\<lambda>p. mp_pid p = pid) (rs_processes s) of
            None \<Rightarrow> Inl invalid_observation
          | Some p \<Rightarrow>
              if mp_label p = Some label then Inr (l, s, [])
              else
                (case update_first (\<lambda>p. mp_pid p = pid) (\<lambda>p. p\<lparr>mp_label := Some label\<rparr>) (rs_processes s) of
                   None \<Rightarrow> Inl invalid_observation
                 | Some ps \<Rightarrow> Inr (l, s\<lparr>rs_processes := ps\<rparr>, [RunProcessesChanged ps]))))"

definition apply_disconnected :: "run_lifecycle \<Rightarrow> run_state \<Rightarrow> core_error + applied" where
  "apply_disconnected l s =
     (if executing l
      then (if rs_disconnected s then Inr (l, s, [])
            else Inr (l, s\<lparr>rs_disconnected := True\<rparr>, [RunActivityChanged (Some Reconnecting)]))
      else if l = L_Starting \<or> is_terminal l then Inr (l, s, [])
      else Inl invalid_observation)"

fun apply_observation :: "run_lifecycle \<Rightarrow> run_state \<Rightarrow> observation \<Rightarrow> core_error + applied" where
  "apply_observation l s (TurnEnded out) = apply_turn_ended l s out"
| "apply_observation l s (FileChanged ev) = (if executing l then Inr (l, s, []) else Inl invalid_observation)"
| "apply_observation l s TurnStarted = (if executing l then Inr (l, s, []) else Inl invalid_observation)"
| "apply_observation l s (CompletedLegacy identity) = apply_native l s identity"
| "apply_observation l s Lost = apply_lost l s"
| "apply_observation l s (Progress offset checkpoint) =
     (if offset \<le> rs_offset s \<or> utf8_len checkpoint > 65536 then Inl invalid_observation
      else Inr (l, s\<lparr>rs_offset := offset, rs_checkpoint := checkpoint\<rparr>, []))"
| "apply_observation l s (Started helper harness) = apply_started l s helper harness"
| "apply_observation l s (Activity reason) =
     (if executing l
      then (let (s', evs) = set_activity (Some reason) (s\<lparr>rs_quota_wait := (reason = WaitingForQuota)\<rparr>, [])
            in Inr (l, s', evs))
      else Inl invalid_observation)"
| "apply_observation l s (ApprovalRequested q) =
     (if executing l then rbind (validate_request q) (\<lambda>_. Inr (l, s, [ApprovalRequestedEvent q]))
      else Inl invalid_observation)"
| "apply_observation l s (ProcessTitle pid title) = apply_process_title l s pid title"
| "apply_observation l s Reconnected =
     (if rs_disconnected s then Inr (l, s\<lparr>rs_disconnected := False\<rparr>, [RunActivityChanged (rs_activity s)])
      else Inr (l, s, []))"
| "apply_observation l s Disconnected = apply_disconnected l s"
| "apply_observation l s (Output native presentation) =
     (if executing l \<and> utf8_len native + sum_list (map utf8_len presentation) \<le> 128 * 1024 \<and> length presentation \<le> 128
      then Inr (l, s, [RunOutput native presentation])
      else Inl invalid_observation)"
| "apply_observation l s (NativeConversation identity) = apply_native l s identity"
| "apply_observation l s (TurnCompleted turn identity) = apply_native l s identity"
| "apply_observation l s (Ended exit_code) = apply_ended l s exit_code"
| "apply_observation l s LaunchFailed = (if l = L_Starting then Inr (L_Failed, s, []) else Inl invalid_observation)"
| "apply_observation l s (Model m) = Inl invalid_observation"
| "apply_observation l s (ConversationTitle t) = Inl invalid_observation"
| "apply_observation l s (RunTitle t) = Inl invalid_observation"

section \<open>Recording an observation\<close>

definition harness_observation :: "observation \<Rightarrow> bool" where
  "harness_observation ob =
     (case ob of
        FileChanged _ \<Rightarrow> True | TurnStarted \<Rightarrow> True | TurnEnded _ \<Rightarrow> True | CompletedLegacy _ \<Rightarrow> True
      | Activity _ \<Rightarrow> True | TurnCompleted _ _ \<Rightarrow> True | Output _ _ \<Rightarrow> True | Model _ \<Rightarrow> True
      | NativeConversation _ \<Rightarrow> True | ConversationTitle _ \<Rightarrow> True | RunTitle _ \<Rightarrow> True
      | ApprovalRequested _ \<Rightarrow> True | ProcessTitle _ _ \<Rightarrow> True
      | Started _ _ \<Rightarrow> False | Progress _ _ \<Rightarrow> False | Ended _ \<Rightarrow> False | LaunchFailed \<Rightarrow> False
      | Lost \<Rightarrow> False | Reconnected \<Rightarrow> False | Disconnected \<Rightarrow> False)"

definition observation_actor :: "uuid \<Rightarrow> uuid \<Rightarrow> observation \<Rightarrow> event_actor" where
  "observation_actor run client ob =
     (if harness_observation ob then HarnessActor run client else RunSupervisor run client)"

definition is_title :: "observation \<Rightarrow> bool" where
  "is_title ob =
     (case ob of ConversationTitle _ \<Rightarrow> True | RunTitle _ \<Rightarrow> True | ProcessTitle _ _ \<Rightarrow> True | _ \<Rightarrow> False)"

definition observation_settlement :: "uuid \<Rightarrow> launch_plan \<Rightarrow> run_state \<Rightarrow> observation \<Rightarrow> settlement option" where
  "observation_settlement run plan s ob =
     (case ob of
        TurnCompleted turn _ \<Rightarrow> Some (SettleCompleted turn)
      | NativeConversation _ \<Rightarrow> Some (SettleCompleted (case lp_turn plan of Some t \<Rightarrow> t | None \<Rightarrow> run))
      | CompletedLegacy _ \<Rightarrow> Some (SettleCompleted (case lp_turn plan of Some t \<Rightarrow> t | None \<Rightarrow> run))
      | Ended _ \<Rightarrow> Some SettleFailed
      | LaunchFailed \<Rightarrow> Some SettleFailed
      | Lost \<Rightarrow> Some SettleFailed
      | Disconnected \<Rightarrow> Some SettleUnknown
      | Reconnected \<Rightarrow> Some SettleUnknown
      | TurnEnded out \<Rightarrow>
          if out = TurnInterrupted \<and> map_option cr_control (rs_control s) = Some InterruptTurn
          then Some SettleCanceled else None
      | _ \<Rightarrow> None)"

definition settle_run :: "settlement option \<Rightarrow> int \<Rightarrow> 'r exec \<Rightarrow> core_error + 'r exec" where
  "settle_run st now x =
     (case st of
        None \<Rightarrow> Inr x
      | Some settlement \<Rightarrow> rbind (settle (x_id x) settlement now (x_conv x)) (\<lambda>c. Inr (x\<lparr>x_conv := c\<rparr>)))"

definition record_projection ::
    "event_actor \<Rightarrow> launch_plan \<Rightarrow> run_state \<Rightarrow> run_row \<Rightarrow> observation \<Rightarrow> int \<Rightarrow> 'r exec \<Rightarrow> core_error + 'r exec" where
  "record_projection actor plan s run ob now x =
     rbind (apply_observation (rr_lifecycle run) s ob) (\<lambda>(l, s', evs).
     rbind (settle_run (observation_settlement (x_id x) plan s ob) now x) (\<lambda>x1.
       let x2 = (if l \<noteq> rr_lifecycle run
                 then append_run actor (RunLifecycleChanged (rr_lifecycle run) l) now (update_run_lifecycle l now x1)
                 else if evs \<noteq> [] then update_run_lifecycle l now x1
                 else x1)
       in Inr (save_state s' (append_all actor evs now x2))))"

definition record_observation :: "observation \<Rightarrow> int \<Rightarrow> 'r exec \<Rightarrow> core_error + 'r exec" where
  "record_observation ob now x =
     rbind (ok_or (x_execution x) missing_run) (\<lambda>(plan, s).
     rbind (ok_or (x_run x) missing_run) (\<lambda>run.
       if is_title ob \<and> \<not> executing (rr_lifecycle run) then Inl invalid_observation
       else
         (let actor = observation_actor (x_id x) (lp_client plan) ob
          in case ob of
               ConversationTitle title \<Rightarrow> apply_harness_conversation actor title now x
             | RunTitle title \<Rightarrow> apply_harness_run actor title now x
             | Model m \<Rightarrow>
                 if \<not> executing (rr_lifecycle run) \<or> m = [] \<or> utf8_len m > 128 \<or> list_ex is_control m
                 then Inl invalid_observation
                 else Inr (save_state (s\<lparr>rs_model := Some m\<rparr>) x)
             | _ \<Rightarrow> record_projection actor plan s run ob now x)))"

section \<open>Change tracking\<close>

record git_answers =
  ga_snapshot :: "core_error + change_snapshot"
  ga_files :: "core_error + changed_file list"
  ga_patch :: "core_error + change_artifact"

definition checkpoint_failed :: core_error where
  "checkpoint_failed = unavailable_error ''checkpoint.capture_failed''"

definition missing_checkpoint :: core_error where
  "missing_checkpoint = not_found ''checkpoint.not_found''"

definition EMPTY_SHA256 :: ustring where
  "EMPTY_SHA256 = ucs ''e3b0c44298fc1c149afbf4c8996fb92427ae41e4649b934ca495991b7852b855''"

definition pressure_artifact :: change_artifact where
  "pressure_artifact = \<lparr>ca_availability = DiskPressure, ca_sha256 = EMPTY_SHA256, ca_size = 0\<rparr>"

definition snapshot_incomplete :: "change_snapshot \<Rightarrow> bool" where
  "snapshot_incomplete sn \<longleftrightarrow> ca_availability (sn_uncommitted sn) = DiskPressure"

definition record_evidence :: "change_evidence \<Rightarrow> window \<Rightarrow> int \<Rightarrow> 'r exec \<Rightarrow> core_error + 'r exec" where
  "record_evidence ev w now x =
     rbind (validate_evidence (x_id x) ev) (\<lambda>_.
     rbind (ok_or (x_execution x) invalid_evidence) (\<lambda>(plan, s).
     rbind (ok_or (x_run x) invalid_evidence) (\<lambda>run.
     rbind (ok_or (rs_changes s) invalid_evidence) (\<lambda>tk.
     rbind (record_receipt ev w (is_terminal (rr_lifecycle run)) tk) (\<lambda>(tk', written).
       if \<not> written then Inr x
       else Inr (save_state (s\<lparr>rs_changes := Some tk'\<rparr>)
              (append_run (RunSupervisor (x_id x) (lp_client plan))
                 (ChangeEvidenceRecorded (tk_completed tk + 1) ev) now x)))))))"

definition begin_run_changes :: "git_answers \<Rightarrow> 'r exec \<Rightarrow> core_error + 'r exec" where
  "begin_run_changes git x =
     rbind (ga_snapshot git) (\<lambda>sn.
     rbind (ok_or (x_execution x) missing_checkpoint) (\<lambda>(plan, s).
       if rs_changes s \<noteq> None then Inl checkpoint_failed
       else Inr (save_state (s\<lparr>rs_changes := Some \<lparr>tk_between = [], tk_between_incomplete = False, tk_evidence = [],
              tk_incomplete = False, tk_baseline = sn, tk_active = Some sn, tk_terminal = None, tk_completed = 0\<rparr>\<rparr>) x)))"

text \<open>
  The checkpoint of an ended turn: the row's key is the Run and the turn number, which the table requires to be
  positive, so a counter that has wrapped is refused. Writing it also takes the receipts of the turn and of the
  gap before it.
\<close>

definition insert_change_checkpoint :: "change_checkpoint \<Rightarrow> 'r exec \<Rightarrow> core_error + 'r exec" where
  "insert_change_checkpoint cp x =
     (if cc_turn cp = 0 \<or> cc_turn cp \<in> cc_turn ` set (x_checkpoints x) then Inl (unavailable_error ''store.unavailable'')
      else Inr (x\<lparr>x_checkpoints := x_checkpoints x @ [cp]\<rparr>))"

definition capture_turn ::
    "git_answers \<Rightarrow> launch_plan \<Rightarrow> run_state \<Rightarrow> tracking \<Rightarrow> change_snapshot \<Rightarrow> bool \<Rightarrow> turn_outcome \<Rightarrow> int \<Rightarrow>
     'r exec \<Rightarrow> core_error + 'r exec" where
  "capture_turn git plan s tk sn0 terminal out now x =
     rbind (ga_snapshot git) (\<lambda>after.
     rbind (ga_files git) (\<lambda>files0.
     rbind (if snapshot_incomplete sn0 \<or> snapshot_incomplete after then Inr pressure_artifact else ga_patch git) (\<lambda>artifact.
     rbind (ok_or (x_run x) missing_checkpoint) (\<lambda>run.
       let files = (if tk_incomplete tk then files0 else attribute files0 (tk_evidence tk));
           turn = tk_completed tk + 1;
           tk' = tk\<lparr>tk_active := None, tk_terminal := (if terminal then Some after else tk_terminal tk),
                    tk_completed := turn, tk_between := [], tk_between_incomplete := False,
                    tk_evidence := [], tk_incomplete := False\<rparr>;
           cp = \<lparr>cc_before_evidence = tk_between tk, cc_before_incomplete = tk_between_incomplete tk,
                 cc_evidence = tk_evidence tk, cc_incomplete = tk_incomplete tk, cc_turn = turn, cc_outcome = out,
                 cc_before = sn0, cc_after = after, cc_files = files, cc_artifact = artifact\<rparr>
       in rbind (insert_change_checkpoint cp x) (\<lambda>x1.
            Inr (save_state (s\<lparr>rs_changes := Some tk'\<rparr>)
              (append_run (RunSupervisor (x_id x) (lp_client plan)) (ChangeCheckpointRecorded turn out artifact) now x1)))))))"

definition turn_boundary :: "observation \<Rightarrow> turn_outcome option" where
  "turn_boundary ob =
     (case ob of
        CompletedLegacy _ \<Rightarrow> Some TurnDone
      | NativeConversation _ \<Rightarrow> Some TurnDone
      | TurnCompleted _ _ \<Rightarrow> Some TurnDone
      | TurnEnded out \<Rightarrow> Some out
      | Ended _ \<Rightarrow> Some TurnInterrupted
      | Lost \<Rightarrow> Some TurnInterrupted
      | LaunchFailed \<Rightarrow> Some TurnInterrupted
      | _ \<Rightarrow> None)"

definition ends_run :: "observation \<Rightarrow> bool" where
  "ends_run ob = (case ob of Ended _ \<Rightarrow> True | Lost \<Rightarrow> True | LaunchFailed \<Rightarrow> True | _ \<Rightarrow> False)"

definition start_turn :: "git_answers \<Rightarrow> 'r exec \<Rightarrow> core_error + 'r exec" where
  "start_turn git x =
     rbind (ok_or (x_execution x) missing_checkpoint) (\<lambda>(plan, s).
     rbind (ok_or (rs_changes s) missing_checkpoint) (\<lambda>tk.
       if tk_active tk \<noteq> None then Inr x
       else rbind (ga_snapshot git) (\<lambda>sn. Inr (save_state (s\<lparr>rs_changes := Some (tk\<lparr>tk_active := Some sn\<rparr>)\<rparr>) x))))"

definition end_turn :: "git_answers \<Rightarrow> bool \<Rightarrow> turn_outcome \<Rightarrow> int \<Rightarrow> 'r exec \<Rightarrow> core_error + 'r exec" where
  "end_turn git terminal out now x =
     rbind (ok_or (x_execution x) missing_checkpoint) (\<lambda>(plan, s).
       case rs_changes s of
         None \<Rightarrow> Inr x
       | Some tk \<Rightarrow>
           (case tk_active tk of
              None \<Rightarrow>
                if terminal
                then rbind (ga_snapshot git) (\<lambda>sn. Inr (save_state (s\<lparr>rs_changes := Some (tk\<lparr>tk_terminal := Some sn\<rparr>)\<rparr>) x))
                else Inr x
            | Some sn0 \<Rightarrow> capture_turn git plan s tk sn0 terminal out now x))"

definition observe_changes :: "git_answers \<Rightarrow> observation \<Rightarrow> int \<Rightarrow> 'r exec \<Rightarrow> core_error + 'r exec" where
  "observe_changes git ob now x =
     (case ob of
        FileChanged ev \<Rightarrow>
          if ce_origin ev \<noteq> HarnessChange (x_id x) then Inl checkpoint_failed
          else record_evidence ev ActiveTurn now x
      | TurnStarted \<Rightarrow> start_turn git x
      | _ \<Rightarrow> (case turn_boundary ob of None \<Rightarrow> Inr x | Some out \<Rightarrow> end_turn git (ends_run ob) out now x))"

section \<open>Committing source\<close>

definition observe_run :: "git_answers \<Rightarrow> observation \<Rightarrow> int \<Rightarrow> 'r exec \<Rightarrow> core_error + 'r exec" where
  "observe_run git ob now x = rbind (observe_changes git ob now x) (record_observation ob now)"

definition include_prefix :: "(string \<Rightarrow> observation \<Rightarrow> string) \<Rightarrow> observation \<Rightarrow> source_prefix \<Rightarrow> source_prefix" where
  "include_prefix digest ob p = \<lparr>sp_count = sp_count p + 1, sp_digest = digest (sp_digest p) ob\<rparr>"

fun observe_all :: "(observation \<times> git_answers) list \<Rightarrow> int \<Rightarrow> 'r exec \<Rightarrow> core_error + 'r exec" where
  "observe_all [] now x = Inr x"
| "observe_all ((ob, git) # obs) now x = rbind (observe_run git ob now x) (observe_all obs now)"

definition commit_run_source ::
    "(string \<Rightarrow> observation \<Rightarrow> string) \<Rightarrow> (observation \<times> git_answers) list \<Rightarrow> source_boundary \<Rightarrow> int \<Rightarrow>
     'r exec \<Rightarrow> core_error + 'r exec" where
  "commit_run_source digest obs boundary now x =
     rbind (ok_or (x_execution x) missing_run) (\<lambda>(plan, s).
       if (case boundary of CompleteBoundary offset _ \<Rightarrow> offset \<le> rs_offset s | PendingBoundary \<Rightarrow> False)
       then Inl invalid_observation
       else
         rbind (observe_all obs now x) (\<lambda>x1.
         rbind (case boundary of
                  PendingBoundary \<Rightarrow> Inr x1
                | CompleteBoundary offset checkpoint \<Rightarrow> record_observation (Progress offset checkpoint) now x1) (\<lambda>x2.
         rbind (ok_or (x_execution x2) missing_run) (\<lambda>(plan2, s2).
         rbind (ok_or (x_run x2) missing_run) (\<lambda>_.
           Inr (save_state (s2\<lparr>rs_partial :=
                   (case boundary of
                      PendingBoundary \<Rightarrow> fold (\<lambda>(ob, _). include_prefix digest ob) obs (rs_partial s)
                    | CompleteBoundary _ _ \<Rightarrow> no_prefix)\<rparr>) x2))))))"

section \<open>Client transitions and control requests\<close>

definition transition_run :: "uuid \<Rightarrow> nat \<Rightarrow> run_lifecycle \<Rightarrow> int \<Rightarrow> 'r exec \<Rightarrow> core_error + 'r exec" where
  "transition_run client expected l now x =
     (if x_execution x \<noteq> None then Inl (conflict ''run.managed_lifecycle'')
      else
        rbind (ok_or (x_run x) (not_found ''run.not_found'')) (\<lambda>current.
          if rr_revision current \<noteq> expected then Inl (conflict ''run.revision_conflict'')
          else if \<not> may_transition (rr_lifecycle current) l then Inl (conflict ''run.invalid_transition'')
          else Inr (append_run (InteractiveClient client) (RunLifecycleChanged (rr_lifecycle current) l) now
                 (update_run_lifecycle l now x))))"

definition append_control :: "uuid \<Rightarrow> run_row \<Rightarrow> run_control \<Rightarrow> int \<Rightarrow> 'r exec \<Rightarrow> 'r exec" where
  "append_control client run control now x =
     (let x1 = append_run (InteractiveClient client) (RunControlRequested control) now x
      in if control = StopRun \<and> rr_lifecycle run = L_Active
         then append_run (InteractiveClient client) (RunLifecycleChanged L_Active L_Stopping) now
                (update_run_lifecycle L_Stopping now x1)
         else x1)"

definition record_control :: "uuid \<Rightarrow> uuid \<Rightarrow> run_control \<Rightarrow> int \<Rightarrow> 'r exec \<Rightarrow> core_error + 'r exec" where
  "record_control client command control now x =
     rbind (ok_or (x_run x) missing_run) (\<lambda>run.
     rbind (ok_or (x_execution x) missing_run) (\<lambda>(plan, s).
       if is_terminal (rr_lifecycle run) then Inl (conflict ''run.not_controllable'')
       else if rr_lifecycle run = L_Created \<or> rr_lifecycle run = L_Starting then Inl (conflict ''run.not_started'')
       else
         rbind (load_queue (x_conv x)) (\<lambda>q.
           let active = active_turn (x_id x) q
           in if control = InterruptTurn \<and> (rr_lifecycle run \<noteq> L_Active \<or> active = None)
              then Inl (conflict ''run.no_active_turn'')
              else
                (let x1 = (if map_option cr_control (rs_control s) \<noteq> Some control
                           then save_state (s\<lparr>rs_control := Some \<lparr>cr_control = control, cr_correlation = active\<rparr>,
                                              rs_termination := None\<rparr>) x
                           else x);
                     x2 = append_control client run control now x1
                 in Inr (x2\<lparr>x_effects := x_effects x2 @ [command]\<rparr>)))))"

definition settle_control :: "run_termination \<Rightarrow> int \<Rightarrow> 'r exec \<Rightarrow> core_error + 'r exec" where
  "settle_control t now x =
     rbind (ok_or (x_run x) missing_run) (\<lambda>_.
     rbind (ok_or (x_execution x) missing_run) (\<lambda>(plan, s).
       if rs_termination s = Some t then Inr x
       else Inr (append_run (RunSupervisor (x_id x) (lp_client plan)) (RunTerminated t) now
              (save_state (s\<lparr>rs_control := None, rs_termination := Some t\<rparr>) x))))"

definition abandon_control :: "'r exec \<Rightarrow> core_error + 'r exec" where
  "abandon_control x =
     rbind (ok_or (x_execution x) missing_run) (\<lambda>(plan, s). Inr (save_state (s\<lparr>rs_control := None\<rparr>) x))"

text \<open>
  The ladder: what the host answers to each signal and whether the Run was seen to end
  within its wait are arguments. The result is the signals delivered and the recorded
  stage, or None when nothing may be concluded.
\<close>

definition LADDER :: "execution_signal list" where
  "LADDER = [SignalInterrupt, SignalTerminate, SignalKill]"

fun climb ::
    "(execution_signal \<Rightarrow> bool) \<Rightarrow> (execution_signal \<Rightarrow> bool) \<Rightarrow> (execution_signal \<Rightarrow> bool) \<Rightarrow>
     execution_signal option \<Rightarrow> execution_signal list \<Rightarrow> execution_signal list \<times> termination_stage option" where
  "climb accepts ended_now ended_within delivered [] = ([], Some Unobserved)"
| "climb accepts ended_now ended_within delivered (s # ss) =
     (if \<not> accepts s
      then ([], if ended_now s then Some (case delivered of None \<Rightarrow> Unobserved | Some d \<Rightarrow> signal_stage d) else None)
      else if ended_within s then ([s], Some (signal_stage s))
      else (case climb accepts ended_now ended_within (Some s) ss of (sent, stage) \<Rightarrow> (s # sent, stage)))"

section \<open>How a Run evolves\<close>

text \<open>The lifecycle changes of a list of Events, and the lawful paths through them.\<close>

definition changes :: "run_event_row list \<Rightarrow> (run_lifecycle \<times> run_lifecycle) list" where
  "changes evs = concat (map (\<lambda>e. case re_kind e of RunLifecycleChanged f t \<Rightarrow> [(f, t)] | _ \<Rightarrow> []) evs)"

fun lawful_path :: "run_lifecycle \<Rightarrow> (run_lifecycle \<times> run_lifecycle) list \<Rightarrow> run_lifecycle \<Rightarrow> bool" where
  "lawful_path l [] l' \<longleftrightarrow> l = l'"
| "lawful_path l ((f, t) # cs) l' \<longleftrightarrow> f = l \<and> may_transition f t \<and> lawful_path t cs l'"

definition harness_output :: "run_event \<Rightarrow> bool" where
  "harness_output k =
     (case k of RunOutput _ _ \<Rightarrow> True | RunNativeConversation _ \<Rightarrow> True | ApprovalRequestedEvent _ \<Rightarrow> True | _ \<Rightarrow> False)"

definition lc :: "'r exec \<Rightarrow> run_lifecycle option" where
  "lc x = map_option rr_lifecycle (x_run x)"

definition run_name :: "'r exec \<Rightarrow> name option" where
  "run_name x = map_option rr_name (x_run x)"

definition conversation_name :: "'r exec \<Rightarrow> name option" where
  "conversation_name x = map_option cw_name (x_conversation x)"

definition source_offset :: "'r exec \<Rightarrow> u64 option" where
  "source_offset x = map_option (rs_offset \<circ> snd) (x_execution x)"

definition evolves :: "'r exec \<Rightarrow> 'r exec \<Rightarrow> bool" where
  "evolves x y \<longleftrightarrow> x_id y = x_id x \<and>
     rel_option (\<lambda>a b. replaces b a) (run_name x) (run_name y) \<and>
     rel_option (\<lambda>a b. replaces b a) (conversation_name x) (conversation_name y) \<and>
     rel_option (\<le>) (source_offset x) (source_offset y) \<and>
     (\<exists>new. x_events y = x_events x @ new \<and>
        rel_option (\<lambda>l l'. lawful_path l (changes new) l' \<and>
          (is_terminal l \<longrightarrow> list_all (\<lambda>e. \<not> harness_output (re_kind e)) new)) (lc x) (lc y))"

lemma changes_simps [simp]:
  "changes [] = []" "changes (a @ b) = changes a @ changes b"
  "changes (e # es) = (case re_kind e of RunLifecycleChanged f t \<Rightarrow> [(f, t)] | _ \<Rightarrow> []) @ changes es"
  by (simp_all add: changes_def)

lemma lawful_path_append: "lawful_path l a m \<Longrightarrow> lawful_path m b n \<Longrightarrow> lawful_path l (a @ b) n"
  by (induction l a m rule: lawful_path.induct) auto

lemma may_transition_live: "may_transition f t \<Longrightarrow> \<not> is_terminal f"
  by (cases f; cases t) (simp_all add: may_transition_def)

lemma lawful_path_terminal: "lawful_path l cs m \<Longrightarrow> is_terminal l \<Longrightarrow> cs = [] \<and> m = l"
  by (cases cs) (auto dest: may_transition_live)

lemma replaces_trans: "replaces b a \<Longrightarrow> replaces c b \<Longrightarrow> replaces c a"
  by (simp add: replaces_order)

lemma replaces_refl [simp]: "replaces a a"
  by (simp add: replaces_order)

lemma rel_option_chain:
  "rel_option R a b \<Longrightarrow> rel_option S b c \<Longrightarrow> (\<And>x y z. R x y \<Longrightarrow> S y z \<Longrightarrow> T x z) \<Longrightarrow> rel_option T a c"
  by (cases a; cases b; cases c) auto

lemma evolvesI:
  assumes "x_id y = x_id x" and "rel_option (\<lambda>a b. replaces b a) (run_name x) (run_name y)"
    and "rel_option (\<lambda>a b. replaces b a) (conversation_name x) (conversation_name y)"
    and "rel_option (\<le>) (source_offset x) (source_offset y)"
    and "x_events y = x_events x @ new"
    and "rel_option (\<lambda>l l'. lawful_path l (changes new) l' \<and>
          (is_terminal l \<longrightarrow> list_all (\<lambda>e. \<not> harness_output (re_kind e)) new)) (lc x) (lc y)"
  shows "evolves x y"
  using assms unfolding evolves_def by blast

lemma evolves_refl [simp]: "evolves x x"
  by (rule evolvesI [where new = "[]"]) (simp_all add: option.rel_refl)

lemma evolves_trans:
  assumes "evolves x y" and "evolves y z"
  shows "evolves x z"
proof -
  let ?P = "\<lambda>new l l'. lawful_path l (changes new) l' \<and> (is_terminal l \<longrightarrow> list_all (\<lambda>e. \<not> harness_output (re_kind e)) new)"
  obtain a b where a: "x_events y = x_events x @ a" "rel_option (?P a) (lc x) (lc y)"
    and b: "x_events z = x_events y @ b" "rel_option (?P b) (lc y) (lc z)"
    using assms unfolding evolves_def by blast
  show ?thesis
  proof (rule evolvesI [where new = "a @ b"])
    show "x_id z = x_id x" "x_events z = x_events x @ a @ b" using assms a(1) b(1) by (simp_all add: evolves_def)
    show "rel_option (?P (a @ b)) (lc x) (lc z)"
    proof (rule rel_option_chain [OF a(2) b(2)])
      fix l m n
      assume l: "?P a l m" and m: "?P b m n"
      have "lawful_path l (changes (a @ b)) n" using l m lawful_path_append [of l "changes a" m "changes b" n] by simp
      moreover have "list_all (\<lambda>e. \<not> harness_output (re_kind e)) (a @ b)" if "is_terminal l"
        using l m lawful_path_terminal [of l "changes a" m] that by simp
      ultimately show "?P (a @ b) l n" by blast
    qed
    show "rel_option (\<lambda>a b. replaces b a) (run_name x) (run_name z)"
      by (rule rel_option_chain [OF conjunct1 [OF conjunct2 [OF assms(1) [unfolded evolves_def]]]
            conjunct1 [OF conjunct2 [OF assms(2) [unfolded evolves_def]]]]) (rule replaces_trans)
    have "rel_option (\<lambda>a b. replaces b a) (conversation_name x) (conversation_name y)"
        "rel_option (\<lambda>a b. replaces b a) (conversation_name y) (conversation_name z)"
        "rel_option (\<le>) (source_offset x) (source_offset y)" "rel_option (\<le>) (source_offset y) (source_offset z)"
      using assms unfolding evolves_def by blast+
    then show "rel_option (\<lambda>a b. replaces b a) (conversation_name x) (conversation_name z)"
      "rel_option (\<le>) (source_offset x) (source_offset z)"
      by - (erule (1) rel_option_chain, erule (1) replaces_trans, erule (1) rel_option_chain, erule (1) order_trans)
  qed
qed

text \<open>What the projection of one observation may do.\<close>

lemma set_activity_simps:
  "set_activity a (s, evs) = (s', evs') \<Longrightarrow>
     rs_offset s' = rs_offset s \<and> rs_changes s' = rs_changes s \<and> rs_control s' = rs_control s \<and>
     rs_disconnected s' = rs_disconnected s \<and> rs_review s' = rs_review s \<and>
     (evs' = evs \<or> evs' = evs @ [RunActivityChanged a])"
  by (auto simp: set_activity_def split: if_splits)

lemma stop_processes_simps:
  "stop_processes (s, evs) = (s', evs') \<Longrightarrow>
     rs_offset s' = rs_offset s \<and> rs_changes s' = rs_changes s \<and> rs_control s' = rs_control s \<and>
     rs_disconnected s' = rs_disconnected s \<and> rs_review s' = rs_review s \<and>
     (\<exists>ps. evs' = evs @ [RunProcessesChanged ps])"
  by (auto simp: stop_processes_def Let_def)

definition silent :: "run_event \<Rightarrow> bool" where
  "silent k = (case k of RunActivityChanged _ \<Rightarrow> True | RunProcessesChanged _ \<Rightarrow> True | _ \<Rightarrow> False)"

definition projected :: "run_lifecycle \<Rightarrow> run_state \<Rightarrow> run_lifecycle \<Rightarrow> run_state \<Rightarrow> run_event list \<Rightarrow> bool" where
  "projected l s l' s' evs \<longleftrightarrow>
     (l' = l \<or> may_transition l l') \<and> rs_offset s \<le> rs_offset s' \<and> rs_changes s' = rs_changes s \<and>
     rs_review s' = rs_review s \<and>
     (if is_terminal l then list_all silent evs
      else list_all (\<lambda>k. case k of RunLifecycleChanged _ _ \<Rightarrow> False | _ \<Rightarrow> True) evs)"

lemma executing_live: "executing l \<Longrightarrow> \<not> is_terminal l \<and> may_transition l L_Completed \<and> may_transition l L_Failed \<and>
    may_transition l L_Canceled"
  by (auto simp: executing_def may_transition_def)

lemma apply_ended_projected: "apply_ended l s c = Inr (l', s', evs) \<Longrightarrow> projected l s l' s' evs"
  using executing_live [of l]
  by (auto simp: apply_ended_def projected_def Let_def stop_processes_def set_activity_def split: if_splits)

lemma apply_lost_projected: "apply_lost l s = Inr (l', s', evs) \<Longrightarrow> projected l s l' s' evs"
  by (auto simp: apply_lost_def projected_def Let_def stop_processes_def set_activity_def may_transition_def split: if_splits)

lemma apply_started_projected: "apply_started l s a b = Inr (l', s', evs) \<Longrightarrow> projected l s l' s' evs"
  by (auto simp: apply_started_def projected_def Let_def set_activity_def may_transition_def split: if_splits)

lemma apply_title_projected: "apply_process_title l s p t = Inr (l', s', evs) \<Longrightarrow> projected l s l' s' evs"
  using executing_live [of l]
  by (auto simp: apply_process_title_def projected_def rbind_Inr_iff split: if_splits option.splits)

lemma apply_other_projected:
  "apply_native l s i = Inr (l', s', evs) \<Longrightarrow> projected l s l' s' evs"
  "apply_turn_ended l s out = Inr (l', s', evs) \<Longrightarrow> projected l s l' s' evs"
  "apply_disconnected l s = Inr (l', s', evs) \<Longrightarrow> projected l s l' s' evs"
  using executing_live [of l]
  by (auto simp: apply_native_def apply_turn_ended_def apply_disconnected_def projected_def silent_def Let_def split: if_splits)

lemma projected_refl [simp]: "projected l s l s []"
  by (simp add: projected_def)

lemma apply_projected:
  assumes "apply_observation l s ob = Inr (l', s', evs)"
  shows "projected l s l' s' evs"
proof (cases ob)
  case (Activity a)
  then show ?thesis
    using assms executing_live [of l] by (auto simp: projected_def set_activity_def Let_def split: if_splits)
next
  case (ApprovalRequested q)
  then show ?thesis
    using assms executing_live [of l] by (auto simp: projected_def rbind_Inr_iff split: if_splits)
next
  case (Output a b)
  then show ?thesis using assms executing_live [of l] by (auto simp: projected_def split: if_splits)
next
  case LaunchFailed
  then show ?thesis using assms by (auto simp: projected_def may_transition_def split: if_splits)
next
  case Reconnected
  then show ?thesis using assms by (auto simp: projected_def silent_def split: if_splits)
next
  case (Progress a b)
  then show ?thesis using assms by (auto simp: projected_def split: if_splits)
qed (use assms in \<open>auto split: if_splits
       intro: apply_ended_projected apply_lost_projected apply_started_projected apply_title_projected apply_other_projected\<close>)

section \<open>Every operation lets the Run evolve\<close>

definition rows :: "event_actor \<Rightarrow> int \<Rightarrow> run_event list \<Rightarrow> run_event_row list" where
  "rows actor now ks = map (\<lambda>k. \<lparr>re_kind = k, re_actor = actor, re_at = now\<rparr>) ks"

lemma append_all_eq: "append_all actor ks now x = x\<lparr>x_events := x_events x @ rows actor now ks\<rparr>"
  unfolding append_all_def by (induction ks arbitrary: x) (simp_all add: append_run_def rows_def)

lemma append_run_eq: "append_run actor k now x = x\<lparr>x_events := x_events x @ rows actor now [k]\<rparr>"
  by (simp add: append_run_def rows_def)

lemma projections_frame [simp]:
  "lc (x\<lparr>x_events := e\<rparr>) = lc x" "run_name (x\<lparr>x_events := e\<rparr>) = run_name x"
  "conversation_name (x\<lparr>x_events := e\<rparr>) = conversation_name x" "source_offset (x\<lparr>x_events := e\<rparr>) = source_offset x"
  "lc (x\<lparr>x_conv := c\<rparr>) = lc x" "run_name (x\<lparr>x_conv := c\<rparr>) = run_name x"
  "conversation_name (x\<lparr>x_conv := c\<rparr>) = conversation_name x" "source_offset (x\<lparr>x_conv := c\<rparr>) = source_offset x"
  "lc (x\<lparr>x_effects := f\<rparr>) = lc x" "run_name (x\<lparr>x_effects := f\<rparr>) = run_name x"
  "conversation_name (x\<lparr>x_effects := f\<rparr>) = conversation_name x" "source_offset (x\<lparr>x_effects := f\<rparr>) = source_offset x"
  "lc (x\<lparr>x_checkpoints := p\<rparr>) = lc x" "run_name (x\<lparr>x_checkpoints := p\<rparr>) = run_name x"
  "conversation_name (x\<lparr>x_checkpoints := p\<rparr>) = conversation_name x" "source_offset (x\<lparr>x_checkpoints := p\<rparr>) = source_offset x"
  by (simp_all add: lc_def run_name_def conversation_name_def source_offset_def)

lemma save_state_frame [simp]:
  "x_id (save_state s x) = x_id x" "x_run (save_state s x) = x_run x" "x_conversation (save_state s x) = x_conversation x"
  "x_conv (save_state s x) = x_conv x" "x_events (save_state s x) = x_events x" "x_effects (save_state s x) = x_effects x"
  "x_checkpoints (save_state s x) = x_checkpoints x"
  "lc (save_state s x) = lc x" "run_name (save_state s x) = run_name x" "conversation_name (save_state s x) = conversation_name x"
  "source_offset (save_state s x) = map_option (\<lambda>_. rs_offset s) (x_execution x)"
  "x_execution x = Some (p, s0) \<Longrightarrow> x_execution (save_state s x) = Some (p, s)"
  by (simp_all add: save_state_def lc_def run_name_def conversation_name_def source_offset_def option.map_comp comp_def
      case_prod_unfold)

lemma update_lifecycle_frame [simp]:
  "x_id (update_run_lifecycle l n x) = x_id x" "x_execution (update_run_lifecycle l n x) = x_execution x"
  "x_conversation (update_run_lifecycle l n x) = x_conversation x" "x_conv (update_run_lifecycle l n x) = x_conv x"
  "x_events (update_run_lifecycle l n x) = x_events x" "x_checkpoints (update_run_lifecycle l n x) = x_checkpoints x"
  "lc (update_run_lifecycle l n x) = map_option (\<lambda>_. l) (x_run x)" "run_name (update_run_lifecycle l n x) = run_name x"
  "conversation_name (update_run_lifecycle l n x) = conversation_name x"
  "source_offset (update_run_lifecycle l n x) = source_offset x"
  by (simp_all add: update_run_lifecycle_def lc_def run_name_def conversation_name_def source_offset_def set_lifecycle_def
      option.map_comp comp_def)

text \<open>Saving a state that kept its offset and appending Events that are no Harness output.\<close>

lemma evolves_quiet:
  assumes "x_id y = x_id x" and "run_name y = run_name x" and "conversation_name y = conversation_name x"
    and "rel_option (\<le>) (source_offset x) (source_offset y)" and "lc y = lc x"
    and "x_events y = x_events x @ rows actor now ks" and "list_all (\<lambda>k. \<not> harness_output k) ks" and "changes (rows actor now ks) = []"
  shows "evolves x y"
proof (rule evolvesI [where new = "rows actor now ks"])
  show "rel_option (\<lambda>l l'. lawful_path l (changes (rows actor now ks)) l' \<and>
      (is_terminal l \<longrightarrow> list_all (\<lambda>e. \<not> harness_output (re_kind e)) (rows actor now ks))) (lc x) (lc y)"
    using assms(5,7,8) by (simp add: option.rel_refl rows_def list_all_length)
qed (use assms in \<open>simp_all add: option.rel_refl\<close>)

lemma rows_simps [simp]: "rows actor now [] = []" "rows actor now (k # ks) = \<lparr>re_kind = k, re_actor = actor, re_at = now\<rparr> # rows actor now ks"
  "rows actor now (a @ b) = rows actor now a @ rows actor now b"
  by (simp_all add: rows_def)

lemma changes_rows_none:
  "list_all (\<lambda>k. case k of RunLifecycleChanged _ _ \<Rightarrow> False | _ \<Rightarrow> True) ks \<Longrightarrow> changes (rows actor now ks) = []"
  by (induction ks) (auto split: run_event.splits)

lemma settle_run_frame:
  "settle_run st now x = Inr y \<Longrightarrow> \<exists>c. y = x\<lparr>x_conv := c\<rparr>"
proof (cases st)
  case None
  moreover assume "settle_run st now x = Inr y"
  ultimately have "y = x\<lparr>x_conv := x_conv x\<rparr>" by (simp add: settle_run_def)
  then show ?thesis by blast
qed (auto simp: settle_run_def rbind_Inr_iff)

lemma record_projection_Inr:
  assumes "record_projection actor plan s run ob now x = Inr y"
  obtains l s' evs x1 where "apply_observation (rr_lifecycle run) s ob = Inr (l, s', evs)"
    and "settle_run (observation_settlement (x_id x) plan s ob) now x = Inr x1"
    and "y = save_state s' (append_all actor evs now
        (if l \<noteq> rr_lifecycle run
         then append_run actor (RunLifecycleChanged (rr_lifecycle run) l) now (update_run_lifecycle l now x1)
         else if evs \<noteq> [] then update_run_lifecycle l now x1 else x1))"
  using assms unfolding record_projection_def Let_def by (auto simp: rbind_Inr_iff)

lemma record_projection_evolves:
  assumes "record_projection actor plan s run ob now x = Inr y" and "x_execution x = Some (plan, s)" and "x_run x = Some run"
  shows "evolves x y"
proof -
  obtain l s' evs x1 where a: "apply_observation (rr_lifecycle run) s ob = Inr (l, s', evs)"
    and x1: "settle_run (observation_settlement (x_id x) plan s ob) now x = Inr x1"
    and y: "y = save_state s' (append_all actor evs now
        (if l \<noteq> rr_lifecycle run
         then append_run actor (RunLifecycleChanged (rr_lifecycle run) l) now (update_run_lifecycle l now x1)
         else if evs \<noteq> [] then update_run_lifecycle l now x1 else x1))"
    by (rule record_projection_Inr [OF assms(1)])
  obtain c where c: "x1 = x\<lparr>x_conv := c\<rparr>" using settle_run_frame [OF x1] by blast
  have p: "projected (rr_lifecycle run) s l s' evs" by (rule apply_projected [OF a])
  let ?l = "rr_lifecycle run"
  let ?new = "(if l \<noteq> ?l then rows actor now [RunLifecycleChanged ?l l] else []) @ rows actor now evs"
  have n: "list_all (\<lambda>k. case k of RunLifecycleChanged _ _ \<Rightarrow> False | _ \<Rightarrow> True) evs"
    using p by (auto simp: projected_def silent_def list_all_iff split: if_splits run_event.splits)
  have t: "is_terminal ?l \<Longrightarrow> l = ?l \<and> list_all (\<lambda>k. \<not> harness_output k) evs"
    using p may_transition_live [of ?l l]
    by (auto simp: projected_def silent_def harness_output_def list_all_iff split: if_splits run_event.splits)
  show ?thesis
  proof (rule evolvesI [where new = ?new])
    show "x_id y = x_id x" "x_events y = x_events x @ ?new"
      by (simp_all add: y c append_all_eq append_run_eq)
    show "rel_option (\<lambda>a b. replaces b a) (run_name x) (run_name y)"
        "rel_option (\<lambda>a b. replaces b a) (conversation_name x) (conversation_name y)"
      by (simp_all add: y c append_all_eq append_run_eq option.rel_refl)
    show "rel_option (\<le>) (source_offset x) (source_offset y)"
      using p assms(2) by (simp add: y c append_all_eq append_run_eq projected_def source_offset_def)
    have lx: "lc x = Some ?l" using assms(3) by (simp add: lc_def)
    have ly: "lc y = Some l" using assms(3) lx by (simp add: y c append_all_eq append_run_eq)
    have "lawful_path ?l (changes ?new) l" using p changes_rows_none [OF n] by (auto simp: projected_def)
    moreover have "is_terminal ?l \<Longrightarrow> list_all (\<lambda>e. \<not> harness_output (re_kind e)) ?new"
      using t by (simp add: rows_def list_all_length)
    ultimately show "rel_option (\<lambda>l l'. lawful_path l (changes ?new) l' \<and>
        (is_terminal l \<longrightarrow> list_all (\<lambda>e. \<not> harness_output (re_kind e)) ?new)) (lc x) (lc y)"
      by (simp add: lx ly)
  qed
qed

lemma harness_names_evolve:
  "apply_harness_conversation actor v now x = Inr y \<Longrightarrow> evolves x y"
  "apply_harness_run actor v now x = Inr y \<Longrightarrow> evolves x y"
proof -
  show "evolves x y" if h: "apply_harness_conversation actor v now x = Inr y"
  proof -
    consider "y = x" | n c where "replaces n (cw_name c)" "x_conversation x = Some c"
        "y = append_run actor (ConversationNameChanged n) now (update_conversation_name n x)"
      using h by (auto simp: apply_harness_conversation_def rbind_Inr_iff ok_or_def split: option.splits if_splits)
    then show ?thesis
    proof cases
      case (2 n c)
      show ?thesis
        by (rule evolvesI [where new = "rows actor now [ConversationNameChanged n]"])
          (use 2 in \<open>simp_all add: append_run_eq update_conversation_name_def lc_def run_name_def conversation_name_def
             source_offset_def harness_output_def option.rel_refl\<close>)
    qed simp
  qed
  show "evolves x y" if h: "apply_harness_run actor v now x = Inr y"
  proof -
    consider "y = x" | n r where "replaces n (rr_name r)" "x_run x = Some r"
        "y = append_run actor (RunNameChanged n) now (update_run_name n x)"
      using h by (auto simp: apply_harness_run_def rbind_Inr_iff ok_or_def split: option.splits if_splits)
    then show ?thesis
    proof cases
      case (2 n r)
      show ?thesis
        by (rule evolvesI [where new = "rows actor now [RunNameChanged n]"])
          (use 2 in \<open>simp_all add: append_run_eq update_run_name_def lc_def run_name_def conversation_name_def
             source_offset_def harness_output_def option.rel_refl\<close>)
    qed simp
  qed
qed

lemma manual_replaces: "manual v = Inr n \<Longrightarrow> replaces n a"
  by (cases "nm_source a") (auto simp: manual_def validated_Inr replaces_order)

lemma set_names_evolve:
  "set_conversation_name client e v now x = Inr y \<Longrightarrow> evolves x y"
  "set_run_name client e v now x = Inr y \<Longrightarrow> evolves x y"
proof -
  show "evolves x y" if h: "set_conversation_name client e v now x = Inr y"
  proof -
    obtain n c where "manual v = Inr n" "x_conversation x = Some c"
        "y = append_run (InteractiveClient client) (ConversationNameChanged n) now (update_conversation_name n x)"
      using h by (auto simp: set_conversation_name_def rbind_Inr_iff ok_or_def split: option.splits if_splits)
    then show ?thesis
      by (intro evolvesI [where new = "rows (InteractiveClient client) now [ConversationNameChanged n]"])
        (simp_all add: append_run_eq update_conversation_name_def lc_def run_name_def conversation_name_def
             source_offset_def harness_output_def option.rel_refl manual_replaces)
  qed
  show "evolves x y" if h: "set_run_name client e v now x = Inr y"
  proof -
    obtain n r where "manual v = Inr n" "x_run x = Some r"
        "y = append_run (InteractiveClient client) (RunNameChanged n) now (update_run_name n x)"
      using h by (auto simp: set_run_name_def rbind_Inr_iff ok_or_def split: option.splits if_splits)
    then show ?thesis
      by (intro evolvesI [where new = "rows (InteractiveClient client) now [RunNameChanged n]"])
        (simp_all add: append_run_eq update_run_name_def lc_def run_name_def conversation_name_def
             source_offset_def harness_output_def option.rel_refl manual_replaces)
  qed
qed

lemma save_evolves:
  assumes "x_execution x = Some (plan, s)" and "rs_offset s' = rs_offset s"
  shows "evolves x (save_state s' x)"
  by (rule evolves_quiet [where ks = "[]"]) (use assms in \<open>simp_all add: source_offset_def\<close>)

lemma record_observation_evolves:
  assumes "record_observation ob now x = Inr y"
  shows "evolves x y"
proof -
  obtain plan s run where xs: "x_execution x = Some (plan, s)" "x_run x = Some run"
    using assms by (auto simp: record_observation_def rbind_Inr_iff ok_or_def split: option.splits)
  note open_record = record_observation_def xs rbind_simps ok_or_simps Let_def
  show ?thesis
  proof (cases ob)
    case (Model m)
    then have "y = save_state (s\<lparr>rs_model := Some m\<rparr>) x"
      using assms by (simp add: open_record is_title_def split: if_splits)
    then show ?thesis using save_evolves [OF xs(1)] by simp
  qed (use assms record_projection_evolves [OF _ xs] harness_names_evolve in
      \<open>simp_all add: open_record split: if_splits\<close>)
qed

lemma record_evidence_evolves:
  assumes "record_evidence ev w now x = Inr y"
  shows "evolves x y"
proof -
  consider "y = x" | plan s tk' n where "x_execution x = Some (plan, s)"
      "y = save_state (s\<lparr>rs_changes := Some tk'\<rparr>)
         (append_run (RunSupervisor (x_id x) (lp_client plan)) (ChangeEvidenceRecorded n ev) now x)"
    using assms by (auto simp: record_evidence_def rbind_Inr_iff ok_or_def split: option.splits if_splits)
  then show ?thesis
  proof cases
    case (2 plan s tk' n)
    show ?thesis
      by (rule evolves_quiet [where actor = "RunSupervisor (x_id x) (lp_client plan)" and now = now and ks = "[ChangeEvidenceRecorded n ev]"])
        (use 2 in \<open>simp_all add: append_run_eq source_offset_def harness_output_def\<close>)
  qed simp
qed

lemma capture_turn_evolves:
  assumes "capture_turn git plan s tk sn terminal out now x = Inr y" and "x_execution x = Some (plan, s)"
  shows "evolves x y"
proof -
  obtain tk' cp n art where y: "y = save_state (s\<lparr>rs_changes := Some tk'\<rparr>)
       (append_run (RunSupervisor (x_id x) (lp_client plan)) (ChangeCheckpointRecorded n out art) now
         (x\<lparr>x_checkpoints := x_checkpoints x @ [cp]\<rparr>))"
    using assms(1)
    by (auto simp: capture_turn_def rbind_Inr_iff Let_def insert_change_checkpoint_def split: if_splits)
  show ?thesis
    by (rule evolves_quiet [where actor = "RunSupervisor (x_id x) (lp_client plan)" and now = now and ks = "[ChangeCheckpointRecorded n out art]"])
      (use assms(2) in \<open>simp_all add: y append_run_eq source_offset_def harness_output_def\<close>)
qed

lemma observe_changes_evolves:
  assumes "observe_changes git ob now x = Inr y"
  shows "evolves x y"
proof -
  have e: "evolves x y" if "end_turn git t out now x = Inr y" for t out
    using that capture_turn_evolves save_evolves
    by (fastforce simp: end_turn_def rbind_Inr_iff ok_or_def split: option.splits if_splits)
  have s: "evolves x y" if "start_turn git x = Inr y"
    using that save_evolves by (fastforce simp: start_turn_def rbind_Inr_iff ok_or_def split: option.splits if_splits)
  show ?thesis
    using assms record_evidence_evolves e s
    by (cases ob) (auto simp: observe_changes_def turn_boundary_def split: if_splits)
qed

lemma observe_run_evolves: "observe_run git ob now x = Inr y \<Longrightarrow> evolves x y"
  unfolding observe_run_def rbind_Inr_iff
  using observe_changes_evolves record_observation_evolves evolves_trans by blast

lemma observe_all_evolves: "observe_all obs now x = Inr y \<Longrightarrow> evolves x y"
proof (induction obs now x rule: observe_all.induct)
  case (2 ob git obs now x)
  then obtain z where "observe_run git ob now x = Inr z" "observe_all obs now z = Inr y" by (auto simp: rbind_Inr_iff)
  then show ?case using 2(1) observe_run_evolves evolves_trans by blast
qed simp

lemma commit_run_source_Inr:
  assumes "commit_run_source digest obs boundary now x = Inr y"
  obtains x1 x2 plan s p where "observe_all obs now x = Inr x1"
    and "x2 = x1 \<or> (\<exists>ob. record_observation ob now x1 = Inr x2)"
    and "x_execution x2 = Some (plan, s)" and "y = save_state (s\<lparr>rs_partial := p\<rparr>) x2"
proof -
  obtain x1 x2 plan s p where o: "observe_all obs now x = Inr x1"
    and r: "(case boundary of PendingBoundary \<Rightarrow> Inr x1
        | CompleteBoundary offset checkpoint \<Rightarrow> record_observation (Progress offset checkpoint) now x1) = Inr x2"
    and p: "x_execution x2 = Some (plan, s)" "y = save_state (s\<lparr>rs_partial := p\<rparr>) x2"
    using assms unfolding commit_run_source_def rbind_Inr_iff ok_or_def by (auto simp: rbind_Inr_iff split: option.splits if_splits)
  show thesis by (rule that [OF o _ p]) (use r in \<open>cases boundary; auto\<close>)
qed

lemma commit_run_source_evolves:
  assumes "commit_run_source digest obs boundary now x = Inr y"
  shows "evolves x y"
proof (rule commit_run_source_Inr [OF assms])
  fix x1 x2 plan s p
  assume o: "observe_all obs now x = Inr x1" and x2: "x2 = x1 \<or> (\<exists>ob. record_observation ob now x1 = Inr x2)"
    and e: "x_execution x2 = Some (plan, s)" "y = save_state (s\<lparr>rs_partial := p\<rparr>) x2"
  have "evolves x1 x2" using x2 record_observation_evolves by auto
  moreover have "evolves x2 y" using save_evolves [OF e(1)] e(2) by simp
  ultimately show ?thesis using observe_all_evolves [OF o] evolves_trans by blast
qed

lemma lifecycle_change_evolves:
  assumes "x_run x = Some r" and "may_transition (rr_lifecycle r) l" and "x_events x' = x_events x @ rows actor now ks"
    and "x_id x' = x_id x" and "x_run x' = x_run x" and "x_conversation x' = x_conversation x"
    and "source_offset x' = source_offset x" and "changes (rows actor now ks) = []"
  shows "evolves x (append_run actor (RunLifecycleChanged (rr_lifecycle r) l) now (update_run_lifecycle l now x'))"
proof -
  let ?y = "append_run actor (RunLifecycleChanged (rr_lifecycle r) l) now (update_run_lifecycle l now x')"
  have n: "run_name x' = run_name x" "conversation_name x' = conversation_name x"
    using assms(5,6) by (simp_all add: run_name_def conversation_name_def)
  have "lc x = Some (rr_lifecycle r)" "lc ?y = Some l" using assms(1,5) by (simp_all add: lc_def append_run_eq update_run_lifecycle_def set_lifecycle_def)
  then show ?thesis
    by (intro evolvesI [where new = "rows actor now (ks @ [RunLifecycleChanged (rr_lifecycle r) l])"])
      (use assms n may_transition_live [OF assms(2)] in \<open>simp_all add: append_run_eq option.rel_refl\<close>)
qed

lemma transition_run_evolves:
  assumes "transition_run client e l now x = Inr y"
  shows "evolves x y"
proof -
  obtain r where "x_run x = Some r" "may_transition (rr_lifecycle r) l"
      "y = append_run (InteractiveClient client) (RunLifecycleChanged (rr_lifecycle r) l) now (update_run_lifecycle l now x)"
    using assms by (auto simp: transition_run_def rbind_Inr_iff ok_or_def split: option.splits if_splits)
  then show ?thesis using lifecycle_change_evolves [of x r l x "InteractiveClient client" now "[]"] by simp
qed

text \<open>What an accepted control request leaves behind.\<close>

lemma record_control_Inr:
  assumes "record_control client command control now x = Inr y"
  obtains run plan s x1 where "x_run x = Some run" and "x_execution x = Some (plan, s)" and "executing (rr_lifecycle run)"
    and "x1 = x \<and> map_option cr_control (rs_control s) = Some control \<or>
         (\<exists>a. x1 = save_state (s\<lparr>rs_control := Some \<lparr>cr_control = control, cr_correlation = a\<rparr>, rs_termination := None\<rparr>) x)"
    and "y = (append_control client run control now x1)\<lparr>x_effects := x_effects (append_control client run control now x1) @ [command]\<rparr>"
proof -
  obtain run plan s where r: "x_run x = Some run" and e: "x_execution x = Some (plan, s)"
    using assms by (auto simp: record_control_def rbind_Inr_iff ok_or_def split: option.splits)
  have live: "executing (rr_lifecycle run)"
    using assms by (cases "rr_lifecycle run") (auto simp: record_control_def r e executing_def)
  define a where "a = active_turn (x_id x) (queue_of (x_conv x))"
  define x1 where "x1 = (if map_option cr_control (rs_control s) \<noteq> Some control
      then save_state (s\<lparr>rs_control := Some \<lparr>cr_control = control, cr_correlation = a\<rparr>, rs_termination := None\<rparr>) x else x)"
  have y: "y = (append_control client run control now x1)\<lparr>x_effects := x_effects (append_control client run control now x1) @ [command]\<rparr>"
    using assms unfolding record_control_def r e ok_or_simps rbind_simps x1_def a_def
    by (auto simp: rbind_Inr_iff Let_def split: if_splits)
  show thesis by (rule that [OF r e live _ y]) (auto simp: x1_def)
qed

lemma record_control_evolves:
  assumes "record_control client command control now x = Inr y"
  shows "evolves x y"
proof -
  obtain run plan s x1 where r: "x_run x = Some run" and e: "x_execution x = Some (plan, s)" and l: "executing (rr_lifecycle run)"
    and x1: "x1 = x \<and> map_option cr_control (rs_control s) = Some control \<or>
         (\<exists>a. x1 = save_state (s\<lparr>rs_control := Some \<lparr>cr_control = control, cr_correlation = a\<rparr>, rs_termination := None\<rparr>) x)"
    and y: "y = (append_control client run control now x1)\<lparr>x_effects := x_effects (append_control client run control now x1) @ [command]\<rparr>"
    by (rule record_control_Inr [OF assms])
  have f: "x_id x1 = x_id x" "x_run x1 = x_run x" "x_conversation x1 = x_conversation x" "source_offset x1 = source_offset x"
      "x_events x1 = x_events x" "conversation_name x1 = conversation_name x" "run_name x1 = run_name x" "lc x1 = lc x"
    using x1 e by (auto simp: source_offset_def)
  have eff: "evolves x (z\<lparr>x_effects := w\<rparr>) = evolves x z" for z w by (simp add: evolves_def)
  let ?a = "InteractiveClient client"
  show ?thesis
  proof (cases "control = StopRun \<and> rr_lifecycle run = L_Active")
    case True
    have "evolves x (append_run ?a (RunLifecycleChanged (rr_lifecycle run) L_Stopping) now
        (update_run_lifecycle L_Stopping now (append_run ?a (RunControlRequested control) now x1)))"
      by (rule lifecycle_change_evolves [where ks = "[RunControlRequested control]"])
        (use r f True in \<open>simp_all add: append_run_eq may_transition_def\<close>)
    then show ?thesis using True by (simp add: y eff append_control_def Let_def)
  next
    case False
    have "evolves x (append_run ?a (RunControlRequested control) now x1)"
      by (rule evolves_quiet [where actor = ?a and now = now and ks = "[RunControlRequested control]"])
        (use f in \<open>simp_all add: append_run_eq harness_output_def option.rel_refl\<close>)
    then show ?thesis using False by (auto simp: y eff append_control_def Let_def)
  qed
qed

lemma settle_control_evolves:
  assumes "settle_control t now x = Inr y"
  shows "evolves x y"
proof -
  consider "y = x" | plan s where "x_execution x = Some (plan, s)"
      "y = append_run (RunSupervisor (x_id x) (lp_client plan)) (RunTerminated t) now
         (save_state (s\<lparr>rs_control := None, rs_termination := Some t\<rparr>) x)"
    using assms by (auto simp: settle_control_def rbind_Inr_iff ok_or_def split: option.splits if_splits)
  then show ?thesis
  proof cases
    case (2 plan s)
    show ?thesis
      by (rule evolves_quiet [where actor = "RunSupervisor (x_id x) (lp_client plan)" and now = now and ks = "[RunTerminated t]"])
        (use 2 in \<open>simp_all add: append_run_eq source_offset_def harness_output_def\<close>)
  qed simp
qed

lemma saving_operations_evolve:
  "abandon_control x = Inr y \<Longrightarrow> evolves x y"
  "begin_run_changes git x = Inr y \<Longrightarrow> evolves x y"
  by (auto simp: abandon_control_def begin_run_changes_def rbind_Inr_iff ok_or_def split: option.splits if_splits intro: save_evolves)

section \<open>Histories of a Run\<close>

datatype run_op =
    ObserveRun git_answers observation int
  | CommitSource "(observation \<times> git_answers) list" source_boundary int
  | TransitionRun uuid nat run_lifecycle int
  | ControlRun uuid uuid run_control int
  | SettleControl run_termination int
  | AbandonControl
  | NameConversation uuid nat ustring int
  | NameRun uuid nat ustring int
  | RecordEvidence change_evidence window int
  | BeginChanges git_answers

fun perform :: "(string \<Rightarrow> observation \<Rightarrow> string) \<Rightarrow> run_op \<Rightarrow> 'r exec \<Rightarrow> core_error + 'r exec" where
  "perform d (ObserveRun git ob now) x = observe_run git ob now x"
| "perform d (CommitSource obs b now) x = commit_run_source d obs b now x"
| "perform d (TransitionRun c e l now) x = transition_run c e l now x"
| "perform d (ControlRun c cmd k now) x = record_control c cmd k now x"
| "perform d (SettleControl t now) x = settle_control t now x"
| "perform d AbandonControl x = abandon_control x"
| "perform d (NameConversation c e v now) x = set_conversation_name c e v now x"
| "perform d (NameRun c e v now) x = set_run_name c e v now x"
| "perform d (RecordEvidence ev w now) x = record_evidence ev w now x"
| "perform d (BeginChanges git) x = begin_run_changes git x"

definition run_step :: "(string \<Rightarrow> observation \<Rightarrow> string) \<Rightarrow> 'r exec \<Rightarrow> run_op \<Rightarrow> 'r exec" where
  "run_step d x a = commit_or x (perform d a x)"

definition run_history :: "(string \<Rightarrow> observation \<Rightarrow> string) \<Rightarrow> 'r exec \<Rightarrow> run_op list \<Rightarrow> 'r exec" where
  "run_history d x ops = foldl (run_step d) x ops"

lemma perform_evolves: "perform d a x = Inr y \<Longrightarrow> evolves x y"
  by (cases a) (auto intro: observe_run_evolves commit_run_source_evolves transition_run_evolves record_control_evolves
      settle_control_evolves saving_operations_evolve set_names_evolve record_evidence_evolves)

interpretation run_evolution: machine "run_step d" "evolves x" for d x
  by unfold_locales (auto simp: run_step_def intro: commit_or_inv evolves_trans perform_evolves)

lemma run_history_evolves: "evolves x (run_history d x ops)"
  unfolding run_history_def by (rule run_evolution.run_inv) simp

text \<open>
  C7: The lifecycle a managed Run shows is the one of the written progression. Whatever the Harness
  reports, clients ask and the supervisor settles, in any order, the recorded lifecycle changes lead from the
  state a Run was in to the state it is in by allowed transitions only, no change is
  missing from the journal, and none of it can skip a live state or leave a terminal one.
\<close>
theorem run_lifecycle_lawful:
  assumes "lc x = Some l"
  shows "\<exists>l' new. lc (run_history d x ops) = Some l' \<and> x_events (run_history d x ops) = x_events x @ new \<and>
    lawful_path l (changes new) l' \<and> list_all (\<lambda>(f, t). \<not> is_terminal f) (changes new)"
proof -
  obtain new where e: "x_events (run_history d x ops) = x_events x @ new"
    and r: "rel_option (\<lambda>l l'. lawful_path l (changes new) l' \<and>
        (is_terminal l \<longrightarrow> list_all (\<lambda>e. \<not> harness_output (re_kind e)) new)) (lc x) (lc (run_history d x ops))"
    using run_history_evolves [of x d ops] unfolding evolves_def by blast
  from r assms obtain l' where l: "lc (run_history d x ops) = Some l'" "lawful_path l (changes new) l'"
    by (cases "lc (run_history d x ops)") auto
  have "lawful_path l cs l' \<Longrightarrow> list_all (\<lambda>(f, t). \<not> is_terminal f) cs" for cs
    by (induction l cs l' rule: lawful_path.induct) (auto dest: may_transition_live)
  with e l show ?thesis by blast
qed

text \<open>
  What has ended stays ended: once a Run is in a terminal state it keeps exactly that state, and
  nothing that arrives afterwards is journalled as output, native identity or approval request of its Harness.
\<close>
lemma ended_run_stays_ended:
  assumes "lc x = Some l" and "is_terminal l"
  shows "lc (run_history d x ops) = Some l \<and>
    (\<exists>new. x_events (run_history d x ops) = x_events x @ new \<and> changes new = [] \<and>
       list_all (\<lambda>e. \<not> harness_output (re_kind e)) new)"
proof -
  obtain new where e: "x_events (run_history d x ops) = x_events x @ new"
    and r: "rel_option (\<lambda>l l'. lawful_path l (changes new) l' \<and>
        (is_terminal l \<longrightarrow> list_all (\<lambda>e. \<not> harness_output (re_kind e)) new)) (lc x) (lc (run_history d x ops))"
    using run_history_evolves [of x d ops] unfolding evolves_def by blast
  from r assms obtain l' where "lc (run_history d x ops) = Some l'" "lawful_path l (changes new) l'"
      "list_all (\<lambda>e. \<not> harness_output (re_kind e)) new"
    by (cases "lc (run_history d x ops)") auto
  then show ?thesis using e lawful_path_terminal [OF _ assms(2)] by blast
qed

text \<open>A title of the Harness leaves a name a person chose as it is.\<close>

lemma manual_name_ignores_titles:
  assumes "map_option nm_source (run_name x) = Some Manual" and "record_observation (RunTitle t) now x = Inr y"
  shows "y = x"
proof -
  obtain plan s r where "x_execution x = Some (plan, s)" and r: "x_run x = Some r"
      and h: "apply_harness_run (observation_actor (x_id x) (lp_client plan) (RunTitle t)) t now x = Inr y"
    using assms(2) by (auto simp: record_observation_def rbind_Inr_iff ok_or_def Let_def split: option.splits if_splits)
  then show ?thesis
    using assms(1)
    by (auto simp: apply_harness_run_def rbind_Inr_iff harness_native_def validated_Inr replaces_def run_name_def split: if_splits)
qed

text \<open>
  The authority of a name never falls: over any history neither a Run nor its Conversation changes
  to a name of a weaker source (so a name a person chose is only ever replaced by one a person
  chose), and the offset up to which the source is acknowledged never moves back.
\<close>
lemma name_authority_never_falls:
  "rel_option (\<lambda>a b. precedence (nm_source a) \<le> precedence (nm_source b)) (run_name x) (run_name (run_history d x ops)) \<and>
   rel_option (\<lambda>a b. precedence (nm_source a) \<le> precedence (nm_source b))
     (conversation_name x) (conversation_name (run_history d x ops)) \<and>
   rel_option (\<le>) (source_offset x) (source_offset (run_history d x ops))"
  using run_history_evolves [of x d ops] unfolding evolves_def replaces_order by blast

section \<open>The end of a Run releases the Turn queue\<close>

lemma claimed_only_first:
  assumes "turns_inv c" and "q_entries (queue_of c) = a @ e # b" and "t_run (e_turn e) \<noteq> None"
  shows "a = [] \<and> list_all (\<lambda>e. t_run (e_turn e) = None) b"
proof -
  have inv: "entries_inv (a @ e # b)" using assms(1,2) by (simp add: turns_inv_def)
  then have ok: "list_all entry_ok (a @ e # b)" and srt: "sorted_wrt before (a @ e # b)" by (simp_all add: entries_inv_def)
  have "\<not> is_queued e" using ok assms(3) by (auto simp: entry_ok_def is_queued_def)
  then have "a = []" by (rule claimed_is_first [OF srt])
  moreover have "t_run (e_turn f) = None" if "f \<in> set b" for f
  proof -
    have "is_queued f" using srt that by (auto simp: sorted_wrt_append before_def)
    then show ?thesis using ok that by (auto simp: list_all_iff entry_ok_def is_queued_def)
  qed
  ultimately show ?thesis by (simp add: list_all_iff)
qed

lemma find_index_None: "find_index P xs = None \<Longrightarrow> list_all (\<lambda>x. \<not> P x) xs"
proof -
  assume "find_index P xs = None"
  then have "length (takeWhile (\<lambda>x. \<not> P x) xs) = length xs"
    using length_takeWhile_le [of "\<lambda>x. \<not> P x" xs] by (auto simp: find_index_def Let_def split: if_splits)
  then have "takeWhile (\<lambda>x. \<not> P x) xs = xs" by (metis append_Nil2 length_0_conv append_eq_conv_conj take_all_iff
        takeWhile_eq_take order_refl)
  then show ?thesis by (metis list_all_iff takeWhile_eq_all_conv)
qed

lemma settle_failed_releases:
  assumes "turns_inv c" and "settle run SettleFailed now c = Inr c'"
  shows "list_all (\<lambda>e. t_run (e_turn e) \<noteq> Some run) (q_entries (queue_of c'))"
proof (cases "find_index (\<lambda>e. t_run (e_turn e) = Some run) (q_entries (queue_of c))")
  case None
  then have "c' = c" using assms(2) by (auto simp: settle_def rbind_Inr_iff)
  then show ?thesis using find_index_None [OF None] by simp
next
  case (Some i)
  from find_index_Some [OF this] obtain a x b where
    x: "q_entries (queue_of c) = a @ x # b" "t_run (e_turn x) = Some run" "q_entries (queue_of c) ! i = x"
      "remove_at i (q_entries (queue_of c)) = a @ b"
    by metis
  have rest: "a = []" "list_all (\<lambda>e. t_run (e_turn e) = None) b"
    using claimed_only_first [OF assms(1) x(1)] x(2) by auto
  have "entry_ok x" using assms(1) x(1) by (simp add: turns_inv_def entries_inv_def)
  then have "t_state (e_turn x) \<noteq> Failed" using x(2) by (auto simp: entry_ok_def)
  then have "queue_of c' = (queue_of c)\<lparr>q_entries := a @ b\<rparr>"
    using assms(2) Some x(3,4) by (auto simp: settle_def rbind_Inr_iff Let_def)
  then show ?thesis using rest by (auto simp: list_all_iff)
qed

lemma record_projection_conv:
  assumes "record_projection actor plan s run ob now x = Inr y"
  shows "\<exists>x1. settle_run (observation_settlement (x_id x) plan s ob) now x = Inr x1 \<and> x_conv y = x_conv x1"
  by (rule record_projection_Inr [OF assms]) (auto simp: append_all_eq append_run_eq)

text \<open>What the change tracking does at a turn boundary.\<close>

lemma capture_turn_Inr:
  assumes "capture_turn git plan s tk sn terminal out now x = Inr y"
  obtains tk' cp art where "cc_turn cp = tk_completed tk + 1" and "cc_evidence cp = tk_evidence tk"
    and "cc_before_evidence cp = tk_between tk" and "cc_turn cp \<noteq> 0"
    and "tk_completed tk' = tk_completed tk + 1" and "tk_evidence tk' = []" and "tk_between tk' = []" and "tk_active tk' = None"
    and "y = save_state (s\<lparr>rs_changes := Some tk'\<rparr>)
       (append_run (RunSupervisor (x_id x) (lp_client plan)) (ChangeCheckpointRecorded (tk_completed tk + 1) out art) now
         (x\<lparr>x_checkpoints := x_checkpoints x @ [cp]\<rparr>))"
proof -
  obtain after files art where h: "rbind (insert_change_checkpoint \<lparr>cc_before_evidence = tk_between tk,
        cc_before_incomplete = tk_between_incomplete tk, cc_evidence = tk_evidence tk, cc_incomplete = tk_incomplete tk,
        cc_turn = tk_completed tk + 1, cc_outcome = out, cc_before = sn, cc_after = after, cc_files = files, cc_artifact = art\<rparr> x)
      (\<lambda>x1. Inr (save_state (s\<lparr>rs_changes := Some (tk\<lparr>tk_active := None,
              tk_terminal := (if terminal then Some after else tk_terminal tk), tk_completed := tk_completed tk + 1, tk_between := [],
              tk_between_incomplete := False, tk_evidence := [], tk_incomplete := False\<rparr>)\<rparr>)
            (append_run (RunSupervisor (x_id x) (lp_client plan)) (ChangeCheckpointRecorded (tk_completed tk + 1) out art) now x1))) = Inr y"
    using assms unfolding capture_turn_def Let_def rbind_Inr_iff by blast
  show thesis
    by (rule that [of "\<lparr>cc_before_evidence = tk_between tk, cc_before_incomplete = tk_between_incomplete tk,
          cc_evidence = tk_evidence tk, cc_incomplete = tk_incomplete tk, cc_turn = tk_completed tk + 1, cc_outcome = out,
          cc_before = sn, cc_after = after, cc_files = files, cc_artifact = art\<rparr>"
          "tk\<lparr>tk_active := None, tk_terminal := (if terminal then Some after else tk_terminal tk),
            tk_completed := tk_completed tk + 1, tk_between := [], tk_between_incomplete := False, tk_evidence := [],
            tk_incomplete := False\<rparr>" art])
      (use h in \<open>auto simp: insert_change_checkpoint_def split: if_splits\<close>)
qed

lemma end_turn_cases:
  assumes "end_turn git terminal out now x = Inr y"
  obtains (same) "y = x"
  | (terminal) plan s tk sn where "x_execution x = Some (plan, s)" and "rs_changes s = Some tk"
      and "y = save_state (s\<lparr>rs_changes := Some (tk\<lparr>tk_terminal := Some sn\<rparr>)\<rparr>) x"
  | (captured) plan s tk sn where "x_execution x = Some (plan, s)" and "rs_changes s = Some tk"
      and "capture_turn git plan s tk sn terminal out now x = Inr y"
proof -
  obtain plan s where e: "x_execution x = Some (plan, s)"
    using assms by (auto simp: end_turn_def rbind_Inr_iff ok_or_def split: option.splits)
  show thesis
  proof (cases "rs_changes s")
    case None
    then show thesis using assms same e by (simp add: end_turn_def)
  next
    case (Some tk)
    show thesis
    proof (cases "tk_active tk")
      case None
      then show thesis
        using assms same terminal [OF e Some] e Some by (auto simp: end_turn_def rbind_Inr_iff split: if_splits)
    next
      case (Some sn)
      then show thesis using assms captured e \<open>rs_changes s = Some tk\<close> by (simp add: end_turn_def)
    qed
  qed
qed

lemma start_turn_cases:
  assumes "start_turn git x = Inr y"
  obtains (same) "y = x"
  | (begun) plan s tk sn where "x_execution x = Some (plan, s)" and "rs_changes s = Some tk"
      and "y = save_state (s\<lparr>rs_changes := Some (tk\<lparr>tk_active := Some sn\<rparr>)\<rparr>) x"
  using assms by (auto simp: start_turn_def rbind_Inr_iff ok_or_def split: option.splits if_splits)

lemma record_evidence_cases:
  assumes "record_evidence ev w now x = Inr y"
  obtains (same) "y = x"
  | (written) plan s tk tk' t where "x_execution x = Some (plan, s)" and "rs_changes s = Some tk"
      and "record_receipt ev w t tk = Inr (tk', True)"
      and "y = save_state (s\<lparr>rs_changes := Some tk'\<rparr>) (append_run (RunSupervisor (x_id x) (lp_client plan))
             (ChangeEvidenceRecorded (tk_completed tk + 1) ev) now x)"
  using assms by (auto simp: record_evidence_def rbind_Inr_iff ok_or_def split: option.splits if_splits)

lemma observe_changes_cases:
  assumes "observe_changes git ob now x = Inr y"
  obtains "y = x" | ev where "record_evidence ev ActiveTurn now x = Inr y" | "start_turn git x = Inr y"
  | t out where "end_turn git t out now x = Inr y"
  using assms by (cases ob) (auto simp: observe_changes_def turn_boundary_def split: if_splits)

lemma capture_turn_conv: "capture_turn git plan s tk sn terminal out now x = Inr y \<Longrightarrow> x_conv y = x_conv x \<and> x_id y = x_id x"
  by (erule capture_turn_Inr) (simp add: append_run_eq)

lemma observe_changes_conv:
  assumes "observe_changes git ob now x = Inr y"
  shows "x_conv y = x_conv x \<and> x_id y = x_id x"
  using assms
proof (cases rule: observe_changes_cases)
  case (2 ev)
  then show ?thesis by (cases rule: record_evidence_cases) (simp_all add: append_run_eq)
next
  case 3
  then show ?thesis by (cases rule: start_turn_cases) simp_all
next
  case (4 t out)
  then show ?thesis by (cases rule: end_turn_cases) (simp_all add: capture_turn_conv)
qed simp

text \<open>
  C27: The end of a Run lets the Conversation go on: when the end, the loss or the failed launch of a Run is recorded on
  a well-formed queue, its settlement commits in the same transaction, the queue stays well
  formed, and no input remains claimed by that Run.
\<close>
theorem run_end_releases_queue:
  assumes "turns_inv (x_conv x)" and "ends_run ob" and "observe_run git ob now x = Inr y"
  shows "turns_inv (x_conv y) \<and> list_all (\<lambda>e. t_run (e_turn e) \<noteq> Some (x_id x)) (q_entries (queue_of (x_conv y)))"
proof -
  obtain z where z: "observe_changes git ob now x = Inr z" and r: "record_observation ob now z = Inr y"
    using assms(3) by (auto simp: observe_run_def rbind_Inr_iff)
  note keep = observe_changes_conv [OF z]
  obtain plan s run actor where p: "record_projection actor plan s run ob now z = Inr y"
    using r assms(2)
    by (cases ob) (auto simp: record_observation_def rbind_Inr_iff Let_def ends_run_def ok_or_def split: option.splits if_splits)
  have "observation_settlement (x_id z) plan s ob = Some SettleFailed"
    using assms(2) by (cases ob) (simp_all add: ends_run_def observation_settlement_def)
  then obtain c where c: "settle (x_id x) SettleFailed now (x_conv x) = Inr c" "x_conv y = c"
    using record_projection_conv [OF p] keep by (auto simp: settle_run_def rbind_Inr_iff)
  then show ?thesis
    using settle_inv [OF assms(1) c(1)] settle_failed_releases [OF assms(1) c(1)] by simp
qed

section \<open>Checkpoints are numbered without a gap\<close>

definition tracked :: "'r exec \<Rightarrow> tracking option" where
  "tracked x = (case x_execution x of None \<Rightarrow> None | Some (plan, s) \<Rightarrow> rs_changes s)"

definition guard_of :: "'r exec \<Rightarrow> guard option" where
  "guard_of x = map_option (rs_review \<circ> snd) (x_execution x)"

lemma accessors_frame [simp]:
  "tracked (x\<lparr>x_events := e\<rparr>) = tracked x" "tracked (x\<lparr>x_conv := c\<rparr>) = tracked x"
  "tracked (x\<lparr>x_effects := f\<rparr>) = tracked x" "tracked (x\<lparr>x_checkpoints := p\<rparr>) = tracked x"
  "tracked (update_run_lifecycle l n x) = tracked x"
  "guard_of (x\<lparr>x_events := e\<rparr>) = guard_of x" "guard_of (x\<lparr>x_conv := c\<rparr>) = guard_of x"
  "guard_of (x\<lparr>x_effects := f\<rparr>) = guard_of x" "guard_of (x\<lparr>x_checkpoints := p\<rparr>) = guard_of x"
  "guard_of (update_run_lifecycle l n x) = guard_of x"
  by (simp_all add: tracked_def guard_of_def)

lemma tracked_save: "x_execution x = Some (plan, s) \<Longrightarrow> tracked (save_state s' x) = rs_changes s'"
  by (simp add: tracked_def)

lemma guard_save: "x_execution x = Some (plan, s) \<Longrightarrow> guard_of (save_state s' x) = Some (rs_review s')"
  by (simp add: guard_of_def)

lemma record_observation_keeps:
  assumes "record_observation ob now x = Inr y"
  shows "tracked y = tracked x \<and> guard_of y = guard_of x \<and> x_checkpoints y = x_checkpoints x"
proof -
  obtain plan s run where xs: "x_execution x = Some (plan, s)" "x_run x = Some run"
    using assms by (auto simp: record_observation_def rbind_Inr_iff ok_or_def split: option.splits)
  have proj: ?thesis if h: "record_projection actor plan s run ob now x = Inr y" for actor
  proof (rule record_projection_Inr [OF h])
    fix l s' evs x1
    assume a: "apply_observation (rr_lifecycle run) s ob = Inr (l, s', evs)"
      and x1: "settle_run (observation_settlement (x_id x) plan s ob) now x = Inr x1"
      and y: "y = save_state s' (append_all actor evs now
        (if l \<noteq> rr_lifecycle run
         then append_run actor (RunLifecycleChanged (rr_lifecycle run) l) now (update_run_lifecycle l now x1)
         else if evs \<noteq> [] then update_run_lifecycle l now x1 else x1))"
    obtain c where c: "x1 = x\<lparr>x_conv := c\<rparr>" using settle_run_frame [OF x1] by blast
    have "rs_changes s' = rs_changes s" "rs_review s' = rs_review s" using apply_projected [OF a] by (simp_all add: projected_def)
    then show ?thesis using xs by (simp add: y c append_all_eq append_run_eq tracked_def guard_of_def save_state_def)
  qed
  have names: "apply_harness_conversation actor v now x = Inr y \<Longrightarrow> ?thesis" "apply_harness_run actor v now x = Inr y \<Longrightarrow> ?thesis" for actor v
    by (auto simp: apply_harness_conversation_def apply_harness_run_def rbind_Inr_iff append_run_eq update_conversation_name_def
        update_run_name_def tracked_def guard_of_def split: if_splits)
  note open_record = record_observation_def xs rbind_simps ok_or_simps Let_def
  show ?thesis
  proof (cases ob)
    case (Model m)
    then show ?thesis
      using assms xs(1) by (auto simp: open_record is_title_def tracked_def guard_of_def save_state_def split: if_splits)
  next
    case (ConversationTitle t)
    then show ?thesis using assms by (simp add: open_record names(1) split: if_splits)
  next
    case (RunTitle t)
    then show ?thesis using assms by (simp add: open_record names(2) split: if_splits)
  qed (use assms proj in \<open>simp_all add: open_record split: if_splits\<close>)
qed

lemma u32_succ: "(a :: u32) + 1 \<noteq> 0 \<Longrightarrow> unat (a + 1) = Suc (unat a)"
  using unatSuc [of a] by (simp add: add.commute)

definition checkpoints_inv :: "'r exec \<Rightarrow> bool" where
  "checkpoints_inv x \<longleftrightarrow>
     list_all (\<lambda>cp. receipts_inv (cc_evidence cp) \<and> receipts_inv (cc_before_evidence cp)) (x_checkpoints x) \<and>
     (case tracked x of
        None \<Rightarrow> x_checkpoints x = []
      | Some tk \<Rightarrow> tracking_inv tk \<and> map (unat \<circ> cc_turn) (x_checkpoints x) = [1..<unat (tk_completed tk) + 1])"

lemma receipts_inv_Nil [simp]: "receipts_inv []"
  by (simp add: receipts_inv_def)

lemma record_receipt_completed: "record_receipt ev w t tk = Inr (tk', b) \<Longrightarrow> tk_completed tk' = tk_completed tk"
  by (auto simp: record_receipt_def split: if_splits prod.splits)

lemma checkpoints_inv_tracked:
  "checkpoints_inv x \<Longrightarrow> x_execution x = Some (plan, s) \<Longrightarrow> rs_changes s = Some tk \<Longrightarrow>
   tracking_inv tk \<and> map (unat \<circ> cc_turn) (x_checkpoints x) = [1..<unat (tk_completed tk) + 1]"
  by (simp add: checkpoints_inv_def tracked_def)

lemma checkpoints_inv_save:
  assumes "checkpoints_inv x" and "x_execution x = Some (plan, s)" and "rs_changes s = Some tk"
    and "tracking_inv tk'" and "tk_completed tk' = tk_completed tk"
  shows "checkpoints_inv (save_state (s\<lparr>rs_changes := Some tk'\<rparr>) (x\<lparr>x_events := e\<rparr>))"
  using assms checkpoints_inv_tracked [OF assms(1-3)] by (simp add: checkpoints_inv_def tracked_save [of _ plan s])

lemma record_evidence_checkpoints:
  assumes "checkpoints_inv x" and "record_evidence ev w now x = Inr y"
  shows "checkpoints_inv y"
  using assms(2)
proof (cases rule: record_evidence_cases)
  case (written plan s tk tk' t)
  have "tracking_inv tk'" using record_receipt_inv written(3) checkpoints_inv_tracked [OF assms(1) written(1,2)] by blast
  from checkpoints_inv_save [OF assms(1) written(1,2) this record_receipt_completed [OF written(3)]] written(4)
  show ?thesis by (simp add: append_run_eq)
qed (use assms in simp)

lemma tracking_inv_frame [simp]:
  "tracking_inv (tk\<lparr>tk_terminal := a\<rparr>) = tracking_inv tk" "tracking_inv (tk\<lparr>tk_active := a\<rparr>) = tracking_inv tk"
  by (simp_all add: tracking_inv_def)

lemma exec_eta [simp]: "x\<lparr>x_events := x_events x\<rparr> = (x :: 'r exec)"
  by simp

lemma end_turn_checkpoints:
  assumes "checkpoints_inv x" and "end_turn git t out now x = Inr y"
  shows "checkpoints_inv y"
  using assms(2)
proof (cases rule: end_turn_cases)
  case (terminal plan s tk sn)
  then show ?thesis
    using checkpoints_inv_save [OF assms(1) terminal(1,2), of "tk\<lparr>tk_terminal := Some sn\<rparr>" "x_events x"]
      checkpoints_inv_tracked [OF assms(1) terminal(1,2)] by simp
next
  case (captured plan s tk sn)
  note old = checkpoints_inv_tracked [OF assms(1) captured(1,2)]
  from captured(3) show ?thesis
    by (rule capture_turn_Inr)
      (use old assms(1) captured(1) in \<open>auto simp: checkpoints_inv_def append_run_eq tracked_save [of _ plan s] tracking_inv_def u32_succ\<close>)
qed (use assms in simp)

lemma observe_changes_checkpoints:
  assumes "checkpoints_inv x" and "observe_changes git ob now x = Inr y"
  shows "checkpoints_inv y"
  using assms(2)
proof (cases rule: observe_changes_cases)
  case (2 ev)
  then show ?thesis using assms(1) record_evidence_checkpoints by blast
next
  case 3
  then show ?thesis
  proof (cases rule: start_turn_cases)
    case (begun plan s tk sn)
    then show ?thesis
      using checkpoints_inv_save [OF assms(1) begun(1,2), of "tk\<lparr>tk_active := Some sn\<rparr>" "x_events x"]
        checkpoints_inv_tracked [OF assms(1) begun(1,2)] by simp
  qed (use assms in simp)
next
  case (4 t out)
  then show ?thesis using assms(1) end_turn_checkpoints by blast
qed (use assms in simp)

lemma checkpoints_inv_cong: "tracked y = tracked x \<Longrightarrow> x_checkpoints y = x_checkpoints x \<Longrightarrow> checkpoints_inv y = checkpoints_inv x"
  by (simp add: checkpoints_inv_def split: option.split)

lemma observe_run_checkpoints: "checkpoints_inv x \<Longrightarrow> observe_run git ob now x = Inr y \<Longrightarrow> checkpoints_inv y"
  unfolding observe_run_def rbind_Inr_iff
  using observe_changes_checkpoints record_observation_keeps checkpoints_inv_cong by blast

lemma observe_all_checkpoints: "checkpoints_inv x \<Longrightarrow> observe_all obs now x = Inr y \<Longrightarrow> checkpoints_inv y"
proof (induction obs now x rule: observe_all.induct)
  case (2 ob git obs now x)
  then obtain z where "observe_run git ob now x = Inr z" "observe_all obs now z = Inr y" by (auto simp: rbind_Inr_iff)
  then show ?case using 2(1,2) observe_run_checkpoints by blast
qed simp

lemma commit_run_source_checkpoints:
  assumes "checkpoints_inv x" and "commit_run_source digest obs boundary now x = Inr y"
  shows "checkpoints_inv y"
proof (rule commit_run_source_Inr [OF assms(2)])
  fix x1 x2 plan s p
  assume "observe_all obs now x = Inr x1" and x2: "x2 = x1 \<or> (\<exists>ob. record_observation ob now x1 = Inr x2)"
    and e: "x_execution x2 = Some (plan, s)" "y = save_state (s\<lparr>rs_partial := p\<rparr>) x2"
  then have "checkpoints_inv x1" using observe_all_checkpoints assms(1) by blast
  then have "checkpoints_inv x2" using x2 record_observation_keeps checkpoints_inv_cong by blast
  moreover have "tracked y = tracked x2" using e by (simp add: tracked_def)
  ultimately show ?thesis using e(2) checkpoints_inv_cong by (metis save_state_frame(7))
qed

lemma other_operations_keep:
  "transition_run c e l now x = Inr y \<Longrightarrow> tracked y = tracked x \<and> x_checkpoints y = x_checkpoints x"
  "settle_control t now x = Inr y \<Longrightarrow> tracked y = tracked x \<and> x_checkpoints y = x_checkpoints x"
  "abandon_control x = Inr y \<Longrightarrow> tracked y = tracked x \<and> x_checkpoints y = x_checkpoints x"
  "set_conversation_name c e v now x = Inr y \<Longrightarrow> tracked y = tracked x \<and> x_checkpoints y = x_checkpoints x"
  "set_run_name c e v now x = Inr y \<Longrightarrow> tracked y = tracked x \<and> x_checkpoints y = x_checkpoints x"
  by (auto simp: transition_run_def settle_control_def abandon_control_def set_conversation_name_def set_run_name_def rbind_Inr_iff
      ok_or_def append_run_eq tracked_def update_conversation_name_def update_run_name_def update_run_lifecycle_def
      split: option.splits if_splits)

lemma record_control_keeps:
  assumes "record_control c cmd k now x = Inr y"
  shows "tracked y = tracked x \<and> x_checkpoints y = x_checkpoints x"
  by (rule record_control_Inr [OF assms])
    (auto simp: append_control_def Let_def append_run_eq tracked_def)

lemma begin_run_changes_checkpoints:
  assumes "checkpoints_inv x" and "begin_run_changes git x = Inr y"
  shows "checkpoints_inv y"
proof -
  obtain plan s sn where e: "x_execution x = Some (plan, s)" "rs_changes s = None"
    and y: "y = save_state (s\<lparr>rs_changes := Some \<lparr>tk_between = [], tk_between_incomplete = False, tk_evidence = [],
              tk_incomplete = False, tk_baseline = sn, tk_active = Some sn, tk_terminal = None, tk_completed = 0\<rparr>\<rparr>) x"
    using assms(2) by (auto simp: begin_run_changes_def rbind_Inr_iff ok_or_def split: option.splits if_splits)
  then have "x_checkpoints x = []" using assms(1) by (simp add: checkpoints_inv_def tracked_def)
  then show ?thesis using e by (simp add: y checkpoints_inv_def tracked_save [OF e(1)] tracking_inv_def)
qed

lemma perform_checkpoints:
  assumes "checkpoints_inv x" and "perform d a x = Inr y"
  shows "checkpoints_inv y"
proof (cases a)
  case (ObserveRun git ob now)
  then show ?thesis using assms observe_run_checkpoints by (metis perform.simps(1))
next
  case (CommitSource obs b now)
  then show ?thesis using assms commit_run_source_checkpoints by (metis perform.simps(2))
next
  case (TransitionRun c e l now)
  then show ?thesis using assms other_operations_keep(1) checkpoints_inv_cong by (metis perform.simps(3))
next
  case (ControlRun c cmd k now)
  then show ?thesis using assms record_control_keeps checkpoints_inv_cong by (metis perform.simps(4))
next
  case (SettleControl t now)
  then show ?thesis using assms other_operations_keep(2) checkpoints_inv_cong by (metis perform.simps(5))
next
  case AbandonControl
  then show ?thesis using assms other_operations_keep(3) checkpoints_inv_cong by (metis perform.simps(6))
next
  case (NameConversation c e v now)
  then show ?thesis using assms other_operations_keep(4) checkpoints_inv_cong by (metis perform.simps(7))
next
  case (NameRun c e v now)
  then show ?thesis using assms other_operations_keep(5) checkpoints_inv_cong by (metis perform.simps(8))
next
  case (RecordEvidence ev w now)
  then show ?thesis using assms record_evidence_checkpoints by (metis perform.simps(9))
next
  case (BeginChanges git)
  then show ?thesis using assms begin_run_changes_checkpoints by (metis perform.simps(10))
qed

interpretation checkpointed: machine "run_step d" checkpoints_inv for d
  by unfold_locales (auto simp: run_step_def intro: commit_or_inv perform_checkpoints)

text \<open>
  C28: The checkpoints of a Run are its turns, in order and without a gap: over every history, the
  recorded checkpoints are numbered 1, 2, and so on up to the number of completed turns, which stays below \<open>2 ^ 32\<close> (the counter
  wraps and the row of turn 0 is refused), so recording one never collides with another, and each keeps at most 256 receipts for the turn and for the gap before it, one per activity and path.
\<close>
theorem checkpoints_numbered:
  assumes "tracked x = None" and "x_checkpoints x = []"
  shows "map (unat \<circ> cc_turn) (x_checkpoints (run_history d x ops)) = [1..<length (x_checkpoints (run_history d x ops)) + 1] \<and>
    length (x_checkpoints (run_history d x ops)) < 2 ^ 32 \<and>
    list_all (\<lambda>cp. length (cc_evidence cp) \<le> 256 \<and> length (cc_before_evidence cp) \<le> 256 \<and>
      distinct (map (\<lambda>r. (ce_activity r, ce_path r)) (cc_evidence cp))) (x_checkpoints (run_history d x ops))"
proof -
  have "checkpoints_inv x" using assms by (simp add: checkpoints_inv_def)
  then have inv: "checkpoints_inv (run_history d x ops)" unfolding run_history_def by (rule checkpointed.run_inv)
  have "map (unat \<circ> cc_turn) (x_checkpoints (run_history d x ops)) = [1..<length (x_checkpoints (run_history d x ops)) + 1] \<and>
    length (x_checkpoints (run_history d x ops)) < 2 ^ 32"
  proof (cases "tracked (run_history d x ops)")
    case (Some tk)
    then have m: "map (unat \<circ> cc_turn) (x_checkpoints (run_history d x ops)) = [1..<unat (tk_completed tk) + 1]"
      using inv by (simp add: checkpoints_inv_def)
    then have "length (x_checkpoints (run_history d x ops)) = unat (tk_completed tk)"
      by (metis add_diff_cancel_right' length_map length_upt)
    with m unsigned_less [of "tk_completed tk"] show ?thesis by simp
  qed (use inv in \<open>simp add: checkpoints_inv_def\<close>)
  moreover have "list_all (\<lambda>cp. length (cc_evidence cp) \<le> 256 \<and> length (cc_before_evidence cp) \<le> 256 \<and>
      distinct (map (\<lambda>r. (ce_activity r, ce_path r)) (cc_evidence cp))) (x_checkpoints (run_history d x ops))"
    using inv by (auto simp: checkpoints_inv_def receipts_inv_def list_all_iff)
  ultimately show ?thesis by blast
qed

section \<open>A stop request owns the end\<close>

definition control_of :: "'r exec \<Rightarrow> run_control option" where
  "control_of x = (case x_execution x of None \<Rightarrow> None | Some (plan, s) \<Rightarrow> map_option cr_control (rs_control s))"

definition stop_held :: "'r exec \<Rightarrow> bool" where
  "stop_held x \<longleftrightarrow> lc x = Some L_Canceled \<or> lc x = Some L_Lost \<or> (lc x = Some L_Stopping \<and> control_of x = Some StopRun)"

lemma control_frame [simp]:
  "control_of (x\<lparr>x_events := e\<rparr>) = control_of x" "control_of (x\<lparr>x_conv := c\<rparr>) = control_of x"
  "control_of (x\<lparr>x_effects := f\<rparr>) = control_of x" "control_of (x\<lparr>x_checkpoints := p\<rparr>) = control_of x"
  "control_of (update_run_lifecycle l n x) = control_of x"
  by (simp_all add: control_of_def)

lemma control_save: "x_execution x = Some (plan, s) \<Longrightarrow> control_of (save_state s' x) = map_option cr_control (rs_control s')"
  by (simp add: control_of_def)

lemma stop_held_cong: "lc y = lc x \<Longrightarrow> control_of y = control_of x \<Longrightarrow> stop_held y = stop_held x"
  by (simp add: stop_held_def)

lemma observe_changes_control:
  assumes "observe_changes git ob now x = Inr y"
  shows "lc y = lc x \<and> control_of y = control_of x"
  using assms
proof (cases rule: observe_changes_cases)
  case (2 ev)
  then show ?thesis by (cases rule: record_evidence_cases) (simp_all add: append_run_eq control_of_def)
next
  case 3
  then show ?thesis by (cases rule: start_turn_cases) (simp_all add: control_of_def)
next
  case (4 t out)
  then show ?thesis
  proof (cases rule: end_turn_cases)
    case (captured plan s tk sn)
    from captured(3) show ?thesis by (rule capture_turn_Inr) (use captured in \<open>simp add: append_run_eq control_of_def\<close>)
  qed (simp_all add: control_of_def)
qed simp

lemma apply_stopping:
  assumes "apply_observation L_Stopping s ob = Inr (l, s', evs)" and "map_option cr_control (rs_control s) = Some StopRun"
  shows "l \<in> {L_Stopping, L_Canceled, L_Lost} \<and> rs_control s' = rs_control s"
  using assms
  by (cases ob)
    (auto simp: apply_native_def apply_turn_ended_def apply_started_def apply_ended_def apply_lost_def apply_process_title_def
      apply_disconnected_def Let_def rbind_Inr_iff set_activity_def stop_processes_def executing_def
      split: if_splits option.splits)

lemma evolves_stop_held: "evolves x y \<Longrightarrow> lc x = Some L_Canceled \<or> lc x = Some L_Lost \<Longrightarrow> stop_held y"
proof -
  assume e: "evolves x y" and l: "lc x = Some L_Canceled \<or> lc x = Some L_Lost"
  obtain new where "rel_option (\<lambda>l l'. lawful_path l (changes new) l' \<and>
        (is_terminal l \<longrightarrow> list_all (\<lambda>e. \<not> harness_output (re_kind e)) new)) (lc x) (lc y)"
    using e unfolding evolves_def by blast
  then have "lc y = lc x" using l lawful_path_terminal by (cases "lc y") fastforce+
  then show ?thesis using l by (auto simp: stop_held_def)
qed

lemma record_observation_stop:
  assumes "stop_held x" and "record_observation ob now x = Inr y"
  shows "stop_held y"
proof (cases "lc x = Some L_Canceled \<or> lc x = Some L_Lost")
  case True
  then show ?thesis using evolves_stop_held record_observation_evolves [OF assms(2)] by blast
next
  case False
  then have c: "lc x = Some L_Stopping" "control_of x = Some StopRun" using assms(1) by (auto simp: stop_held_def)
  then obtain plan s run where xs: "x_execution x = Some (plan, s)" "x_run x = Some run" "rr_lifecycle run = L_Stopping"
      "map_option cr_control (rs_control s) = Some StopRun"
    by (auto simp: lc_def control_of_def split: option.splits)
  have proj: ?thesis if h: "record_projection actor plan s run ob now x = Inr y" for actor
  proof (rule record_projection_Inr [OF h])
    fix l s' evs x1
    assume a: "apply_observation (rr_lifecycle run) s ob = Inr (l, s', evs)"
      and x1: "settle_run (observation_settlement (x_id x) plan s ob) now x = Inr x1"
      and y: "y = save_state s' (append_all actor evs now
        (if l \<noteq> rr_lifecycle run
         then append_run actor (RunLifecycleChanged (rr_lifecycle run) l) now (update_run_lifecycle l now x1)
         else if evs \<noteq> [] then update_run_lifecycle l now x1 else x1))"
    obtain cv where cv: "x1 = x\<lparr>x_conv := cv\<rparr>" using settle_run_frame [OF x1] by blast
    have s': "l \<in> {L_Stopping, L_Canceled, L_Lost}" "rs_control s' = rs_control s"
      using apply_stopping [of s ob l s' evs] a xs(3,4) by auto
    have "lc y = Some l" using xs(2,3) c(1) by (simp add: y cv append_all_eq append_run_eq)
    moreover have "control_of y = Some StopRun"
      using xs s'(2) by (simp add: y cv append_all_eq append_run_eq control_of_def save_state_def)
    ultimately show ?thesis using s'(1) by (auto simp: stop_held_def)
  qed
  have names: "apply_harness_conversation actor v now x = Inr y \<Longrightarrow> lc y = lc x \<and> control_of y = control_of x"
      "apply_harness_run actor v now x = Inr y \<Longrightarrow> lc y = lc x \<and> control_of y = control_of x" for actor v
    by (auto simp: apply_harness_conversation_def apply_harness_run_def rbind_Inr_iff append_run_eq update_conversation_name_def
        update_run_name_def control_of_def lc_def option.map_comp comp_def split: if_splits)
  note open_record = record_observation_def xs(1,2) rbind_simps ok_or_simps Let_def
  show ?thesis
  proof (cases ob)
    case (Model m)
    then have "y = save_state (s\<lparr>rs_model := Some m\<rparr>) x"
      using assms(2) by (simp add: open_record is_title_def split: if_splits)
    then show ?thesis using c xs(1,4) by (simp add: stop_held_def control_save)
  next
    case (ConversationTitle t)
    then have "apply_harness_conversation (observation_actor (x_id x) (lp_client plan) ob) t now x = Inr y"
      using assms(2) by (simp add: open_record split: if_splits)
    from names(1) [OF this] show ?thesis using assms(1) stop_held_cong by blast
  next
    case (RunTitle t)
    then have "apply_harness_run (observation_actor (x_id x) (lp_client plan) ob) t now x = Inr y"
      using assms(2) by (simp add: open_record split: if_splits)
    from names(2) [OF this] show ?thesis using assms(1) stop_held_cong by blast
  qed (use assms proj in \<open>simp_all add: open_record split: if_splits\<close>)
qed

lemma observe_run_stop: "stop_held x \<Longrightarrow> observe_run git ob now x = Inr y \<Longrightarrow> stop_held y"
  unfolding observe_run_def rbind_Inr_iff
  using observe_changes_control record_observation_stop stop_held_cong by blast

lemma observe_all_stop: "stop_held x \<Longrightarrow> observe_all obs now x = Inr y \<Longrightarrow> stop_held y"
proof (induction obs now x rule: observe_all.induct)
  case (2 ob git obs now x)
  then obtain z where "observe_run git ob now x = Inr z" "observe_all obs now z = Inr y" by (auto simp: rbind_Inr_iff)
  then show ?case using 2(1,2) observe_run_stop by blast
qed simp

lemma commit_run_source_stop:
  assumes "stop_held x" and "commit_run_source digest obs boundary now x = Inr y"
  shows "stop_held y"
proof (rule commit_run_source_Inr [OF assms(2)])
  fix x1 x2 plan s p
  assume "observe_all obs now x = Inr x1" and x2: "x2 = x1 \<or> (\<exists>ob. record_observation ob now x1 = Inr x2)"
    and e: "x_execution x2 = Some (plan, s)" "y = save_state (s\<lparr>rs_partial := p\<rparr>) x2"
  then have "stop_held x1" using observe_all_stop assms(1) by blast
  then have "stop_held x2" using x2 record_observation_stop by blast
  moreover have "control_of y = control_of x2" "lc y = lc x2" using e by (simp_all add: control_of_def)
  ultimately show ?thesis using stop_held_cong by blast
qed

lemma record_control_stop:
  assumes "record_control client command control now x = Inr y" and "control = StopRun \<or> stop_held x"
  shows "stop_held y"
proof (rule record_control_Inr [OF assms(1)])
  fix run plan s x1
  assume r: "x_run x = Some run" and e: "x_execution x = Some (plan, s)" and l: "executing (rr_lifecycle run)"
    and x1: "x1 = x \<and> map_option cr_control (rs_control s) = Some control \<or>
         (\<exists>a. x1 = save_state (s\<lparr>rs_control := Some \<lparr>cr_control = control, cr_correlation = a\<rparr>, rs_termination := None\<rparr>) x)"
    and y: "y = (append_control client run control now x1)\<lparr>x_effects := x_effects (append_control client run control now x1) @ [command]\<rparr>"
  have c: "control = StopRun"
  proof (rule ccontr)
    assume "control \<noteq> StopRun"
    then have i: "control = InterruptTurn" by (cases control) auto
    then have "stop_held x" using assms(2) by auto
    then have "rr_lifecycle run \<noteq> L_Active" using r l by (auto simp: stop_held_def lc_def executing_def)
    then show False using assms(1) i r e by (auto simp: record_control_def rbind_Inr_iff Let_def split: if_splits)
  qed
  have "lc x1 = lc x" "control_of x1 = Some StopRun" "x_run x1 = x_run x"
    using x1 e c by (auto simp: control_of_def)
  then show ?thesis
    using r l c by (auto simp: y append_control_def Let_def append_run_eq stop_held_def lc_def executing_def
        update_run_lifecycle_def set_lifecycle_def control_of_def)
qed

lemma naming_keeps_control:
  "set_conversation_name c e v now x = Inr y \<Longrightarrow> lc y = lc x \<and> control_of y = control_of x"
  "set_run_name c e v now x = Inr y \<Longrightarrow> lc y = lc x \<and> control_of y = control_of x"
  by (auto simp: set_conversation_name_def set_run_name_def rbind_Inr_iff append_run_eq update_conversation_name_def
      update_run_name_def control_of_def lc_def option.map_comp comp_def split: if_splits)

lemma begin_run_changes_control: "begin_run_changes git x = Inr y \<Longrightarrow> lc y = lc x \<and> control_of y = control_of x"
  by (auto simp: begin_run_changes_def rbind_Inr_iff ok_or_def control_of_def split: option.splits if_splits)

lemma record_evidence_control:
  assumes "record_evidence ev w now x = Inr y"
  shows "lc y = lc x \<and> control_of y = control_of x"
  using assms by (cases rule: record_evidence_cases) (simp_all add: append_run_eq control_of_def)

lemma transition_run_stop:
  assumes "stop_held x" and "transition_run c e l now x = Inr y"
  shows "stop_held y"
proof (cases "lc x = Some L_Canceled \<or> lc x = Some L_Lost")
  case True
  then show ?thesis using evolves_stop_held transition_run_evolves [OF assms(2)] by blast
next
  case False
  then have "x_execution x \<noteq> None" using assms(1) by (auto simp: stop_held_def control_of_def split: option.splits)
  then show ?thesis using assms(2) by (auto simp: transition_run_def)
qed

definition drops_control :: "run_op \<Rightarrow> bool" where
  "drops_control a = (case a of SettleControl _ _ \<Rightarrow> True | AbandonControl \<Rightarrow> True | _ \<Rightarrow> False)"

lemma perform_stop:
  assumes "stop_held x" and "\<not> drops_control a" and "perform d a x = Inr y"
  shows "stop_held y"
proof (cases a)
  case (ObserveRun git ob now)
  then show ?thesis using assms observe_run_stop by (metis perform.simps(1))
next
  case (CommitSource obs b now)
  then show ?thesis using assms commit_run_source_stop by (metis perform.simps(2))
next
  case (TransitionRun c e l now)
  then show ?thesis using assms transition_run_stop by (metis perform.simps(3))
next
  case (ControlRun c cmd k now)
  then show ?thesis using assms record_control_stop by (metis perform.simps(4))
next
  case (NameConversation c e v now)
  then show ?thesis using assms naming_keeps_control(1) stop_held_cong by (metis perform.simps(7))
next
  case (NameRun c e v now)
  then show ?thesis using assms naming_keeps_control(2) stop_held_cong by (metis perform.simps(8))
next
  case (RecordEvidence ev w now)
  then show ?thesis using assms record_evidence_control stop_held_cong by (metis perform.simps(9))
next
  case (BeginChanges git)
  then show ?thesis using assms begin_run_changes_control stop_held_cong by (metis perform.simps(10))
qed (use assms in \<open>simp_all add: drops_control_def\<close>)

text \<open>
  C26: A stop request owns the end of its Run. From the moment it is accepted, and until it is settled
  or abandoned, the Run is stopping, canceled or lost, whatever exit status is reported and
  whatever else is asked: it never counts as completed or failed on its own.
\<close>
theorem stop_request_owns_end:
  assumes "record_control client command StopRun now x = Inr y" and "list_all (\<lambda>a. \<not> drops_control a) ops"
  shows "lc (run_history d y ops) \<in> {Some L_Stopping, Some L_Canceled, Some L_Lost}"
proof -
  have "stop_held y" using record_control_stop [OF assms(1)] by simp
  then have "stop_held (run_history d y ops)"
    using assms(2) unfolding run_history_def
  proof (induction ops arbitrary: y)
    case (Cons a ops)
    have "stop_held (run_step d y a)"
      unfolding run_step_def by (rule commit_or_inv) (use Cons.prems perform_stop in \<open>auto simp: list_all_iff\<close>)
    then show ?case using Cons by simp
  qed simp
  then show ?thesis by (auto simp: stop_held_def)
qed

section \<open>The signal ladder\<close>

text \<open>
  Escalation never skips a step and never guesses: whatever the host answers, the signals
  delivered are Interrupt, Terminate and Kill in that order from the first, the next one only
  after the one before was given its time in vain, and a stage other than Unobserved is recorded only for the last
  signal delivered, after the Run was seen to be over.
\<close>
lemma ladder_never_skips:
  "\<exists>rest sent stage. climb accepts ended_now ended_within None LADDER = (sent, stage) \<and> LADDER = sent @ rest \<and>
     list_all (\<lambda>s. \<not> ended_within s) (butlast sent) \<and>
     (case stage of
        None \<Rightarrow> list_all (\<lambda>s. \<not> ended_within s) sent \<and> rest \<noteq> [] \<and> \<not> ended_now (hd rest)
      | Some st \<Rightarrow> st = Unobserved \<or> sent \<noteq> [] \<and> st = signal_stage (last sent) \<and> (ended_within (last sent) \<or> rest \<noteq> [] \<and> ended_now (hd rest)))"
  by (simp add: LADDER_def)

section \<open>The recorded end of a Run\<close>

text \<open>
  The end of a Run is stamped again: when a Run that ended while its supervisor was disconnected is
  reported as reconnected, the recorded end moves to that later moment, although the state was terminal already.
\<close>
lemma end_time_restamped:
  assumes "x_run x = Some r" and "is_terminal (rr_lifecycle r)" and "x_execution x = Some (plan, s)" and "rs_disconnected s"
    and "c_exists (x_conv x)" and "find_index (\<lambda>e. t_run (e_turn e) = Some (x_id x)) (q_entries (queue_of (x_conv x))) = None"
  shows "\<exists>y. record_observation Reconnected now x = Inr y \<and> map_option rr_ended (x_run y) = Some (Some now)"
proof -
  have l: "load_queue (x_conv x) = Inr (queue_of (x_conv x))" using assms(5) by simp
  have "settle (x_id x) SettleUnknown now (x_conv x) = Inr (x_conv x)"
    unfolding settle_def l rbind_simps using assms(6) by simp
  from this have "record_observation Reconnected now x =
      Inr (save_state (s\<lparr>rs_disconnected := False\<rparr>) (append_all (observation_actor (x_id x) (lp_client plan) Reconnected)
        [RunActivityChanged (rs_activity s)] now (update_run_lifecycle (rr_lifecycle r) now x)))"
    using assms(1,3,4)
    by (simp add: record_observation_def is_title_def record_projection_def observation_settlement_def settle_run_def)
  then show ?thesis using assms(1,2) by (simp add: append_all_eq update_run_lifecycle_def set_lifecycle_def)
qed

section \<open>A Run to look at\<close>

definition demo_state :: run_state where
  "demo_state = \<lparr>rs_model = None, rs_quota_wait = False, rs_review = default_guard 0, rs_changes = None, rs_activity = Some Working,
     rs_disconnected = False, rs_processes = [], rs_native = None, rs_exit = None, rs_offset = 0, rs_checkpoint = [],
     rs_partial = no_prefix, rs_control = None, rs_termination = None\<rparr>"

definition demo_exec :: "run_lifecycle \<Rightarrow> run_state \<Rightarrow> unit exec" where
  "demo_exec l s = \<lparr>x_id = 4,
     x_run = Some \<lparr>rr_revision = 1, rr_lifecycle = l, rr_name = \<lparr>nm_value = ucs ''Run'', nm_source = Deterministic\<rparr>, rr_ended = None\<rparr>,
     x_execution = Some (\<lparr>lp_client = 1, lp_turn = None, lp_visa = None\<rparr>, s), x_conversation = None,
     x_conv = \<lparr>c_id = 9, c_exists = True, c_authority = Home, c_frozen = False, c_queue = None, c_pending = 0, c_journal = []\<rparr>,
     x_checkpoints = [], x_effects = [], x_events = []\<rparr>"

definition demo_git :: git_answers where
  "demo_git = \<lparr>ga_snapshot = Inr \<lparr>sn_omitted = [], sn_commit = [], sn_tree = [], sn_uncommitted = pressure_artifact\<rparr>,
     ga_files = Inr [], ga_patch = Inr pressure_artifact\<rparr>"

definition demo_digest :: "string \<Rightarrow> observation \<Rightarrow> string" where
  "demo_digest d ob = d"

lemma demo_exec_queue: "queue_of (x_conv (demo_exec l s)) = empty_queue" "load_queue (x_conv (demo_exec l s)) = Inr empty_queue"
  by (simp_all add: demo_exec_def queue_of_def)

theorem run_lifecycle_lawful_witness:
  "\<exists>l' new. lc (run_history demo_digest (demo_exec L_Active demo_state) [ControlRun 1 2 StopRun 5, ObserveRun demo_git (Ended (Some 0)) 6]) = Some l' \<and>
     x_events (run_history demo_digest (demo_exec L_Active demo_state) [ControlRun 1 2 StopRun 5, ObserveRun demo_git (Ended (Some 0)) 6]) =
       x_events (demo_exec L_Active demo_state) @ new \<and>
     lawful_path L_Active (changes new) l' \<and> list_all (\<lambda>(f, t). \<not> is_terminal f) (changes new)"
  by (rule run_lifecycle_lawful) (simp add: lc_def demo_exec_def)

lemma ended_run_stays_ended_witness:
  "lc (run_history demo_digest (demo_exec L_Completed demo_state) [ObserveRun demo_git Lost 6]) = Some L_Completed \<and>
    (\<exists>new. x_events (run_history demo_digest (demo_exec L_Completed demo_state) [ObserveRun demo_git Lost 6]) =
       x_events (demo_exec L_Completed demo_state) @ new \<and> changes new = [] \<and>
       list_all (\<lambda>e. \<not> harness_output (re_kind e)) new)"
  by (rule ended_run_stays_ended) (simp_all add: lc_def demo_exec_def)

theorem checkpoints_numbered_witness:
  "map (unat \<circ> cc_turn) (x_checkpoints (run_history demo_digest (demo_exec L_Active demo_state)
       [BeginChanges demo_git, ObserveRun demo_git (TurnEnded TurnDone) 6])) =
     [1..<length (x_checkpoints (run_history demo_digest (demo_exec L_Active demo_state)
       [BeginChanges demo_git, ObserveRun demo_git (TurnEnded TurnDone) 6])) + 1]"
  by (rule conjunct1 [OF checkpoints_numbered]) (simp_all add: tracked_def demo_exec_def demo_state_def)

lemma demo_lost: "\<exists>y. observe_run demo_git Lost 6 (demo_exec L_Active demo_state) = Inr y"
proof -
  have "settle 4 SettleFailed 6 (x_conv (demo_exec L_Active demo_state)) = Inr (x_conv (demo_exec L_Active demo_state))"
    unfolding settle_def demo_exec_queue rbind_simps by (simp add: empty_queue_def find_index_def)
  then show ?thesis
    by (simp add: observe_run_def observe_changes_def turn_boundary_def ends_run_def end_turn_def record_observation_def
        record_projection_def apply_lost_def observation_settlement_def settle_run_def is_title_def demo_exec_def demo_state_def
        set_activity_def stop_processes_def Let_def)
qed

theorem run_end_releases_queue_witness:
  "\<exists>y. observe_run demo_git Lost 6 (demo_exec L_Active demo_state) = Inr y \<and>
     list_all (\<lambda>e. t_run (e_turn e) \<noteq> Some (x_id (demo_exec L_Active demo_state))) (q_entries (queue_of (x_conv y)))"
proof -
  have inv: "turns_inv (x_conv (demo_exec L_Active demo_state))"
    unfolding turns_inv_def demo_exec_queue
    by (simp add: empty_queue_def entries_inv_def slot_inv_def claims_inv_def demo_exec_def claimed_seqs_def)
  from demo_lost obtain y where y: "observe_run demo_git Lost 6 (demo_exec L_Active demo_state) = Inr y" by blast
  have "ends_run Lost" by (simp add: ends_run_def)
  from run_end_releases_queue [OF inv this y] y show ?thesis by blast
qed

lemma demo_stop: "\<exists>y. record_control 1 2 StopRun 5 (demo_exec L_Active demo_state) = Inr y"
  unfolding record_control_def demo_exec_queue rbind_simps by (simp add: demo_exec_def Let_def)

theorem stop_request_owns_end_witness:
  "\<exists>y. record_control 1 2 StopRun 5 (demo_exec L_Active demo_state) = Inr y \<and>
     lc (run_history demo_digest y [ObserveRun demo_git (Ended (Some 0)) 6]) \<in> {Some L_Stopping, Some L_Canceled, Some L_Lost}"
proof -
  from demo_stop obtain y where y: "record_control 1 2 StopRun 5 (demo_exec L_Active demo_state) = Inr y" by blast
  from stop_request_owns_end [OF y, of "[ObserveRun demo_git (Ended (Some 0)) 6]"] y show ?thesis
    by (simp add: drops_control_def)
qed

lemma end_time_restamped_witness:
  "\<exists>y. record_observation Reconnected 77 (demo_exec L_Completed (demo_state\<lparr>rs_disconnected := True\<rparr>)) = Inr y \<and>
     map_option rr_ended (x_run y) = Some (Some 77)"
proof (rule end_time_restamped)
  show "find_index (\<lambda>e. t_run (e_turn e) = Some (x_id (demo_exec L_Completed (demo_state\<lparr>rs_disconnected := True\<rparr>))))
      (q_entries (queue_of (x_conv (demo_exec L_Completed (demo_state\<lparr>rs_disconnected := True\<rparr>))))) = None"
    unfolding demo_exec_queue by (simp add: empty_queue_def find_index_def)
  show "x_run (demo_exec L_Completed (demo_state\<lparr>rs_disconnected := True\<rparr>)) =
      Some \<lparr>rr_revision = 1, rr_lifecycle = L_Completed, rr_name = \<lparr>nm_value = ucs ''Run'', nm_source = Deterministic\<rparr>, rr_ended = None\<rparr>"
    "x_execution (demo_exec L_Completed (demo_state\<lparr>rs_disconnected := True\<rparr>)) =
      Some (\<lparr>lp_client = 1, lp_turn = None, lp_visa = None\<rparr>, demo_state\<lparr>rs_disconnected := True\<rparr>)"
    "c_exists (x_conv (demo_exec L_Completed (demo_state\<lparr>rs_disconnected := True\<rparr>)))"
    by (simp_all add: demo_exec_def)
qed simp_all

end
