(* ===== verification/Jet_Audit.thy ===== *)
theory Jet_Audit
  imports Jet_Codec
begin

text \<open>
  The Security audit: \<open>jet-store/src/audit/{mod,chain,epoch,head,integrity,read,retention,actor}.rs\<close>.

  \<open>audit\<close> is what the store and the file beside it hold: the epochs and records in the
  order of their keys, the position counter, the retention anchor, the head kept
  outside the database and the head an open transaction will write there once it
  commits. SHA-256 (the \<open>sha2\<close> crate) is the parameter \<open>sha\<close>; the only fact
  about it that is ever assumed is the width of its output, and what the chain proves is
  stated under the hypothesis that the inputs of the links at hand do not clash under \<open>sha\<close>. Text is
  its UTF-8 bytes, identities their textual or raw bytes as the code uses them. SQL
  statements are written as the list operations they perform; a database failure rolls
  the transaction back and is left out.
\<close>

section \<open>Data\<close>

definition AUDIT_PAGE_LIMIT :: nat where
  "AUDIT_PAGE_LIMIT = 256"

definition AUDIT_RETENTION_BATCH_LIMIT :: nat where
  "AUDIT_RETENTION_BATCH_LIMIT = 256"

type_synonym bytes = "byte list"

definition text_bytes :: "string \<Rightarrow> bytes" where
  "text_bytes s = map of_char s"

datatype audit_risk = Routine | Elevated | Destructive

fun risk_str :: "audit_risk \<Rightarrow> bytes" where
  "risk_str Routine = text_bytes ''routine''"
| "risk_str Elevated = text_bytes ''elevated''"
| "risk_str Destructive = text_bytes ''destructive''"

definition risk_parse :: "bytes \<Rightarrow> audit_risk option" where
  "risk_parse t = find (\<lambda>r. risk_str r = t) [Routine, Elevated, Destructive]"

datatype audit_outcome = Succeeded | Denied | OutcomeFailed

fun outcome_str :: "audit_outcome \<Rightarrow> bytes" where
  "outcome_str Succeeded = text_bytes ''succeeded''"
| "outcome_str Denied = text_bytes ''denied''"
| "outcome_str OutcomeFailed = text_bytes ''failed''"

definition outcome_parse :: "bytes \<Rightarrow> audit_outcome option" where
  "outcome_parse t = find (\<lambda>r. outcome_str r = t) [Succeeded, Denied, OutcomeFailed]"

datatype audit_actor = AuditInteractiveClient bytes | CraftRevocation | Retention

definition nil_uuid_text :: bytes where
  "nil_uuid_text = text_bytes ''00000000-0000-0000-0000-000000000000''"

fun actor_columns :: "audit_actor \<Rightarrow> bytes \<times> bytes" where
  "actor_columns (AuditInteractiveClient c) = (text_bytes ''interactive_client'', c)"
| "actor_columns CraftRevocation = (text_bytes ''craft_revocation'', nil_uuid_text)"
| "actor_columns Retention = (text_bytes ''retention'', nil_uuid_text)"

record new_audit_record =
  n_id :: bytes
  n_at :: int
  n_actor :: audit_actor
  n_target_kind :: bytes
  n_target_id :: "bytes option"
  n_decision :: bytes
  n_risk :: audit_risk
  n_outcome :: audit_outcome

record audit_record =
  a_sequence :: nat
  a_epoch :: nat
  a_id :: bytes
  a_at :: int
  a_plane :: bytes
  a_actor :: audit_actor
  a_target_kind :: bytes
  a_target_reference :: bytes
  a_target_id :: "bytes option"
  a_decision :: bytes
  a_risk :: audit_risk
  a_outcome :: audit_outcome
  a_hash :: bytes

record audit_head =
  h_epoch :: nat
  h_sequence :: nat
  h_hash :: bytes

record audit_gap =
  g_sequence :: nat
  g_hash :: bytes
  g_reason :: bytes

record epoch_row =
  er_epoch :: nat
  er_started :: int
  er_preceding :: "audit_gap option"

record audit =
  au_plane :: bytes
  au_epochs :: "epoch_row list"
  au_rows :: "audit_record list"
  au_next :: nat
  au_anchor :: "audit_head option"
  au_head :: "audit_head option"
  au_pending :: "audit_head option"

datatype store_error = StoreIntegrity | StoreUnavailable

section \<open>The chain\<close>

definition ENTRY_DOMAIN :: bytes where
  "ENTRY_DOMAIN = text_bytes ''jet.audit.entry.v1''"

definition EPOCH_DOMAIN :: bytes where
  "EPOCH_DOMAIN = text_bytes ''jet.audit.epoch.v1''"

definition TARGET_DOMAIN :: bytes where
  "TARGET_DOMAIN = text_bytes ''jet.audit.target.v1''"

definition field_bytes :: "bytes \<Rightarrow> bytes" where
  "field_bytes b = be_bytes 8 (min (length b) (2 ^ 64 - 1)) @ b"

definition i64_be :: "int \<Rightarrow> bytes" where
  "i64_be t = be_bytes 8 (nat (t mod 2 ^ 64))"

definition entry_preimage :: "bytes \<Rightarrow> audit_record \<Rightarrow> bytes" where
  "entry_preimage previous r =
     ENTRY_DOMAIN @ previous @ be_bytes 8 (a_sequence r) @ be_bytes 8 (a_epoch r) @
     field_bytes (a_id r) @ i64_be (a_at r) @ field_bytes (a_plane r) @
     field_bytes (fst (actor_columns (a_actor r))) @ field_bytes (snd (actor_columns (a_actor r))) @
     field_bytes (a_target_kind r) @ a_target_reference r @ field_bytes (a_decision r) @
     field_bytes (risk_str (a_risk r)) @ field_bytes (outcome_str (a_outcome r))"

definition chain_link :: "(bytes \<Rightarrow> bytes) \<Rightarrow> bytes \<Rightarrow> audit_record \<Rightarrow> bytes" where
  "chain_link sha previous r = sha (entry_preimage previous r)"

definition genesis_preimage :: "bytes \<Rightarrow> epoch_row \<Rightarrow> bytes" where
  "genesis_preimage plane e =
     EPOCH_DOMAIN @ be_bytes 8 (er_epoch e) @ field_bytes plane @ i64_be (er_started e) @
     (case er_preceding e of
        None \<Rightarrow> be_bytes 8 0 @ replicate 32 0
      | Some g \<Rightarrow> be_bytes 8 (g_sequence g) @ g_hash g) @
     field_bytes (case er_preceding e of None \<Rightarrow> [] | Some g \<Rightarrow> g_reason g)"

definition genesis :: "(bytes \<Rightarrow> bytes) \<Rightarrow> bytes \<Rightarrow> epoch_row \<Rightarrow> bytes" where
  "genesis sha plane e = sha (genesis_preimage plane e)"

definition target_reference :: "(bytes \<Rightarrow> bytes) \<Rightarrow> bytes \<Rightarrow> bytes \<Rightarrow> bytes option \<Rightarrow> bytes" where
  "target_reference sha plane kind tid =
     sha (TARGET_DOMAIN @ field_bytes plane @ field_bytes kind @
          field_bytes (case tid of None \<Rightarrow> [] | Some i \<Rightarrow> i))"

definition target_matches_reference :: "(bytes \<Rightarrow> bytes) \<Rightarrow> audit_record \<Rightarrow> bool" where
  "target_matches_reference sha r \<longleftrightarrow>
     (case a_target_id r of
        None \<Rightarrow> True
      | Some i \<Rightarrow> target_reference sha (a_plane r) (a_target_kind r) (Some i) = a_target_reference r)"

section \<open>Appending and epochs\<close>

definition counter_column :: "nat \<Rightarrow> store_error + nat" where
  "counter_column n = (if n < 2 ^ 63 then Inr n else Inl StoreIntegrity)"

definition newest_audit_epoch :: "audit \<Rightarrow> epoch_row option" where
  "newest_audit_epoch A = (if au_epochs A = [] then None else Some (last (au_epochs A)))"

definition audit_tip :: "audit \<Rightarrow> audit_head option" where
  "audit_tip A =
     (if au_rows A = [] then None
      else (let r = last (au_rows A)
            in Some \<lparr>h_epoch = a_epoch r, h_sequence = a_sequence r, h_hash = a_hash r\<rparr>))"

definition audit_cursor :: "audit \<Rightarrow> nat" where
  "audit_cursor A = (case audit_tip A of None \<Rightarrow> 0 | Some t \<Rightarrow> h_sequence t)"

definition insert_audit_epoch ::
    "nat \<Rightarrow> int \<Rightarrow> audit_gap option \<Rightarrow> audit \<Rightarrow> store_error + (audit \<times> epoch_row)" where
  "insert_audit_epoch e started preceding A =
     rbind (counter_column e) (\<lambda>_.
     rbind (case preceding of None \<Rightarrow> Inr 0 | Some g \<Rightarrow> counter_column (g_sequence g)) (\<lambda>_.
       let row = \<lparr>er_epoch = e, er_started = started, er_preceding = preceding\<rparr>
       in Inr (A\<lparr>au_epochs := au_epochs A @ [row]\<rparr>, row)))"

definition current_audit_epoch :: "int \<Rightarrow> audit \<Rightarrow> store_error + (audit \<times> epoch_row)" where
  "current_audit_epoch now A =
     (case newest_audit_epoch A of
        Some e \<Rightarrow> Inr (A, e)
      | None \<Rightarrow> insert_audit_epoch 1 now None A)"

definition head_of :: "audit_record \<Rightarrow> audit_head" where
  "head_of r = \<lparr>h_epoch = a_epoch r, h_sequence = a_sequence r, h_hash = a_hash r\<rparr>"

definition new_record ::
    "(bytes \<Rightarrow> bytes) \<Rightarrow> bytes \<Rightarrow> nat \<Rightarrow> nat \<Rightarrow> bytes \<Rightarrow> new_audit_record \<Rightarrow> audit_record" where
  "new_record sha plane sq e previous n =
     (let r = \<lparr>a_sequence = sq, a_epoch = e, a_id = n_id n, a_at = n_at n, a_plane = plane,
               a_actor = n_actor n, a_target_kind = n_target_kind n,
               a_target_reference = target_reference sha plane (n_target_kind n) (n_target_id n),
               a_target_id = n_target_id n, a_decision = n_decision n, a_risk = n_risk n,
               a_outcome = n_outcome n, a_hash = replicate 32 0\<rparr>
      in r\<lparr>a_hash := chain_link sha previous r\<rparr>)"

text \<open>The head to write beside the store once the transaction commits, and that write.\<close>

definition publish_audit_head :: "audit_head \<Rightarrow> audit \<Rightarrow> audit" where
  "publish_audit_head h A = A\<lparr>au_pending := Some h\<rparr>"

definition write_audit_head :: "audit_head \<Rightarrow> audit \<Rightarrow> audit" where
  "write_audit_head h A = A\<lparr>au_head := Some h\<rparr>"

definition commit_audit :: "audit \<Rightarrow> audit" where
  "commit_audit A =
     (case au_pending A of
        None \<Rightarrow> A
      | Some h \<Rightarrow> write_audit_head h (A\<lparr>au_pending := None\<rparr>))"

text \<open>A decision: its row, and then the head that names it.\<close>

definition append_row ::
    "(bytes \<Rightarrow> bytes) \<Rightarrow> new_audit_record \<Rightarrow> audit \<Rightarrow> store_error + (audit \<times> audit_record)" where
  "append_row sha n A =
     rbind (current_audit_epoch (n_at n) A) (\<lambda>(A1, e).
       let previous = (case audit_tip A1 of
                         Some t \<Rightarrow> if h_epoch t = er_epoch e then h_hash t else genesis sha (au_plane A1) e
                       | None \<Rightarrow> genesis sha (au_plane A1) e);
           sq = au_next A1;
           r = new_record sha (au_plane A1) sq (er_epoch e) previous n
       in rbind (counter_column sq) (\<lambda>_.
            Inr (A1\<lparr>au_next := sq + 1, au_rows := au_rows A1 @ [r]\<rparr>, r)))"

definition append_audit_record ::
    "(bytes \<Rightarrow> bytes) \<Rightarrow> new_audit_record \<Rightarrow> audit \<Rightarrow> store_error + (audit \<times> audit_record)" where
  "append_audit_record sha n A =
     rbind (append_row sha n A) (\<lambda>(A', r). Inr (publish_audit_head (head_of r) A', r))"

definition reserve_audit_positions_through :: "nat \<Rightarrow> audit \<Rightarrow> store_error + audit" where
  "reserve_audit_positions_through sq A =
     rbind (counter_column (min (sq + 1) (2 ^ 64 - 1))) (\<lambda>next.
       Inr (A\<lparr>au_next := max (au_next A) next\<rparr>))"

definition begin_epoch ::
    "(bytes \<Rightarrow> bytes) \<Rightarrow> audit_gap \<Rightarrow> int \<Rightarrow> audit \<Rightarrow> store_error + (audit \<times> audit_head)" where
  "begin_epoch sha gap started A =
     (let e = (case newest_audit_epoch A of None \<Rightarrow> 1 | Some n \<Rightarrow> min (er_epoch n + 1) (2 ^ 64 - 1))
      in rbind (reserve_audit_positions_through (g_sequence gap) A) (\<lambda>A1.
         rbind (insert_audit_epoch e started (Some gap) A1) (\<lambda>(A2, row).
           Inr (A2, \<lparr>h_epoch = e,
                     h_sequence = (case er_preceding row of None \<Rightarrow> 0 | Some g \<Rightarrow> g_sequence g),
                     h_hash = genesis sha (au_plane A2) row\<rparr>))))"

definition begin_audit_epoch ::
    "(bytes \<Rightarrow> bytes) \<Rightarrow> audit_gap \<Rightarrow> int \<Rightarrow> audit \<Rightarrow> store_error + (audit \<times> nat)" where
  "begin_audit_epoch sha gap started A =
     rbind (begin_epoch sha gap started A) (\<lambda>(A', h). Inr (publish_audit_head h A', h_epoch h))"

section \<open>Retention and anonymization\<close>

definition prune_eligible :: "audit_head \<Rightarrow> int \<Rightarrow> audit_record list \<Rightarrow> audit_record list" where
  "prune_eligible head cutoff rows =
     (let keep = h_sequence head;
          bound = (case filter (\<lambda>r. a_sequence r < keep \<and> a_at r \<ge> cutoff) rows of
                     [] \<Rightarrow> keep
                   | r # _ \<Rightarrow> a_sequence r)
      in take AUDIT_RETENTION_BATCH_LIMIT
           (filter (\<lambda>r. a_sequence r < keep \<and> a_at r < cutoff \<and> a_sequence r < bound) rows))"

definition prune_batch :: "audit_head \<Rightarrow> int \<Rightarrow> audit \<Rightarrow> audit \<times> nat" where
  "prune_batch head cutoff A =
     (case prune_eligible head cutoff (au_rows A) of
        [] \<Rightarrow> (A, 0)
      | r # rs \<Rightarrow>
          (let l = last (r # rs);
               kept = filter (\<lambda>x. a_sequence l < a_sequence x) (au_rows A)
           in (A\<lparr>au_rows := kept, au_anchor := Some (head_of l)\<rparr>, length (au_rows A) - length kept)))"

definition prune_audit :: "audit_head \<Rightarrow> int \<Rightarrow> audit \<Rightarrow> store_error + (audit \<times> nat)" where
  "prune_audit head cutoff A =
     rbind (counter_column (h_sequence head)) (\<lambda>_. Inr (prune_batch head cutoff A))"

definition anonymize_audit_target ::
    "(bytes \<Rightarrow> bytes) \<Rightarrow> bytes \<Rightarrow> bytes \<Rightarrow> audit \<Rightarrow> audit" where
  "anonymize_audit_target sha kind tid A =
     (let ref = target_reference sha (au_plane A) kind (Some tid)
      in A\<lparr>au_rows := map (\<lambda>r. if a_target_reference r = ref then r\<lparr>a_target_id := None\<rparr> else r)
                       (au_rows A)\<rparr>)"

section \<open>Validation\<close>

datatype audit_breach =
    HeadMissing | HeadNotInStore | HeadDiverged | RecordAltered nat | TargetAltered nat

datatype audit_integrity =
    Verified "audit_head option"
  | IntegrityFailed audit_breach nat "audit_head option" nat

datatype head_match = MatchPending | Matched | Diverged

record fold_state =
  f_head :: "audit_head option"
  f_epoch :: nat
  f_sequence :: nat
  f_link :: bytes
  f_match :: head_match

definition match_head :: "fold_state \<Rightarrow> fold_state" where
  "match_head f =
     (case f_head f of
        None \<Rightarrow> f
      | Some h \<Rightarrow>
          if h_epoch h = f_epoch f \<and> h_sequence h = f_sequence f
          then f\<lparr>f_match := (if h_hash h = f_link f then Matched else Diverged)\<rparr>
          else f)"

definition fold_origin :: "(bytes \<Rightarrow> bytes) \<Rightarrow> epoch_row \<Rightarrow> audit \<Rightarrow> nat \<times> bytes" where
  "fold_origin sha e A =
     (case au_anchor A of
        Some a \<Rightarrow>
          if h_epoch a = er_epoch e then (h_sequence a, h_hash a)
          else ((case er_preceding e of None \<Rightarrow> 0 | Some g \<Rightarrow> g_sequence g), genesis sha (au_plane A) e)
      | None \<Rightarrow> ((case er_preceding e of None \<Rightarrow> 0 | Some g \<Rightarrow> g_sequence g), genesis sha (au_plane A) e))"

definition fold_start :: "(bytes \<Rightarrow> bytes) \<Rightarrow> epoch_row \<Rightarrow> audit_head option \<Rightarrow> audit \<Rightarrow> fold_state" where
  "fold_start sha e head A =
     match_head \<lparr>f_head = head, f_epoch = er_epoch e, f_sequence = fst (fold_origin sha e A),
                 f_link = snd (fold_origin sha e A), f_match = MatchPending\<rparr>"

definition fold_advance :: "(bytes \<Rightarrow> bytes) \<Rightarrow> fold_state \<Rightarrow> audit_record \<Rightarrow> audit_breach + fold_state" where
  "fold_advance sha f r =
     (if \<not> target_matches_reference sha r then Inl (TargetAltered (a_sequence r))
      else if chain_link sha (f_link f) r \<noteq> a_hash r then Inl (RecordAltered (a_sequence r))
      else Inr (match_head (f\<lparr>f_sequence := a_sequence r, f_link := a_hash r\<rparr>)))"

fun fold_page :: "(bytes \<Rightarrow> bytes) \<Rightarrow> fold_state \<Rightarrow> audit_record list \<Rightarrow> audit_breach + fold_state" where
  "fold_page sha f [] = Inr f"
| "fold_page sha f (r # rs) = rbind (fold_advance sha f r) (\<lambda>f'. fold_page sha f' rs)"

definition audit_epoch_page :: "nat \<Rightarrow> nat \<Rightarrow> nat \<Rightarrow> audit_record list \<Rightarrow> audit_record list" where
  "audit_epoch_page e after limit rows =
     take (min limit AUDIT_PAGE_LIMIT) (filter (\<lambda>r. a_epoch r = e \<and> after < a_sequence r) rows)"

definition fold_finish :: "fold_state \<Rightarrow> nat \<Rightarrow> nat \<Rightarrow> audit_integrity" where
  "fold_finish f e store_sequence =
     (case f_head f of
        None \<Rightarrow>
          if f_sequence f = 0 then Verified None
          else IntegrityFailed HeadMissing e None store_sequence
      | Some h \<Rightarrow>
          (case f_match f of
             Matched \<Rightarrow> Verified (Some \<lparr>h_epoch = e, h_sequence = f_sequence f, h_hash = f_link f\<rparr>)
           | Diverged \<Rightarrow> IntegrityFailed HeadDiverged e (Some h) store_sequence
           | MatchPending \<Rightarrow> IntegrityFailed HeadNotInStore e (Some h) store_sequence))"

lemma match_head_frame [simp]:
  "f_sequence (match_head f) = f_sequence f" "f_link (match_head f) = f_link f"
  "f_epoch (match_head f) = f_epoch f" "f_head (match_head f) = f_head f"
  by (simp_all add: match_head_def split: option.split)

lemma fold_page_sequence:
  "fold_page sha f rs = Inr f' \<Longrightarrow> rs \<noteq> [] \<Longrightarrow> f_sequence f' = a_sequence (last rs)"
proof (induction rs arbitrary: f)
  case (Cons r rs)
  then obtain f1 where f1: "fold_advance sha f r = Inr f1" "fold_page sha f1 rs = Inr f'"
    by (auto simp: rbind_Inr_iff)
  then have "f_sequence f1 = a_sequence r" by (auto simp: fold_advance_def split: if_splits)
  then show ?case using Cons.IH [OF f1(2)] f1(2) by (cases rs) auto
qed simp

lemma audit_epoch_page_in:
  "r \<in> set (audit_epoch_page e after limit rows) \<Longrightarrow> r \<in> set rows \<and> a_epoch r = e \<and> after < a_sequence r"
  by (auto simp: audit_epoch_page_def dest: in_set_takeD)

text \<open>The page loop; every page moves past at least one more record.\<close>

function validate_pages ::
    "(bytes \<Rightarrow> bytes) \<Rightarrow> nat \<Rightarrow> audit_record list \<Rightarrow> fold_state \<Rightarrow> audit_breach + fold_state" where
  "validate_pages sha e rows f =
     (let page = audit_epoch_page e (f_sequence f) AUDIT_PAGE_LIMIT rows
      in if page = [] then Inr f
         else
           (case fold_page sha f page of
              Inl b \<Rightarrow> Inl b
            | Inr f' \<Rightarrow> validate_pages sha e rows f'))"
  by pat_completeness auto
termination
proof (relation "measure (\<lambda>(sha, e, rows, f). length (filter (\<lambda>r. f_sequence f < a_sequence r) rows))",
    goal_cases)
  case 1
  then show ?case by simp
next
  case (2 sha e rows f page f')
  have l: "last page \<in> set rows" "f_sequence f < a_sequence (last page)"
    using 2(1,2) audit_epoch_page_in [of "last page" e "f_sequence f"] last_in_set by metis+
  have s: "f_sequence f' = a_sequence (last page)" using fold_page_sequence 2(2,3) by blast
  have "filter (\<lambda>r. f_sequence f' < a_sequence r) rows
      = filter (\<lambda>r. f_sequence f' < a_sequence r) (filter (\<lambda>r. f_sequence f < a_sequence r) rows)"
    using s l by (auto intro!: filter_cong)
  also have "length \<dots> < length (filter (\<lambda>r. f_sequence f < a_sequence r) rows)"
    using l s by (intro length_filter_less [of "last page"]) auto
  finally show ?case by simp
qed

declare validate_pages.simps [simp del]

definition validate :: "(bytes \<Rightarrow> bytes) \<Rightarrow> audit_head option \<Rightarrow> audit \<Rightarrow> audit_integrity" where
  "validate sha head A =
     (case newest_audit_epoch A of
        None \<Rightarrow>
          (case head of
             None \<Rightarrow> Verified None
           | Some h \<Rightarrow> IntegrityFailed HeadNotInStore 0 (Some h) (audit_cursor A))
      | Some e \<Rightarrow>
          (case validate_pages sha (er_epoch e) (au_rows A) (fold_start sha e head A) of
             Inl b \<Rightarrow> IntegrityFailed b (er_epoch e) head (audit_cursor A)
           | Inr f \<Rightarrow> fold_finish f (er_epoch e) (audit_cursor A)))"

definition validate_audit :: "(bytes \<Rightarrow> bytes) \<Rightarrow> audit \<Rightarrow> audit \<times> audit_integrity" where
  "validate_audit sha A =
     (let i = validate sha (au_head A) A
      in (case i of
            Verified (Some h) \<Rightarrow> if Some h \<noteq> au_head A then write_audit_head h A else A
          | _ \<Rightarrow> A, i))"

text \<open>Retention repeats in bounded batches until nothing is left to remove.\<close>

lemma prune_eligible_in:
  "r \<in> set (prune_eligible h cutoff rows) \<Longrightarrow> r \<in> set rows \<and> a_sequence r < h_sequence h \<and> a_at r < cutoff"
  by (auto simp: prune_eligible_def Let_def dest: in_set_takeD)

lemma prune_batch_shorter:
  assumes "prune_batch h cutoff A = (A', n)" and "n \<noteq> 0"
  shows "length (au_rows A') < length (au_rows A)"
  using assms by (auto simp: prune_batch_def Let_def split: list.splits)

lemma prune_audit_Inr: "prune_audit h cutoff A = Inr p \<Longrightarrow> prune_batch h cutoff A = p"
  by (auto simp: prune_audit_def rbind_Inr_iff)

function prune_loop :: "audit_head \<Rightarrow> int \<Rightarrow> audit \<Rightarrow> store_error + (audit \<times> nat)" where
  "prune_loop head cutoff A =
     (case prune_audit head cutoff A of
        Inl e \<Rightarrow> Inl e
      | Inr (A', n) \<Rightarrow>
          if n = 0 then Inr (A', 0)
          else rbind (prune_loop head cutoff A') (\<lambda>(A'', k). Inr (A'', n + k)))"
  by pat_completeness auto
termination
  by (relation "measure (\<lambda>(h, cutoff, A). length (au_rows A))")
    (auto dest: prune_batch_shorter [OF prune_audit_Inr])

declare prune_loop.simps [simp del]

definition prune_audit_before :: "int \<Rightarrow> audit \<Rightarrow> store_error + (audit \<times> nat)" where
  "prune_audit_before cutoff A =
     (case au_head A of None \<Rightarrow> Inr (A, 0) | Some h \<Rightarrow> prune_loop h cutoff A)"

section \<open>Folding a chain\<close>

definition arow :: "audit_record \<Rightarrow> audit_record \<Rightarrow> bool" where
  "arow a b \<longleftrightarrow> a_sequence a < a_sequence b \<and> a_epoch a \<le> a_epoch b"

fun chained :: "(bytes \<Rightarrow> bytes) \<Rightarrow> bytes \<Rightarrow> audit_record list \<Rightarrow> bool" where
  "chained sha l [] \<longleftrightarrow> True"
| "chained sha l (r # rs) \<longleftrightarrow>
     target_matches_reference sha r \<and> chain_link sha l r = a_hash r \<and> chained sha (a_hash r) rs"

definition last_link :: "bytes \<Rightarrow> audit_record list \<Rightarrow> bytes" where
  "last_link l rs = (if rs = [] then l else a_hash (last rs))"

definition last_position :: "nat \<Rightarrow> audit_record list \<Rightarrow> nat" where
  "last_position s rs = (if rs = [] then s else a_sequence (last rs))"

lemma last_link_simps [simp]: "last_link l [] = l" "last_link l (rs @ [r]) = a_hash r"
  by (simp_all add: last_link_def)

lemma chained_append:
  "chained sha l (a @ b) \<longleftrightarrow> chained sha l a \<and> chained sha (last_link l a) b"
  by (induction a arbitrary: l) (auto simp: last_link_def)

lemma sorted_arow_epoch:
  "sorted_wrt arow xs \<Longrightarrow> a \<in> set xs \<Longrightarrow> b \<in> set xs \<Longrightarrow> a_sequence a < a_sequence b \<Longrightarrow> a_epoch a \<le> a_epoch b"
  by (induction xs) (auto simp: arow_def)

lemma sorted_arow_seq_inj:
  "sorted_wrt arow xs \<Longrightarrow> a \<in> set xs \<Longrightarrow> b \<in> set xs \<Longrightarrow> a_sequence a = a_sequence b \<Longrightarrow> a = b"
  by (induction xs) (auto simp: arow_def)

lemma sorted_arow_last: "sorted_wrt arow xs \<Longrightarrow> a \<in> set xs \<Longrightarrow> a_sequence a \<le> a_sequence (last xs)"
  by (induction xs) (auto simp: arow_def intro: less_imp_le)

lemma filter_after_take:
  assumes "sorted_wrt arow xs" and "take n xs \<noteq> []"
  shows "filter (\<lambda>r. a_sequence (last (take n xs)) < a_sequence r) xs = drop n xs"
proof -
  have s: "sorted_wrt arow (take n xs @ drop n xs)" using assms(1) by simp
  have "filter (\<lambda>r. a_sequence (last (take n xs)) < a_sequence r) (take n xs) = []"
    using sorted_arow_last [of "take n xs"] s by (auto simp: sorted_wrt_append filter_empty_conv not_less)
  moreover have "filter (\<lambda>r. a_sequence (last (take n xs)) < a_sequence r) (drop n xs) = drop n xs"
    using s last_in_set [OF assms(2)] unfolding sorted_wrt_append
    by (intro filter_True ballI) (metis arow_def)
  ultimately show ?thesis by (metis append_Nil append_take_drop_id filter_append)
qed

lemma fold_page_append:
  "fold_page sha f (a @ b) = rbind (fold_page sha f a) (\<lambda>f'. fold_page sha f' b)"
  by (induction a arbitrary: f) (simp_all add: rbind_assoc)

text \<open>Reading in pages is the same as one pass over the epoch.\<close>

lemma validate_pages_single_pass:
  "sorted_wrt arow rows \<Longrightarrow>
   validate_pages sha e rows f =
   fold_page sha f (filter (\<lambda>r. a_epoch r = e \<and> f_sequence f < a_sequence r) rows)"
proof (induction sha e rows f rule: validate_pages.induct)
  case (1 sha e rows f)
  let ?xs = "filter (\<lambda>r. a_epoch r = e \<and> f_sequence f < a_sequence r) rows"
  let ?page = "take AUDIT_PAGE_LIMIT ?xs"
  have page: "audit_epoch_page e (f_sequence f) AUDIT_PAGE_LIMIT rows = ?page"
    by (simp add: audit_epoch_page_def)
  show ?case
  proof (cases "?page = []")
    case True
    then have "?xs = []" by (auto simp: AUDIT_PAGE_LIMIT_def)
    with True show ?thesis
      by (subst validate_pages.simps) (simp add: page Let_def)
  next
    case False
    show ?thesis
    proof (cases "fold_page sha f ?page")
      case (Inl b)
      then have "fold_page sha f (?page @ drop AUDIT_PAGE_LIMIT ?xs) = Inl b"
        by (simp only: fold_page_append rbind_simps)
      then show ?thesis using False Inl
        by (subst validate_pages.simps) (simp add: page Let_def)
    next
      case (Inr f')
      have s: "f_sequence f' = a_sequence (last ?page)" using fold_page_sequence [OF Inr False] .
      have lt: "f_sequence f < a_sequence (last ?page)"
        using in_set_takeD [OF last_in_set [OF False]] by simp
      have "filter (\<lambda>r. a_epoch r = e \<and> f_sequence f' < a_sequence r) rows
          = filter (\<lambda>r. a_sequence (last ?page) < a_sequence r) ?xs"
        using lt by (auto simp: s intro!: filter_cong)
      also have "\<dots> = drop AUDIT_PAGE_LIMIT ?xs"
        by (rule filter_after_take [OF sorted_wrt_filter [OF 1(2)] False])
      finally have "validate_pages sha e rows f' = fold_page sha f' (drop AUDIT_PAGE_LIMIT ?xs)"
        using 1(1) [OF page [symmetric] False Inr 1(2)] by simp
      moreover have "fold_page sha f (?page @ drop AUDIT_PAGE_LIMIT ?xs) =
          fold_page sha f' (drop AUDIT_PAGE_LIMIT ?xs)"
        by (simp only: fold_page_append Inr rbind_simps)
      ultimately show ?thesis using False Inr
        by (subst validate_pages.simps) (simp add: page Let_def)
    qed
  qed
qed

lemma match_head_keeps:
  "f_head f = Some h \<Longrightarrow> h_sequence h < f_sequence f \<Longrightarrow> f_match (match_head f) = f_match f"
  by (simp add: match_head_def)

lemma fold_page_chained:
  "chained sha (f_link f) rs \<Longrightarrow>
   \<exists>f'. fold_page sha f rs = Inr f' \<and> f_link f' = last_link (f_link f) rs \<and>
     f_sequence f' = last_position (f_sequence f) rs \<and> f_head f' = f_head f \<and> f_epoch f' = f_epoch f"
proof (induction rs arbitrary: f)
  case (Cons r rs)
  let ?f = "match_head (f\<lparr>f_sequence := a_sequence r, f_link := a_hash r\<rparr>)"
  have "fold_advance sha f r = Inr ?f" using Cons.prems by (simp add: fold_advance_def)
  then show ?case
    using Cons.IH [of ?f] Cons.prems by (auto simp: last_link_def last_position_def)
qed (simp add: last_link_def last_position_def)

lemma fold_page_matched:
  "chained sha (f_link f) rs \<Longrightarrow> sorted_wrt arow rs \<Longrightarrow> f_head f = Some h \<Longrightarrow>
   \<forall>r \<in> set rs. a_epoch r = f_epoch f \<and> f_sequence f < a_sequence r \<Longrightarrow>
   (f_match f = Matched \<and> h_sequence h \<le> f_sequence f) \<or> (\<exists>r \<in> set rs. h = head_of r) \<Longrightarrow>
   fold_page sha f rs = Inr f' \<Longrightarrow> f_match f' = Matched"
proof (induction rs arbitrary: f)
  case (Cons r rs)
  let ?g = "f\<lparr>f_sequence := a_sequence r, f_link := a_hash r\<rparr>"
  have step: "fold_page sha (match_head ?g) rs = Inr f'"
    using Cons.prems(1,6) by (simp add: fold_advance_def)
  have ch: "chained sha (f_link (match_head ?g)) rs" using Cons.prems(1) by simp
  have later: "\<forall>x \<in> set rs. a_epoch x = f_epoch (match_head ?g) \<and> f_sequence (match_head ?g) < a_sequence x"
    using Cons.prems(2,4) by (auto simp: arow_def)
  have "(f_match (match_head ?g) = Matched \<and> h_sequence h \<le> f_sequence (match_head ?g)) \<or>
      (\<exists>r \<in> set rs. h = head_of r)"
  proof (cases "h = head_of r")
    case True
    then show ?thesis using Cons.prems(3,4) by (simp add: match_head_def head_of_def)
  next
    case False
    with Cons.prems(4,5) show ?thesis
      using match_head_keeps [of ?g h] Cons.prems(3) by auto
  qed
  then show ?case
    using Cons.IH [OF ch _ _ later _ step] Cons.prems(2,3) by simp
qed simp

section \<open>The invariant of an honest audit\<close>

definition epoch_rows :: "nat \<Rightarrow> audit \<Rightarrow> audit_record list" where
  "epoch_rows e A = filter (\<lambda>r. a_epoch r = e) (au_rows A)"

definition anchored :: "nat \<Rightarrow> audit \<Rightarrow> bool" where
  "anchored e A \<longleftrightarrow> (\<exists>a. au_anchor A = Some a \<and> h_epoch a = e)"

definition rows_inv :: "audit \<Rightarrow> bool" where
  "rows_inv A \<longleftrightarrow> sorted_wrt arow (au_rows A) \<and> (\<forall>r \<in> set (au_rows A). a_sequence r < au_next A) \<and> 0 < au_next A"

definition anchor_inv :: "nat \<Rightarrow> audit \<Rightarrow> bool" where
  "anchor_inv e A \<longleftrightarrow>
     (\<forall>a. au_anchor A = Some a \<longrightarrow> h_epoch a \<le> e \<and> h_sequence a < au_next A \<and>
        (\<forall>r \<in> set (au_rows A). h_epoch a \<le> a_epoch r \<and> h_sequence a < a_sequence r))"

definition head_inv :: "nat \<Rightarrow> nat \<Rightarrow> bytes \<Rightarrow> audit \<Rightarrow> bool" where
  "head_inv e s l A \<longleftrightarrow>
     (\<exists>h. au_head A = Some h \<and> h_epoch h = e \<and>
        (h_sequence h = s \<and> h_hash h = l \<and> \<not> anchored e A \<or> (\<exists>r \<in> set (epoch_rows e A). h = head_of r)))"

definition chain_inv :: "(bytes \<Rightarrow> bytes) \<Rightarrow> nat \<Rightarrow> nat \<Rightarrow> bytes \<Rightarrow> audit \<Rightarrow> bool" where
  "chain_inv sha e s l A \<longleftrightarrow>
     s < au_next A \<and> (\<forall>r \<in> set (au_rows A). a_epoch r \<le> e) \<and>
     (\<forall>r \<in> set (epoch_rows e A). s < a_sequence r) \<and> chained sha l (epoch_rows e A)"

definition audit_inv :: "(bytes \<Rightarrow> bytes) \<Rightarrow> audit \<Rightarrow> bool" where
  "audit_inv sha A \<longleftrightarrow>
     rows_inv A \<and>
     (case newest_audit_epoch A of
        None \<Rightarrow> au_rows A = [] \<and> au_anchor A = None \<and> au_head A = None
      | Some e \<Rightarrow>
          anchor_inv (er_epoch e) A \<and>
          (case fold_origin sha e A of (s, l) \<Rightarrow>
             chain_inv sha (er_epoch e) s l A \<and> head_inv (er_epoch e) s l A))"

lemma epoch_rows_sorted: "rows_inv A \<Longrightarrow> sorted_wrt arow (epoch_rows e A)"
  by (simp add: rows_inv_def epoch_rows_def sorted_wrt_filter)

lemma head_inv_anchored: "head_inv e s l A \<Longrightarrow> anchored e A \<Longrightarrow> epoch_rows e A \<noteq> []"
  by (auto simp: head_inv_def)

lemma fold_origin_cong:
  "au_plane A' = au_plane A \<Longrightarrow> au_anchor A' = au_anchor A \<Longrightarrow> fold_origin sha e A' = fold_origin sha e A"
  by (simp add: fold_origin_def split: option.split)

lemma fold_origin_unanchored:
  "\<not> anchored (er_epoch e) A \<Longrightarrow>
   fold_origin sha e A = ((case er_preceding e of None \<Rightarrow> 0 | Some g \<Rightarrow> g_sequence g), genesis sha (au_plane A) e)"
  by (auto simp: fold_origin_def anchored_def split: option.splits)

lemma write_frame [simp]:
  "au_rows (write_audit_head h A) = au_rows A" "au_head (write_audit_head h A) = Some h"
  "au_plane (write_audit_head h A) = au_plane A" "au_anchor (write_audit_head h A) = au_anchor A"
  "rows_inv (write_audit_head h A) = rows_inv A"
  "newest_audit_epoch (write_audit_head h A) = newest_audit_epoch A"
  "anchor_inv e (write_audit_head h A) = anchor_inv e A"
  "chain_inv sha e s l (write_audit_head h A) = chain_inv sha e s l A"
  "epoch_rows e (write_audit_head h A) = epoch_rows e A"
  "anchored e (write_audit_head h A) = anchored e A"
  "fold_origin sha r (write_audit_head h A) = fold_origin sha r A"
  by (simp_all add: write_audit_head_def rows_inv_def newest_audit_epoch_def anchor_inv_def chain_inv_def
      epoch_rows_def anchored_def fold_origin_def split: option.split)

text \<open>An honest audit validates, at the newest position it has reached.\<close>

definition reached :: "(bytes \<Rightarrow> bytes) \<Rightarrow> audit \<Rightarrow> audit_head option" where
  "reached sha A =
     map_option (\<lambda>e. \<lparr>h_epoch = er_epoch e,
         h_sequence = last_position (fst (fold_origin sha e A)) (epoch_rows (er_epoch e) A),
         h_hash = last_link (snd (fold_origin sha e A)) (epoch_rows (er_epoch e) A)\<rparr>)
       (newest_audit_epoch A)"

lemma audit_inv_validates:
  assumes "audit_inv sha A"
  shows "validate sha (au_head A) A = Verified (reached sha A)"
proof (cases "newest_audit_epoch A")
  case None
  then show ?thesis using assms by (simp add: audit_inv_def validate_def reached_def)
next
  case (Some e)
  obtain s l where o: "fold_origin sha e A = (s, l)" by fastforce
  let ?es = "epoch_rows (er_epoch e) A"
  have inv: "rows_inv A" "chain_inv sha (er_epoch e) s l A" "head_inv (er_epoch e) s l A"
    using assms Some o by (simp_all add: audit_inv_def)
  then obtain h where h: "au_head A = Some h" "h_epoch h = er_epoch e"
    "h_sequence h = s \<and> h_hash h = l \<or> (\<exists>r \<in> set ?es. h = head_of r)"
    by (auto simp: head_inv_def)
  let ?f = "fold_start sha e (au_head A) A"
  have f: "f_sequence ?f = s" "f_link ?f = l" "f_head ?f = Some h" "f_epoch ?f = er_epoch e"
    by (simp_all add: fold_start_def o h)
  have es: "filter (\<lambda>r. a_epoch r = er_epoch e \<and> f_sequence ?f < a_sequence r) (au_rows A) = ?es"
    using inv(2) f(1) by (auto simp: epoch_rows_def chain_inv_def intro!: filter_cong)
  have ch: "chained sha (f_link ?f) ?es" using inv(2) f by (simp add: chain_inv_def)
  from fold_page_chained [OF ch] obtain f' where f': "fold_page sha ?f ?es = Inr f'"
    "f_link f' = last_link l ?es" "f_sequence f' = last_position s ?es" "f_head f' = Some h"
    using f by auto
  have "f_match f' = Matched"
  proof (rule fold_page_matched [OF ch epoch_rows_sorted [OF inv(1)] f(3) _ _ f'(1)])
    show "\<forall>r \<in> set ?es. a_epoch r = f_epoch ?f \<and> f_sequence ?f < a_sequence r"
      using inv(2) f by (auto simp: chain_inv_def epoch_rows_def)
    show "(f_match ?f = Matched \<and> h_sequence h \<le> f_sequence ?f) \<or> (\<exists>r \<in> set ?es. h = head_of r)"
      using h f by (auto simp: fold_start_def match_head_def o)
  qed
  moreover have "validate_pages sha (er_epoch e) (au_rows A) ?f = Inr f'"
    using validate_pages_single_pass [of "au_rows A" sha "er_epoch e" ?f] inv(1) es f'(1)
    by (simp add: rows_inv_def)
  ultimately show ?thesis
    using Some f' o by (simp add: validate_def fold_finish_def reached_def)
qed

section \<open>Every operation keeps the audit honest\<close>

definition new_audit :: "bytes \<Rightarrow> audit" where
  "new_audit plane = \<lparr>au_plane = plane, au_epochs = [], au_rows = [], au_next = 1, au_anchor = None, au_head = None,
     au_pending = None\<rparr>"

lemma new_audit_inv: "audit_inv sha (new_audit plane)"
  by (simp add: audit_inv_def new_audit_def rows_inv_def newest_audit_epoch_def)

lemma new_record_sel [simp]:
  "a_sequence (new_record sha plane sq e p n) = sq" "a_epoch (new_record sha plane sq e p n) = e"
  by (simp_all add: new_record_def Let_def)

lemma new_record_links:
  "target_matches_reference sha (new_record sha plane sq e p n)"
  "chain_link sha p (new_record sha plane sq e p n) = a_hash (new_record sha plane sq e p n)"
  by (simp_all add: new_record_def Let_def target_matches_reference_def chain_link_def entry_preimage_def
      split: option.split)

lemma insert_audit_epoch_Inr:
  "insert_audit_epoch e t p A = Inr (A', row) \<Longrightarrow>
   A' = A\<lparr>au_epochs := au_epochs A @ [row]\<rparr> \<and> row = \<lparr>er_epoch = e, er_started = t, er_preceding = p\<rparr> \<and> e < 2 ^ 63"
  by (auto simp: insert_audit_epoch_def counter_column_def rbind_Inr_iff Let_def split: if_splits option.splits)

text \<open>The record an append adds, on the state with its epoch present.\<close>

lemma append_on_epoch:
  assumes "rows_inv A" and "newest_audit_epoch A = Some e" and "anchor_inv (er_epoch e) A"
    and o: "fold_origin sha e A = (s, l)" and "chain_inv sha (er_epoch e) s l A"
    and "anchored (er_epoch e) A \<Longrightarrow> epoch_rows (er_epoch e) A \<noteq> []"
    and "append_row sha n A = Inr (A', r)"
  shows "rows_inv A'" and "newest_audit_epoch A' = Some e" and "anchor_inv (er_epoch e) A'"
    and "fold_origin sha e A' = (s, l)" and "chain_inv sha (er_epoch e) s l A'"
    and "epoch_rows (er_epoch e) A' = epoch_rows (er_epoch e) A @ [r]"
    and "au_head A' = au_head A" and "au_anchor A' = au_anchor A" and "a_epoch r = er_epoch e"
proof -
  let ?e = "er_epoch e" and ?es = "epoch_rows (er_epoch e) A"
  let ?p = "case audit_tip A of Some t \<Rightarrow> if h_epoch t = ?e then h_hash t else genesis sha (au_plane A) e
            | None \<Rightarrow> genesis sha (au_plane A) e"
  have A': "A' = A\<lparr>au_next := au_next A + 1, au_rows := au_rows A @ [r]\<rparr>"
    and r: "r = new_record sha (au_plane A) (au_next A) ?e ?p n"
    using assms(2,7)
    by (auto simp: append_row_def current_audit_epoch_def rbind_Inr_iff Let_def)
  have "?p = last_link l ?es"
  proof (cases "au_rows A = []")
    case True
    then have "?es = []" by (simp add: epoch_rows_def)
    then have "l = genesis sha (au_plane A) e" using assms(6) o fold_origin_unanchored [of e A sha] by auto
    then show ?thesis using True \<open>?es = []\<close> by (simp add: audit_tip_def last_link_def)
  next
    case False
    let ?x = "last (au_rows A)"
    show ?thesis
    proof (cases "a_epoch ?x = ?e")
      case True
      have "?es = filter (\<lambda>r. a_epoch r = ?e) (butlast (au_rows A) @ [?x])"
        using False by (simp add: epoch_rows_def)
      then have "?es = filter (\<lambda>r. a_epoch r = ?e) (butlast (au_rows A)) @ [?x]"
        using True by simp
      then have "?es \<noteq> []" "last ?es = ?x" by simp_all
      then show ?thesis using False True by (simp add: audit_tip_def last_link_def Let_def)
    next
      case other: False
      have "\<forall>y \<in> set (au_rows A). a_epoch y \<noteq> ?e"
      proof
        fix y assume y: "y \<in> set (au_rows A)"
        have "a_epoch y \<le> a_epoch ?x"
          using assms(1) y False last_in_set [OF False] sorted_arow_last [of "au_rows A" y]
            sorted_arow_epoch [of "au_rows A" y ?x] sorted_arow_seq_inj [of "au_rows A" y ?x]
          by (cases "a_sequence y = a_sequence ?x") (auto simp: rows_inv_def)
        moreover have "a_epoch ?x \<le> ?e"
          using assms(5) last_in_set [OF False] by (auto simp: chain_inv_def)
        ultimately show "a_epoch y \<noteq> ?e" using other by simp
      qed
      then have "?es = []" by (simp add: epoch_rows_def filter_empty_conv)
      then have "l = genesis sha (au_plane A) e" using assms(6) o fold_origin_unanchored [of e A sha] by auto
      then show ?thesis using False other \<open>?es = []\<close> by (simp add: audit_tip_def last_link_def Let_def)
    qed
  qed
  note p = this
  show es: "epoch_rows ?e A' = ?es @ [r]" by (simp add: A' epoch_rows_def r)
  show "rows_inv A'" using assms(1,5) by (fastforce simp: A' rows_inv_def sorted_wrt_append arow_def r chain_inv_def)
  show "newest_audit_epoch A' = Some e" using assms(2) by (simp add: A' newest_audit_epoch_def split: if_splits)
  show "fold_origin sha e A' = (s, l)" using o fold_origin_cong [of A' A] by (simp add: A')
  show "au_head A' = au_head A" "au_anchor A' = au_anchor A" by (simp_all add: A')
  show "a_epoch r = ?e" by (simp add: r)
  have "chained sha l (?es @ [r])"
    using assms(5) p new_record_links(1) [of sha "au_plane A" "au_next A" ?e ?p n]
      new_record_links(2) [of sha ?p "au_plane A" "au_next A" ?e n]
    by (simp add: chained_append chain_inv_def r)
  then show "chain_inv sha ?e s l A'" using assms(5) es by (auto simp: chain_inv_def A' r)
  show "anchor_inv ?e A'"
    using assms(3) by (auto simp: anchor_inv_def A' r)
qed

text \<open>Appending to an honest audit, with its head published or (later than the first) lost.\<close>

lemma append_inv:
  assumes "audit_inv sha A" and "append_row sha n A = Inr (A', r)"
  shows "audit_inv sha (write_audit_head (head_of r) A')"
    and "au_head A \<noteq> None \<Longrightarrow> audit_inv sha A'"
proof -
  obtain A1 e where c: "current_audit_epoch (n_at n) A = Inr (A1, e)"
    and ap: "append_row sha n A1 = Inr (A', r)" and ne: "newest_audit_epoch A1 = Some e"
    and fresh: "newest_audit_epoch A = None \<longrightarrow>
      e = \<lparr>er_epoch = 1, er_started = n_at n, er_preceding = None\<rparr> \<and> A1 = A\<lparr>au_epochs := [e]\<rparr>"
    and old: "newest_audit_epoch A = Some e \<or> newest_audit_epoch A = None"
    and same: "newest_audit_epoch A \<noteq> None \<longrightarrow> A1 = A"
  proof (cases "newest_audit_epoch A")
    case (Some e)
    then show thesis using that [of A e] assms(2) by (simp add: current_audit_epoch_def)
  next
    case None
    let ?e = "\<lparr>er_epoch = 1, er_started = n_at n, er_preceding = None\<rparr>"
    have A: "au_epochs A = []" using None by (simp add: newest_audit_epoch_def split: if_splits)
    have c: "current_audit_epoch (n_at n) A = Inr (A\<lparr>au_epochs := [?e]\<rparr>, ?e)"
      using None A by (simp add: current_audit_epoch_def insert_audit_epoch_def counter_column_def Let_def)
    have "append_row sha n (A\<lparr>au_epochs := [?e]\<rparr>) = Inr (A', r)"
      using assms(2) c
      by (simp add: append_row_def current_audit_epoch_def newest_audit_epoch_def A)
    then show thesis using that [OF c] None by (simp add: newest_audit_epoch_def)
  qed
  obtain s l where o: "fold_origin sha e A1 = (s, l)" by fastforce
  have "rows_inv A1 \<and> anchor_inv (er_epoch e) A1 \<and> chain_inv sha (er_epoch e) s l A1 \<and>
    (anchored (er_epoch e) A1 \<longrightarrow> epoch_rows (er_epoch e) A1 \<noteq> []) \<and>
    (newest_audit_epoch A \<noteq> None \<longrightarrow> head_inv (er_epoch e) s l A1)"
  proof (cases "newest_audit_epoch A")
    case None
    then have A: "au_rows A = []" "au_anchor A = None" "rows_inv A" "er_preceding e = None" "er_epoch e = 1"
      using assms(1) fresh by (simp_all add: audit_inv_def)
    have A1: "A1 = A\<lparr>au_epochs := [e]\<rparr>" using None fresh by simp
    then show ?thesis
      using A o None
      by (auto simp: rows_inv_def anchor_inv_def chain_inv_def epoch_rows_def anchored_def fold_origin_def)
  next
    case (Some e')
    then have "A1 = A" "e' = e" using same old by auto
    then show ?thesis using assms(1) Some o head_inv_anchored by (auto simp: audit_inv_def)
  qed
  then have i: "rows_inv A1" "anchor_inv (er_epoch e) A1" "chain_inv sha (er_epoch e) s l A1"
    "anchored (er_epoch e) A1 \<Longrightarrow> epoch_rows (er_epoch e) A1 \<noteq> []"
    "newest_audit_epoch A \<noteq> None \<Longrightarrow> head_inv (er_epoch e) s l A1" by simp_all
  note ao = append_on_epoch [OF i(1) ne i(2) o i(3,4) ap]
  let ?P = "write_audit_head (head_of r) A'"
  have "head_inv (er_epoch e) s l ?P" using ao(6,9) by (simp add: head_inv_def) (simp add: head_of_def)
  then show "audit_inv sha ?P" using ao by (simp add: audit_inv_def)
  assume "au_head A \<noteq> None"
  then have "newest_audit_epoch A \<noteq> None" using assms(1) by (auto simp: audit_inv_def split: option.splits)
  then have "head_inv (er_epoch e) s l A1" by (rule i(5))
  then have "head_inv (er_epoch e) s l A'"
    using ao(6-8) by (auto simp: head_inv_def anchored_def)
  then show "audit_inv sha A'" using ao by (simp add: audit_inv_def)
qed

text \<open>
  A new epoch starts an honest chain on any store whose positions and epochs are in order,
  whatever its rows say and whatever head lies beside it.
\<close>

definition store_shape :: "audit \<Rightarrow> bool" where
  "store_shape A \<longleftrightarrow>
     rows_inv A \<and>
     (case newest_audit_epoch A of
        None \<Rightarrow> au_rows A = [] \<and> au_anchor A = None
      | Some e \<Rightarrow> anchor_inv (er_epoch e) A \<and> (\<forall>r \<in> set (au_rows A). a_epoch r \<le> er_epoch e))"

lemma audit_inv_shape: "audit_inv sha A \<Longrightarrow> store_shape A"
  by (auto simp: audit_inv_def store_shape_def chain_inv_def split: option.splits prod.splits)

lemma begin_epoch_shape:
  assumes "store_shape A" and "begin_epoch sha gap t A = Inr (A', h)"
  shows "audit_inv sha (write_audit_head h A')"
proof -
  let ?e = "case newest_audit_epoch A of None \<Rightarrow> 1 | Some n \<Rightarrow> min (er_epoch n + 1) (2 ^ 64 - 1)"
  obtain A1 row where A1: "reserve_audit_positions_through (g_sequence gap) A = Inr A1"
    and ins: "insert_audit_epoch ?e t (Some gap) A1 = Inr (A', row)"
    and h': "h = \<lparr>h_epoch = ?e, h_sequence = (case er_preceding row of None \<Rightarrow> 0 | Some g \<Rightarrow> g_sequence g),
      h_hash = genesis sha (au_plane A') row\<rparr>"
    using assms(2) by (auto simp: begin_epoch_def rbind_Inr_iff Let_def)
  have a1: "A1 = A\<lparr>au_next := max (au_next A) (g_sequence gap + 1)\<rparr>"
    using A1 by (auto simp: reserve_audit_positions_through_def counter_column_def rbind_Inr_iff min_def split: if_splits)
  have row: "A' = A1\<lparr>au_epochs := au_epochs A1 @ [row]\<rparr>"
    "row = \<lparr>er_epoch = ?e, er_started = t, er_preceding = Some gap\<rparr>" "?e < 2 ^ 63"
    using insert_audit_epoch_Inr [OF ins] by simp_all
  have h: "h = \<lparr>h_epoch = ?e, h_sequence = g_sequence gap, h_hash = genesis sha (au_plane A') row\<rparr>"
    by (simp add: h') (simp add: row(2))
  have older: "\<forall>r \<in> set (au_rows A). a_epoch r < ?e" "\<forall>a. au_anchor A = Some a \<longrightarrow> h_epoch a < ?e \<and>
      h_sequence a < au_next A \<and> (\<forall>r \<in> set (au_rows A). h_epoch a \<le> a_epoch r \<and> h_sequence a < a_sequence r)"
    using assms(1) row(3)
    by (auto simp: store_shape_def anchor_inv_def min_def split: option.splits if_splits)
  let ?P = "write_audit_head h A'"
  have ne: "newest_audit_epoch ?P = Some row" by (simp add: write_audit_head_def row(1) newest_audit_epoch_def)
  have na: "\<not> anchored (er_epoch row) ?P"
    using older(2) by (auto simp: anchored_def write_audit_head_def row a1)
  have o: "fold_origin sha row ?P = (g_sequence gap, genesis sha (au_plane A') row)"
    using fold_origin_unanchored [OF na, of sha] by (simp add: row(2))
  have es: "epoch_rows (er_epoch row) ?P = []"
    using older(1) by (auto simp: epoch_rows_def write_audit_head_def row a1 filter_empty_conv)
  have "rows_inv ?P"
    using assms(1) by (auto simp: store_shape_def rows_inv_def write_audit_head_def row(1) a1 max_def)
  moreover have "anchor_inv (er_epoch row) ?P"
    using older(2) by (fastforce simp: anchor_inv_def write_audit_head_def row a1)
  moreover have "chain_inv sha (er_epoch row) (g_sequence gap) (genesis sha (au_plane A') row) ?P"
    using older(1) es by (auto simp: chain_inv_def write_audit_head_def row a1 intro: less_imp_le)
  moreover have "head_inv (er_epoch row) (g_sequence gap) (genesis sha (au_plane A') row) ?P"
    using na by (simp add: head_inv_def h row(2))
  ultimately show ?thesis using ne o by (simp add: audit_inv_def)
qed

lemmas begin_epoch_inv = begin_epoch_shape [OF audit_inv_shape]

lemma sorted_split_at:
  assumes "sorted_wrt arow xs" and "x \<in> set xs"
  shows "\<exists>pre post. xs = pre @ x # post \<and> post = filter (\<lambda>r. a_sequence x < a_sequence r) xs"
proof -
  from split_list [OF assms(2)] obtain pre post where xs: "xs = pre @ x # post" by blast
  then have "filter (\<lambda>r. a_sequence x < a_sequence r) pre = []"
    "filter (\<lambda>r. a_sequence x < a_sequence r) post = post"
    using assms(1) by (auto simp: sorted_wrt_append arow_def filter_empty_conv filter_id_conv)
  then show ?thesis using xs by auto
qed

text \<open>Retention removes a prefix that ends before the head, and anchors the rest at its last link.\<close>

lemma prune_inv:
  assumes "audit_inv sha A" and "au_head A = Some h"
  shows "audit_inv sha (fst (prune_batch h cutoff A))"
proof (cases "prune_eligible h cutoff (au_rows A)")
  case Nil
  then show ?thesis using assms(1) by (simp add: prune_batch_def)
next
  case (Cons r0 rs)
  define x where "x = last (r0 # rs)"
  let ?A = "A\<lparr>au_rows := filter (\<lambda>y. a_sequence x < a_sequence y) (au_rows A), au_anchor := Some (head_of x)\<rparr>"
  have A': "fst (prune_batch h cutoff A) = ?A"
    by (simp add: prune_batch_def Cons Let_def x_def del: last.simps)
  have x: "x \<in> set (au_rows A)" "a_sequence x < h_sequence h"
    using prune_eligible_in [of x h cutoff "au_rows A"] Cons last_in_set [of "r0 # rs"] by (auto simp: x_def)
  obtain e where ne: "newest_audit_epoch A = Some e"
    using assms by (cases "newest_audit_epoch A") (auto simp: audit_inv_def)
  obtain s l where o: "fold_origin sha e A = (s, l)" by fastforce
  let ?e = "er_epoch e"
  have inv: "rows_inv A" "anchor_inv ?e A" "chain_inv sha ?e s l A" "head_inv ?e s l A"
    using assms(1) ne o by (simp_all add: audit_inv_def)
  have es: "epoch_rows ?e ?A = filter (\<lambda>y. a_sequence x < a_sequence y) (epoch_rows ?e A)"
    by (simp add: epoch_rows_def conj_commute)
  have ne': "newest_audit_epoch ?A = Some e" using ne by (simp add: newest_audit_epoch_def split: if_splits)
  have rows: "rows_inv ?A" using inv(1) by (simp add: rows_inv_def sorted_wrt_filter)
  have xe: "a_epoch x \<le> ?e" using inv(3) x(1) by (auto simp: chain_inv_def)
  have anc: "anchor_inv ?e ?A"
    using xe x(1) inv(1) sorted_arow_epoch [of "au_rows A" x]
    by (auto simp: anchor_inv_def rows_inv_def head_of_def)
  show ?thesis
  proof (cases "a_epoch x = ?e")
    case True
    have xes: "x \<in> set (epoch_rows ?e A)" using x(1) True by (simp add: epoch_rows_def)
    from sorted_split_at [OF epoch_rows_sorted [OF inv(1)] xes] obtain pre post where
      sp: "epoch_rows ?e A = pre @ x # post" "post = epoch_rows ?e ?A"
      unfolding es by blast
    have o': "fold_origin sha e ?A = (a_sequence x, a_hash x)" using True by (simp add: fold_origin_def head_of_def)
    have "chained sha (a_hash x) (epoch_rows ?e ?A)"
      using inv(3) sp by (simp add: chain_inv_def chained_append)
    moreover have "a_sequence x < au_next A" using inv(1) x(1) by (simp add: rows_inv_def)
    ultimately have ch: "chain_inv sha ?e (a_sequence x) (a_hash x) ?A"
      using inv(3) es by (auto simp: chain_inv_def)
    obtain y where y: "y \<in> set (epoch_rows ?e A)" "h = head_of y"
      using inv(3,4) assms(2) xes x(2) by (fastforce simp: head_inv_def chain_inv_def)
    then have "y \<in> set (epoch_rows ?e ?A)" using x(2) unfolding es by (simp add: head_of_def)
    then have "head_inv ?e (a_sequence x) (a_hash x) ?A"
      using assms(2) y by (auto simp: head_inv_def head_of_def epoch_rows_def)
    then show ?thesis using ne' rows anc o' ch by (simp add: audit_inv_def A')
  next
    case False
    have later: "a_sequence x < a_sequence y" if "y \<in> set (epoch_rows ?e A)" for y
    proof (rule ccontr)
      assume "\<not> a_sequence x < a_sequence y"
      moreover have y: "y \<in> set (au_rows A)" "a_epoch y = ?e" using that by (auto simp: epoch_rows_def)
      ultimately have "y = x \<or> a_epoch y \<le> a_epoch x"
        using inv(1) x(1) sorted_arow_epoch [of "au_rows A" y x] sorted_arow_seq_inj [of "au_rows A" y x]
        unfolding rows_inv_def by (metis linorder_neqE_nat)
      then show False using y False xe by auto
    qed
    then have es': "epoch_rows ?e ?A = epoch_rows ?e A" unfolding es by (intro filter_True) auto
    have na: "\<not> anchored ?e A" using inv(2) x(1) False xe by (force simp: anchored_def anchor_inv_def)
    have na': "\<not> anchored ?e ?A" using False by (simp add: anchored_def head_of_def)
    have o': "fold_origin sha e ?A = (s, l)"
      using fold_origin_unanchored [OF na, of sha] fold_origin_unanchored [OF na', of sha] o by simp
    have "chain_inv sha ?e s l ?A" using inv(3) es' by (auto simp: chain_inv_def)
    moreover have "head_inv ?e s l ?A" using inv(4) es' na' by (auto simp: head_inv_def)
    ultimately show ?thesis using ne' rows anc o' by (simp add: audit_inv_def A')
  qed
qed

lemma prune_head: "au_head (fst (prune_batch h cutoff A)) = au_head A"
  by (simp add: prune_batch_def Let_def split: list.split)

lemma prune_loop_inv:
  "audit_inv sha A \<Longrightarrow> au_head A = Some h \<Longrightarrow> prune_loop h cutoff A = Inr (B, k) \<Longrightarrow> audit_inv sha B"
proof (induction h cutoff A arbitrary: B k rule: prune_loop.induct)
  case (1 h cutoff A)
  obtain A' n where p: "prune_audit h cutoff A = Inr (A', n)"
    using 1(4) by (subst (asm) prune_loop.simps) (auto split: sum.splits)
  have inv: "audit_inv sha A'" "au_head A' = Some h"
    using prune_inv [OF 1(2,3), of cutoff] prune_head [of h cutoff A] 1(3) prune_audit_Inr [OF p] by simp_all
  show ?case
  proof (cases "n = 0")
    case True
    then show ?thesis using 1(4) inv p by (subst (asm) prune_loop.simps) simp
  next
    case False
    then obtain k' where "prune_loop h cutoff A' = Inr (B, k')"
      using 1(4) p by (subst (asm) prune_loop.simps) (auto simp: rbind_Inr_iff)
    then show ?thesis by (rule 1(1) [OF p refl False inv])
  qed
qed

lemma prune_audit_before_inv:
  "audit_inv sha A \<Longrightarrow> prune_audit_before cutoff A = Inr (B, k) \<Longrightarrow> audit_inv sha B"
  by (auto simp: prune_audit_before_def intro: prune_loop_inv split: option.splits)

text \<open>Clearing an identity changes no link.\<close>

definition forget :: "bytes \<Rightarrow> audit_record \<Rightarrow> audit_record" where
  "forget ref r = (if a_target_reference r = ref then r\<lparr>a_target_id := None\<rparr> else r)"

lemma forget_sel [simp]:
  "a_sequence (forget ref r) = a_sequence r" "a_epoch (forget ref r) = a_epoch r"
  "a_hash (forget ref r) = a_hash r" "head_of (forget ref r) = head_of r"
  by (simp_all add: forget_def head_of_def)

lemma forget_links:
  "chain_link sha l (forget ref r) = chain_link sha l r"
  "target_matches_reference sha r \<Longrightarrow> target_matches_reference sha (forget ref r)"
  by (auto simp: forget_def chain_link_def entry_preimage_def target_matches_reference_def)

lemma chained_forget: "chained sha l rs \<Longrightarrow> chained sha l (map (forget ref) rs)"
  by (induction rs arbitrary: l) (auto simp: forget_links)

lemma anonymize_inv:
  assumes "audit_inv sha A"
  shows "audit_inv sha (anonymize_audit_target sha kind tid A)"
proof -
  define ref where "ref = target_reference sha (au_plane A) kind (Some tid)"
  let ?A = "anonymize_audit_target sha kind tid A"
  have A': "?A = A\<lparr>au_rows := map (forget ref) (au_rows A)\<rparr>"
    by (simp add: anonymize_audit_target_def ref_def forget_def Let_def)
  have es: "epoch_rows e ?A = map (forget ref) (epoch_rows e A)" for e
    by (simp add: A' epoch_rows_def filter_map comp_def)
  have f: "newest_audit_epoch ?A = newest_audit_epoch A" "fold_origin sha e ?A = fold_origin sha e A"
    "anchored k ?A = anchored k A" for e k
    using fold_origin_cong [of ?A A] by (simp_all add: A' newest_audit_epoch_def anchored_def)
  have "sorted_wrt arow (au_rows A) \<Longrightarrow> sorted_wrt arow (au_rows ?A)"
    unfolding A' by (simp add: sorted_wrt_map) (simp add: arow_def [abs_def])
  then have "rows_inv ?A" using assms by (auto simp: audit_inv_def rows_inv_def) (auto simp: A')
  moreover have "anchor_inv e A \<Longrightarrow> anchor_inv e ?A" for e by (auto simp: anchor_inv_def A')
  moreover have "chain_inv sha e s l A \<Longrightarrow> chain_inv sha e s l ?A" for e s l
    using es chained_forget by (auto simp: chain_inv_def) (auto simp: A')
  moreover have "head_inv e s l A \<Longrightarrow> head_inv e s l ?A" for e s l
    using es f by (auto simp: head_inv_def) (auto simp: A')
  moreover have "au_rows A = [] \<Longrightarrow> au_rows ?A = []" "au_anchor ?A = au_anchor A" "au_head ?A = au_head A"
    by (simp_all add: A')
  ultimately show ?thesis
    using assms f by (auto simp: audit_inv_def split: option.splits)
qed

lemma validate_audit_inv:
  assumes "audit_inv sha A"
  shows "audit_inv sha (fst (validate_audit sha A))"
proof (cases "newest_audit_epoch A")
  case None
  then show ?thesis
    using audit_inv_validates [OF assms] assms by (simp add: validate_audit_def reached_def Let_def)
next
  case (Some e)
  obtain s l where o: "fold_origin sha e A = (s, l)" by fastforce
  let ?e = "er_epoch e" and ?es = "epoch_rows (er_epoch e) A"
  obtain h where h: "reached sha A = Some h" "h = \<lparr>h_epoch = ?e, h_sequence = last_position s ?es, h_hash = last_link l ?es\<rparr>"
    using Some o by (simp add: reached_def)
  have inv: "rows_inv A" "anchor_inv ?e A" "chain_inv sha ?e s l A" "head_inv ?e s l A"
    using assms Some o by (simp_all add: audit_inv_def)
  have "head_inv ?e s l (write_audit_head h A)"
  proof (cases "?es = []")
    case True
    then show ?thesis using inv(4) h head_inv_anchored
      by (auto simp: head_inv_def last_position_def last_link_def)
  next
    case False
    then have "h = head_of (last ?es)" "last ?es \<in> set ?es"
      using h last_in_set [OF False] by (auto simp: last_position_def last_link_def head_of_def epoch_rows_def)
    moreover have "h_epoch h = ?e" using h(2) by simp
    ultimately show ?thesis by (auto simp: head_inv_def)
  qed
  then have "audit_inv sha (write_audit_head h A)" using inv Some o by (simp add: audit_inv_def)
  then show ?thesis
    using audit_inv_validates [OF assms] h assms by (simp add: validate_audit_def Let_def)
qed

section \<open>Histories of a Plane\<close>

lemma unpublished_frame [simp]:
  "audit_inv sha (A\<lparr>au_pending := p\<rparr>) = audit_inv sha A"
  "au_head (A\<lparr>au_pending := p\<rparr>) = au_head A"
  by (auto simp: audit_inv_def rows_inv_def newest_audit_epoch_def anchor_inv_def chain_inv_def head_inv_def
      epoch_rows_def anchored_def fold_origin_def split: option.splits)

lemma commit_published:
  "commit_audit (publish_audit_head h A) = (write_audit_head h A)\<lparr>au_pending := None\<rparr>"
  by (simp add: commit_audit_def publish_audit_head_def write_audit_head_def)

lemma append_record_inv:
  assumes "audit_inv sha A" and "append_audit_record sha n A = Inr (A', r)"
  shows "audit_inv sha (commit_audit A')" and "au_head A = Some h \<Longrightarrow> audit_inv sha A'"
proof -
  obtain B where B: "append_row sha n A = Inr (B, r)" "A' = publish_audit_head (head_of r) B"
    using assms(2) by (auto simp: append_audit_record_def rbind_Inr_iff)
  show "audit_inv sha (commit_audit A')" using append_inv(1) [OF assms(1) B(1)] by (simp add: B(2) commit_published)
  show "au_head A = Some h \<Longrightarrow> audit_inv sha A'"
    using append_inv(2) [OF assms(1) B(1)] by (simp add: B(2) publish_audit_head_def)
qed

lemma begin_audit_epoch_inv:
  assumes "audit_inv sha A" and "begin_audit_epoch sha gap t A = Inr (A', e)"
  shows "audit_inv sha (commit_audit A')"
proof -
  obtain B h where B: "begin_epoch sha gap t A = Inr (B, h)" "A' = publish_audit_head h B"
    using assms(2) by (auto simp: begin_audit_epoch_def rbind_Inr_iff)
  show ?thesis using begin_epoch_inv [OF assms(1) B(1)] by (simp add: B(2) commit_published)
qed

text \<open>
  What Jet itself does to its audit, including a crash after the commit of a decision and
  before the write of its head (\<open>lost\<close>). Two crashes are left out because validation does not repair them: the
  loss of the first head of a Plane (\<open>lost_first_head\<close>) and of the head of a new epoch (\<open>lost_epoch_head\<close>).
\<close>

inductive audit_history :: "(bytes \<Rightarrow> bytes) \<Rightarrow> bytes \<Rightarrow> audit \<Rightarrow> bool" for sha plane where
  start: "audit_history sha plane (new_audit plane)"
| append: "audit_history sha plane A \<Longrightarrow> append_audit_record sha n A = Inr (A', r) \<Longrightarrow>
    audit_history sha plane (commit_audit A')"
| lost: "audit_history sha plane A \<Longrightarrow> au_head A \<noteq> None \<Longrightarrow> append_audit_record sha n A = Inr (A', r) \<Longrightarrow>
    audit_history sha plane (A'\<lparr>au_pending := None\<rparr>)"
| epoch: "audit_history sha plane A \<Longrightarrow> begin_audit_epoch sha gap t A = Inr (A', e) \<Longrightarrow>
    audit_history sha plane (commit_audit A')"
| retention: "audit_history sha plane A \<Longrightarrow> prune_audit_before cutoff A = Inr (A', k) \<Longrightarrow>
    audit_history sha plane A'"
| anonymize: "audit_history sha plane A \<Longrightarrow> audit_history sha plane (anonymize_audit_target sha kind tid A)"
| validated: "audit_history sha plane A \<Longrightarrow> audit_history sha plane (fst (validate_audit sha A))"

lemma audit_history_inv: "audit_history sha plane A \<Longrightarrow> audit_inv sha A"
  by (induction rule: audit_history.induct)
    (auto intro: new_audit_inv append_record_inv begin_audit_epoch_inv prune_audit_before_inv anonymize_inv
      validate_audit_inv)

section \<open>What an altered history costs\<close>

lemma append_eq_len: "length a = length b \<Longrightarrow> a @ x = b @ y \<longleftrightarrow> a = b \<and> x = y"
  by (rule append_eq_append_conv) simp

lemma field_bytes_inj:
  assumes "length a < 2 ^ 64" and "length b < 2 ^ 64" and "field_bytes a @ x = field_bytes b @ y"
  shows "a = b \<and> x = y"
proof -
  have eq: "be_bytes 8 (min (length a) (2 ^ 64 - 1)) = be_bytes 8 (min (length b) (2 ^ 64 - 1))"
    "a @ x = b @ y"
    using assms(3) by (simp_all add: field_bytes_def append_eq_len)
  have "min (length a) (2 ^ 64 - 1) = length a" "min (length b) (2 ^ 64 - 1) = length b"
    using assms(1,2) by simp_all
  then have "length a = length b" using be_bytes_inj [OF eq(1)] assms(1,2) by simp
  then show ?thesis using eq(2) by simp
qed

lemma i64_be_inj:
  assumes "- (2 ^ 63) \<le> s" "s < 2 ^ 63" "- (2 ^ 63) \<le> t" "t < 2 ^ 63" and "i64_be s = i64_be t"
  shows "s = t"
proof -
  have "nat (s mod 2 ^ 64) = nat (t mod 2 ^ 64)"
    by (rule be_bytes_inj [of 8]) (use assms(5) in \<open>simp_all add: i64_be_def nat_less_iff\<close>)
  then have "s mod 2 ^ 64 = t mod 2 ^ 64" by (simp add: nat_eq_iff)
  then have "(2 ^ 64 :: int) dvd s - t" by (simp add: mod_eq_dvd_iff)
  moreover have "\<bar>s - t\<bar> < 2 ^ 64" using assms(1-4) by simp
  ultimately show ?thesis using dvd_imp_le_int [of "s - t" "2 ^ 64"] by fastforce
qed

text \<open>The widths a stored record has: SQLite columns and 32-byte digests.\<close>

definition record_widths :: "audit_record \<Rightarrow> bool" where
  "record_widths r \<longleftrightarrow>
     a_sequence r < 2 ^ 63 \<and> a_epoch r < 2 ^ 63 \<and> - (2 ^ 63) \<le> a_at r \<and> a_at r < 2 ^ 63 \<and>
     length (a_id r) < 2 ^ 64 \<and> length (a_plane r) < 2 ^ 64 \<and> length (snd (actor_columns (a_actor r))) < 2 ^ 64 \<and>
     length (a_target_kind r) < 2 ^ 64 \<and> length (a_target_reference r) = 32 \<and> length (a_decision r) < 2 ^ 64"

text \<open>What the chain covers of a record.\<close>

definition covered :: "audit_record \<Rightarrow> audit_record" where
  "covered r = r\<lparr>a_target_id := None, a_hash := []\<rparr>"

lemma short_texts [simp]:
  "length (risk_str k) < 2 ^ 64" "length (outcome_str c) < 2 ^ 64" "length (fst (actor_columns a)) < 2 ^ 64"
  by (cases k; cases c; cases a; simp add: text_bytes_def)+

lemma risk_str_inj: "risk_str a = risk_str b \<Longrightarrow> a = b"
  by (cases a; cases b; simp add: text_bytes_def)

lemma outcome_str_inj: "outcome_str a = outcome_str b \<Longrightarrow> a = b"
  by (cases a; cases b; simp add: text_bytes_def)

lemma actor_columns_inj: "actor_columns a = actor_columns b \<Longrightarrow> a = b"
  by (cases a; cases b; simp add: text_bytes_def)

text \<open>No two records, or links before them, share the bytes that are hashed.\<close>

lemma field_append_iff:
  "length a < 2 ^ 64 \<Longrightarrow> length b < 2 ^ 64 \<Longrightarrow> field_bytes a @ x = field_bytes b @ y \<longleftrightarrow> a = b \<and> x = y"
  using field_bytes_inj by blast

lemma field_eq_iff: "length a < 2 ^ 64 \<Longrightarrow> length b < 2 ^ 64 \<Longrightarrow> field_bytes a = field_bytes b \<longleftrightarrow> a = b"
  using field_append_iff [of a b "[]" "[]"] by simp

lemma length_i64_be [simp]: "length (i64_be t) = 8"
  by (simp add: i64_be_def)

lemma entry_preimage_inj:
  assumes w: "record_widths r" "record_widths r'" and p: "length p = 32" "length p' = 32"
    and eq: "entry_preimage p r = entry_preimage p' r'"
  shows "p = p' \<and> covered r = covered r'"
proof -
  note w' = w [unfolded record_widths_def]
  have e: "p = p'" "be_bytes 8 (a_sequence r) = be_bytes 8 (a_sequence r')"
    "be_bytes 8 (a_epoch r) = be_bytes 8 (a_epoch r')" "a_id r = a_id r'" "i64_be (a_at r) = i64_be (a_at r')"
    "a_plane r = a_plane r'" "fst (actor_columns (a_actor r)) = fst (actor_columns (a_actor r'))"
    "snd (actor_columns (a_actor r)) = snd (actor_columns (a_actor r'))" "a_target_kind r = a_target_kind r'"
    "a_target_reference r = a_target_reference r'" "a_decision r = a_decision r'"
    "risk_str (a_risk r) = risk_str (a_risk r')" "outcome_str (a_outcome r) = outcome_str (a_outcome r')"
    using eq w' p unfolding entry_preimage_def
    by (simp_all only: append_eq_len field_append_iff field_eq_iff short_texts length_be_bytes length_i64_be)
  have "a_sequence r = a_sequence r'" "a_epoch r = a_epoch r'"
    using be_bytes_inj [OF e(2)] be_bytes_inj [OF e(3)] w' by simp_all
  moreover have "a_at r = a_at r'" using i64_be_inj [OF _ _ _ _ e(5)] w' by simp
  moreover have "a_actor r = a_actor r'" using actor_columns_inj e(7,8) by (metis prod.expand)
  ultimately show ?thesis
    using e risk_str_inj [OF e(12)] outcome_str_inj [OF e(13)] by (simp add: covered_def)
qed

text \<open>What the links of a chain hash, from its genesis on; two chains clash when two of these inputs differ and hash alike.\<close>

fun chain_inputs :: "bytes \<Rightarrow> audit_record list \<Rightarrow> bytes list" where
  "chain_inputs l [] = []"
| "chain_inputs l (r # rs) = entry_preimage l r # chain_inputs (a_hash r) rs"

definition history_inputs :: "(bytes \<Rightarrow> bytes) \<Rightarrow> bytes \<Rightarrow> epoch_row \<Rightarrow> audit_record list \<Rightarrow> bytes list" where
  "history_inputs sha plane e rs = genesis_preimage plane e # chain_inputs (genesis sha plane e) rs"

definition inputs_clash :: "(bytes \<Rightarrow> bytes) \<Rightarrow> bytes list \<Rightarrow> bytes list \<Rightarrow> bool" where
  "inputs_clash sha xs ys \<longleftrightarrow> (\<exists>x\<in>set xs. \<exists>y\<in>set ys. x \<noteq> y \<and> sha x = sha y)"

lemma chain_inputs_snoc: "chain_inputs l (rs @ [r]) = chain_inputs l rs @ [entry_preimage (last_link l rs) r]"
proof (induction rs arbitrary: l)
  case (Cons x rs)
  then show ?case by (cases rs) (simp_all add: last_link_def)
qed (simp add: last_link_def)

lemma genesis_not_entry: "genesis_preimage plane e \<noteq> entry_preimage p r"
proof -
  have "take 18 (genesis_preimage plane e) = EPOCH_DOMAIN" "take 18 (entry_preimage p r) = ENTRY_DOMAIN"
    by (simp_all add: genesis_preimage_def entry_preimage_def EPOCH_DOMAIN_def ENTRY_DOMAIN_def text_bytes_def)
  moreover have "EPOCH_DOMAIN \<noteq> ENTRY_DOMAIN"
    by (simp add: EPOCH_DOMAIN_def ENTRY_DOMAIN_def text_bytes_def)
  ultimately show ?thesis by metis
qed

text \<open>
  Two chains from one genesis to one link agree on everything the chain covers, or a
  collision of the hash function can be read off them.
\<close>

lemma chained_last_link_length:
  "chained sha l rs \<Longrightarrow> (\<And>x. length (sha x) = 32) \<Longrightarrow> length l = 32 \<Longrightarrow> length (last_link l rs) = 32"
proof (induction rs arbitrary: l)
  case (Cons r rs)
  then have "length (a_hash r) = 32" by (metis chain_link_def chained.simps(2))
  then show ?case using Cons by (cases rs) (auto simp: last_link_def)
qed (simp add: last_link_def)

lemma chains_agree:
  fixes plane e
  assumes w: "\<And>x. length (sha x) = 32"
  defines "g \<equiv> genesis sha plane e"
  shows "\<not> inputs_clash sha (history_inputs sha plane e rs) (history_inputs sha plane e rs') \<Longrightarrow>
    chained sha g rs \<Longrightarrow> chained sha g rs' \<Longrightarrow> list_all record_widths rs \<Longrightarrow> list_all record_widths rs' \<Longrightarrow>
    last_link g rs = last_link g rs' \<Longrightarrow> map covered rs = map covered rs'"
proof (induction rs arbitrary: rs' rule: rev_induct)
  case Nil
  show ?case
  proof (cases rs' rule: rev_cases)
    case (snoc as a)
    then have "sha (entry_preimage (last_link g as) a) = a_hash a" "a_hash a = g"
      using Nil by (simp_all add: chained_append chain_link_def)
    then have "sha (genesis_preimage plane e) = sha (entry_preimage (last_link g as) a)"
      by (simp add: g_def genesis_def)
    then have False
      using Nil(1) genesis_not_entry snoc by (auto simp: inputs_clash_def history_inputs_def chain_inputs_snoc g_def)
    then show ?thesis ..
  qed simp
next
  case (snoc r rs)
  show ?case
  proof (cases rs' rule: rev_cases)
    case Nil
    then have "sha (entry_preimage (last_link g rs) r) = a_hash r" "a_hash r = g"
      using snoc.prems by (simp_all add: chained_append chain_link_def)
    then have "sha (entry_preimage (last_link g rs) r) = sha (genesis_preimage plane e)"
      by (simp add: g_def genesis_def)
    moreover have "entry_preimage (last_link g rs) r \<noteq> genesis_preimage plane e" using genesis_not_entry by metis
    ultimately have False
      using snoc.prems(1) Nil by (auto simp: inputs_clash_def history_inputs_def chain_inputs_snoc g_def)
    then show ?thesis ..
  next
    case s: (snoc as a)
    have ch: "chained sha g rs" "chained sha g as" "list_all record_widths rs" "list_all record_widths as"
      "record_widths r" "record_widths a"
      using snoc.prems s by (simp_all add: chained_append)
    have "sha (entry_preimage (last_link g rs) r) = sha (entry_preimage (last_link g as) a)"
      using snoc.prems s by (simp add: chained_append chain_link_def)
    then have eq: "entry_preimage (last_link g rs) r = entry_preimage (last_link g as) a"
      using snoc.prems(1) by (auto simp: s inputs_clash_def history_inputs_def chain_inputs_snoc g_def)
    have "length (last_link g rs) = 32" "length (last_link g as) = 32"
      using chained_last_link_length [OF _ w] ch w by (auto simp: g_def genesis_def)
    from entry_preimage_inj [OF ch(5,6) this eq]
    have "last_link g rs = last_link g as" "covered r = covered a" by simp_all
    moreover have "\<not> inputs_clash sha (history_inputs sha plane e rs) (history_inputs sha plane e as)"
      using snoc.prems(1) by (simp add: s inputs_clash_def history_inputs_def chain_inputs_snoc)
    ultimately show ?thesis using snoc.IH [OF _ ch(1,2,3,4)] s by simp
  qed
qed

text \<open>What a successful validation has established about the rows of the newest epoch.\<close>

lemma fold_page_Inr_chained: "fold_page sha f rs = Inr f' \<Longrightarrow> chained sha (f_link f) rs"
proof (induction rs arbitrary: f)
  case (Cons r rs)
  then obtain f1 where "fold_advance sha f r = Inr f1" "fold_page sha f1 rs = Inr f'"
    by (auto simp: rbind_Inr_iff)
  then show ?case using Cons.IH [of f1] by (auto simp: fold_advance_def split: if_splits)
qed simp

lemma validate_Verified:
  assumes "validate sha (Some h) A = Verified v" and "sorted_wrt arow (au_rows A)"
  obtains e rs where "newest_audit_epoch A = Some e"
    and "rs = filter (\<lambda>r. a_epoch r = er_epoch e \<and> fst (fold_origin sha e A) < a_sequence r) (au_rows A)"
    and "chained sha (snd (fold_origin sha e A)) rs"
    and "v = Some \<lparr>h_epoch = er_epoch e, h_sequence = last_position (fst (fold_origin sha e A)) rs,
                  h_hash = last_link (snd (fold_origin sha e A)) rs\<rparr>"
proof (cases "newest_audit_epoch A")
  case None
  then show thesis using assms(1) by (simp add: validate_def)
next
  case (Some e)
  let ?f = "fold_start sha e (Some h) A"
  let ?rs = "filter (\<lambda>r. a_epoch r = er_epoch e \<and> fst (fold_origin sha e A) < a_sequence r) (au_rows A)"
  have f: "f_sequence ?f = fst (fold_origin sha e A)" "f_link ?f = snd (fold_origin sha e A)" "f_head ?f = Some h"
    by (simp_all add: fold_start_def)
  have vp: "validate_pages sha (er_epoch e) (au_rows A) ?f = fold_page sha ?f ?rs"
    using validate_pages_single_pass [OF assms(2), of sha "er_epoch e" ?f] f(1) by simp
  obtain f' where f': "fold_page sha ?f ?rs = Inr f'"
    using assms(1) Some vp by (cases "fold_page sha ?f ?rs") (simp_all add: validate_def)
  note ch = fold_page_Inr_chained [OF f']
  from fold_page_chained [OF ch] f' f have l: "f_link f' = last_link (snd (fold_origin sha e A)) ?rs"
    "f_sequence f' = last_position (fst (fold_origin sha e A)) ?rs" "f_head f' = Some h" by auto
  have "v = Some \<lparr>h_epoch = er_epoch e, h_sequence = f_sequence f', h_hash = f_link f'\<rparr>"
    using assms(1) Some vp f' l(3) by (simp add: validate_def fold_finish_def split: head_match.splits)
  then show thesis using that [OF Some refl] ch f(2) l by simp
qed

text \<open>A fold matches only a head that names its origin or one of the rows it passes.\<close>

lemma match_head_behind:
  "f_head f = Some h \<Longrightarrow> f_sequence f \<noteq> h_sequence h \<Longrightarrow> match_head f = f"
  by (simp add: match_head_def)

lemma fold_page_behind:
  "fold_page sha f rs = Inr f' \<Longrightarrow> f_head f = Some h \<Longrightarrow> \<forall>r \<in> set rs. a_sequence r \<noteq> h_sequence h \<Longrightarrow>
   f_match f' = f_match f \<and> f_head f' = Some h"
proof (induction rs arbitrary: f)
  case (Cons r rs)
  then obtain f1 where f1: "fold_advance sha f r = Inr f1" "fold_page sha f1 rs = Inr f'"
    by (auto simp: rbind_Inr_iff)
  then have "f1 = f\<lparr>f_sequence := a_sequence r, f_link := a_hash r\<rparr>"
    using Cons.prems by (auto simp: fold_advance_def match_head_behind split: if_splits)
  then show ?case using Cons.IH [OF f1(2)] Cons.prems by simp
qed simp

lemma validate_behind:
  assumes "newest_audit_epoch A = Some e" and "sorted_wrt arow (au_rows A)"
    and "fst (fold_origin sha e A) < h_sequence h" and "\<forall>r \<in> set (au_rows A). a_sequence r < h_sequence h"
  shows "\<exists>b. validate sha (Some h) A = IntegrityFailed b (er_epoch e) (Some h) (audit_cursor A)"
proof -
  let ?f = "fold_start sha e (Some h) A"
  let ?rs = "filter (\<lambda>r. a_epoch r = er_epoch e \<and> fst (fold_origin sha e A) < a_sequence r) (au_rows A)"
  have f: "f_match ?f = MatchPending" "f_head ?f = Some h" "f_sequence ?f = fst (fold_origin sha e A)"
    using assms(3) by (simp_all add: fold_start_def match_head_def)
  have vp: "validate_pages sha (er_epoch e) (au_rows A) ?f = fold_page sha ?f ?rs"
    using validate_pages_single_pass [OF assms(2), of sha "er_epoch e" ?f] f(3) by simp
  show ?thesis
  proof (cases "fold_page sha ?f ?rs")
    case (Inl b)
    then show ?thesis using assms(1) vp by (simp add: validate_def)
  next
    case (Inr f')
    have "\<forall>r \<in> set ?rs. a_sequence r \<noteq> h_sequence h" using assms(4) by auto
    from fold_page_behind [OF Inr f(2) this] f(1) have "f_match f' = MatchPending" "f_head f' = Some h" by simp_all
    then show ?thesis using assms(1) vp Inr by (simp add: validate_def fold_finish_def)
  qed
qed

section \<open>Properties\<close>

text \<open>
  C4: Jet's own history does not look like tampering: after any sequence of recorded decisions, crashes that lose the
  head of a decision once the Plane has a head, new epochs whose head was written, retention sweeps, anonymizations
  and validations, the audit validates, at the newest position it has reached, and validating again (after the head
  has caught up) gives the same answer. The two other lost heads fail validation (\<open>lost_first_head\<close>, \<open>lost_epoch_head\<close>).
\<close>
theorem honest_history_validates:
  assumes "audit_history sha plane A"
  shows "snd (validate_audit sha A) = Verified (reached sha A) \<and>
    validate sha (au_head (fst (validate_audit sha A))) (fst (validate_audit sha A)) =
      Verified (reached sha (fst (validate_audit sha A)))"
  using audit_inv_validates [OF audit_history_inv [OF assms]]
    audit_inv_validates [OF audit_history_inv [OF audit_history.validated [OF assms]]]
  by (simp add: validate_audit_def Let_def)

text \<open>
  C37: A rollback is noticed: when the database is put back to a state that holds nothing at or
  past the position the head beside it names, validation fails, whatever the restored rows
  say, and it leaves store and head as they are.
\<close>
theorem rolled_back_store_refused:
  assumes "newest_audit_epoch A = Some e" and "sorted_wrt arow (au_rows A)" and "au_head A = Some h"
    and "fst (fold_origin sha e A) < h_sequence h" and "\<forall>r \<in> set (au_rows A). a_sequence r < h_sequence h"
  shows "\<exists>b. validate_audit sha A = (A, IntegrityFailed b (er_epoch e) (Some h) (audit_cursor A))"
  using validate_behind [OF assms(1,2,4,5)] assms(3) by (auto simp: validate_audit_def Let_def)

text \<open>A store whose newest epoch is whole, with columns of the widths SQLite keeps.\<close>

definition whole_epoch :: "(bytes \<Rightarrow> bytes) \<Rightarrow> epoch_row \<Rightarrow> audit \<Rightarrow> bool" where
  "whole_epoch sha e A \<longleftrightarrow>
     newest_audit_epoch A = Some e \<and> \<not> anchored (er_epoch e) A \<and> sorted_wrt arow (au_rows A) \<and>
     list_all record_widths (au_rows A) \<and>
     list_all (\<lambda>r. fst (fold_origin sha e A) < a_sequence r) (epoch_rows (er_epoch e) A)"

lemma whole_epoch_validated:
  assumes "whole_epoch sha e A" and "validate sha (Some h) A = Verified v"
  shows "chained sha (genesis sha (au_plane A) e) (epoch_rows (er_epoch e) A)"
    and "list_all record_widths (epoch_rows (er_epoch e) A)"
    and "map_option h_hash v = Some (last_link (genesis sha (au_plane A) e) (epoch_rows (er_epoch e) A))"
proof -
  note w = assms(1) [unfolded whole_epoch_def]
  have o: "snd (fold_origin sha e A) = genesis sha (au_plane A) e" using w by (simp add: fold_origin_unanchored)
  have es: "filter (\<lambda>r. a_epoch r = er_epoch e \<and> fst (fold_origin sha e A) < a_sequence r) (au_rows A)
      = epoch_rows (er_epoch e) A"
    using w by (auto simp: epoch_rows_def list_all_iff intro!: filter_cong)
  from w have srt: "sorted_wrt arow (au_rows A)" by simp
  from validate_Verified [OF assms(2) srt] obtain e' rs where e': "newest_audit_epoch A = Some e'"
    "rs = filter (\<lambda>r. a_epoch r = er_epoch e' \<and> fst (fold_origin sha e' A) < a_sequence r) (au_rows A)"
    "chained sha (snd (fold_origin sha e' A)) rs"
    "v = Some \<lparr>h_epoch = er_epoch e', h_sequence = last_position (fst (fold_origin sha e' A)) rs,
                  h_hash = last_link (snd (fold_origin sha e' A)) rs\<rparr>" .
  have "e' = e" using e'(1) w by simp
  then show "chained sha (genesis sha (au_plane A) e) (epoch_rows (er_epoch e) A)"
    "map_option h_hash v = Some (last_link (genesis sha (au_plane A) e) (epoch_rows (er_epoch e) A))"
    using e'(2-4) es o by simp_all
  show "list_all record_widths (epoch_rows (er_epoch e) A)" using w by (auto simp: epoch_rows_def list_all_iff)
qed

text \<open>
  C19: Tampering is evident: if two stores of one Plane hold the same newest epoch whole and both
  validate to the same head, then their records of that epoch agree, one for one, in every
  field the chain covers, unless two of the inputs their own links hash differ and have the same SHA-256.
\<close>
theorem validated_history_is_unique:
  assumes "\<And>x. length (sha x) = 32"
    and "whole_epoch sha e A" and "whole_epoch sha e A'" and "au_plane A' = au_plane A"
    and "validate sha (Some h) A = Verified v" and "validate sha (Some h') A' = Verified v"
    and "\<not> inputs_clash sha (history_inputs sha (au_plane A) e (epoch_rows (er_epoch e) A))
      (history_inputs sha (au_plane A) e (epoch_rows (er_epoch e) A'))"
  shows "map covered (epoch_rows (er_epoch e) A) = map covered (epoch_rows (er_epoch e) A')"
proof -
  note v = whole_epoch_validated [OF assms(2,5)] and v' = whole_epoch_validated [OF assms(3,6), unfolded assms(4)]
  show ?thesis using chains_agree [OF assms(1,7) v(1) v'(1) v(2) v'(2)] v(3) v'(3) by auto
qed

definition toy_sha :: "bytes \<Rightarrow> bytes" where
  "toy_sha x = be_bytes 32 (length x)"

text \<open>A store with one recorded decision.\<close>

definition demo_record :: new_audit_record where
  "demo_record = \<lparr>n_id = [1], n_at = 5, n_actor = Retention, n_target_kind = [2], n_target_id = Some [4],
     n_decision = [3], n_risk = Routine, n_outcome = Succeeded\<rparr>"

definition demo_audit :: audit where
  "demo_audit =
     (case append_row toy_sha demo_record (new_audit [9]) of
        Inr (A, r) \<Rightarrow> write_audit_head (head_of r) A
      | Inl _ \<Rightarrow> new_audit [9])"

definition demo_epoch :: epoch_row where
  "demo_epoch = \<lparr>er_epoch = 1, er_started = 5, er_preceding = None\<rparr>"

lemma demo_append:
  "append_row toy_sha demo_record (new_audit [9]) =
     (let r = new_record toy_sha [9] 1 1 (genesis toy_sha [9] demo_epoch) demo_record
      in Inr ((new_audit [9])\<lparr>au_epochs := [demo_epoch], au_next := 2, au_rows := [r]\<rparr>, r))"
  by (simp add: append_row_def current_audit_epoch_def newest_audit_epoch_def insert_audit_epoch_def
      counter_column_def audit_tip_def demo_epoch_def demo_record_def new_audit_def Let_def)

lemma demo_audit_eq:
  "demo_audit = (let r = new_record toy_sha [9] 1 1 (genesis toy_sha [9] demo_epoch) demo_record
     in \<lparr>au_plane = [9], au_epochs = [demo_epoch], au_rows = [r], au_next = 2, au_anchor = None,
         au_head = Some (head_of r), au_pending = None\<rparr>)"
  unfolding demo_audit_def demo_append Let_def sum.case prod.case write_audit_head_def
  by (simp add: new_audit_def)

text \<open>The same store after the target of the decision was deleted and forgotten.\<close>

definition demo_forgotten :: audit where
  "demo_forgotten = anonymize_audit_target toy_sha [2] [4] demo_audit"

lemma demo_forgotten_eq:
  "demo_forgotten = (let r = (new_record toy_sha [9] 1 1 (genesis toy_sha [9] demo_epoch) demo_record)\<lparr>a_target_id := None\<rparr>
     in \<lparr>au_plane = [9], au_epochs = [demo_epoch], au_rows = [r], au_next = 2, au_anchor = None,
         au_head = Some (head_of r), au_pending = None\<rparr>)"
  by (simp add: demo_forgotten_def anonymize_audit_target_def demo_audit_eq new_record_def demo_record_def head_of_def Let_def)

lemma demo_whole: "whole_epoch toy_sha demo_epoch demo_audit" "whole_epoch toy_sha demo_epoch demo_forgotten"
  by (simp_all add: whole_epoch_def demo_audit_eq demo_forgotten_eq Let_def newest_audit_epoch_def anchored_def epoch_rows_def
      fold_origin_def record_widths_def new_record_def demo_epoch_def demo_record_def text_bytes_def toy_sha_def target_reference_def nil_uuid_text_def)

lemma demo_inputs:
  "\<not> inputs_clash toy_sha (history_inputs toy_sha (au_plane demo_audit) demo_epoch (epoch_rows (er_epoch demo_epoch) demo_audit))
     (history_inputs toy_sha (au_plane demo_audit) demo_epoch (epoch_rows (er_epoch demo_epoch) demo_forgotten))"
proof -
  let ?r = "new_record toy_sha [9] 1 1 (genesis toy_sha [9] demo_epoch) demo_record"
  have rows: "au_plane demo_audit = [9]" "epoch_rows (er_epoch demo_epoch) demo_audit = [?r]"
    "epoch_rows (er_epoch demo_epoch) demo_forgotten = [?r\<lparr>a_target_id := None\<rparr>]"
    by (simp_all add: demo_audit_eq demo_forgotten_eq Let_def epoch_rows_def demo_epoch_def new_record_def)
  have same: "entry_preimage l (r\<lparr>a_target_id := None\<rparr>) = entry_preimage l r" for l and r :: audit_record
    by (simp add: entry_preimage_def)
  have len: "length (genesis_preimage [9] demo_epoch) < length (entry_preimage (genesis toy_sha [9] demo_epoch) ?r)"
    "length (entry_preimage (genesis toy_sha [9] demo_epoch) ?r) < 1000"
    by (simp_all add: genesis_preimage_def entry_preimage_def field_bytes_def demo_epoch_def genesis_def toy_sha_def new_record_def
      demo_record_def text_bytes_def EPOCH_DOMAIN_def ENTRY_DOMAIN_def target_reference_def nil_uuid_text_def Let_def)
  have "toy_sha x \<noteq> toy_sha y" if "length x < length y" "length y < 1000" for x y
    using that be_bytes_inj [of 32 "length x" "length y"] by (auto simp: toy_sha_def)
  from this [OF len] show ?thesis unfolding rows inputs_clash_def history_inputs_def by (auto simp: same)
qed

theorem validated_history_is_unique_witness:
  "epoch_rows 1 demo_audit \<noteq> epoch_rows 1 demo_forgotten \<and>
   map covered (epoch_rows 1 demo_audit) = map covered (epoch_rows 1 demo_forgotten)"
proof -
  have inv: "audit_inv toy_sha demo_audit"
    unfolding demo_audit_def demo_append Let_def sum.case prod.case
    by (rule append_inv(1) [OF new_audit_inv demo_append [unfolded Let_def]])
  have head: "au_head demo_audit = Some (the (au_head demo_audit))" "au_head demo_forgotten = Some (the (au_head demo_forgotten))"
    by (simp_all add: demo_audit_eq demo_forgotten_eq Let_def)
  have v: "validate toy_sha (Some (the (au_head demo_audit))) demo_audit = Verified (reached toy_sha demo_audit)"
    using audit_inv_validates [OF inv] head by metis
  have "reached toy_sha demo_forgotten = reached toy_sha demo_audit"
    by (simp add: demo_audit_eq demo_forgotten_eq Let_def reached_def newest_audit_epoch_def epoch_rows_def last_position_def
      last_link_def demo_epoch_def new_record_def)
  then have v': "validate toy_sha (Some (the (au_head demo_forgotten))) demo_forgotten = Verified (reached toy_sha demo_audit)"
    using audit_inv_validates [OF anonymize_inv [OF inv, of "[2]" "[4]"]] head unfolding demo_forgotten_def by metis
  have plane: "au_plane demo_forgotten = au_plane demo_audit" by (simp add: demo_audit_eq demo_forgotten_eq Let_def)
  have "epoch_rows 1 demo_audit \<noteq> epoch_rows 1 demo_forgotten"
    by (simp add: demo_audit_eq demo_forgotten_eq Let_def epoch_rows_def new_record_def demo_record_def)
  moreover have "length (toy_sha x) = 32" for x by (simp add: toy_sha_def)
  note validated_history_is_unique [OF this demo_whole plane v v' demo_inputs]
  ultimately show ?thesis by (simp add: demo_epoch_def)
qed

theorem rolled_back_store_refused_witness:
  "\<exists>b. snd (validate_audit toy_sha (demo_audit\<lparr>au_head := Some \<lparr>h_epoch = 1, h_sequence = 7, h_hash = []\<rparr>\<rparr>)) =
     IntegrityFailed b 1 (Some \<lparr>h_epoch = 1, h_sequence = 7, h_hash = []\<rparr>) 1"
proof -
  let ?h = "\<lparr>h_epoch = 1, h_sequence = 7, h_hash = []\<rparr>"
  have "\<exists>b. validate_audit toy_sha (demo_audit\<lparr>au_head := Some ?h\<rparr>) =
      (demo_audit\<lparr>au_head := Some ?h\<rparr>,
       IntegrityFailed b (er_epoch demo_epoch) (Some ?h) (audit_cursor (demo_audit\<lparr>au_head := Some ?h\<rparr>)))"
    by (rule rolled_back_store_refused)
      (simp_all add: demo_audit_eq Let_def newest_audit_epoch_def fold_origin_def demo_epoch_def)
  then show ?thesis
    by (auto simp: demo_audit_eq Let_def audit_cursor_def audit_tip_def demo_epoch_def)
qed

text \<open>
  After one decision whose head was written and a second whose head a crash lost, validation verifies the second.
\<close>

theorem honest_history_validates_witness:
  "\<exists>A r. length (au_rows A) = 2 \<and> au_head A \<noteq> Some (head_of r) \<and> last (au_rows A) = r \<and>
     snd (validate_audit toy_sha A) = Verified (Some (head_of r))"
proof -
  let ?r = "new_record toy_sha [9] 1 1 (genesis toy_sha [9] demo_epoch) demo_record"
  let ?B = "(new_audit [9])\<lparr>au_epochs := [demo_epoch], au_next := 2, au_rows := [?r], au_head := Some (head_of ?r)\<rparr>"
  let ?q = "new_record toy_sha [9] 2 1 (a_hash ?r) demo_record"
  let ?A = "?B\<lparr>au_next := 3, au_rows := [?r, ?q]\<rparr>"
  have "append_audit_record toy_sha demo_record (new_audit [9]) =
      Inr (publish_audit_head (head_of ?r) ((new_audit [9])\<lparr>au_epochs := [demo_epoch], au_next := 2, au_rows := [?r]\<rparr>), ?r)"
    by (simp add: append_audit_record_def demo_append Let_def)
  then have "audit_history toy_sha [9] (commit_audit (publish_audit_head (head_of ?r)
      ((new_audit [9])\<lparr>au_epochs := [demo_epoch], au_next := 2, au_rows := [?r]\<rparr>)))"
    by (rule audit_history.append [OF audit_history.start])
  then have h: "audit_history toy_sha [9] ?B" by (simp add: commit_published write_audit_head_def new_audit_def)
  have hd: "au_head ?B \<noteq> None" by simp
  have sel: "a_epoch ?r = 1" "a_sequence ?r = 1" "a_epoch ?q = 1" "a_sequence ?q = 2" by (simp_all add: new_record_def Let_def)
  have "append_audit_record toy_sha demo_record ?B = Inr (publish_audit_head (head_of ?q) ?A, ?q)"
    by (simp add: append_audit_record_def append_row_def current_audit_epoch_def newest_audit_epoch_def audit_tip_def counter_column_def
      demo_epoch_def new_audit_def new_record_def Let_def)
  then have "audit_history toy_sha [9] ((publish_audit_head (head_of ?q) ?A)\<lparr>au_pending := None\<rparr>)"
    by (rule audit_history.lost [OF h hd])
  then have "audit_history toy_sha [9] ?A" by (simp add: publish_audit_head_def new_audit_def)
  then have "snd (validate_audit toy_sha ?A) = Verified (reached toy_sha ?A)"
    by (rule conjunct1 [OF honest_history_validates])
  moreover have "reached toy_sha ?A = Some (head_of ?q)"
    using sel by (simp add: reached_def newest_audit_epoch_def epoch_rows_def last_position_def last_link_def head_of_def demo_epoch_def)
  moreover have "head_of ?r \<noteq> head_of ?q" using sel by (simp add: head_of_def)
  ultimately show ?thesis by (intro exI [of _ ?A] exI [of _ ?q]) simp
qed

section \<open>Lost heads that are not repaired\<close>

text \<open>A crash between the commit of the first decision of a Plane and the write of its head.\<close>

lemma lost_first_head:
  assumes "append_audit_record sha n (new_audit plane) = Inr (A, r)"
  shows "\<exists>b. snd (validate_audit sha (A\<lparr>au_pending := None\<rparr>)) = IntegrityFailed b 1 None 1"
proof -
  let ?e = "\<lparr>er_epoch = 1, er_started = n_at n, er_preceding = None\<rparr>"
  have A: "A\<lparr>au_pending := None\<rparr> = (new_audit plane)\<lparr>au_epochs := [?e], au_next := 2, au_rows := [r]\<rparr>" and r: "a_epoch r = 1" "a_sequence r = 1"
    using assms by (auto simp: append_audit_record_def append_row_def current_audit_epoch_def newest_audit_epoch_def insert_audit_epoch_def
      counter_column_def audit_tip_def publish_audit_head_def new_audit_def new_record_def rbind_Inr_iff Let_def)
  let ?f = "fold_start sha ?e None (A\<lparr>au_pending := None\<rparr>)"
  have f: "f_sequence ?f = 0" "f_head ?f = None" by (simp_all add: fold_start_def A fold_origin_def new_audit_def)
  have vp: "validate_pages sha 1 [r] ?f = fold_page sha ?f [r]"
    using validate_pages_single_pass [of "[r]" sha 1 ?f] f r by simp
  show ?thesis
  proof (cases "fold_page sha ?f [r]")
    case (Inl b)
    then show ?thesis using vp r by (simp add: validate_audit_def Let_def validate_def A newest_audit_epoch_def new_audit_def audit_cursor_def audit_tip_def)
  next
    case (Inr f')
    have "f_sequence f' = 1" "f_head f' = None"
      using Inr f r by (auto simp: fold_advance_def rbind_Inr_iff split: if_splits)
    then show ?thesis using vp r Inr
      by (simp add: validate_audit_def Let_def validate_def A newest_audit_epoch_def new_audit_def audit_cursor_def audit_tip_def fold_finish_def)
  qed
qed

lemma fold_page_other_epoch:
  "fold_page sha f rs = Inr f' \<Longrightarrow> f_head f = Some h \<Longrightarrow> h_epoch h \<noteq> f_epoch f \<Longrightarrow> f_match f' = f_match f \<and> f_head f' = Some h"
proof (induction rs arbitrary: f)
  case (Cons r rs)
  then obtain f1 where f1: "fold_advance sha f r = Inr f1" "fold_page sha f1 rs = Inr f'" by (auto simp: rbind_Inr_iff)
  then have "f1 = f\<lparr>f_sequence := a_sequence r, f_link := a_hash r\<rparr>"
    using Cons.prems by (auto simp: fold_advance_def match_head_def split: if_splits)
  then show ?case using Cons.IH [OF f1(2)] Cons.prems by simp
qed simp

text \<open>A crash between the commit that begins a new epoch and the write of its head.\<close>

lemma lost_epoch_head:
  assumes "audit_history sha plane A" "au_head A = Some h" "begin_audit_epoch sha gap t A = Inr (A', n)"
  shows "\<exists>b. snd (validate_audit sha (A'\<lparr>au_pending := None\<rparr>)) = IntegrityFailed b n (Some h) (audit_cursor A)"
proof -
  let ?B = "A'\<lparr>au_pending := None\<rparr>"
  have inv: "audit_inv sha A" by (rule audit_history_inv [OF assms(1)])
  then obtain e where e: "newest_audit_epoch A = Some e" "h_epoch h = er_epoch e"
    using assms(2) by (auto simp: audit_inv_def head_inv_def split: option.splits prod.splits)
  from assms(3) obtain row where row: "newest_audit_epoch ?B = Some row" "er_epoch row = n" "au_head ?B = Some h"
      "au_rows ?B = au_rows A" "n \<noteq> er_epoch e"
    using assms(2) e(1) by (auto simp: begin_audit_epoch_def begin_epoch_def reserve_audit_positions_through_def insert_audit_epoch_def
      publish_audit_head_def counter_column_def newest_audit_epoch_def rbind_Inr_iff Let_def split: if_splits)
  let ?f = "fold_start sha row (Some h) ?B"
  have f: "f_head ?f = Some h" "f_epoch ?f = n" "f_match ?f = MatchPending"
    using row(2,5) e(2) by (simp_all add: fold_start_def match_head_def)
  have srt: "sorted_wrt arow (au_rows ?B)" using inv row(4) by (simp add: audit_inv_def rows_inv_def)
  have cur: "audit_cursor ?B = audit_cursor A" using row(4) by (simp add: audit_cursor_def audit_tip_def)
  show ?thesis
  proof (cases "validate_pages sha n (au_rows ?B) ?f")
    case (Inl b)
    then show ?thesis using row cur by (simp add: validate_audit_def Let_def validate_def)
  next
    case (Inr f')
    have "f_match f' = MatchPending \<and> f_head f' = Some h"
      using fold_page_other_epoch [OF Inr [unfolded validate_pages_single_pass [OF srt]]] f e(2) row(5) by simp
    then show ?thesis using row Inr cur by (simp add: validate_audit_def Let_def validate_def fold_finish_def)
  qed
qed

end
