(* ===== verification/Jet_Security.thy ===== *)
theory Jet_Security
  imports Jet_Audit
begin

text \<open>
  Security-degraded mode: \<open>jet-core/src/security.rs\<close>.

  What a Plane still admits when it cannot vouch for its Security audit, and the way out: a
  new audit epoch that records where the old chain was last known to have reached. The
  audit itself is the one of \<open>Jet_Audit\<close>; \<open>audit::record\<close> is its \<open>append_audit_record\<close> with
  the record the caller built.
\<close>

record security_degradation =
  sd_breach :: audit_breach
  sd_epoch :: nat
  sd_head :: "audit_head option"
  sd_store_sequence :: nat

datatype security_state = Trusted | Degraded security_degradation | Unverified

datatype security_class = Ordinary | Guarded

fun security_of :: "audit_integrity \<Rightarrow> security_state" where
  "security_of (Verified head) = Trusted"
| "security_of (IntegrityFailed b e h s) =
     Degraded \<lparr>sd_breach = b, sd_epoch = e, sd_head = h, sd_store_sequence = s\<rparr>"

definition security_admit :: "security_state \<Rightarrow> security_class \<Rightarrow> core_error + unit" where
  "security_admit st cls =
     (case (st, cls) of
        (Trusted, _) \<Rightarrow> Inr ()
      | (_, Ordinary) \<Rightarrow> Inr ()
      | (_, Guarded) \<Rightarrow> Inl (conflict ''security.audit_degraded''))"

fun degradation :: "security_state \<Rightarrow> security_degradation option" where
  "degradation Trusted = None"
| "degradation Unverified = None"
| "degradation (Degraded d) = Some d"

fun breach_str :: "audit_breach \<Rightarrow> bytes" where
  "breach_str HeadMissing = text_bytes ''audit.head_missing''"
| "breach_str HeadNotInStore = text_bytes ''audit.head_not_in_store''"
| "breach_str HeadDiverged = text_bytes ''audit.head_diverged''"
| "breach_str (RecordAltered _) = text_bytes ''audit.record_altered''"
| "breach_str (TargetAltered _) = text_bytes ''audit.target_altered''"

definition degradation_gap :: "security_degradation \<Rightarrow> audit \<Rightarrow> core_error + audit_gap" where
  "degradation_gap d A =
     (case sd_head d of
        Some h \<Rightarrow> Inr \<lparr>g_sequence = h_sequence h, g_hash = h_hash h, g_reason = breach_str (sd_breach d)\<rparr>
      | None \<Rightarrow>
          (case audit_tip A of
             None \<Rightarrow> Inl (internal ''security.gap_unknown'')
           | Some t \<Rightarrow> Inr \<lparr>g_sequence = h_sequence t, g_hash = h_hash t, g_reason = breach_str (sd_breach d)\<rparr>))"

fun store_failed :: "store_error \<Rightarrow> core_error" where
  "store_failed StoreUnavailable =
     \<lparr>category = Unavailable, code = ''store.unavailable'', retryable = True, detailed = True\<rparr>"
| "store_failed StoreIntegrity =
     \<lparr>category = Internal, code = ''store.integrity'', retryable = False, detailed = True\<rparr>"

definition map_err :: "('e \<Rightarrow> 'f) \<Rightarrow> 'e + 'a \<Rightarrow> 'f + 'a" where
  "map_err f r = (case r of Inl e \<Rightarrow> Inl (f e) | Inr x \<Rightarrow> Inr x)"

text \<open>
  The transaction of \<open>BeginAuditEpoch\<close>: the epoch, its Event, and the record that says who
  began it. The journal is the list of begun epochs.
\<close>

definition begin_security_epoch ::
    "(bytes \<Rightarrow> bytes) \<Rightarrow> security_state \<Rightarrow> new_audit_record \<Rightarrow> int \<Rightarrow> audit \<times> nat list \<Rightarrow>
     core_error + (audit \<times> nat list)" where
  "begin_security_epoch sha st record now = (\<lambda>(A, journal).
     rbind (ok_or (degradation st) (conflict ''security.audit_trusted'')) (\<lambda>d.
     rbind (degradation_gap d A) (\<lambda>gap.
     rbind (map_err store_failed (begin_audit_epoch sha gap now A)) (\<lambda>(A1, epoch).
     rbind (map_err store_failed (append_audit_record sha record A1)) (\<lambda>(A2, r).
       Inr (A2, journal @ [epoch]))))))"

section \<open>The way out of Security-degraded mode\<close>

lemma map_err_Inr [simp]: "map_err f r = Inr x \<longleftrightarrow> r = Inr x"
  by (cases r) (simp_all add: map_err_def)

text \<open>Appending does not read the head.\<close>

lemma current_epoch_head:
  "current_audit_epoch now (A\<lparr>au_head := h, au_pending := p\<rparr>) =
     map_sum id (\<lambda>(B, e). (B\<lparr>au_head := h, au_pending := p\<rparr>, e)) (current_audit_epoch now A)"
  by (simp add: current_audit_epoch_def newest_audit_epoch_def insert_audit_epoch_def counter_column_def Let_def)

lemma audit_tip_head: "audit_tip (A\<lparr>au_head := h, au_pending := p\<rparr>) = audit_tip A"
  by (simp add: audit_tip_def)

lemma append_row_head:
  "append_row sha n (A\<lparr>au_head := h, au_pending := p\<rparr>) =
     map_sum id (\<lambda>(B, r). (B\<lparr>au_head := h, au_pending := p\<rparr>, r)) (append_row sha n A)"
proof (cases "current_audit_epoch (n_at n) A")
  case (Inl e)
  then show ?thesis by (simp add: append_row_def current_epoch_head)
next
  case (Inr Be)
  obtain B e where Be: "Be = (B, e)" by fastforce
  show ?thesis
  proof (cases "counter_column (au_next B)")
    case (Inl x)
    then show ?thesis by (simp add: append_row_def current_epoch_head Inr Be audit_tip_head Let_def cong: option.case_cong if_cong)
  next
    case (Inr x)
    then show ?thesis
      by (simp add: append_row_def current_epoch_head \<open>current_audit_epoch (n_at n) A = Inr Be\<close> Be audit_tip_head Let_def cong: option.case_cong if_cong)
  qed
qed

lemma append_after_publish:
  assumes "audit_inv sha (write_audit_head h A)" and "append_audit_record sha n (publish_audit_head h A) = Inr (B, r)"
  shows "audit_inv sha (commit_audit B)"
proof -
  obtain C where C: "append_row sha n (publish_audit_head h A) = Inr (C, r)" and B: "B = publish_audit_head (head_of r) C"
    using assms(2) by (auto simp: append_audit_record_def rbind_Inr_iff)
  have P: "publish_audit_head h A = (write_audit_head h A)\<lparr>au_head := au_head A, au_pending := Some h\<rparr>"
    by (simp add: publish_audit_head_def write_audit_head_def)
  obtain D where D: "append_row sha n (write_audit_head h A) = Inr (D, r)"
    and CD: "C = D\<lparr>au_head := au_head A, au_pending := Some h\<rparr>"
    using C unfolding P append_row_head by (cases "append_row sha n (write_audit_head h A)") auto
  have "write_audit_head (head_of r) C = (write_audit_head (head_of r) D)\<lparr>au_pending := Some h\<rparr>"
    by (simp add: CD write_audit_head_def)
  then show ?thesis using append_inv(1) [OF assms(1) D] by (simp add: B commit_published)
qed

text \<open>
  An owner can always leave Security-degraded mode: once the transaction that begins a new audit
  epoch commits on a store whose positions and epochs are in order, whatever its records or the
  head beside it had become, the audit validates and the Plane is trusted again, and until
  then every guarded change was refused.
\<close>
lemma new_epoch_restores_trust:
  assumes "store_shape A" and "degradation st \<noteq> None"
    and "begin_security_epoch sha st n now (A, j) = Inr (B, j')"
  shows "security_of (snd (validate_audit sha (commit_audit B))) = Trusted \<and>
    security_admit st Guarded = Inl (conflict ''security.audit_degraded'')"
proof -
  obtain gap A1 e r where b: "begin_audit_epoch sha gap now A = Inr (A1, e)"
    and a: "append_audit_record sha n A1 = Inr (B, r)"
    using assms(3) by (auto simp: begin_security_epoch_def rbind_Inr_iff)
  obtain C h where "begin_epoch sha gap now A = Inr (C, h)" and A1: "A1 = publish_audit_head h C"
    using b by (auto simp: begin_audit_epoch_def rbind_Inr_iff)
  from begin_epoch_shape [OF assms(1) this(1)] have "audit_inv sha (write_audit_head h C)" .
  from append_after_publish [OF this a [unfolded A1]] have "audit_inv sha (commit_audit B)" .
  then have "snd (validate_audit sha (commit_audit B)) = Verified (reached sha (commit_audit B))"
    using audit_inv_validates by (simp add: validate_audit_def Let_def)
  moreover have "security_admit st Guarded = Inl (conflict ''security.audit_degraded'')"
    using assms(2) by (cases st) (simp_all add: security_admit_def)
  ultimately show ?thesis by simp
qed

text \<open>A fresh Plane beside a head it does not hold.\<close>

definition demo_degraded :: security_state where
  "demo_degraded = Degraded \<lparr>sd_breach = HeadNotInStore, sd_epoch = 0,
     sd_head = Some \<lparr>h_epoch = 4, h_sequence = 9, h_hash = []\<rparr>, sd_store_sequence = 0\<rparr>"

lemma demo_begins:
  "\<exists>B. begin_security_epoch toy_sha demo_degraded demo_record 7 (new_audit [9], []) = Inr (B, [1])"
  by (simp add: begin_security_epoch_def demo_degraded_def degradation_gap_def map_err_def begin_audit_epoch_def
      begin_epoch_def reserve_audit_positions_through_def counter_column_def insert_audit_epoch_def
      newest_audit_epoch_def new_audit_def append_audit_record_def append_row_def current_audit_epoch_def
      publish_audit_head_def audit_tip_def Let_def)

lemma new_epoch_restores_trust_witness:
  "\<exists>B. begin_security_epoch toy_sha demo_degraded demo_record 7 (new_audit [9], []) = Inr (B, [1]) \<and>
     security_of (snd (validate_audit toy_sha (commit_audit B))) = Trusted"
proof -
  from demo_begins obtain B where
    B: "begin_security_epoch toy_sha demo_degraded demo_record 7 (new_audit [9], []) = Inr (B, [1])" by blast
  have "degradation demo_degraded \<noteq> None" by (simp add: demo_degraded_def)
  from new_epoch_restores_trust [OF audit_inv_shape [OF new_audit_inv] this B] B show ?thesis by blast
qed

end
