(* ===== verification/Jet_Review.thy ===== *)
theory Jet_Review
  imports Jet_Run Jet_Security
begin

text \<open>
  Automatic review of one approval request: \<open>jet-core/src/review/{work,policy,input,retry}.rs\<close> on the
  guard of \<open>Jet_Guard\<close> and the execution of \<open>Jet_Run\<close>.

  A review runs beside the Run: \<open>begin_review\<close> is the part of \<open>review_approval\<close> up to the
  admission transaction, \<open>finish_review\<close> the rest, and anything may happen to the Plane in
  between. The reviewer (\<open>review_host\<close>), the clock that bounds it, the connection and what the
  Capability observation says of a Credential are arguments, as are JSON and UUID text. Settings
  are the resolved values; the audit is the list of recorded outcomes.
\<close>

section \<open>The transcript a reviewer is shown\<close>

datatype visible_event = VisibleInput ustring | VisibleOutput "ustring list"

definition NEWLINE :: nat where "NEWLINE = 10"

definition one_line :: "ustring \<Rightarrow> ustring" where
  "one_line s = map (\<lambda>c. if is_control c then 32 else c) s"

definition cut_text :: "ustring \<Rightarrow> nat \<Rightarrow> ustring" where
  "cut_text t limit = fst (take_bytes (min (utf8_len t) limit) t)"

definition transcript_line :: "ustring \<times> ustring \<Rightarrow> ustring" where
  "transcript_line = (\<lambda>(role, content). role @ ucs '': '' @ one_line content)"

fun transcript_lines :: "nat \<Rightarrow> (ustring \<times> ustring) list \<Rightarrow> ustring list" where
  "transcript_lines remaining [] = []"
| "transcript_lines remaining (e # es) =
     (if remaining = 0 then []
      else
        (let line0 = transcript_line e;
             line = cut_text line0 (min remaining (utf8_len line0))
         in line # transcript_lines (remaining - utf8_len line - 1) es))"

definition transcript :: "(ustring \<times> ustring) list \<Rightarrow> ustring" where
  "transcript entries = join_with NEWLINE (rev (transcript_lines TRANSCRIPT_BYTES (rev entries)))"

fun transcript_entry :: "visible_event \<Rightarrow> (ustring \<times> ustring) option" where
  "transcript_entry (VisibleInput t) = Some (ucs ''user'', t)"
| "transcript_entry (VisibleOutput ps) =
     (if ps \<noteq> [] then Some (ucs ''harness'', join_with NEWLINE ps) else None)"

record review_input =
  ri_transcript :: ustring
  ri_tool :: ustring
  ri_action :: ustring

definition make_input :: "visible_event list \<Rightarrow> approval_request \<Rightarrow> review_input" where
  "make_input events q =
     \<lparr>ri_transcript = transcript (List.map_filter transcript_entry events), ri_tool = aq_tool q, ri_action = aq_action q\<rparr>"

definition validate_input :: "review_input \<Rightarrow> core_error + unit" where
  "validate_input i =
     require (\<not> (utf8_len (ri_transcript i) > TRANSCRIPT_BYTES \<or> utf8_len (ri_tool i) > TOOL_BYTES \<or>
                 utf8_len (ri_action i) > ACTION_BYTES)) (unavailable ''review.input_invalid'')"

section \<open>Choosing the reviewer\<close>

datatype setting_value = Flag bool | Text ustring | Count u32

record review_settings =
  vs_enabled :: setting_value
  vs_binding :: setting_value
  vs_consent :: setting_value

record account_binding =
  ab_provider :: string
  ab_credential :: string

datatype credential_state = Resolvable | ResolvedAtUse | WaitingForUnlock | CredentialUnavailable | SessionExpired

record 'k review_env =
  en_shell :: "ustring \<Rightarrow> shell option"
  en_answer :: "byte list \<Rightarrow> review_verdict option"
  en_parse_uuid :: "ustring \<Rightarrow> uuid option"
  en_uuid_text :: "uuid \<Rightarrow> ustring"
  en_craft :: 'k

record 'r review_plane =
  vp_exec :: "'r exec"
  vp_settings :: review_settings
  vp_accounts :: "uuid \<Rightarrow> account_binding option"
  vp_security :: security_state
  vp_run_provider :: "string option"
  vp_credential :: "string \<Rightarrow> credential_state"
  vp_audit :: "audit_outcome list"

record 'k selection =
  sl_craft :: 'k
  sl_binding :: account_binding

record 'k routing =
  ro_policy :: automatic_review_policy
  ro_binding :: "uuid option"
  ro_provider :: "string option"
  ro_selection :: "core_error + 'k selection"

definition binding_of :: "'k review_env \<Rightarrow> setting_value \<Rightarrow> uuid option" where
  "binding_of env v = (case v of Text t \<Rightarrow> en_parse_uuid env t | Flag _ \<Rightarrow> None | Count _ \<Rightarrow> None)"

definition chosen_binding :: "'k review_env \<Rightarrow> review_settings \<Rightarrow> launch_plan \<Rightarrow> uuid option" where
  "chosen_binding env st plan =
     (case binding_of env (vs_binding st) of Some b \<Rightarrow> Some b | None \<Rightarrow> lp_visa plan)"

definition consented :: "'k review_env \<Rightarrow> review_settings \<Rightarrow> uuid option \<Rightarrow> bool" where
  "consented env st b = (case b of None \<Rightarrow> False | Some i \<Rightarrow> vs_consent st = Text (en_uuid_text env i))"

definition select_reviewer ::
    "security_state \<Rightarrow> bool \<Rightarrow> bool \<Rightarrow> account_binding option \<Rightarrow> 'k \<Rightarrow> (string \<Rightarrow> credential_state) \<Rightarrow>
     core_error + 'k selection" where
  "select_reviewer security cross consent binding craft credential =
     rbind (map_err (\<lambda>_. unavailable ''review.audit_degraded'') (security_admit security security_class.Guarded)) (\<lambda>_.
     rbind (ok_or binding (unavailable ''review.binding_unavailable'')) (\<lambda>b.
       if cross \<and> \<not> consent then Inl (unavailable ''review.consent_required'')
       else if credential (ab_credential b) \<noteq> Resolvable \<and> credential (ab_credential b) \<noteq> ResolvedAtUse
       then Inl (unavailable ''review.credential_unavailable'')
       else Inr \<lparr>sl_craft = craft, sl_binding = b\<rparr>))"

definition cross_provider :: "account_binding option \<Rightarrow> string option \<Rightarrow> bool" where
  "cross_provider binding run_provider =
     (case (binding, run_provider) of
        (Some b, Some p) \<Rightarrow> ab_provider b \<noteq> p
      | (Some _, None) \<Rightarrow> True
      | (None, _) \<Rightarrow> False)"

definition review_routing :: "'k review_env \<Rightarrow> 'r review_plane \<Rightarrow> core_error + 'k routing option" where
  "review_routing env P =
     (if vs_enabled (vp_settings P) \<noteq> Flag True then Inr None
      else
        rbind (ok_or (x_execution (vp_exec P)) (unavailable ''review.run_unavailable'')) (\<lambda>(plan, _).
          let b = chosen_binding env (vp_settings P) plan;
              consent = consented env (vp_settings P) b;
              binding = (case b of None \<Rightarrow> None | Some i \<Rightarrow> vp_accounts P i)
          in Inr (Some \<lparr>ro_policy = \<lparr>po_version = 2, po_consent = consent\<rparr>, ro_binding = b,
                 ro_provider = map_option ab_provider binding,
                 ro_selection = select_reviewer (vp_security P) (cross_provider binding (vp_run_provider P)) consent
                   binding (en_craft env) (vp_credential P)\<rparr>)))"

definition policy_unchanged :: "'k review_env \<Rightarrow> review_settings \<Rightarrow> approval_review \<Rightarrow> launch_plan \<Rightarrow> bool" where
  "policy_unchanged env st rw plan \<longleftrightarrow>
     vs_enabled st = Flag True \<and> chosen_binding env st plan = rw_binding rw \<and>
     consented env st (chosen_binding env st plan) = po_consent (rw_policy rw)"

section \<open>One review\<close>

definition guard_turn :: "run_state \<Rightarrow> core_error + u32" where
  "guard_turn s =
     (case rs_changes s of
        None \<Rightarrow> Inl (unavailable ''review.turn_unavailable'')
      | Some tk \<Rightarrow>
          if tk_active tk \<noteq> None \<and> \<not> rs_disconnected s then Inr (tk_completed tk)
          else Inl (unavailable ''review.turn_unavailable''))"

definition guard_load :: "'r exec \<Rightarrow> core_error + (launch_plan \<times> run_state)" where
  "guard_load x =
     rbind (ok_or (x_run x) (unavailable ''review.run_unavailable'')) (\<lambda>run.
       if rr_lifecycle run \<noteq> L_Active then Inl (unavailable ''review.run_unavailable'')
       else ok_or (x_execution x) (unavailable ''review.run_unavailable''))"

record 'k inflight =
  fl_id :: uuid
  fl_request :: approval_request
  fl_turn :: u32
  fl_admission :: "core_error + unit"
  fl_routing :: "'k routing"

definition begin_review ::
    "'k review_env \<Rightarrow> uuid \<Rightarrow> approval_request \<Rightarrow> u32 \<Rightarrow> 'r review_plane \<Rightarrow>
     core_error + ('k inflight option \<times> 'r review_plane)" where
  "begin_review env review q turn P =
     rbind (validate_request q) (\<lambda>_.
     rbind (review_routing env P) (\<lambda>r.
       case r of
         None \<Rightarrow> Inr (None, P)
       | Some routing \<Rightarrow>
           rbind (guard_load (vp_exec P)) (\<lambda>(plan, s).
           rbind (guard_turn s) (\<lambda>t.
             if t \<noteq> turn then Inl (unavailable ''review.turn_changed'')
             else
               (case guard_admit (en_shell env) turn review q (rs_review s) of
                  (admission, g) \<Rightarrow>
                    Inr (Some \<lparr>fl_id = review, fl_request = q, fl_turn = turn, fl_admission = admission, fl_routing = routing\<rparr>,
                         P\<lparr>vp_exec := save_state (s\<lparr>rs_review := g\<rparr>) (vp_exec P)\<rparr>))))))"

record reviewer_selection =
  rs_reviewer :: reviewer
  rs_reviewer_model :: ustring
  rs_adapter :: ustring

record review_reply =
  rp_model :: ustring
  rp_reviewer :: reviewer
  rp_output :: "byte list"

record 'k review_host =
  rh_select :: "'k \<Rightarrow> account_binding \<Rightarrow> core_error + reviewer_selection"
  rh_review :: "'k \<Rightarrow> account_binding \<Rightarrow> reviewer_selection \<Rightarrow> review_input \<Rightarrow> core_error + review_reply"

definition OUTPUT_BYTES :: nat where "OUTPUT_BYTES = 4096"
definition MODEL_BYTES :: nat where "MODEL_BYTES = 128"
definition ADAPTER_STATE_BYTES :: nat where "ADAPTER_STATE_BYTES = 16 * 1024"

definition validate_selection :: "reviewer_selection \<Rightarrow> core_error + unit" where
  "validate_selection sel =
     require (\<not> (rs_reviewer_model sel = [] \<or> utf8_len (rs_reviewer_model sel) > MODEL_BYTES \<or>
                 list_ex is_control (rs_reviewer_model sel) \<or> utf8_len (rs_adapter sel) > ADAPTER_STATE_BYTES))
       (unavailable ''review.model_invalid'')"

definition consult ::
    "'k review_env \<Rightarrow> 'k review_host option \<Rightarrow> visible_event list \<Rightarrow> approval_request \<Rightarrow> 'k selection \<Rightarrow> 'r review_plane \<Rightarrow>
     core_error + (reviewer \<times> ustring \<times> review_verdict)" where
  "consult env host events q sel P =
     rbind (ok_or host (unavailable ''review.host_unavailable'')) (\<lambda>h.
     rbind (map_err (\<lambda>_. unavailable ''review.model_unavailable'') (rh_select h (sl_craft sel) (sl_binding sel))) (\<lambda>pinned.
     rbind (validate_selection pinned) (\<lambda>_.
     rbind (ok_or (x_run (vp_exec P)) (unavailable ''review.run_unavailable'')) (\<lambda>_.
       let input = make_input events q
       in rbind (validate_input input) (\<lambda>_.
          rbind (map_err (\<lambda>_. unavailable ''review.failed'') (rh_review h (sl_craft sel) (sl_binding sel) pinned input)) (\<lambda>reply.
            if rp_model reply \<noteq> rs_reviewer_model pinned \<or> rp_reviewer reply \<noteq> rs_reviewer pinned \<or>
               length (rp_output reply) > OUTPUT_BYTES
            then Inl (unavailable ''review.output_invalid'')
            else rbind (validate_answer (en_answer env) (rp_output reply)) (\<lambda>v.
                   Inr (rp_reviewer reply, rs_reviewer_model pinned, v))))))))"

record answered =
  an_reviewer :: "reviewer option"
  an_model :: "ustring option"
  an_outcome :: review_outcome

definition answered_denied :: "string \<Rightarrow> answered" where
  "answered_denied r = \<lparr>an_reviewer = None, an_model = None, an_outcome = OutcomeDenied r\<rparr>"

definition answered_unavailable :: "core_error \<Rightarrow> answered" where
  "answered_unavailable e = \<lparr>an_reviewer = None, an_model = None, an_outcome = OutcomeUnavailable (code e)\<rparr>"

definition settled :: "reviewer \<times> ustring \<times> review_verdict \<Rightarrow> answered" where
  "settled = (\<lambda>(who, model, v). \<lparr>an_reviewer = Some who, an_model = Some model, an_outcome = Decided v (settle_review v)\<rparr>)"

definition answer_review ::
    "'k review_env \<Rightarrow> 'k review_host option \<Rightarrow> bool \<Rightarrow> visible_event list \<Rightarrow> 'k inflight \<Rightarrow> 'r review_plane \<Rightarrow> answered" where
  "answer_review env host timed_out events fl P =
     (case fl_admission fl of
        Inl e \<Rightarrow>
          if code e = ''review.denial_budget'' \<or> code e = ''review.workaround_denied''
          then answered_denied (code e) else answered_unavailable e
      | Inr _ \<Rightarrow>
          if operation_of (en_shell env) (fl_request fl) = None then answered_denied ''review.action_not_supported''
          else
            (case ro_selection (fl_routing fl) of
               Inl e \<Rightarrow> answered_unavailable e
             | Inr sel \<Rightarrow>
                 if timed_out then answered_unavailable (unavailable ''review.timeout'')
                 else
                   (case consult env host events (fl_request fl) sel P of
                      Inl e \<Rightarrow> answered_unavailable e
                    | Inr reviewed \<Rightarrow> settled reviewed)))"

definition drafted :: "uuid \<Rightarrow> 'k inflight \<Rightarrow> answered \<Rightarrow> bool \<Rightarrow> approval_review" where
  "drafted run fl an live =
     \<lparr>rw_id = fl_id fl, rw_run = run, rw_request = fl_request fl, rw_reviewer = an_reviewer an,
      rw_provider = ro_provider (fl_routing fl), rw_binding = ro_binding (fl_routing fl), rw_model = an_model an,
      rw_policy = ro_policy (fl_routing fl),
      rw_outcome = (if live then an_outcome an else OutcomeUnavailable ''review.execution_changed'')\<rparr>"

fun review_audit :: "review_outcome \<Rightarrow> audit_outcome" where
  "review_audit (Decided v Allow) = Succeeded"
| "review_audit (Decided v Deny) = Denied"
| "review_audit (OutcomeDenied r) = Denied"
| "review_audit (OutcomeUnavailable r) = OutcomeFailed"

definition record_review ::
    "'k review_env \<Rightarrow> approval_review \<Rightarrow> u32 \<Rightarrow> int \<Rightarrow> 'r review_plane \<Rightarrow> core_error + (approval_review \<times> 'r review_plane)" where
  "record_review env rw turn now P =
     rbind (ok_or (x_execution (vp_exec P)) (unavailable ''review.run_unavailable'')) (\<lambda>(plan, s).
     rbind (ok_or (x_run (vp_exec P)) (unavailable ''review.run_unavailable'')) (\<lambda>run.
       let (rw', x) =
             (if guard_turn s \<noteq> Inr turn \<or> rr_lifecycle run \<noteq> L_Active
              then (rw\<lparr>rw_outcome := OutcomeUnavailable ''review.turn_changed''\<rparr>, vp_exec P)
              else
                (let rw1 = (if policy_unchanged env (vp_settings P) rw plan then rw
                            else rw\<lparr>rw_outcome := OutcomeUnavailable ''review.policy_changed''\<rparr>)
                 in (rw1, save_state (s\<lparr>rs_review := guard_record rw1 (rs_review s)\<rparr>) (vp_exec P))))
       in Inr (rw', P\<lparr>vp_exec := append_run (RunSupervisor (x_id x) (lp_client plan)) (ApprovalReviewed rw') now x,
                     vp_audit := vp_audit P @ [review_audit (rw_outcome rw')]\<rparr>)))"

text \<open>The decisions handed to the connection, with the review each of them answers.\<close>

definition finish_review ::
    "'k review_env \<Rightarrow> 'k review_host option \<Rightarrow> bool \<Rightarrow> visible_event list \<Rightarrow> bool \<Rightarrow> 'k inflight \<Rightarrow> int \<Rightarrow> 'r review_plane \<Rightarrow>
     core_error + ((approval_review \<times> review_decision) list \<times> 'r review_plane)" where
  "finish_review env host timed_out events live fl now P =
     rbind (record_review env (drafted (x_id (vp_exec P)) fl (answer_review env host timed_out events fl P) live) (fl_turn fl) now P)
       (\<lambda>(rw, P'). Inr (case outcome_decision (rw_outcome rw) of None \<Rightarrow> [] | Some d \<Rightarrow> [(rw, d)], P'))"

text \<open>A user grants the retry of a denied review; grants and refusals are both audited.\<close>

definition authorize_retry :: "uuid \<Rightarrow> uuid \<Rightarrow> int \<Rightarrow> 'r review_plane \<Rightarrow> (core_error + unit) \<times> 'r review_plane" where
  "authorize_retry client review now P =
     (case rbind (guard_load (vp_exec P)) (\<lambda>(plan, s). rbind (guard_turn s) (\<lambda>t. Inr (s, t))) of
        Inl e \<Rightarrow> (Inl e, P)
      | Inr (s, t) \<Rightarrow>
          (case guard_authorize t review (rs_review s) of
             Inl e \<Rightarrow> (Inl e, P\<lparr>vp_audit := vp_audit P @ [Denied]\<rparr>)
           | Inr g \<Rightarrow>
               (Inr (), P\<lparr>vp_audit := vp_audit P @ [Succeeded],
                          vp_exec := append_run (InteractiveClient client) (ApprovalRetryAuthorized review) now
                            (save_state (s\<lparr>rs_review := g\<rparr>) (vp_exec P))\<rparr>)))"

section \<open>The transcript is bounded and cannot be forged\<close>

lemma cut_text_bound: "utf8_len (cut_text t n) \<le> n"
  unfolding cut_text_def using take_bytes_bound [of "min (utf8_len t) n" t] by simp

lemma cut_text_prefix: "prefix (cut_text t n) t"
  unfolding cut_text_def prefix_def using take_bytes_append by metis

lemma transcript_lines_bound:
  "sum_list (map utf8_len (transcript_lines n es)) + (length (transcript_lines n es) - 1) \<le> n"
proof (induction es arbitrary: n)
  case (Cons e es)
  define l where "l = cut_text (transcript_line e) (min n (utf8_len (transcript_line e)))"
  define ls where "ls = transcript_lines (n - utf8_len l - 1) es"
  have len: "utf8_len l \<le> n" using cut_text_bound [of "transcript_line e" "min n (utf8_len (transcript_line e))"] by (simp add: l_def)
  have ih: "sum_list (map utf8_len ls) + (length ls - 1) \<le> n - utf8_len l - 1" unfolding ls_def by (rule Cons.IH)
  have "sum_list (map utf8_len (l # ls)) + (length (l # ls) - 1) \<le> n"
  proof (cases ls)
    case (Cons m ms)
    then have "n - utf8_len l - 1 > 0" unfolding ls_def by (cases es) (auto split: if_splits)
    then show ?thesis using ih Cons by simp
  qed (use len in simp)
  then show ?case by (simp add: l_def ls_def Let_def)
qed simp

lemma transcript_lines_source:
  "l \<in> set (transcript_lines n es) \<Longrightarrow> \<exists>e \<in> set es. prefix l (transcript_line e)"
  by (induction es arbitrary: n) (auto simp: Let_def cut_text_prefix split: if_splits)

lemma utf8_len_join: "c < 128 \<Longrightarrow> utf8_len (join_with c ls) = sum_list (map utf8_len ls) + (length ls - 1)"
proof (cases ls)
  case (Cons m ms)
  assume "c < 128"
  then have "utf8_len (concat (map ((#) c) ms)) = sum_list (map utf8_len ms) + length ms"
    by (induction ms) (simp_all add: utf8_width_def)
  then show ?thesis using Cons by (simp add: join_with_def)
qed (simp add: join_with_def)

lemma one_line_clean: "list_all (\<lambda>c. \<not> is_control c) (one_line s)"
  by (auto simp: one_line_def list_all_iff)

lemma entry_roles: "e \<in> set (List.map_filter transcript_entry events) \<Longrightarrow> fst e = ucs ''user'' \<or> fst e = ucs ''harness''"
proof -
  assume "e \<in> set (List.map_filter transcript_entry events)"
  then obtain v where "transcript_entry v = Some e" by (auto simp: List.map_filter_def)
  then show ?thesis by (cases v) (auto split: if_splits)
qed

lemma entry_line_clean:
  assumes "e \<in> set (List.map_filter transcript_entry events)" and "prefix l (transcript_line e)"
  shows "list_all (\<lambda>c. \<not> is_control c) l"
proof -
  have "list_all (\<lambda>c. \<not> is_control c) (transcript_line e)"
    using entry_roles [OF assms(1)] one_line_clean
    by (cases e) (auto simp: transcript_line_def ucs_def is_control_def)
  then show ?thesis using assms(2) by (auto simp: prefix_def)
qed

text \<open>
  What a reviewer is shown is bounded and cannot be forged: whatever the Conversation holds, the
  transcript fits its budget, so the input built for a valid request is always accepted; and its lines are exactly
  (beginnings of) entries, each marked with the side it came from and free of control
  characters, so no content can pass for another entry.
\<close>
lemma transcript_bounded:
  assumes "validate_request q = Inr ()"
  shows "validate_input (make_input events q) = Inr () \<and>
    utf8_len (transcript (List.map_filter transcript_entry events)) \<le> 12288 \<and>
    list_all (\<lambda>l. \<exists>e \<in> set (List.map_filter transcript_entry events). prefix l (transcript_line e) \<and>
        (fst e = ucs ''user'' \<or> fst e = ucs ''harness'') \<and> list_all (\<lambda>c. \<not> is_control c) l)
      (filter (\<lambda>l. l \<noteq> []) (split_on NEWLINE (transcript (List.map_filter transcript_entry events))))"
proof -
  define es where "es = List.map_filter transcript_entry events"
  define ls where "ls = transcript_lines TRANSCRIPT_BYTES (rev es)"
  have t: "transcript es = join_with NEWLINE (rev ls)" by (simp add: transcript_def ls_def)
  have len: "utf8_len (transcript es) \<le> 12288"
    unfolding t using transcript_lines_bound [of TRANSCRIPT_BYTES "rev es", folded ls_def]
    by (subst utf8_len_join) (simp_all add: NEWLINE_def rev_map [symmetric] TRANSCRIPT_BYTES_def)
  moreover from len have "validate_input (make_input events q) = Inr ()"
    using assms
    by (auto simp: validate_input_def make_input_def validate_request_def TRANSCRIPT_BYTES_def es_def require_def split: if_splits)
  moreover have "list_all (\<lambda>l. \<exists>e \<in> set es. prefix l (transcript_line e) \<and>
        (fst e = ucs ''user'' \<or> fst e = ucs ''harness'') \<and> list_all (\<lambda>c. \<not> is_control c) l)
      (filter (\<lambda>l. l \<noteq> []) (split_on NEWLINE (transcript es)))"
  proof (cases "ls = []")
    case True
    then show ?thesis by (simp add: t join_with_def)
  next
    case False
    have src: "\<exists>e \<in> set es. prefix l (transcript_line e)" if "l \<in> set ls" for l
      using transcript_lines_source [of l TRANSCRIPT_BYTES "rev es"] that by (simp add: ls_def)
    have clean: "list_all (\<lambda>c. \<not> is_control c) l" if "l \<in> set ls" for l
      using src [OF that] entry_line_clean [of _ events l] by (auto simp: es_def)
    have "NEWLINE \<notin> set l" if "l \<in> set ls" for l
    proof
      assume "NEWLINE \<in> set l"
      then have "\<not> is_control NEWLINE" using clean [OF that] by (simp add: list_all_iff)
      then show False by (simp add: NEWLINE_def)
    qed
    then have "split_on NEWLINE (transcript es) = rev ls" unfolding t using False by (intro split_join) auto
    then show ?thesis
      using src clean entry_roles [of _ events] by (fastforce simp: list_all_iff es_def)
  qed
  ultimately show ?thesis by (simp add: es_def)
qed

lemma transcript_bounded_witness:
  "validate_input (make_input [VisibleInput (ucs ''hi'')] (demo_request ''/bin/echo a'')) = Inr ()"
  by (rule conjunct1 [OF transcript_bounded])
    (simp add: validate_request_def demo_request_def ucs_def utf8_width_def is_control_def REQUEST_ID_BYTES_def TOOL_BYTES_def ACTION_BYTES_def)

section \<open>An allowance is authorized at every step\<close>

lemma settle_allow:
  "settle_review v = Allow \<Longrightarrow> rv_decision v = Allow \<and> rv_risk v \<noteq> Critical \<and>
     (rv_risk v = High \<longrightarrow> rv_authorization v = Sufficient)"
  unfolding settle_review_def by (cases "rv_decision v"; cases "rv_risk v"; cases "rv_authorization v") simp_all

lemma answer_decided:
  assumes "an_outcome (answer_review env host timed_out events fl P) = Decided v d"
  obtains who model sel where "fl_admission fl = Inr ()" and "operation_of (en_shell env) (fl_request fl) \<noteq> None"
    and "ro_selection (fl_routing fl) = Inr sel" and "\<not> timed_out" and "d = settle_review v"
    and "consult env host events (fl_request fl) sel P = Inr (who, model, v)"
  using assms
  by (auto simp: answer_review_def answered_denied_def answered_unavailable_def settled_def split: sum.splits if_splits)

lemma select_reviewer_Inr:
  "select_reviewer security cross consent binding craft credential = Inr sel \<Longrightarrow>
     security = Trusted \<and> (cross \<longrightarrow> consent) \<and> binding = Some (sl_binding sel)"
  by (auto simp: select_reviewer_def security_admit_def map_err_def rbind_Inr_iff ok_or_def
      split: security_state.splits if_splits option.splits sum.splits)

lemma begin_review_Some:
  assumes "begin_review env review q turn P = Inr (Some fl, P')"
  obtains routing plan s where "review_routing env P = Inr (Some routing)" and "guard_load (vp_exec P) = Inr (plan, s)"
    and "guard_turn s = Inr turn" and "validate_request q = Inr ()"
    and "fl = \<lparr>fl_id = review, fl_request = q, fl_turn = turn,
           fl_admission = fst (guard_admit (en_shell env) turn review q (rs_review s)), fl_routing = routing\<rparr>"
    and "P' = P\<lparr>vp_exec := save_state (s\<lparr>rs_review := snd (guard_admit (en_shell env) turn review q (rs_review s))\<rparr>) (vp_exec P)\<rparr>"
  using assms by (auto simp: begin_review_def rbind_Inr_iff case_prod_unfold split: option.splits if_splits)

lemma routing_selected:
  assumes "review_routing env P = Inr (Some routing)" and "ro_selection routing = Inr sel"
  obtains i bd where "ro_binding routing = Some i" and "vp_accounts P i = Some bd" and "vp_security P = Trusted"
    and "cross_provider (Some bd) (vp_run_provider P) \<longrightarrow> po_consent (ro_policy routing)"
proof -
  have rt: "ro_selection routing = select_reviewer (vp_security P)
       (cross_provider (case ro_binding routing of None \<Rightarrow> None | Some i \<Rightarrow> vp_accounts P i) (vp_run_provider P))
       (po_consent (ro_policy routing)) (case ro_binding routing of None \<Rightarrow> None | Some i \<Rightarrow> vp_accounts P i) (en_craft env) (vp_credential P)"
    using assms(1) by (auto simp: review_routing_def rbind_Inr_iff ok_or_def Let_def split: if_splits option.splits)
  note sel = select_reviewer_Inr [OF assms(2) [unfolded rt]]
  then obtain i where "ro_binding routing = Some i" "vp_accounts P i = Some (sl_binding sel)" by (auto split: option.splits)
  then show thesis using that sel by simp
qed

text \<open>The state of the Plane at the moment a decision commits.\<close>

lemma record_review_decided:
  assumes "record_review env rw turn now P = Inr (rw', P')" and "outcome_decision (rw_outcome rw') = Some d"
  obtains plan s run where "x_execution (vp_exec P) = Some (plan, s)" and "x_run (vp_exec P) = Some run"
    and "rw' = rw" and "guard_turn s = Inr turn" and "rr_lifecycle run = L_Active"
    and "policy_unchanged env (vp_settings P) rw plan"
    and "x_events (vp_exec P') = x_events (vp_exec P) @
           [\<lparr>re_kind = ApprovalReviewed rw, re_actor = RunSupervisor (x_id (vp_exec P)) (lp_client plan), re_at = now\<rparr>]"
    and "vp_audit P' = vp_audit P @ [review_audit (rw_outcome rw)]"
    and "guard_of (vp_exec P') = Some (guard_record rw (rs_review s))"
proof -
  obtain plan s run where e: "x_execution (vp_exec P) = Some (plan, s)" and r: "x_run (vp_exec P) = Some run"
    using assms(1) by (auto simp: record_review_def rbind_Inr_iff ok_or_def split: option.splits)
  note opened = assms(1) [unfolded record_review_def e r ok_or_simps rbind_simps]
  have live: "guard_turn s = Inr turn" "rr_lifecycle run = L_Active"
    using opened assms(2) by (auto simp: Let_def split: if_splits)
  have pol: "policy_unchanged env (vp_settings P) rw plan"
    using opened assms(2) live by (auto simp: Let_def split: if_splits)
  show thesis
    by (rule that [OF e r _ live pol]) (use opened live pol e in \<open>auto simp: Let_def append_run_eq guard_save\<close>)
qed

text \<open>
  C6: Nothing is allowed automatically that a person did not let a reviewer settle. Take a review that began
  on any Plane and later, after whatever happened in between, delivers an allowance. Then:
  the reviewer said so and judged the risk below critical, or high with the user's explicit request; the
  core itself knows the action as harmless; the guard admitted this review; the audit was
  vouched for and a reviewer outside the Run's Provider had the owner's consent; at the moment of the decision review is
  still switched on for the same binding with the same consent, in the same turn of the same live execution; and the
  decision is in the journal and in the audit before it is delivered.
\<close>
theorem allowance_is_authorized:
  assumes "begin_review env review q turn P0 = Inr (Some fl, P1)"
    and "finish_review env host timed_out events live fl now P = Inr (sent, P')" and "(rw, Allow) \<in> set sent"
  shows "sent = [(rw, Allow)] \<and> rw_request rw = q \<and> rw_id rw = review \<and> live \<and> \<not> timed_out \<and>
    (\<exists>v. rw_outcome rw = Decided v Allow \<and> rv_decision v = Allow \<and> rv_risk v \<noteq> Critical \<and>
       (rv_risk v = High \<longrightarrow> rv_authorization v = Sufficient)) \<and>
    operation_of (en_shell env) q \<noteq> None \<and>
    (\<exists>g. guard_of (vp_exec P0) = Some g \<and> fst (guard_admit (en_shell env) turn review q g) = Inr ()) \<and>
    vp_security P0 = Trusted \<and>
    (\<exists>b plan s. vp_accounts P0 (the (rw_binding rw)) = Some b \<and> x_execution (vp_exec P) = Some (plan, s) \<and>
       (cross_provider (Some b) (vp_run_provider P0) \<longrightarrow> consented env (vp_settings P) (rw_binding rw)) \<and>
       vs_enabled (vp_settings P) = Flag True \<and> chosen_binding env (vp_settings P) plan = rw_binding rw \<and>
       guard_turn s = Inr turn) \<and>
    lc (vp_exec P) = Some L_Active \<and>
    re_kind (last (x_events (vp_exec P'))) = ApprovalReviewed rw \<and> last (vp_audit P') = Succeeded"
proof -
  obtain routing plan0 s0 where b: "review_routing env P0 = Inr (Some routing)" "guard_load (vp_exec P0) = Inr (plan0, s0)"
    and fl: "fl = \<lparr>fl_id = review, fl_request = q, fl_turn = turn,
           fl_admission = fst (guard_admit (en_shell env) turn review q (rs_review s0)), fl_routing = routing\<rparr>"
    by (rule begin_review_Some [OF assms(1)])
  define draft where "draft = drafted (x_id (vp_exec P)) fl (answer_review env host timed_out events fl P) live"
  obtain rw1 where r: "record_review env draft turn now P = Inr (rw1, P')"
    and s: "sent = (case outcome_decision (rw_outcome rw1) of None \<Rightarrow> [] | Some d \<Rightarrow> [(rw1, d)])"
    using assms(2) by (auto simp: finish_review_def rbind_Inr_iff draft_def fl)
  have d: "outcome_decision (rw_outcome rw1) = Some Allow" and rw: "rw = rw1" "sent = [(rw, Allow)]"
    using s assms(3) by (auto split: option.splits)
  from record_review_decided [OF r d] obtain plan st run where c:
    "x_execution (vp_exec P) = Some (plan, st)" "x_run (vp_exec P) = Some run" "rw1 = draft" "guard_turn st = Inr turn"
    "rr_lifecycle run = L_Active" "policy_unchanged env (vp_settings P) draft plan"
    "x_events (vp_exec P') = x_events (vp_exec P) @
       [\<lparr>re_kind = ApprovalReviewed draft, re_actor = RunSupervisor (x_id (vp_exec P)) (lp_client plan), re_at = now\<rparr>]"
    "vp_audit P' = vp_audit P @ [review_audit (rw_outcome draft)]" by metis
  obtain v where v: "rw_outcome rw = Decided v Allow" using d rw c(3) by (cases "rw_outcome rw1") auto
  then have live: "live" and an: "an_outcome (answer_review env host timed_out events fl P) = Decided v Allow"
    using rw c(3) by (auto simp: draft_def drafted_def split: if_splits)
  from an obtain sel where a: "fl_admission fl = Inr ()" "operation_of (en_shell env) q \<noteq> None" "ro_selection routing = Inr sel"
      "\<not> timed_out" "Allow = settle_review v"
    by (rule answer_decided) (simp_all add: fl)
  have ro: "rw_request rw = q" "rw_id rw = review" "rw_binding rw = ro_binding routing" "rw_policy rw = ro_policy routing"
    using rw c(3) by (simp_all add: draft_def drafted_def fl)
  obtain i bd where i: "ro_binding routing = Some i" "vp_accounts P0 i = Some bd" "vp_security P0 = Trusted"
      "cross_provider (Some bd) (vp_run_provider P0) \<longrightarrow> po_consent (ro_policy routing)"
    by (rule routing_selected [OF b(1) a(3)])
  have g: "guard_of (vp_exec P0) = Some (rs_review s0)"
    using b(2) by (auto simp: guard_load_def guard_of_def rbind_Inr_iff ok_or_def split: if_splits option.splits)
  have pol: "vs_enabled (vp_settings P) = Flag True" "chosen_binding env (vp_settings P) plan = rw_binding rw"
      "consented env (vp_settings P) (rw_binding rw) = po_consent (ro_policy routing)"
    using c(3,6) rw ro(4) by (auto simp: policy_unchanged_def)
  have "cross_provider (Some bd) (vp_run_provider P0) \<longrightarrow> consented env (vp_settings P) (rw_binding rw)"
      "vp_accounts P0 (the (rw_binding rw)) = Some bd"
    using i pol(3) ro(3) by simp_all
  then have bind: "\<exists>b plan s. vp_accounts P0 (the (rw_binding rw)) = Some b \<and> x_execution (vp_exec P) = Some (plan, s) \<and>
       (cross_provider (Some b) (vp_run_provider P0) \<longrightarrow> consented env (vp_settings P) (rw_binding rw)) \<and>
       vs_enabled (vp_settings P) = Flag True \<and> chosen_binding env (vp_settings P) plan = rw_binding rw \<and> guard_turn s = Inr turn"
    using c(1,4) pol(1,2) by blast
  have "re_kind (last (x_events (vp_exec P'))) = ApprovalReviewed rw" "last (vp_audit P') = Succeeded" "lc (vp_exec P) = Some L_Active"
    using c rw v by (simp_all add: lc_def)
  moreover have "\<exists>g. guard_of (vp_exec P0) = Some g \<and> fst (guard_admit (en_shell env) turn review q g) = Inr ()"
    using g a(1) by (simp add: fl)
  ultimately show ?thesis using rw(2) ro(1,2) live a(2,4) v settle_allow [OF a(5) [symmetric]] i(3) bind by blast
qed

text \<open>A Plane on which a harmless echo is allowed.\<close>

definition demo_env :: "unit review_env" where
  "demo_env = \<lparr>en_shell = demo_shell, en_answer = (\<lambda>_. Some \<lparr>rv_risk = Low, rv_authorization = Absent, rv_decision = Allow,
     rv_rationale = ucs ''ok''\<rparr>), en_parse_uuid = (\<lambda>_. None), en_uuid_text = (\<lambda>_. []), en_craft = ()\<rparr>"

definition demo_tracking :: tracking where
  "demo_tracking = \<lparr>tk_between = [], tk_between_incomplete = False, tk_evidence = [], tk_incomplete = False,
     tk_baseline = \<lparr>sn_omitted = [], sn_commit = [], sn_tree = [], sn_uncommitted = pressure_artifact\<rparr>,
     tk_active = Some \<lparr>sn_omitted = [], sn_commit = [], sn_tree = [], sn_uncommitted = pressure_artifact\<rparr>,
     tk_terminal = None, tk_completed = 0\<rparr>"

definition demo_plane :: "unit review_plane" where
  "demo_plane = \<lparr>vp_exec = (demo_exec L_Active demo_state)\<lparr>x_execution :=
       Some (\<lparr>lp_client = 1, lp_turn = None, lp_visa = Some 3\<rparr>, demo_state\<lparr>rs_changes := Some demo_tracking\<rparr>)\<rparr>,
     vp_settings = \<lparr>vs_enabled = Flag True, vs_binding = Text [], vs_consent = Text [1]\<rparr>,
     vp_accounts = (\<lambda>i. if i = 3 then Some \<lparr>ab_provider = ''p'', ab_credential = ''c''\<rparr> else None),
     vp_security = Trusted, vp_run_provider = Some ''p'', vp_credential = (\<lambda>_. Resolvable), vp_audit = []\<rparr>"

definition demo_host :: "unit review_host" where
  "demo_host = \<lparr>rh_select = (\<lambda>_ _. Inr \<lparr>rs_reviewer = Native, rs_reviewer_model = ucs ''m'', rs_adapter = []\<rparr>),
     rh_review = (\<lambda>_ _ _ _. Inr \<lparr>rp_model = ucs ''m'', rp_reviewer = Native, rp_output = []\<rparr>)\<rparr>"

lemma demo_request_valid: "validate_request (demo_request ''/bin/echo a'') = Inr ()"
  by (simp add: validate_request_def demo_request_def ucs_def utf8_width_def is_control_def REQUEST_ID_BYTES_def TOOL_BYTES_def ACTION_BYTES_def)

lemma demo_begin:
  "\<exists>fl P1. begin_review demo_env 8 (demo_request ''/bin/echo a'') 0 demo_plane = Inr (Some fl, P1) \<and> fl_admission fl = Inr () \<and>
     fl_request fl = demo_request ''/bin/echo a'' \<and> fl_turn fl = 0 \<and> fl_id fl = 8 \<and>
     ro_policy (fl_routing fl) = \<lparr>po_version = 2, po_consent = False\<rparr> \<and> ro_binding (fl_routing fl) = Some 3 \<and>
     ro_selection (fl_routing fl) = Inr \<lparr>sl_craft = (), sl_binding = \<lparr>ab_provider = ''p'', ab_credential = ''c''\<rparr>\<rparr>"
  by (simp add: begin_review_def demo_request_valid review_routing_def demo_plane_def demo_env_def chosen_binding_def binding_of_def
      consented_def select_reviewer_def security_admit_def map_err_def cross_provider_def guard_load_def guard_turn_def
      demo_exec_def demo_state_def demo_tracking_def guard_admit_def default_guard_def Let_def)

lemma demo_consult:
  "consult demo_env (Some demo_host) [] (demo_request ''/bin/echo a'') sel demo_plane =
     Inr (Native, ucs ''m'', \<lparr>rv_risk = Low, rv_authorization = Absent, rv_decision = Allow, rv_rationale = ucs ''ok''\<rparr>)"
proof -
  have i: "validate_input (make_input [] (demo_request ''/bin/echo a'')) = Inr ()"
    by (simp add: validate_input_def make_input_def transcript_def join_with_def List.map_filter_def TRANSCRIPT_BYTES_def TOOL_BYTES_def
        ACTION_BYTES_def demo_request_def ucs_def utf8_width_def)
  show ?thesis
    by (simp add: consult_def i demo_host_def demo_env_def demo_plane_def demo_exec_def map_err_def validate_selection_def
        validate_answer_def MODEL_BYTES_def ADAPTER_STATE_BYTES_def OUTPUT_BYTES_def RATIONALE_BYTES_def ucs_def utf8_width_def
        is_control_def trim_def is_whitespace_def)
qed

theorem allowance_is_authorized_witness:
  "\<exists>fl P1 rw P'. begin_review demo_env 8 (demo_request ''/bin/echo a'') 0 demo_plane = Inr (Some fl, P1) \<and>
     finish_review demo_env (Some demo_host) False [] True fl 5 demo_plane = Inr ([(rw, Allow)], P') \<and>
     re_kind (last (x_events (vp_exec P'))) = ApprovalReviewed rw \<and> last (vp_audit P') = Succeeded"
proof -
  obtain fl P1 where b: "begin_review demo_env 8 (demo_request ''/bin/echo a'') 0 demo_plane = Inr (Some fl, P1)"
    and fl: "fl_admission fl = Inr ()" "fl_request fl = demo_request ''/bin/echo a''" "fl_turn fl = 0"
      "ro_policy (fl_routing fl) = \<lparr>po_version = 2, po_consent = False\<rparr>" "ro_binding (fl_routing fl) = Some 3"
      "ro_selection (fl_routing fl) = Inr \<lparr>sl_craft = (), sl_binding = \<lparr>ab_provider = ''p'', ab_credential = ''c''\<rparr>\<rparr>"
    using demo_begin by blast
  have a: "answer_review demo_env (Some demo_host) False [] fl demo_plane =
      settled (Native, ucs ''m'', \<lparr>rv_risk = Low, rv_authorization = Absent, rv_decision = Allow, rv_rationale = ucs ''ok''\<rparr>)"
    using fl demo_consult by (simp add: answer_review_def demo_env_def)
  have "\<exists>rw P'. finish_review demo_env (Some demo_host) False [] True fl 5 demo_plane = Inr ([(rw, Allow)], P')"
    using fl unfolding finish_review_def a
    by (simp add: record_review_def drafted_def settled_def settle_review_def policy_unchanged_def chosen_binding_def binding_of_def
        consented_def guard_turn_def demo_plane_def demo_exec_def demo_state_def demo_tracking_def demo_env_def Let_def)
  then obtain rw P' where f: "finish_review demo_env (Some demo_host) False [] True fl 5 demo_plane = Inr ([(rw, Allow)], P')" by blast
  have "(rw, Allow) \<in> set [(rw, Allow)]" by simp
  from allowance_is_authorized [OF b f this] b f show ?thesis by blast
qed

end
