(* ===== verification/Jet_Command.thy ===== *)
theory Jet_Command
  imports Jet_Security
begin

text \<open>
  The Command pipeline: \<open>jet-core/src/command/{execute,receipt,preparation}.rs\<close> on the receipt
  table of \<open>jet-store/src/command.rs\<close>.

  A Command carries an identity of its Actor's choosing and a digest of its content. The
  pipeline answers an identity it has seen from the receipt and otherwise runs the Command
  and writes the receipt in the same transaction. What the Commands themselves do is the
  handler: \<open>hd_execute\<close> is \<open>execute_new\<close> on the rest of the store, \<open>hd_class\<close> the Command's
  security class, \<open>hd_audited\<close> whether the audit records it, \<open>hd_disk\<close> and \<open>hd_early\<close> whether
  admission asks for disk room and for the security class before preparing it, and
  \<open>hd_about_conversation\<close> whether an error carries a Conversation's state. What the machine
  answers (the disk check, the Capabilities and the preparation) is an argument. Receipts
  keep the result itself: \<open>serde_json\<close> writes it and reads it back. Expiry and pruning follow
  the clock the caller passes. The Actor's own authorization, Recovery mode and the five
  Commands that run beside the pipeline come before what is modelled here.
\<close>

section \<open>Outcomes and their versions\<close>

datatype outcome_kind =
    O_RecoveredBundle | O_RecoveryBundle | O_PlaneTransferPrepared | O_PlaneTransferImported
  | O_PlaneTransferRelinquished | O_PlaneTransferCommitted | O_PlaneTransferAborted
  | O_GitDeliveryAcknowledged | O_GitDeliveryQueued | O_AutoContinueConfigured
  | O_ApprovalRetryAuthorized | O_ExtensionChangeQueued | O_RemoteToolReviewed | O_UtilityQueued
  | O_CraftDisabled | O_CraftInstallationQueued | O_ScheduleCreated | O_ScheduleCanceled
  | O_UserEditApplied | O_ConversationNamed | O_RunNamed | O_Terminal | O_TurnWithdrawn
  | O_TurnAdmitted | O_ExecutionResolutionRecorded | O_RunControlAccepted | O_ConversationCreated
  | O_RunCreated | O_RunTransitioned | O_SettingSet | O_SettingCleared | O_AccountBound
  | O_PairingGateSet | O_PairingOpened | O_PairingClaimed | O_PairingConfirmed | O_PairingCompleted
  | O_PairedClientAccessSet | O_PairedClientRevoked | O_RecoverySnapshotRestored
  | O_RecoverySnapshotsPurged | O_ConversationTrashed | O_ConversationRestored
  | O_AutodeleteRuleRecorded | O_AutodeleteRuleDeleted | O_AuditEpochBegun | O_AccountUnbound
  | O_ProjectRegistered | O_ProjectRemoved | O_WorkspacePromotionRecorded | O_ConversationImported

datatype pairing_disclosure = ManualCode ustring | QrPayload ustring | AlreadyDisclosed

record 'b command_outcome =
  co_kind :: outcome_kind
  co_body :: 'b
  co_disclosure :: "pairing_disclosure option"

type_synonym 'b result = "core_error + 'b command_outcome"

fun kind_version :: "outcome_kind \<Rightarrow> nat" where
  "kind_version O_RecoverySnapshotRestored = 12"
| "kind_version O_RecoveredBundle = 12"
| "kind_version O_RecoveryBundle = 12"
| "kind_version O_RecoverySnapshotsPurged = 12"
| "kind_version O_PlaneTransferPrepared = 15"
| "kind_version O_PlaneTransferImported = 15"
| "kind_version O_PlaneTransferRelinquished = 15"
| "kind_version O_PlaneTransferCommitted = 15"
| "kind_version O_PlaneTransferAborted = 15"
| "kind_version O_ConversationTrashed = 13"
| "kind_version O_ConversationRestored = 13"
| "kind_version O_AutodeleteRuleRecorded = 14"
| "kind_version O_AutodeleteRuleDeleted = 14"
| "kind_version O_AutoContinueConfigured = 10"
| "kind_version O_ApprovalRetryAuthorized = 9"
| "kind_version O_ExtensionChangeQueued = 8"
| "kind_version O_CraftDisabled = 7"
| "kind_version O_RemoteToolReviewed = 6"
| "kind_version O_GitDeliveryQueued = 11"
| "kind_version O_GitDeliveryAcknowledged = 11"
| "kind_version O_UtilityQueued = 4"
| "kind_version O_CraftInstallationQueued = 5"
| "kind_version O_ScheduleCreated = 3"
| "kind_version O_ScheduleCanceled = 3"
| "kind_version O_ConversationNamed = 2"
| "kind_version O_RunNamed = 2"
| "kind_version _ = 1"

definition outcome_version :: "(core_error \<Rightarrow> bool) \<Rightarrow> 'b result \<Rightarrow> nat" where
  "outcome_version about_conversation r =
     (case r of
        Inr out \<Rightarrow> kind_version (co_kind out)
      | Inl e \<Rightarrow> if about_conversation e then 2 else 1)"

definition redacted_for_receipt :: "'b result \<Rightarrow> 'b result" where
  "redacted_for_receipt r =
     (case r of
        Inl e \<Rightarrow> Inl e
      | Inr out \<Rightarrow>
          if co_kind out = O_PairingOpened then Inr (out\<lparr>co_disclosure := Some AlreadyDisclosed\<rparr>) else Inr out)"

section \<open>Receipts\<close>

record 'b receipt =
  rp_actor :: uuid
  rp_command :: uuid
  rp_digest :: "byte list option"
  rp_at :: int
  rp_version :: "nat option"
  rp_outcome :: "'b result option"

record ('s, 'b) plane =
  pl_state :: 's
  pl_receipts :: "'b receipt list"
  pl_refusals :: "(uuid \<times> uuid) list"

definition COMMAND_RETENTION_MS :: int where
  "COMMAND_RETENTION_MS = 30 * 24 * 60 * 60 * 1000"

definition command_receipt :: "uuid \<Rightarrow> uuid \<Rightarrow> ('s, 'b) plane \<Rightarrow> 'b receipt option" where
  "command_receipt actor cid P = find (\<lambda>r. rp_actor r = actor \<and> rp_command r = cid) (pl_receipts P)"

definition insert_command_receipt :: "'b receipt \<Rightarrow> ('s, 'b) plane \<Rightarrow> ('s, 'b) plane" where
  "insert_command_receipt r P = P\<lparr>pl_receipts := pl_receipts P @ [r]\<rparr>"

definition expire_receipt :: "int \<Rightarrow> 'b receipt \<Rightarrow> 'b receipt" where
  "expire_receipt cutoff r =
     (if rp_at r < cutoff \<and> rp_digest r \<noteq> None
      then r\<lparr>rp_digest := None, rp_version := None, rp_outcome := None\<rparr> else r)"

definition prune_command_receipts_before :: "int \<Rightarrow> ('s, 'b) plane \<Rightarrow> ('s, 'b) plane" where
  "prune_command_receipts_before cutoff P = P\<lparr>pl_receipts := map (expire_receipt cutoff) (pl_receipts P)\<rparr>"

definition invalid_receipt :: core_error where
  "invalid_receipt = internal ''command.receipt_invalid''"

definition replayable :: "nat \<Rightarrow> bool" where
  "replayable v \<longleftrightarrow> v \<in> {1, 2, 3, 4, 5, 6, 7, 8, 9, 10, 11, 15}"

text \<open>The outer error takes the transaction down; the inner result is the answer.\<close>

definition replay :: "'b receipt \<Rightarrow> byte list \<Rightarrow> int \<Rightarrow> core_error + 'b result" where
  "replay r digest now =
     (if i64_sat_sub now (rp_at r) > COMMAND_RETENTION_MS
      then Inr (Inl (invalid_input ''command.identity_expired''))
      else
        rbind (ok_or (rp_digest r) invalid_receipt) (\<lambda>original.
          if original \<noteq> digest then Inl (conflict ''command.identity_reused'')
          else
            rbind (ok_or (rp_version r) invalid_receipt) (\<lambda>v.
            rbind (ok_or (rp_outcome r) invalid_receipt) (\<lambda>out.
              Inr (if replayable v then out else Inl (incompatible ''command.outcome_incompatible''))))))"

section \<open>The pipeline\<close>

record ('s, 'c, 'p, 'b) handler =
  hd_execute :: "uuid \<Rightarrow> uuid \<Rightarrow> 'c \<Rightarrow> 'p option \<Rightarrow> int \<Rightarrow> 's \<Rightarrow> 'b result \<times> 's"
  hd_class :: "'c \<Rightarrow> security_class"
  hd_audited :: "'c \<Rightarrow> bool"
  hd_disk :: "'c \<Rightarrow> bool"
  hd_early :: "'c \<Rightarrow> bool"
  hd_about_conversation :: "core_error \<Rightarrow> bool"

record 'c envelope =
  en_actor :: uuid
  en_id :: uuid
  en_command :: 'c
  en_digest :: "byte list"

definition new_receipt ::
    "('s, 'c, 'p, 'b) handler \<Rightarrow> 'c envelope \<Rightarrow> int \<Rightarrow> 'b result \<Rightarrow> 'b receipt" where
  "new_receipt H env now r =
     \<lparr>rp_actor = en_actor env, rp_command = en_id env, rp_digest = Some (en_digest env), rp_at = now,
      rp_version = Some (outcome_version (hd_about_conversation H) r),
      rp_outcome = Some (redacted_for_receipt r)\<rparr>"

definition command_transaction ::
    "('s, 'c, 'p, 'b) handler \<Rightarrow> security_state \<Rightarrow> 'c envelope \<Rightarrow> 'p option \<Rightarrow> int \<Rightarrow> ('s, 'b) plane \<Rightarrow>
     'b result \<times> ('s, 'b) plane" where
  "command_transaction H st env prepared now P =
     (let P1 = prune_command_receipts_before (i64_sat_sub now COMMAND_RETENTION_MS) P
      in case command_receipt (en_actor env) (en_id env) P1 of
           Some receipt \<Rightarrow>
             (case replay receipt (en_digest env) now of
                Inl e \<Rightarrow> (Inl e, P)
              | Inr answer \<Rightarrow> (answer, P1))
         | None \<Rightarrow>
             (case security_admit st (hd_class H (en_command env)) of
                Inl e \<Rightarrow> (Inl e, P)
              | Inr _ \<Rightarrow>
                  (case hd_execute H (en_actor env) (en_id env) (en_command env) prepared now (pl_state P1) of
                     (r, s) \<Rightarrow>
                       (case r of
                          Inl e \<Rightarrow>
                            if is_authoritative_result e
                            then (r, insert_command_receipt (new_receipt H env now r) (P1\<lparr>pl_state := s\<rparr>))
                            else (Inl e, P)
                        | Inr _ \<Rightarrow>
                            (r, insert_command_receipt (new_receipt H env now r) (P1\<lparr>pl_state := s\<rparr>))))))"

text \<open>
  Admission before the transaction: a receipt skips it, a refused preparation of a Command the
  audit records leaves a denied record.
\<close>

definition command_admit ::
    "('s, 'c, 'p, 'b) handler \<Rightarrow> security_state \<Rightarrow> 'c envelope \<Rightarrow> core_error + unit \<Rightarrow> core_error + 'p \<Rightarrow>
     ('s, 'b) plane \<Rightarrow> (core_error + 'p option) \<times> ('s, 'b) plane" where
  "command_admit H st env disk preparation P =
     (if command_receipt (en_actor env) (en_id env) P \<noteq> None then (Inr None, P)
      else
        (case (if hd_disk H (en_command env) then disk else Inr ()) of
           Inl e \<Rightarrow> (Inl e, P)
         | Inr _ \<Rightarrow>
             (case (if hd_early H (en_command env) then security_admit st (hd_class H (en_command env)) else Inr ()) of
                Inl e \<Rightarrow> (Inl e, P)
              | Inr _ \<Rightarrow>
                  (case preparation of
                     Inr p \<Rightarrow> (Inr (Some p), P)
                   | Inl refusal \<Rightarrow>
                       (Inl refusal,
                        if hd_audited H (en_command env)
                        then P\<lparr>pl_refusals := pl_refusals P @ [(en_actor env, en_id env)]\<rparr> else P)))))"

definition execute ::
    "('s, 'c, 'p, 'b) handler \<Rightarrow> security_state \<Rightarrow> 'c envelope \<Rightarrow> core_error + unit \<Rightarrow> core_error + 'p \<Rightarrow> int \<Rightarrow>
     ('s, 'b) plane \<Rightarrow> 'b result \<times> ('s, 'b) plane" where
  "execute H st env disk preparation now P =
     (case command_admit H st env disk preparation P of
        (Inl e, P1) \<Rightarrow> (Inl e, P1)
      | (Inr prepared, P1) \<Rightarrow> command_transaction H st env prepared now P1)"

section \<open>A receipt stays\<close>

lemma find_map_inv: "(\<And>x. P (f x) = P x) \<Longrightarrow> find P (map f xs) = map_option f (find P xs)"
  by (induction xs) simp_all

lemma expire_receipt_key [simp]: "rp_actor (expire_receipt k r) = rp_actor r" "rp_command (expire_receipt k r) = rp_command r"
  by (simp_all add: expire_receipt_def)

lemma receipt_after_prune:
  "command_receipt a c (prune_command_receipts_before k P) = map_option (expire_receipt k) (command_receipt a c P)"
  by (simp add: command_receipt_def prune_command_receipts_before_def find_map_inv)

lemma receipt_after_insert:
  "command_receipt a c (insert_command_receipt r P) =
     (case command_receipt a c P of
        Some x \<Rightarrow> Some x
      | None \<Rightarrow> if rp_actor r = a \<and> rp_command r = c then Some r else None)"
  by (simp add: command_receipt_def insert_command_receipt_def find_append split: option.split)

lemma receipt_frame [simp]:
  "command_receipt a c (P\<lparr>pl_state := s\<rparr>) = command_receipt a c P"
  "command_receipt a c (P\<lparr>pl_refusals := f\<rparr>) = command_receipt a c P"
  "pl_state (prune_command_receipts_before k P) = pl_state P"
  "pl_state (insert_command_receipt r P) = pl_state P"
  by (simp_all add: command_receipt_def prune_command_receipts_before_def insert_command_receipt_def)

text \<open>What one run of the pipeline can do to the store.\<close>

definition cutoff_of :: "int \<Rightarrow> int" where
  "cutoff_of now = i64_sat_sub now COMMAND_RETENTION_MS"

lemma transaction_new:
  assumes "command_receipt (en_actor env) (en_id env) P = None"
  obtains (refused) e where "command_transaction H st env (Some p) now P = (Inl e, P)"
  | (ran) r s where
      "hd_execute H (en_actor env) (en_id env) (en_command env) (Some p) now (pl_state P) = (r, s)"
      and "command_transaction H st env (Some p) now P = (r, insert_command_receipt (new_receipt H env now r)
             ((prune_command_receipts_before (cutoff_of now) P)\<lparr>pl_state := s\<rparr>))"
      and "case r of Inl e \<Rightarrow> is_authoritative_result e | Inr _ \<Rightarrow> True"
      and "security_admit st (hd_class H (en_command env)) = Inr ()"
proof (cases "security_admit st (hd_class H (en_command env))")
  case (Inl e)
  then show thesis using refused assms by (simp add: command_transaction_def Let_def receipt_after_prune)
next
  case (Inr u)
  obtain r s where h: "hd_execute H (en_actor env) (en_id env) (en_command env) (Some p) now (pl_state P) = (r, s)"
    by fastforce
  show thesis
  proof (cases "case r of Inl e \<Rightarrow> is_authoritative_result e | Inr _ \<Rightarrow> True")
    case True
    then have "command_transaction H st env (Some p) now P = (r, insert_command_receipt (new_receipt H env now r)
         ((prune_command_receipts_before (cutoff_of now) P)\<lparr>pl_state := s\<rparr>))"
      using assms Inr h
      by (simp add: command_transaction_def Let_def receipt_after_prune cutoff_of_def split: sum.splits)
    then show thesis using ran h True Inr by simp
  next
    case False
    then obtain e where "r = Inl e" "\<not> is_authoritative_result e" by (auto split: sum.splits)
    then have "command_transaction H st env (Some p) now P = (Inl e, P)"
      using assms Inr h by (simp add: command_transaction_def Let_def receipt_after_prune)
    then show thesis by (rule refused)
  qed
qed

lemma execute_cases:
  obtains (same) "pl_state (snd (execute H st env disk prep now P)) = pl_state P"
      and "\<And>a c. command_receipt a c (snd (execute H st env disk prep now P)) = command_receipt a c P \<or>
        command_receipt a c (snd (execute H st env disk prep now P)) =
          map_option (expire_receipt (cutoff_of now)) (command_receipt a c P)"
  | (ran) p r s where "command_receipt (en_actor env) (en_id env) P = None" and "prep = Inr p"
      and "hd_execute H (en_actor env) (en_id env) (en_command env) (Some p) now (pl_state P) = (r, s)"
      and "execute H st env disk prep now P = (r, insert_command_receipt (new_receipt H env now r)
             ((prune_command_receipts_before (cutoff_of now) P)\<lparr>pl_state := s\<rparr>))"
      and "case r of Inl e \<Rightarrow> is_authoritative_result e | Inr _ \<Rightarrow> True"
      and "security_admit st (hd_class H (en_command env)) = Inr ()"
proof (cases "command_admit H st env disk prep P")
  case (Pair admitted P1)
  have refusals: "pl_state P1 = pl_state P" "\<And>a c. command_receipt a c P1 = command_receipt a c P"
    using Pair by (auto simp: command_admit_def split: if_splits sum.splits)
  show thesis
  proof (cases admitted)
    case (Inl e)
    then show thesis using same Pair refusals by (simp add: execute_def)
  next
    case (Inr prepared)
    have ex: "execute H st env disk prep now P = command_transaction H st env prepared now P"
      using Pair Inr by (auto simp: execute_def command_admit_def split: if_splits sum.splits)
    show thesis
    proof (cases "command_receipt (en_actor env) (en_id env) P")
      case (Some x)
      then have "pl_state (snd (command_transaction H st env prepared now P)) = pl_state P \<and>
          (\<forall>a c. command_receipt a c (snd (command_transaction H st env prepared now P)) = command_receipt a c P \<or>
            command_receipt a c (snd (command_transaction H st env prepared now P)) =
              map_option (expire_receipt (cutoff_of now)) (command_receipt a c P))"
        by (simp add: command_transaction_def Let_def receipt_after_prune cutoff_of_def split: sum.split)
      then show thesis using same ex by simp
    next
      case None
      obtain p where p: "prep = Inr p" "prepared = Some p"
        using Pair Inr None by (auto simp: command_admit_def split: if_splits sum.splits)
      show thesis by (rule transaction_new [OF None, of H st p now]) (use same ran ex p None in auto)
    qed
  qed
qed

definition known :: "uuid \<Rightarrow> uuid \<Rightarrow> ('s, 'b) plane \<Rightarrow> bool" where
  "known a c P \<longleftrightarrow> command_receipt a c P \<noteq> None"

lemma execute_known: "known a c P \<Longrightarrow> known a c (snd (execute H st env disk prep now P))"
  by (rule execute_cases [of H st env disk prep now P])
    (auto simp: known_def receipt_after_insert receipt_after_prune split: option.splits, metis option.simps(3,9))

lemma execute_changes_once:
  "pl_state (snd (execute H st env disk prep now P)) \<noteq> pl_state P \<Longrightarrow>
   \<not> known (en_actor env) (en_id env) P \<and> known (en_actor env) (en_id env) (snd (execute H st env disk prep now P))"
  by (rule execute_cases [of H st env disk prep now P])
    (auto simp: known_def receipt_after_insert receipt_after_prune new_receipt_def)

lemma execute_keeps_receipt:
  assumes "command_receipt a c P = Some r" and "cutoff_of now \<le> rp_at r"
  shows "command_receipt a c (snd (execute H st env disk prep now P)) = Some r"
proof -
  have "expire_receipt (cutoff_of now) r = r" using assms(2) by (simp add: expire_receipt_def)
  then show ?thesis
    by (rule_tac execute_cases [of H st env disk prep now P])
      (use assms(1) in \<open>auto simp: receipt_after_insert receipt_after_prune, metis option.simps(9)\<close>)
qed

section \<open>Sequences of Commands\<close>

text \<open>One request as it reaches the pipeline, with what the machine answers at that moment.\<close>

record ('c, 'p) command_call =
  rq_security :: security_state
  rq_env :: "'c envelope"
  rq_disk :: "core_error + unit"
  rq_preparation :: "core_error + 'p"
  rq_now :: int

definition serve :: "('s, 'c, 'p, 'b) handler \<Rightarrow> ('c, 'p) command_call \<Rightarrow> ('s, 'b) plane \<Rightarrow> 'b result \<times> ('s, 'b) plane" where
  "serve H q P = execute H (rq_security q) (rq_env q) (rq_disk q) (rq_preparation q) (rq_now q) P"

definition serve_all :: "('s, 'c, 'p, 'b) handler \<Rightarrow> ('c, 'p) command_call list \<Rightarrow> ('s, 'b) plane \<Rightarrow> ('s, 'b) plane" where
  "serve_all H qs P = fold (\<lambda>q. snd \<circ> serve H q) qs P"

lemma serve_all_simps [simp]:
  "serve_all H [] P = P" "serve_all H (q # qs) P = serve_all H qs (snd (serve H q P))"
  by (simp_all add: serve_all_def)

definition identity :: "('c, 'p) command_call \<Rightarrow> uuid \<times> uuid" where
  "identity q = (en_actor (rq_env q), en_id (rq_env q))"

lemma serve_all_known: "known a c P \<Longrightarrow> known a c (serve_all H qs P)"
  by (induction qs arbitrary: P) (simp_all add: serve_def execute_known)

lemma serve_all_keeps_receipt:
  assumes "command_receipt a c P = Some r" and "list_all (\<lambda>q. cutoff_of (rq_now q) \<le> rp_at r) qs"
  shows "command_receipt a c (serve_all H qs P) = Some r"
  using assms by (induction qs arbitrary: P) (simp_all add: serve_def execute_keeps_receipt)

text \<open>
  C2: A Command acts once. When serving a request changed the Plane's state, then after any number
  of other requests, served under whatever clock and whatever the machine answers, no further request of the
  same Actor under the same Command identity changes that state again: not when its content
  differs, not when the receipt has expired, not when it lost its outcome.
\<close>
theorem commands_act_once:
  assumes "pl_state (snd (serve H q P)) \<noteq> pl_state P" and "identity q' = identity q"
  shows "pl_state (snd (serve H q' (serve_all H qs (snd (serve H q P))))) = pl_state (serve_all H qs (snd (serve H q P)))"
proof (rule ccontr)
  let ?P = "serve_all H qs (snd (serve H q P))"
  assume "pl_state (snd (serve H q' ?P)) \<noteq> pl_state ?P"
  from execute_changes_once [OF this [unfolded serve_def]]
  have "\<not> known (en_actor (rq_env q)) (en_id (rq_env q)) ?P" using assms(2) by (simp add: identity_def serve_def)
  moreover have "known (en_actor (rq_env q)) (en_id (rq_env q)) (snd (serve H q P))"
    using execute_changes_once [OF assms(1) [unfolded serve_def]] by (simp add: serve_def)
  ultimately show False using serve_all_known by blast
qed

section \<open>Replay within the retry window\<close>

text \<open>The result a request was answered with and recorded under: it was new, and it ran.\<close>

definition recorded :: "('s, 'c, 'p, 'b) handler \<Rightarrow> ('c, 'p) command_call \<Rightarrow> 'b result \<Rightarrow> ('s, 'b) plane \<Rightarrow> bool" where
  "recorded H q r P \<longleftrightarrow> \<not> known (en_actor (rq_env q)) (en_id (rq_env q)) P \<and>
     (\<exists>p. rq_preparation q = Inr p \<and> fst (serve H q P) = r \<and>
       known (en_actor (rq_env q)) (en_id (rq_env q)) (snd (serve H q P)))"

lemma recorded_receipt:
  assumes "recorded H q r P"
  shows "command_receipt (en_actor (rq_env q)) (en_id (rq_env q)) (snd (serve H q P)) =
    Some (new_receipt H (rq_env q) (rq_now q) r)"
  using assms unfolding recorded_def serve_def
  by (rule_tac execute_cases [of H "rq_security q" "rq_env q" "rq_disk q" "rq_preparation q" "rq_now q" P])
    (auto simp: known_def receipt_after_insert receipt_after_prune new_receipt_def, metis option.simps(3,8))

lemma serve_with_receipt:
  assumes "command_receipt (en_actor (rq_env q)) (en_id (rq_env q)) P = Some rc"
    and "cutoff_of (rq_now q) \<le> rp_at rc"
  shows "serve H q P = (case replay rc (en_digest (rq_env q)) (rq_now q) of
      Inl e \<Rightarrow> (Inl e, P)
    | Inr answer \<Rightarrow> (answer, prune_command_receipts_before (cutoff_of (rq_now q)) P))"
proof -
  have "expire_receipt (cutoff_of (rq_now q)) rc = rc" using assms(2) by (simp add: expire_receipt_def)
  then show ?thesis
    using assms(1)
    by (simp add: serve_def execute_def command_admit_def command_transaction_def Let_def receipt_after_prune
        cutoff_of_def split: sum.split)
qed

text \<open>A clock reading of a request that falls into the retry window that opened at \<open>t\<close>.\<close>

definition in_window :: "int \<Rightarrow> int \<Rightarrow> bool" where
  "in_window t now \<longleftrightarrow> t \<le> now \<and> now - t \<le> COMMAND_RETENTION_MS \<and> - (2 ^ 63) \<le> t \<and> now < 2 ^ 63"

lemma in_window_cutoff: "in_window t now \<Longrightarrow> cutoff_of now \<le> t \<and> \<not> i64_sat_sub now t > COMMAND_RETENTION_MS"
  by (auto simp: in_window_def cutoff_of_def i64_sat_sub_def COMMAND_RETENTION_MS_def)

lemma retry_answer:
  assumes "recorded H q r P" and "list_all (\<lambda>x. in_window (rq_now q) (rq_now x)) (qs @ [q'])"
    and "identity q' = identity q" and "en_digest (rq_env q') = en_digest (rq_env q)"
  shows "serve H q' (serve_all H qs (snd (serve H q P))) =
    (if replayable (outcome_version (hd_about_conversation H) r) then redacted_for_receipt r
     else Inl (incompatible ''command.outcome_incompatible''),
     prune_command_receipts_before (cutoff_of (rq_now q')) (serve_all H qs (snd (serve H q P))))"
proof -
  let ?rc = "new_receipt H (rq_env q) (rq_now q) r" and ?P = "serve_all H qs (snd (serve H q P))"
  have at: "rp_at ?rc = rq_now q" by (simp add: new_receipt_def)
  have w: "in_window (rq_now q) (rq_now q')" and ws: "list_all (\<lambda>x. cutoff_of (rq_now x) \<le> rp_at ?rc) qs"
    using assms(2) in_window_cutoff at by (auto simp: list_all_iff)
  have "command_receipt (en_actor (rq_env q')) (en_id (rq_env q')) ?P = Some ?rc"
    using serve_all_keeps_receipt [OF recorded_receipt [OF assms(1)] ws] assms(3) by (simp add: identity_def)
  from serve_with_receipt [OF this, unfolded at, OF conjunct1 [OF in_window_cutoff [OF w]], of H]
  show ?thesis
    using in_window_cutoff [OF w] assms(4) at by (simp add: replay_def new_receipt_def ok_or_def rbind_def)
qed

text \<open>
  C20: Within thirty days of a Command's recorded answer, and whatever else was asked of the Plane in between, the same
  request is answered with that answer again (less a pairing code, which is disclosed once),
  and changes nothing, even when the machine would now refuse it or the Plane has become
  Security-degraded. This holds for every answer whose encoding \<open>replay\<close> reads, which leaves out the answers that
  \<open>trash_retry_incompatible\<close> below is about: of a Trash, Restore, Autodelete or store-recovery Command.
\<close>
theorem retry_returns_first_answer:
  assumes "recorded H q r P" and "list_all (\<lambda>x. in_window (rq_now q) (rq_now x)) (qs @ [q'])"
    and "identity q' = identity q" and "en_digest (rq_env q') = en_digest (rq_env q)"
    and "replayable (outcome_version (hd_about_conversation H) r)"
  shows "fst (serve H q' (serve_all H qs (snd (serve H q P)))) = redacted_for_receipt r \<and>
    pl_state (snd (serve H q' (serve_all H qs (snd (serve H q P))))) = pl_state (serve_all H qs (snd (serve H q P)))"
  by (simp add: retry_answer [OF assms(1-4)] assms(5))

text \<open>
  The answers that encode neither as replayable nor as an error: a retry of a Command that
  moved a Conversation to the Trash, restored one, or recorded or deleted an Autodelete rule
  is told that an incompatible core recorded it, although this very core did, moments ago.
\<close>
lemma trash_retry_incompatible:
  assumes "recorded H q (Inr out) P" and "in_window (rq_now q) (rq_now q')"
    and "identity q' = identity q" and "en_digest (rq_env q') = en_digest (rq_env q)"
    and "co_kind out \<in> {O_ConversationTrashed, O_ConversationRestored, O_AutodeleteRuleRecorded, O_AutodeleteRuleDeleted}"
  shows "fst (serve H q' (snd (serve H q P))) = Inl (incompatible ''command.outcome_incompatible'')"
proof -
  have "\<not> replayable (outcome_version (hd_about_conversation H) (Inr out))"
    using assms(5) by (auto simp: replayable_def outcome_version_def)
  then show ?thesis using retry_answer [of H q "Inr out" P "[]" q'] assms(1-4) by simp
qed

text \<open>
  A Plane that counts: the Command is the kind of outcome it gives, and the pairing code is
  the number it counted to.
\<close>

definition count_handler :: "(nat, outcome_kind, unit, nat) handler" where
  "count_handler = \<lparr>hd_execute = (\<lambda>_ _ k _ _ n. (Inr \<lparr>co_kind = k, co_body = n, co_disclosure = Some (ManualCode (ucs ''1234-5678''))\<rparr>, n + 1)),
     hd_class = (\<lambda>_. Guarded), hd_audited = (\<lambda>_. True), hd_disk = (\<lambda>_. True), hd_early = (\<lambda>_. False),
     hd_about_conversation = (\<lambda>_. False)\<rparr>"

definition count_request :: "outcome_kind \<Rightarrow> security_state \<Rightarrow> core_error + unit \<Rightarrow> int \<Rightarrow> (outcome_kind, unit) command_call" where
  "count_request k st disk now = \<lparr>rq_security = st,
     rq_env = \<lparr>en_actor = 1, en_id = 2, en_command = k, en_digest = [7]\<rparr>,
     rq_disk = disk, rq_preparation = Inr (), rq_now = now\<rparr>"

definition count_plane :: "(nat, nat) plane" where
  "count_plane = \<lparr>pl_state = 5, pl_receipts = [], pl_refusals = []\<rparr>"

lemmas count_defs = count_handler_def count_request_def count_plane_def serve_def execute_def command_admit_def
  command_transaction_def command_receipt_def prune_command_receipts_before_def insert_command_receipt_def
  new_receipt_def security_admit_def Let_def identity_def

lemma count_recorded:
  "recorded count_handler (count_request k Trusted (Inr ()) 0)
     (Inr \<lparr>co_kind = k, co_body = 5, co_disclosure = Some (ManualCode (ucs ''1234-5678''))\<rparr>) count_plane"
  by (simp add: recorded_def known_def count_defs)

theorem commands_act_once_witness:
  "pl_state (snd (serve count_handler (count_request O_RunCreated Trusted (Inr ()) 0) count_plane)) = 6 \<and>
   pl_state (snd (serve count_handler (count_request O_RunCreated Trusted (Inr ()) 9)
     (serve_all count_handler [] (snd (serve count_handler (count_request O_RunCreated Trusted (Inr ()) 0) count_plane))))) = 6"
proof -
  have s: "pl_state (snd (serve count_handler (count_request O_RunCreated Trusted (Inr ()) 0) count_plane)) = 6"
    by (simp add: count_defs)
  have "pl_state (snd (serve count_handler (count_request O_RunCreated Trusted (Inr ()) 0) count_plane)) \<noteq> pl_state count_plane"
    unfolding s by (simp add: count_plane_def)
  from commands_act_once [OF this, of "count_request O_RunCreated Trusted (Inr ()) 9" "[]"] s show ?thesis
    by (simp add: identity_def count_request_def)
qed

theorem retry_returns_first_answer_witness:
  "fst (serve count_handler (count_request O_PairingOpened Unverified (Inl invalid_receipt) 9)
     (serve_all count_handler [] (snd (serve count_handler (count_request O_PairingOpened Trusted (Inr ()) 0) count_plane)))) =
   Inr \<lparr>co_kind = O_PairingOpened, co_body = 5, co_disclosure = Some AlreadyDisclosed\<rparr>"
proof -
  have "fst (serve count_handler (count_request O_PairingOpened Unverified (Inl invalid_receipt) 9)
     (serve_all count_handler [] (snd (serve count_handler (count_request O_PairingOpened Trusted (Inr ()) 0) count_plane)))) =
   redacted_for_receipt (Inr \<lparr>co_kind = O_PairingOpened, co_body = 5, co_disclosure = Some (ManualCode (ucs ''1234-5678''))\<rparr>)"
    by (rule conjunct1 [OF retry_returns_first_answer [OF count_recorded]])
      (simp_all add: in_window_def COMMAND_RETENTION_MS_def count_request_def identity_def replayable_def outcome_version_def)
  then show ?thesis by (simp add: redacted_for_receipt_def)
qed

lemma trash_retry_incompatible_witness:
  "fst (serve count_handler (count_request O_ConversationTrashed Trusted (Inr ()) 9)
     (snd (serve count_handler (count_request O_ConversationTrashed Trusted (Inr ()) 0) count_plane))) =
   Inl (incompatible ''command.outcome_incompatible'')"
  by (rule trash_retry_incompatible [OF count_recorded])
    (simp_all add: in_window_def COMMAND_RETENTION_MS_def count_request_def identity_def)

end
