(* ===== verification/Jet_Pairing.thy ===== *)
theory Jet_Pairing
  imports Jet_Command
begin

text \<open>
  Pairing: \<open>jet-core/src/pairing\<close> on the tables of \<open>jet-store/src/pairing\<close>.

  \<open>pairing\<close> is the durable state: the gate, the one offer, the Paired clients, the deletions the
  transaction hands to the ledger, the journal and the audit of these decisions. An operation
  returns its result together with the state it wrote, because a refusal that counts an attempt
  commits with it; the Command pipeline of \<open>Jet_Command\<close> decides what is kept. SHA-256 and the
  strict Ed25519 verification are parameters. What the operating system draws is a list of bytes
  the operation consumes; when it runs out the draw fails.
\<close>

section \<open>Data\<close>

datatype pairing_gate = GateOpen | GateClosed

datatype pairing_method = ByManualCode | ByQrPayload ustring

datatype pairing_invalidation = TooManyAttempts | InvalidatedByGate

datatype pairing_offer_state = OfferOpen | OfferClaimed | OfferInvalidated pairing_invalidation

datatype key_algorithm = Ed25519

record client_public_key =
  ck_algorithm :: key_algorithm
  ck_key :: bytes

record pairing_claim =
  pc_client :: uuid
  pc_algorithm :: key_algorithm
  pc_key :: bytes
  pc_challenge :: bytes
  pc_string :: ustring

record pairing_offer =
  po_id :: uuid
  po_method :: pairing_method
  po_salt :: bytes
  po_digest :: bytes
  po_state :: pairing_offer_state
  po_failed :: nat
  po_opened_by :: uuid
  po_opened_at :: int
  po_expires_at :: int
  po_claim :: "pairing_claim option"
  po_confirmed_by :: "uuid option"

datatype client_access = AccessEnabled | AccessDisabled

record paired_client =
  pd_client :: uuid
  pd_algorithm :: key_algorithm
  pd_key :: bytes
  pd_protocol :: string
  pd_access :: client_access
  pd_at :: int

datatype pairing_end = EndExpired | EndTooManyAttempts | EndGateClosed

datatype pairing_progress =
    ProgressOffered
  | ProgressAwaiting uuid ustring
  | ProgressConfirmed uuid ustring
  | ProgressEnded pairing_end

record pending_pairing =
  pp_offer :: uuid
  pp_method :: pairing_method
  pp_progress :: pairing_progress
  pp_remaining :: nat
  pp_opened_at :: int
  pp_expires_at :: int

datatype pairing_event =
    PairingGateChanged pairing_gate
  | PairingOffered uuid pairing_method
  | PairingClaimed uuid uuid
  | PairingConfirmed uuid uuid
  | PairingCompleted uuid uuid
  | PairingOfferEnded uuid pairing_end
  | PairedClientAccessChanged uuid client_access
  | PairedClientRevoked uuid

datatype pairing_decision =
    D_GateOpened | D_GateClosed | D_Offered | D_Claimed | D_OfferInvalidated | D_Confirmed | D_Completed
  | D_ClientEnabled | D_ClientDisabled | D_ClientRevoked | D_ConnectionAuthenticated

datatype pairing_subject = AboutPlane | AboutOffer uuid | AboutClient uuid

record pairing_audit =
  pa_actor :: uuid
  pa_decision :: pairing_decision
  pa_subject :: pairing_subject
  pa_outcome :: audit_outcome
  pa_at :: int

record pairing =
  pg_plane :: uuid
  pg_gate :: pairing_gate
  pg_gate_at :: int
  pg_offer :: "pairing_offer option"
  pg_clients :: "paired_client list"
  pg_deleted :: "(uuid \<times> int) list"
  pg_events :: "(uuid \<times> pairing_event \<times> int) list"
  pg_audit :: "pairing_audit list"

section \<open>The secret and the strings both sides derive\<close>

definition PAIRING_WINDOW_MS :: int where
  "PAIRING_WINDOW_MS = 2 * 60 * 1000"

definition MAX_PAIRING_ATTEMPTS :: nat where
  "MAX_PAIRING_ATTEMPTS = 5"

definition PAIRING_PROTOCOL :: string where
  "PAIRING_PROTOCOL = ''jet.pairing.v1''"

definition MANUAL_CODE_DIGITS :: nat where
  "MANUAL_CODE_DIGITS = 8"

definition MANUAL_CODE_GROUP :: nat where
  "MANUAL_CODE_GROUP = 4"

definition AUTHENTICATION_DIGITS :: nat where
  "AUTHENTICATION_DIGITS = 6"

definition TOKEN_BYTES :: nat where
  "TOKEN_BYTES = 16"

definition QR_SCHEME :: ustring where
  "QR_SCHEME = ucs ''jet-pair''"

definition SECRET_DOMAIN :: bytes where
  "SECRET_DOMAIN = text_bytes ''jet.pairing.secret.v1''"

definition TRANSCRIPT_DOMAIN :: bytes where
  "TRANSCRIPT_DOMAIN = text_bytes ''jet.pairing.transcript.v1''"

definition AUTHENTICATION_DOMAIN :: bytes where
  "AUTHENTICATION_DOMAIN = text_bytes ''jet.pairing.authentication.v1''"

definition MAX_ENDPOINT_CHARS :: nat where
  "MAX_ENDPOINT_CHARS = 255"

text \<open>UTF-8, the bytes of a Rust string.\<close>

definition utf8_char :: "nat \<Rightarrow> bytes" where
  "utf8_char c =
     (if c < 128 then [of_nat c]
      else if c < 2048 then [of_nat (192 + c div 64), of_nat (128 + c mod 64)]
      else if c < 65536 then [of_nat (224 + c div 4096), of_nat (128 + c div 64 mod 64), of_nat (128 + c mod 64)]
      else [of_nat (240 + c div 262144), of_nat (128 + c div 4096 mod 64), of_nat (128 + c div 64 mod 64),
            of_nat (128 + c mod 64)])"

definition utf8_bytes :: "ustring \<Rightarrow> bytes" where
  "utf8_bytes s = concat (map utf8_char s)"

definition entropy_unavailable :: core_error where
  "entropy_unavailable = unavailable_error ''pairing.entropy_unavailable''"

definition random_bytes :: "nat \<Rightarrow> bytes \<Rightarrow> core_error + (bytes \<times> bytes)" where
  "random_bytes n os = (if length os < n then Inl entropy_unavailable else Inr (take n os, drop n os))"

fun digit :: "bytes \<Rightarrow> core_error + (nat \<times> bytes)" where
  "digit [] = Inl entropy_unavailable"
| "digit (b # os) = (if unat b < 250 then Inr (unat b mod 10, os) else digit os)"

fun draw_digits :: "nat \<Rightarrow> bytes \<Rightarrow> core_error + (ustring \<times> bytes)" where
  "draw_digits 0 os = Inr ([], os)"
| "draw_digits (Suc n) os =
     rbind (digit os) (\<lambda>(d, os1). rbind (draw_digits n os1) (\<lambda>(ds, os2). Inr ((48 + d) # ds, os2)))"

definition HYPHEN :: nat where
  "HYPHEN = 45"

definition manual_code :: "bytes \<Rightarrow> core_error + (ustring \<times> bytes)" where
  "manual_code os =
     rbind (draw_digits MANUAL_CODE_DIGITS os) (\<lambda>(ds, os1).
       Inr (take MANUAL_CODE_GROUP ds @ [HYPHEN] @ drop MANUAL_CODE_GROUP ds, os1))"

definition hex_nibble :: "nat \<Rightarrow> nat" where
  "hex_nibble n = (if n < 10 then 48 + n else 87 + n)"

definition hex_text :: "bytes \<Rightarrow> ustring" where
  "hex_text bs = concat (map (\<lambda>b. [hex_nibble (unat b div 16), hex_nibble (unat b mod 16)]) bs)"

definition issue :: "pairing_method \<Rightarrow> bytes \<Rightarrow> core_error + (ustring \<times> pairing_disclosure \<times> bytes)" where
  "issue method os =
     (case method of
        ByManualCode \<Rightarrow> rbind (manual_code os) (\<lambda>(c, os1). Inr (c, ManualCode c, os1))
      | ByQrPayload endpoint \<Rightarrow>
          rbind (random_bytes TOKEN_BYTES os) (\<lambda>(t, os1).
            let token = hex_text t
            in Inr (token, QrPayload (QR_SCHEME @ [58, 49, 58] @ token @ [58] @ endpoint), os1)))"

definition is_digit :: "nat \<Rightarrow> bool" where
  "is_digit c \<longleftrightarrow> 48 \<le> c \<and> c \<le> 57"

definition ascii_lower :: "nat \<Rightarrow> nat" where
  "ascii_lower c = (if 65 \<le> c \<and> c \<le> 90 then c + 32 else c)"

definition normalize :: "pairing_method \<Rightarrow> ustring \<Rightarrow> ustring" where
  "normalize method secret =
     (case method of
        ByManualCode \<Rightarrow> filter is_digit secret
      | ByQrPayload _ \<Rightarrow> map ascii_lower (trim secret))"

definition secret_digest :: "(bytes \<Rightarrow> bytes) \<Rightarrow> bytes \<Rightarrow> pairing_method \<Rightarrow> ustring \<Rightarrow> bytes" where
  "secret_digest sha salt method secret =
     sha (SECRET_DOMAIN @ [0] @ salt @ utf8_bytes (normalize method secret))"

definition secret_matches :: "(bytes \<Rightarrow> bytes) \<Rightarrow> bytes \<Rightarrow> bytes \<Rightarrow> pairing_method \<Rightarrow> ustring \<Rightarrow> bool" where
  "secret_matches sha salt digested method presented \<longleftrightarrow> secret_digest sha salt method presented = digested"

fun algorithm_str :: "key_algorithm \<Rightarrow> bytes" where
  "algorithm_str Ed25519 = text_bytes ''ed25519''"

definition uuid_bytes :: "uuid \<Rightarrow> bytes" where
  "uuid_bytes u = be_bytes 16 u"

definition pairing_transcript :: "uuid \<Rightarrow> uuid \<Rightarrow> uuid \<Rightarrow> client_public_key \<Rightarrow> bytes \<Rightarrow> bytes" where
  "pairing_transcript plane offer client key challenge =
     TRANSCRIPT_DOMAIN @ [0] @ uuid_bytes plane @ uuid_bytes offer @ uuid_bytes client @
     algorithm_str (ck_algorithm key) @ [0] @ ck_key key @ challenge"

fun decimal_digits :: "nat \<Rightarrow> nat \<Rightarrow> ustring" where
  "decimal_digits 0 v = []"
| "decimal_digits (Suc n) v = decimal_digits n (v div 10) @ [48 + v mod 10]"

definition authentication_string :: "(bytes \<Rightarrow> bytes) \<Rightarrow> bytes \<Rightarrow> ustring" where
  "authentication_string sha transcript =
     (let drawn = be_nat (take 8 (sha (AUTHENTICATION_DOMAIN @ [0] @ transcript)));
          digits = decimal_digits AUTHENTICATION_DIGITS (drawn mod 10 ^ AUTHENTICATION_DIGITS)
      in take (AUTHENTICATION_DIGITS div 2) digits @ [HYPHEN] @ drop (AUTHENTICATION_DIGITS div 2) digits)"

definition same_authentication_string :: "ustring \<Rightarrow> ustring \<Rightarrow> bool" where
  "same_authentication_string displayed presented \<longleftrightarrow> utf8_bytes displayed = utf8_bytes presented"

definition verifies :: "(bytes \<Rightarrow> bytes \<Rightarrow> bytes \<Rightarrow> bool) \<Rightarrow> client_public_key \<Rightarrow> bytes \<Rightarrow> bytes \<Rightarrow> bool" where
  "verifies ed25519 key message signature =
     (case ck_algorithm key of Ed25519 \<Rightarrow> ed25519 (ck_key key) message signature)"

section \<open>The tables\<close>

definition set_pairing_gate :: "pairing_gate \<Rightarrow> int \<Rightarrow> pairing \<Rightarrow> pairing" where
  "set_pairing_gate gate now s = s\<lparr>pg_gate := gate, pg_gate_at := now\<rparr>"

definition replace_pairing_offer ::
    "uuid \<Rightarrow> pairing_method \<Rightarrow> bytes \<Rightarrow> bytes \<Rightarrow> uuid \<Rightarrow> int \<Rightarrow> int \<Rightarrow> pairing \<Rightarrow> pairing_offer \<times> pairing" where
  "replace_pairing_offer offer method salt digest opened_by opened_at expires_at s =
     (let o' = \<lparr>po_id = offer, po_method = method, po_salt = salt, po_digest = digest, po_state = OfferOpen,
                po_failed = 0, po_opened_by = opened_by, po_opened_at = opened_at, po_expires_at = expires_at,
                po_claim = None, po_confirmed_by = None\<rparr>
      in (o', s\<lparr>pg_offer := Some o'\<rparr>))"

definition record_pairing_claim :: "pairing_claim \<Rightarrow> int \<Rightarrow> pairing \<Rightarrow> pairing" where
  "record_pairing_claim claim expires_at s =
     s\<lparr>pg_offer := map_option (\<lambda>r. r\<lparr>po_state := OfferClaimed, po_claim := Some claim, po_expires_at := expires_at\<rparr>)
         (pg_offer s)\<rparr>"

definition record_pairing_confirmation :: "uuid \<Rightarrow> int \<Rightarrow> pairing \<Rightarrow> pairing" where
  "record_pairing_confirmation by_client expires_at s =
     s\<lparr>pg_offer := map_option (\<lambda>r. r\<lparr>po_confirmed_by := Some by_client, po_expires_at := expires_at\<rparr>) (pg_offer s)\<rparr>"

definition delete_pairing_offer :: "pairing \<Rightarrow> pairing" where
  "delete_pairing_offer s = s\<lparr>pg_offer := None\<rparr>"

definition record_failed_pairing_attempt :: "pairing \<Rightarrow> store_error + (nat \<times> pairing)" where
  "record_failed_pairing_attempt s =
     (case pg_offer s of
        None \<Rightarrow> Inl StoreIntegrity
      | Some r \<Rightarrow>
          let n = po_failed r + 1
          in if n < 2 ^ 32 then Inr (n, s\<lparr>pg_offer := Some (r\<lparr>po_failed := n\<rparr>)\<rparr>) else Inl StoreIntegrity)"

definition invalidate_pairing_offer :: "pairing_invalidation \<Rightarrow> pairing \<Rightarrow> pairing" where
  "invalidate_pairing_offer reason s =
     s\<lparr>pg_offer := map_option (\<lambda>r. case po_state r of OfferInvalidated _ \<Rightarrow> r
                                   | _ \<Rightarrow> r\<lparr>po_state := OfferInvalidated reason\<rparr>) (pg_offer s)\<rparr>"

definition find_paired_client :: "uuid \<Rightarrow> pairing \<Rightarrow> paired_client option" where
  "find_paired_client client s = find (\<lambda>p. pd_client p = client) (pg_clients s)"

fun upsert_row :: "paired_client \<Rightarrow> paired_client list \<Rightarrow> paired_client list" where
  "upsert_row p [] = [p]"
| "upsert_row p (q # qs) = (if pd_client q = pd_client p then p # qs else q # upsert_row p qs)"

definition upsert_paired_client :: "uuid \<Rightarrow> key_algorithm \<Rightarrow> bytes \<Rightarrow> string \<Rightarrow> int \<Rightarrow> pairing \<Rightarrow> paired_client \<times> pairing" where
  "upsert_paired_client client algorithm key protocol at s =
     (let p = \<lparr>pd_client = client, pd_algorithm = algorithm, pd_key = key, pd_protocol = protocol,
               pd_access = AccessEnabled, pd_at = at\<rparr>
      in (p, s\<lparr>pg_clients := upsert_row p (pg_clients s)\<rparr>))"

definition set_paired_client_access :: "uuid \<Rightarrow> client_access \<Rightarrow> pairing \<Rightarrow> pairing" where
  "set_paired_client_access client access s =
     s\<lparr>pg_clients := map (\<lambda>p. if pd_client p = client then p\<lparr>pd_access := access\<rparr> else p) (pg_clients s)\<rparr>"

definition delete_paired_client :: "uuid \<Rightarrow> int \<Rightarrow> pairing \<Rightarrow> pairing" where
  "delete_paired_client client now s =
     s\<lparr>pg_clients := filter (\<lambda>p. pd_client p \<noteq> client) (pg_clients s), pg_deleted := pg_deleted s @ [(client, now)]\<rparr>"

definition append_pairing_event :: "uuid \<Rightarrow> pairing_event \<Rightarrow> int \<Rightarrow> pairing \<Rightarrow> pairing" where
  "append_pairing_event actor e now s = s\<lparr>pg_events := pg_events s @ [(actor, e, now)]\<rparr>"

definition record_pairing_audit :: "uuid \<Rightarrow> pairing_decision \<Rightarrow> pairing_subject \<Rightarrow> audit_outcome \<Rightarrow> int \<Rightarrow> pairing \<Rightarrow> pairing" where
  "record_pairing_audit actor d subject out now s =
     s\<lparr>pg_audit := pg_audit s @ [\<lparr>pa_actor = actor, pa_decision = d, pa_subject = subject, pa_outcome = out, pa_at = now\<rparr>]\<rparr>"

section \<open>How far the offer has got\<close>

fun end_of :: "pairing_invalidation \<Rightarrow> pairing_end" where
  "end_of TooManyAttempts = EndTooManyAttempts"
| "end_of InvalidatedByGate = EndGateClosed"

definition progress :: "pairing_offer \<Rightarrow> int \<Rightarrow> pairing_progress" where
  "progress r now =
     (case po_state r of
        OfferInvalidated reason \<Rightarrow> ProgressEnded (end_of reason)
      | OfferOpen \<Rightarrow> if now > po_expires_at r then ProgressEnded EndExpired else ProgressOffered
      | OfferClaimed \<Rightarrow>
          if now > po_expires_at r then ProgressEnded EndExpired
          else (case po_claim r of
                  None \<Rightarrow> ProgressOffered
                | Some c \<Rightarrow> if po_confirmed_by r \<noteq> None then ProgressConfirmed (pc_client c) (pc_string c)
                            else ProgressAwaiting (pc_client c) (pc_string c)))"

definition pending_of :: "pairing_offer \<Rightarrow> int \<Rightarrow> pending_pairing" where
  "pending_of r now =
     \<lparr>pp_offer = po_id r, pp_method = po_method r, pp_progress = progress r now,
      pp_remaining = MAX_PAIRING_ATTEMPTS - po_failed r, pp_opened_at = po_opened_at r, pp_expires_at = po_expires_at r\<rparr>"

fun ended_code :: "pairing_end \<Rightarrow> string" where
  "ended_code EndExpired = ''pairing.offer_expired''"
| "ended_code EndTooManyAttempts = ''pairing.offer_ended''"
| "ended_code EndGateClosed = ''pairing.offer_ended''"

fun wrong_progress :: "pairing_progress \<Rightarrow> core_error" where
  "wrong_progress ProgressOffered = conflict ''pairing.not_claimed''"
| "wrong_progress (ProgressAwaiting _ _) = conflict ''pairing.not_confirmed''"
| "wrong_progress (ProgressConfirmed _ _) = conflict ''pairing.already_confirmed''"
| "wrong_progress (ProgressEnded reason) = conflict (ended_code reason)"

definition require_endpoint :: "pairing_method \<Rightarrow> core_error + unit" where
  "require_endpoint method =
     (case method of
        ByManualCode \<Rightarrow> Inr ()
      | ByQrPayload endpoint \<Rightarrow>
          if endpoint \<noteq> [] \<and> length endpoint \<le> MAX_ENDPOINT_CHARS \<and>
             \<not> list_ex (\<lambda>c. is_control c \<or> is_whitespace c) endpoint
          then Inr () else Inl (invalid_input ''pairing.endpoint_unsupported''))"

definition open_offer :: "int \<Rightarrow> pairing \<Rightarrow> core_error + pairing_offer" where
  "open_offer now s =
     rbind (ok_or (pg_offer s) (not_found ''pairing.none_offered'')) (\<lambda>r.
       case pp_progress (pending_of r now) of
         ProgressOffered \<Rightarrow> Inr r
       | ProgressEnded reason \<Rightarrow> Inl (conflict (ended_code reason))
       | _ \<Rightarrow> Inl (conflict ''pairing.already_claimed''))"

definition named_offer :: "uuid \<Rightarrow> pairing \<Rightarrow> core_error + pairing_offer" where
  "named_offer offer s =
     rbind (ok_or (pg_offer s) (not_found ''pairing.none_offered'')) (\<lambda>r.
       if po_id r \<noteq> offer then Inl (conflict ''pairing.offer_superseded'') else Inr r)"

section \<open>The operations\<close>

datatype pairing_body =
    GateBody pairing_gate
  | PendingBody pending_pairing
  | ClaimedBody pending_pairing bytes
  | ClientBody paired_client
  | RevokedBody uuid

type_synonym pairing_answer = "pairing_body result \<times> pairing"

definition answer :: "outcome_kind \<Rightarrow> pairing_body \<Rightarrow> pairing_disclosure option \<Rightarrow> pairing \<Rightarrow> pairing_answer" where
  "answer kind body disclosure s = (Inr \<lparr>co_kind = kind, co_body = body, co_disclosure = disclosure\<rparr>, s)"

text \<open>Rust's \<open>?\<close> in an operation that has written \<open>s\<close> so far.\<close>

definition try_in :: "pairing \<Rightarrow> core_error + 'a \<Rightarrow> ('a \<Rightarrow> pairing_answer) \<Rightarrow> pairing_answer" where
  "try_in s r f = (case r of Inl e \<Rightarrow> (Inl e, s) | Inr x \<Rightarrow> f x)"

fun gate_decision :: "pairing_gate \<Rightarrow> pairing_decision" where
  "gate_decision GateOpen = D_GateOpened"
| "gate_decision GateClosed = D_GateClosed"

definition end_open_offer :: "uuid \<Rightarrow> int \<Rightarrow> pairing \<Rightarrow> pairing" where
  "end_open_offer actor now s =
     (case pg_offer s of
        None \<Rightarrow> s
      | Some r \<Rightarrow>
          (case progress r now of
             ProgressEnded _ \<Rightarrow> s
           | _ \<Rightarrow> append_pairing_event actor (PairingOfferEnded (po_id r) EndGateClosed) now
                    (invalidate_pairing_offer InvalidatedByGate s)))"

definition set_gate :: "uuid \<Rightarrow> pairing_gate \<Rightarrow> int \<Rightarrow> pairing \<Rightarrow> pairing_answer" where
  "set_gate actor gate now s =
     (let s1 = record_pairing_audit actor (gate_decision gate) AboutPlane Succeeded now
                 (append_pairing_event actor (PairingGateChanged gate) now (set_pairing_gate gate now s));
          s2 = (if gate = GateClosed then end_open_offer actor now s1 else s1)
      in answer O_PairingGateSet (GateBody gate) None s2)"

definition open_pairing ::
    "(bytes \<Rightarrow> bytes) \<Rightarrow> uuid \<Rightarrow> pairing_method \<Rightarrow> uuid \<Rightarrow> bytes \<Rightarrow> int \<Rightarrow> pairing \<Rightarrow> pairing_answer" where
  "open_pairing sha actor method new_id os now s =
     try_in s (require_endpoint method) (\<lambda>_.
       if pg_gate s = GateClosed then (Inl (conflict ''pairing.gate_closed''), s)
       else try_in s (issue method os) (\<lambda>(secret, disclosure, os1).
            try_in s (random_bytes 16 os1) (\<lambda>(salt, _).
              let (r, s1) = replace_pairing_offer new_id method salt (secret_digest sha salt method secret) actor now
                              (i64_sat_add now PAIRING_WINDOW_MS) s;
                  s2 = record_pairing_audit actor D_Offered (AboutOffer new_id) Succeeded now
                         (append_pairing_event actor (PairingOffered new_id method) now s1)
              in answer O_PairingOpened (PendingBody (pending_of r now)) (Some disclosure) s2)))"

definition count_failure ::
    "uuid \<Rightarrow> uuid \<Rightarrow> pairing_decision \<Rightarrow> int \<Rightarrow> pairing \<Rightarrow> core_error + (nat \<times> pairing)" where
  "count_failure actor offer denied now s =
     rbind (map_err store_failed (record_failed_pairing_attempt s)) (\<lambda>(attempts, s1).
       let remaining = MAX_PAIRING_ATTEMPTS - attempts;
           s2 = record_pairing_audit actor denied (AboutOffer offer) Denied now s1;
           s3 = (if remaining = 0
                 then record_pairing_audit actor D_OfferInvalidated (AboutOffer offer) Succeeded now
                        (append_pairing_event actor (PairingOfferEnded offer EndTooManyAttempts) now
                          (invalidate_pairing_offer TooManyAttempts s2))
                 else s2)
       in Inr (remaining, s3))"

text \<open>A failed proof: the attempt it counted commits with the refusal.\<close>

definition refuse_proof :: "uuid \<Rightarrow> uuid \<Rightarrow> pairing_decision \<Rightarrow> string \<Rightarrow> int \<Rightarrow> pairing \<Rightarrow> pairing_answer" where
  "refuse_proof actor offer denied c now s =
     try_in s (count_failure actor offer denied now s) (\<lambda>(_, s1). (Inl (invalid_input c), s1))"

definition claim_pairing ::
    "(bytes \<Rightarrow> bytes) \<Rightarrow> uuid \<Rightarrow> ustring \<Rightarrow> client_public_key \<Rightarrow> bytes \<Rightarrow> int \<Rightarrow> pairing \<Rightarrow> pairing_answer" where
  "claim_pairing sha actor presented key os now s =
     try_in s (open_offer now s) (\<lambda>r.
       if \<not> secret_matches sha (po_salt r) (po_digest r) (po_method r) presented
       then refuse_proof actor (po_id r) D_Claimed ''pairing.secret_rejected'' now s
       else try_in s (random_bytes 32 os) (\<lambda>(challenge, _).
         let claim = \<lparr>pc_client = actor, pc_algorithm = ck_algorithm key, pc_key = ck_key key, pc_challenge = challenge,
                      pc_string = authentication_string sha
                        (pairing_transcript (pg_plane s) (po_id r) actor key challenge)\<rparr>;
             expires = i64_sat_add now PAIRING_WINDOW_MS;
             s1 = record_pairing_audit actor D_Claimed (AboutOffer (po_id r)) Succeeded now
                    (append_pairing_event actor (PairingClaimed (po_id r) actor) now (record_pairing_claim claim expires s));
             claimed = r\<lparr>po_state := OfferClaimed, po_claim := Some claim, po_expires_at := expires\<rparr>
         in answer O_PairingClaimed (ClaimedBody (pending_of claimed now) challenge) None s1))"

definition confirm_pairing :: "uuid \<Rightarrow> uuid \<Rightarrow> ustring \<Rightarrow> int \<Rightarrow> pairing \<Rightarrow> pairing_answer" where
  "confirm_pairing actor offer presented now s =
     try_in s (named_offer offer s) (\<lambda>r.
       case pp_progress (pending_of r now) of
         ProgressAwaiting client shown \<Rightarrow>
           if client = actor then (Inl (conflict ''pairing.confirmation_by_claimant''), s)
           else if \<not> same_authentication_string shown presented
           then refuse_proof actor offer D_Confirmed ''pairing.authentication_string_mismatch'' now s
           else
             (let expires = i64_sat_add now PAIRING_WINDOW_MS;
                  s1 = record_pairing_audit actor D_Confirmed (AboutOffer offer) Succeeded now
                         (append_pairing_event actor (PairingConfirmed offer client) now
                           (record_pairing_confirmation actor expires s));
                  confirmed = r\<lparr>po_confirmed_by := Some actor, po_expires_at := expires\<rparr>
              in answer O_PairingConfirmed (PendingBody (pending_of confirmed now)) None s1)
       | other \<Rightarrow> (Inl (wrong_progress other), s))"

definition complete_pairing ::
    "(bytes \<Rightarrow> bytes \<Rightarrow> bytes \<Rightarrow> bool) \<Rightarrow> uuid \<Rightarrow> uuid \<Rightarrow> bytes \<Rightarrow> int \<Rightarrow> pairing \<Rightarrow> pairing_answer" where
  "complete_pairing ed25519 actor offer signature now s =
     try_in s (named_offer offer s) (\<lambda>r.
       case pp_progress (pending_of r now) of
         ProgressConfirmed client _ \<Rightarrow>
           if client \<noteq> actor then (Inl (conflict ''pairing.completion_by_other''), s)
           else try_in s (ok_or (po_claim r) (internal ''pairing.claim_missing'')) (\<lambda>claim.
             let key = \<lparr>ck_algorithm = pc_algorithm claim, ck_key = pc_key claim\<rparr>;
                 message = pairing_transcript (pg_plane s) (po_id r) (pc_client claim) key (pc_challenge claim)
             in if \<not> verifies ed25519 key message signature
                then refuse_proof actor offer D_Completed ''pairing.signature_rejected'' now s
                else
                  (let (p, s1) = upsert_paired_client (pc_client claim) (pc_algorithm claim) (pc_key claim)
                                   PAIRING_PROTOCOL now s;
                       s2 = record_pairing_audit actor D_Completed (AboutClient (pd_client p)) Succeeded now
                              (append_pairing_event actor (PairingCompleted offer (pc_client claim)) now
                                (delete_pairing_offer s1))
                   in answer O_PairingCompleted (ClientBody p) None s2))
       | other \<Rightarrow> (Inl (wrong_progress other), s))"

fun access_decision :: "client_access \<Rightarrow> pairing_decision" where
  "access_decision AccessEnabled = D_ClientEnabled"
| "access_decision AccessDisabled = D_ClientDisabled"

definition paired_or_missing :: "uuid \<Rightarrow> pairing \<Rightarrow> core_error + paired_client" where
  "paired_or_missing client s = ok_or (find_paired_client client s) (not_found ''pairing.client_not_found'')"

definition set_client_access :: "uuid \<Rightarrow> uuid \<Rightarrow> client_access \<Rightarrow> int \<Rightarrow> pairing \<Rightarrow> pairing_answer" where
  "set_client_access actor client access now s =
     try_in s (paired_or_missing client s) (\<lambda>p.
       answer O_PairedClientAccessSet (ClientBody (p\<lparr>pd_access := access\<rparr>)) None
         (record_pairing_audit actor (access_decision access) (AboutClient client) Succeeded now
           (append_pairing_event actor (PairedClientAccessChanged client access) now
             (set_paired_client_access client access s))))"

definition revoke_client :: "uuid \<Rightarrow> uuid \<Rightarrow> int \<Rightarrow> pairing \<Rightarrow> pairing_answer" where
  "revoke_client actor client now s =
     try_in s (paired_or_missing client s) (\<lambda>_.
       answer O_PairedClientRevoked (RevokedBody client) None
         (record_pairing_audit actor D_ClientRevoked (AboutClient client) Succeeded now
           (append_pairing_event actor (PairedClientRevoked client) now (delete_paired_client client now s))))"

section \<open>The Commands\<close>

datatype pairing_command =
    SetPairingGate pairing_gate
  | OpenPairing pairing_method
  | ClaimPairing ustring client_public_key
  | ConfirmPairing uuid ustring
  | CompletePairing uuid bytes
  | SetPairedClientAccess uuid client_access
  | RevokePairedClient uuid

text \<open>What the Plane draws while it runs a Command: the identity of a new offer and random bytes.\<close>

record draws =
  dw_id :: uuid
  dw_bytes :: bytes

definition pairing_execute ::
    "(bytes \<Rightarrow> bytes) \<Rightarrow> (bytes \<Rightarrow> bytes \<Rightarrow> bytes \<Rightarrow> bool) \<Rightarrow> uuid \<Rightarrow> pairing_command \<times> draws \<Rightarrow> int \<Rightarrow> pairing \<Rightarrow>
     pairing_answer" where
  "pairing_execute sha ed25519 actor c now s =
     (case fst c of
        SetPairingGate gate \<Rightarrow> set_gate actor gate now s
      | OpenPairing method \<Rightarrow> open_pairing sha actor method (dw_id (snd c)) (dw_bytes (snd c)) now s
      | ClaimPairing secret key \<Rightarrow> claim_pairing sha actor secret key (dw_bytes (snd c)) now s
      | ConfirmPairing offer presented \<Rightarrow> confirm_pairing actor offer presented now s
      | CompletePairing offer signature \<Rightarrow> complete_pairing ed25519 actor offer signature now s
      | SetPairedClientAccess client access \<Rightarrow> set_client_access actor client access now s
      | RevokePairedClient client \<Rightarrow> revoke_client actor client now s)"

text \<open>
  Every Pairing Command is one the audit records, so it is guarded; none of them asks for disk
  room or prepares anything outside the store.
\<close>

definition pairing_handler ::
    "(bytes \<Rightarrow> bytes) \<Rightarrow> (bytes \<Rightarrow> bytes \<Rightarrow> bytes \<Rightarrow> bool) \<Rightarrow> (pairing, pairing_command \<times> draws, unit, pairing_body) handler" where
  "pairing_handler sha ed25519 =
     \<lparr>hd_execute = (\<lambda>actor _ c _ now s. pairing_execute sha ed25519 actor c now s),
      hd_class = (\<lambda>_. Guarded), hd_audited = (\<lambda>_. True), hd_disk = (\<lambda>_. False), hd_early = (\<lambda>_. False),
      hd_about_conversation = (\<lambda>_. False)\<rparr>"

text \<open>A Plane starts with its gate closed and nobody Paired.\<close>

definition new_pairing :: "uuid \<Rightarrow> pairing" where
  "new_pairing plane = \<lparr>pg_plane = plane, pg_gate = GateClosed, pg_gate_at = 0, pg_offer = None, pg_clients = [],
     pg_deleted = [], pg_events = [], pg_audit = []\<rparr>"

section \<open>What a Command can do\<close>

lemmas table_defs = set_pairing_gate_def replace_pairing_offer_def record_pairing_claim_def
  record_pairing_confirmation_def delete_pairing_offer_def invalidate_pairing_offer_def upsert_paired_client_def
  set_paired_client_access_def delete_paired_client_def append_pairing_event_def record_pairing_audit_def

lemma try_in_simps [simp]: "try_in s (Inl e) f = (Inl e, s)" "try_in s (Inr x) f = f x"
  by (simp_all add: try_in_def)

lemma try_in_cases:
  assumes "try_in s r f = (out, s')"
  obtains (failed) e where "r = Inl e" and "out = Inl e" and "s' = s"
  | (went_on) x where "r = Inr x" and "f x = (out, s')"
  using assms by (cases r) auto

abbreviation entry :: "uuid \<Rightarrow> pairing_decision \<Rightarrow> pairing_subject \<Rightarrow> audit_outcome \<Rightarrow> int \<Rightarrow> pairing_audit" where
  "entry actor d subject out now \<equiv>
     \<lparr>pa_actor = actor, pa_decision = d, pa_subject = subject, pa_outcome = out, pa_at = now\<rparr>"

text \<open>The offer after one more failed proof, and what the audit says of it.\<close>

definition failed_once :: "pairing_offer \<Rightarrow> pairing_offer" where
  "failed_once r =
     (let r' = r\<lparr>po_failed := po_failed r + 1\<rparr>
      in if po_failed r + 1 \<ge> MAX_PAIRING_ATTEMPTS
         then (case po_state r of OfferInvalidated _ \<Rightarrow> r' | _ \<Rightarrow> r'\<lparr>po_state := OfferInvalidated TooManyAttempts\<rparr>)
         else r')"

definition failure_entries :: "uuid \<Rightarrow> pairing_decision \<Rightarrow> int \<Rightarrow> pairing_offer \<Rightarrow> pairing_audit list" where
  "failure_entries actor denied now r =
     entry actor denied (AboutOffer (po_id r)) Denied now #
     (if po_failed r + 1 \<ge> MAX_PAIRING_ATTEMPTS
      then [entry actor D_OfferInvalidated (AboutOffer (po_id r)) Succeeded now] else [])"

lemma refuse_proof_cases:
  assumes "refuse_proof actor (po_id r) d c now s = (out, s')" and "pg_offer s = Some r"
  obtains (broken) e where "out = Inl e" and "s' = s"
  | (counted) "out = Inl (invalid_input c)" and "pg_offer s' = Some (failed_once r)"
      and "pg_audit s' = pg_audit s @ failure_entries actor d now r" and "pg_clients s' = pg_clients s"
      and "pg_gate s' = pg_gate s" and "pg_plane s' = pg_plane s"
proof (cases "po_failed r + 1 < 2 ^ 32")
  case True
  then show thesis
    using assms counted
    by (cases "po_state r"; cases "MAX_PAIRING_ATTEMPTS \<le> po_failed r + 1")
      (auto simp: refuse_proof_def count_failure_def record_failed_pairing_attempt_def map_err_def table_defs Let_def
        failed_once_def failure_entries_def)
next
  case False
  then show thesis
    using assms broken
    by (auto simp: refuse_proof_def count_failure_def record_failed_pairing_attempt_def map_err_def Let_def)
qed

definition live_offer :: "pairing_offer \<Rightarrow> int \<Rightarrow> bool" where
  "live_offer r now \<longleftrightarrow> (\<forall>e. progress r now \<noteq> ProgressEnded e)"

lemma live_offer_iff: "live_offer r now \<longleftrightarrow> (\<forall>x. po_state r \<noteq> OfferInvalidated x) \<and> now \<le> po_expires_at r"
  by (cases "po_state r") (auto simp: live_offer_def progress_def split: option.split)

lemma progress_cases:
  "progress r now = ProgressOffered \<Longrightarrow> live_offer r now"
  "progress r now = ProgressAwaiting c a \<Longrightarrow> live_offer r now \<and> po_state r = OfferClaimed \<and> po_confirmed_by r = None \<and>
     (\<exists>cl. po_claim r = Some cl \<and> pc_client cl = c \<and> pc_string cl = a)"
  "progress r now = ProgressConfirmed c a \<Longrightarrow> live_offer r now \<and> po_state r = OfferClaimed \<and> po_confirmed_by r \<noteq> None \<and>
     (\<exists>cl. po_claim r = Some cl \<and> pc_client cl = c \<and> pc_string cl = a)"
  by (auto simp: live_offer_def progress_def split: pairing_offer_state.splits if_splits option.splits)

lemma open_offer_Inr: "open_offer now s = Inr r \<longleftrightarrow> pg_offer s = Some r \<and> progress r now = ProgressOffered"
  by (auto simp: open_offer_def rbind_Inr_iff ok_or_def pending_of_def split: option.splits pairing_progress.splits)

lemma named_offer_Inr: "named_offer o' s = Inr r \<longleftrightarrow> pg_offer s = Some r \<and> po_id r = o'"
  by (auto simp: named_offer_def rbind_Inr_iff ok_or_def split: option.splits if_splits)

lemma paired_or_missing_Inr: "paired_or_missing c s = Inr p \<longleftrightarrow> find_paired_client c s = Some p"
  by (auto simp: paired_or_missing_def ok_or_def split: option.splits)

definition key_of :: "pairing_claim \<Rightarrow> client_public_key" where
  "key_of c = \<lparr>ck_algorithm = pc_algorithm c, ck_key = pc_key c\<rparr>"

definition new_client :: "pairing_claim \<Rightarrow> int \<Rightarrow> paired_client" where
  "new_client c now = \<lparr>pd_client = pc_client c, pd_algorithm = pc_algorithm c, pd_key = pc_key c,
     pd_protocol = PAIRING_PROTOCOL, pd_access = AccessEnabled, pd_at = now\<rparr>"

lemma random_bytes_Inr: "random_bytes n os = Inr (b, os') \<longleftrightarrow> n \<le> length os \<and> b = take n os \<and> os' = drop n os"
  by (auto simp: random_bytes_def)

lemma key_eta [simp]: "\<lparr>ck_algorithm = ck_algorithm key, ck_key = ck_key key\<rparr> = key"
  by (cases key) simp

lemma find_upsert_row:
  "find (\<lambda>q. pd_client q = client) (upsert_row p ps) =
     (if client = pd_client p then Some p else find (\<lambda>q. pd_client q = client) ps)"
  by (induction ps) auto

section \<open>A whole pairing\<close>

lemma utf8_bytes_cong: "normalize m x = normalize m y \<Longrightarrow> secret_digest sha salt m x = secret_digest sha salt m y"
  by (simp add: secret_digest_def)

lemma claim_open_offer:
  assumes "pg_offer s = Some r" and "po_state r = OfferOpen" and "now \<le> po_expires_at r"
    and "secret_matches sha (po_salt r) (po_digest r) (po_method r) presented" and "32 \<le> length os"
  shows "\<exists>out. claim_pairing sha client presented key os now s =
    (Inr out, record_pairing_audit client D_Claimed (AboutOffer (po_id r)) Succeeded now
       (append_pairing_event client (PairingClaimed (po_id r) client) now
         (record_pairing_claim \<lparr>pc_client = client, pc_algorithm = ck_algorithm key, pc_key = ck_key key, pc_challenge = take 32 os,
            pc_string = authentication_string sha (pairing_transcript (pg_plane s) (po_id r) client key (take 32 os))\<rparr>
           (i64_sat_add now PAIRING_WINDOW_MS) s)))"
proof -
  have "open_offer now s = Inr r" using assms by (simp add: open_offer_Inr progress_def)
  then show ?thesis using assms by (simp add: claim_pairing_def random_bytes_def answer_def Let_def)
qed

lemma confirm_claimed_offer:
  assumes "pg_offer s = Some r" and "po_state r = OfferClaimed" and "po_claim r = Some c" and "po_confirmed_by r = None"
    and "now \<le> po_expires_at r" and "pc_client c \<noteq> owner" and "shown = pc_string c"
  shows "\<exists>out. confirm_pairing owner (po_id r) shown now s =
    (Inr out, record_pairing_audit owner D_Confirmed (AboutOffer (po_id r)) Succeeded now
       (append_pairing_event owner (PairingConfirmed (po_id r) (pc_client c)) now
         (record_pairing_confirmation owner (i64_sat_add now PAIRING_WINDOW_MS) s)))"
  using assms
  by (simp add: confirm_pairing_def named_offer_def pending_of_def progress_def same_authentication_string_def answer_def Let_def)

lemma complete_confirmed_offer:
  assumes "pg_offer s = Some r" and "po_state r = OfferClaimed" and "po_claim r = Some c" and "po_confirmed_by r = Some b"
    and "now \<le> po_expires_at r" and "pc_client c = client"
    and "verifies ed25519 (key_of c) (pairing_transcript (pg_plane s) (po_id r) client (key_of c) (pc_challenge c)) signature"
  shows "\<exists>out. complete_pairing ed25519 client (po_id r) signature now s =
    (Inr out, record_pairing_audit client D_Completed (AboutClient client) Succeeded now
       (append_pairing_event client (PairingCompleted (po_id r) client) now
         (delete_pairing_offer (snd (upsert_paired_client client (pc_algorithm c) (pc_key c) PAIRING_PROTOCOL now s)))))"
  using assms
  by (simp add: complete_pairing_def named_offer_def pending_of_def progress_def answer_def key_of_def
      upsert_paired_client_def Let_def)

lemma open_pairing_Inr:
  assumes "open_pairing sha owner method oid os now s = (Inr out, s1)"
  obtains secret disclosure os1 salt os2 where "issue method os = Inr (secret, disclosure, os1)"
    and "random_bytes 16 os1 = Inr (salt, os2)" and "co_disclosure out = Some disclosure" and "pg_gate s = GateOpen"
    and "pg_offer s1 = Some \<lparr>po_id = oid, po_method = method, po_salt = salt, po_digest = secret_digest sha salt method secret,
           po_state = OfferOpen, po_failed = 0, po_opened_by = owner, po_opened_at = now,
           po_expires_at = i64_sat_add now PAIRING_WINDOW_MS, po_claim = None, po_confirmed_by = None\<rparr>"
    and "pg_plane s1 = pg_plane s" and "pg_clients s1 = pg_clients s"
proof (cases "require_endpoint method")
  case (Inr u)
  show thesis
  proof (cases "pg_gate s")
    case GateOpen
    then obtain secret disclosure os1 where i: "issue method os = Inr (secret, disclosure, os1)"
      using assms Inr by (cases "issue method os") (auto simp: open_pairing_def)
    with GateOpen Inr assms obtain salt os2 where "random_bytes 16 os1 = Inr (salt, os2)"
      by (cases "random_bytes 16 os1") (auto simp: open_pairing_def)
    with GateOpen Inr assms i that show thesis
      by (auto simp: open_pairing_def answer_def table_defs Let_def)
  qed (use assms Inr in \<open>auto simp: open_pairing_def\<close>)
qed (use assms in \<open>auto simp: open_pairing_def\<close>)

lemma issue_ManualCode: "issue how os = Inr (secret, ManualCode shown, os1) \<Longrightarrow> how = ByManualCode \<and> secret = shown"
  by (cases how) (auto simp: issue_def rbind_Inr_iff Let_def)

lemma pairing_completes:
  assumes "open_pairing sha owner method oid os t0 s = (Inr out, s1)" and "co_disclosure out = Some (ManualCode shown)"
    and "filter is_digit presented = filter is_digit shown" and "32 \<le> length os1" and "client \<noteq> confirmer"
    and "t1 \<le> i64_sat_add t0 PAIRING_WINDOW_MS" and "t2 \<le> i64_sat_add t1 PAIRING_WINDOW_MS"
    and "t3 \<le> i64_sat_add t2 PAIRING_WINDOW_MS"
    and "transcript = pairing_transcript (pg_plane s) oid client key (take 32 os1)"
    and "verifies ed25519 key transcript signature"
  shows "\<exists>a2 s2 a3 s3 a4 s4. claim_pairing sha client presented key os1 t1 s1 = (Inr a2, s2) \<and>
    confirm_pairing confirmer oid (authentication_string sha transcript) t2 s2 = (Inr a3, s3) \<and>
    complete_pairing ed25519 client oid signature t3 s3 = (Inr a4, s4) \<and>
    find_paired_client client s4 = Some \<lparr>pd_client = client, pd_algorithm = ck_algorithm key, pd_key = ck_key key,
      pd_protocol = PAIRING_PROTOCOL, pd_access = AccessEnabled, pd_at = t3\<rparr> \<and> pg_clients s3 = pg_clients s"
proof -
  obtain secret os' salt where i: "issue method os = Inr (secret, ManualCode shown, os')"
    and o1: "pg_offer s1 = Some \<lparr>po_id = oid, po_method = method, po_salt = salt, po_digest = secret_digest sha salt method secret,
           po_state = OfferOpen, po_failed = 0, po_opened_by = owner, po_opened_at = t0,
           po_expires_at = i64_sat_add t0 PAIRING_WINDOW_MS, po_claim = None, po_confirmed_by = None\<rparr>"
    and pl: "pg_plane s1 = pg_plane s" "pg_clients s1 = pg_clients s"
    using open_pairing_Inr [OF assms(1)] assms(2) by (metis option.inject)
  have m: "method = ByManualCode" "secret = shown" using issue_ManualCode [OF i] by simp_all
  have "normalize method presented = normalize method secret" using assms(3) by (simp add: m normalize_def)
  then have "secret_matches sha salt (secret_digest sha salt method secret) method presented"
    unfolding secret_matches_def by (rule utf8_bytes_cong)
  then obtain a2 s2 where c2: "claim_pairing sha client presented key os1 t1 s1 = (Inr a2, s2)"
    and s2: "s2 = record_pairing_audit client D_Claimed (AboutOffer oid) Succeeded t1
       (append_pairing_event client (PairingClaimed oid client) t1
         (record_pairing_claim \<lparr>pc_client = client, pc_algorithm = ck_algorithm key, pc_key = ck_key key, pc_challenge = take 32 os1,
            pc_string = authentication_string sha transcript\<rparr> (i64_sat_add t1 PAIRING_WINDOW_MS) s1))"
    using claim_open_offer [OF o1, of t1 sha presented os1 client key] assms(4,6,9) pl by auto
  obtain r2 c where r2: "pg_offer s2 = Some r2" "po_state r2 = OfferClaimed" "po_claim r2 = Some c" "po_confirmed_by r2 = None"
      "po_expires_at r2 = i64_sat_add t1 PAIRING_WINDOW_MS" "po_id r2 = oid"
    and c: "pc_client c = client" "pc_string c = authentication_string sha transcript" "key_of c = key" "pc_challenge c = take 32 os1"
      "pc_algorithm c = ck_algorithm key" "pc_key c = ck_key key"
    using s2 o1 by (simp add: table_defs key_of_def)
  obtain a3 s3 where c3: "confirm_pairing confirmer oid (authentication_string sha transcript) t2 s2 = (Inr a3, s3)"
    and s3: "pg_offer s3 = Some (r2\<lparr>po_confirmed_by := Some confirmer, po_expires_at := i64_sat_add t2 PAIRING_WINDOW_MS\<rparr>)"
      "pg_plane s3 = pg_plane s" "pg_clients s3 = pg_clients s"
    using confirm_claimed_offer [OF r2(1-4), of t2 confirmer "authentication_string sha transcript"] assms(5,7) r2 c s2 pl
    by (auto simp: table_defs)
  obtain a4 s4 where "complete_pairing ed25519 client oid signature t3 s3 = (Inr a4, s4)"
    and "s4 = record_pairing_audit client D_Completed (AboutClient client) Succeeded t3
       (append_pairing_event client (PairingCompleted oid client) t3
         (delete_pairing_offer (snd (upsert_paired_client client (pc_algorithm c) (pc_key c) PAIRING_PROTOCOL t3 s3))))"
    using complete_confirmed_offer [OF s3(1), of c confirmer t3 client ed25519 signature] assms(8,9,10) r2 c s3 by auto
  moreover from this(2) have "find_paired_client client s4 = Some \<lparr>pd_client = client, pd_algorithm = ck_algorithm key,
      pd_key = ck_key key, pd_protocol = PAIRING_PROTOCOL, pd_access = AccessEnabled, pd_at = t3\<rparr>"
    using c by (simp add: table_defs find_paired_client_def find_upsert_row Let_def)
  ultimately show ?thesis using c2 c3 s3(3) by blast
qed

text \<open>A concrete Plane for the witnesses: an injective stand-in for SHA-256 and a signature scheme that appends.\<close>

definition demo_sha :: "bytes \<Rightarrow> bytes" where
  "demo_sha bs = bs"

definition demo_ed25519 :: "bytes \<Rightarrow> bytes \<Rightarrow> bytes \<Rightarrow> bool" where
  "demo_ed25519 key message signature \<longleftrightarrow> signature = key @ message"

definition demo_key :: client_public_key where
  "demo_key = \<lparr>ck_algorithm = Ed25519, ck_key = replicate 32 2\<rparr>"

definition demo_message :: bytes where
  "demo_message = pairing_transcript 9 5 7 demo_key (replicate 32 3)"

lemmas demo_defs = demo_sha_def demo_ed25519_def demo_key_def

lemma demo_code: "issue ByManualCode (replicate 24 1) =
    Inr ([49, 49, 49, 49, 45, 49, 49, 49, 49], ManualCode [49, 49, 49, 49, 45, 49, 49, 49, 49], replicate 16 1)"
  by code_simp

lemma demo_open:
  assumes "pg_gate s = GateOpen"
  shows "\<exists>out s1. open_pairing demo_sha 1 ByManualCode 5 (replicate 24 1) 100 s = (Inr out, s1) \<and>
    co_disclosure out = Some (ManualCode [49, 49, 49, 49, 45, 49, 49, 49, 49])"
  using assms by (simp add: open_pairing_def require_endpoint_def demo_code random_bytes_def answer_def Let_def replace_pairing_offer_def)

text \<open>
  C25: The ceremony succeeds for honest parties. When an owner opens an offer with a manual code, a
  client that presents the code with any punctuation gets its claim accepted, another identity
  that confirms the string both screens show gets its confirmation accepted, and a client whose
  signature over the transcript verifies ends up Paired, enabled, with the key it presented;
  each step within the window of the one before.
\<close>

theorem honest_pairing_completes:
  assumes "open_pairing sha owner method oid os t0 s = (Inr out, s1)" and "co_disclosure out = Some (ManualCode shown)"
    and "filter is_digit presented = filter is_digit shown" and "32 \<le> length os1" and "client \<noteq> confirmer"
    and "t1 \<le> i64_sat_add t0 PAIRING_WINDOW_MS" and "t2 \<le> i64_sat_add t1 PAIRING_WINDOW_MS"
    and "t3 \<le> i64_sat_add t2 PAIRING_WINDOW_MS"
    and "transcript = pairing_transcript (pg_plane s) oid client key (take 32 os1)"
    and "verifies ed25519 key transcript signature"
  shows "\<exists>a2 s2 a3 s3 a4 s4. claim_pairing sha client presented key os1 t1 s1 = (Inr a2, s2) \<and>
    confirm_pairing confirmer oid (authentication_string sha transcript) t2 s2 = (Inr a3, s3) \<and>
    complete_pairing ed25519 client oid signature t3 s3 = (Inr a4, s4) \<and>
    find_paired_client client s4 = Some \<lparr>pd_client = client, pd_algorithm = ck_algorithm key, pd_key = ck_key key,
      pd_protocol = PAIRING_PROTOCOL, pd_access = AccessEnabled, pd_at = t3\<rparr>"
  using pairing_completes [OF assms] by blast

theorem honest_pairing_completes_witness:
  "\<exists>out s1 a2 s2 a3 s3 a4 s4.
     open_pairing demo_sha 1 ByManualCode 5 (replicate 24 1) 100 ((new_pairing 9)\<lparr>pg_gate := GateOpen\<rparr>) = (Inr out, s1) \<and>
     claim_pairing demo_sha 7 (ucs ''1111 1111'') demo_key (replicate 32 3) 101 s1 = (Inr a2, s2) \<and>
     confirm_pairing 1 5 (authentication_string demo_sha demo_message) 102 s2 = (Inr a3, s3) \<and>
     complete_pairing demo_ed25519 7 5 (ck_key demo_key @ demo_message) 103 s3 = (Inr a4, s4) \<and>
     find_paired_client 7 s4 \<noteq> None"
proof -
  let ?s = "(new_pairing 9)\<lparr>pg_gate := GateOpen\<rparr>"
  obtain out s1 where o1: "open_pairing demo_sha 1 ByManualCode 5 (replicate 24 1) 100 ?s = (Inr out, s1)"
      "co_disclosure out = Some (ManualCode [49, 49, 49, 49, 45, 49, 49, 49, 49])"
    using demo_open [of ?s] by auto
  have d: "filter is_digit (ucs ''1111 1111'') = filter is_digit [49, 49, 49, 49, 45, 49, 49, 49, 49]"
    by (simp add: ucs_def is_digit_def of_char_def)
  have v: "verifies demo_ed25519 demo_key demo_message (ck_key demo_key @ demo_message)"
    by (simp add: verifies_def demo_defs)
  show ?thesis
    using honest_pairing_completes [OF o1 d, of "replicate 32 3" 7 1 101 102 103 demo_message demo_key demo_ed25519] o1(1) v
    by (fastforce simp: i64_sat_add_def PAIRING_WINDOW_MS_def demo_message_def new_pairing_def)
qed

section \<open>What the signature covers\<close>

lemma uuid_bytes_inj:
  assumes "a < 2 ^ 128" and "b < 2 ^ 128" and "uuid_bytes a = uuid_bytes b"
  shows "a = b"
proof -
  have w: "(256 :: nat) ^ 16 = 2 ^ 128" by simp
  have "be_nat (uuid_bytes u) = u" if "u < 2 ^ 128" for u
    unfolding uuid_bytes_def by (rule be_nat_be_bytes_small) (unfold w, rule that)
  then show ?thesis using assms by metis
qed

text \<open>
  The transcript binds every party. Two claims whose transcripts are the same bytes are claims of
  the same offer of the same Plane by the same client with the same key under the same challenge,
  so a signature made for one Pairing verifies for no other and a substituted key never shares a
  transcript.
\<close>

lemma transcript_binds:
  assumes "pairing_transcript p o1 c k ch = pairing_transcript p' o1' c' k' ch'"
    and "length (ck_key k) = 32" and "length (ck_key k') = 32"
    and "p < 2 ^ 128" and "p' < 2 ^ 128" and "o1 < 2 ^ 128" and "o1' < 2 ^ 128" and "c < 2 ^ 128" and "c' < 2 ^ 128"
  shows "p = p' \<and> o1 = o1' \<and> c = c' \<and> k = k' \<and> ch = ch'"
proof -
  have a: "ck_algorithm k = ck_algorithm k'" by (cases "ck_algorithm k"; cases "ck_algorithm k'") simp
  have l: "length (uuid_bytes u) = 16" for u by (simp add: uuid_bytes_def)
  have "uuid_bytes p = uuid_bytes p' \<and> uuid_bytes o1 = uuid_bytes o1' \<and> uuid_bytes c = uuid_bytes c' \<and>
      ck_key k = ck_key k' \<and> ch = ch'"
    using assms(1,2,3) l by (simp add: pairing_transcript_def a append_eq_append_conv)
  then have "p = p'" "o1 = o1'" "c = c'" "ck_key k = ck_key k'" "ch = ch'" using uuid_bytes_inj assms(4-9) by blast+
  then show ?thesis using a by (cases k; cases k') simp
qed

lemma transcript_binds_witness:
  "pairing_transcript 9 5 7 demo_key [] = pairing_transcript 9 5 7 demo_key [] \<and> (9 :: nat) = 9 \<and> demo_key = demo_key"
  using transcript_binds [of 9 5 7 demo_key "[]" 9 5 7 demo_key "[]"] by (simp add: demo_key_def)

section \<open>A gate that closes over an expired offer\<close>

text \<open>
  Closing the gate leaves an expired offer as it is, and completing asks the offer and not the gate. When the
  clock is set back into the window of a confirmed offer, its completion grants the key behind the closed gate.
\<close>

lemma key_behind_closed_gate:
  assumes "pg_offer s = Some r" "po_id r = offer" "po_state r = OfferClaimed" "po_claim r = Some claim" "po_confirmed_by r = Some b"
    and "late > po_expires_at r" "now \<le> po_expires_at r"
    and "verifies ed25519 \<lparr>ck_algorithm = pc_algorithm claim, ck_key = pc_key claim\<rparr>
      (pairing_transcript (pg_plane s) offer (pc_client claim) \<lparr>ck_algorithm = pc_algorithm claim, ck_key = pc_key claim\<rparr> (pc_challenge claim)) signature"
  shows "\<exists>a s1 a' s2. set_gate actor GateClosed late s = (Inr a, s1) \<and>
    complete_pairing ed25519 (pc_client claim) offer signature now s1 = (Inr a', s2) \<and>
    pg_gate s2 = GateClosed \<and> (\<exists>p\<in>set (pg_clients s2). pd_client p = pc_client claim \<and> pd_key p = pc_key claim)"
proof -
  have "p \<in> set (upsert_row p qs)" for p qs by (induction qs) auto
  then show ?thesis
    using assms
    by (auto simp: set_gate_def end_open_offer_def progress_def complete_pairing_def named_offer_def pending_of_def try_in_def answer_def
      record_pairing_audit_def append_pairing_event_def set_pairing_gate_def upsert_paired_client_def delete_pairing_offer_def Let_def
      intro!: bexI)
qed

end
