(* ===== verification/Jet_Ceremony.thy ===== *)
theory Jet_Ceremony
  imports Jet_Pairing "HOL-Library.Sublist"
begin

text \<open>
  The Pairing ceremony as a protocol: an inductive step relation with one rule per branch of the
  code that decides who is Paired, the proof that every operation of \<open>Jet_Pairing\<close> refines it, and
  the invariants of the protocol: every Paired client leaves the trail of a whole ceremony in the
  audit, a closed gate leaves no live offer, and refused proofs are bounded.
\<close>

text \<open>Whose live connections a Command ends.\<close>

definition invalidated_client :: "pairing_body command_outcome \<Rightarrow> uuid option" where
  "invalidated_client out =
     (case (co_kind out, co_body out) of
        (O_PairedClientRevoked, RevokedBody client) \<Rightarrow> Some client
      | (O_PairingCompleted, ClientBody p) \<Rightarrow> Some (pd_client p)
      | (O_PairedClientAccessSet, ClientBody p) \<Rightarrow>
          (case pd_access p of AccessDisabled \<Rightarrow> Some (pd_client p) | AccessEnabled \<Rightarrow> None)
      | _ \<Rightarrow> None)"

section \<open>The ceremony as a step relation\<close>

text \<open>
  What the operations do to the part of the state that decides who is Paired. Each rule carries
  the guard under which the code takes that branch; \<open>None\<close> is the label of a step that leaves no
  client to invalidate.
\<close>

record ceremony =
  ab_plane :: uuid
  ab_gate :: pairing_gate
  ab_offer :: "pairing_offer option"
  ab_clients :: "paired_client list"
  ab_audit :: "pairing_audit list"

definition ceremony_of :: "pairing \<Rightarrow> ceremony" where
  "ceremony_of s = \<lparr>ab_plane = pg_plane s, ab_gate = pg_gate s, ab_offer = pg_offer s, ab_clients = pg_clients s,
     ab_audit = pg_audit s\<rparr>"

definition close_offer :: "int \<Rightarrow> pairing_offer \<Rightarrow> pairing_offer" where
  "close_offer now r = (if live_offer r now then r\<lparr>po_state := OfferInvalidated InvalidatedByGate\<rparr> else r)"

inductive pairing_step ::
    "(bytes \<Rightarrow> bytes) \<Rightarrow> (bytes \<Rightarrow> bytes \<Rightarrow> bytes \<Rightarrow> bool) \<Rightarrow> uuid \<Rightarrow> int \<Rightarrow> uuid option \<Rightarrow> ceremony \<Rightarrow> uuid option \<Rightarrow> ceremony \<Rightarrow> bool"
  for sha ed25519 actor now nid where
  Stutter: "pairing_step sha ed25519 actor now nid A None A"
| OpenGate: "pairing_step sha ed25519 actor now nid A None
     (A\<lparr>ab_gate := GateOpen, ab_audit := ab_audit A @ [entry actor D_GateOpened AboutPlane Succeeded now]\<rparr>)"
| CloseGate: "pairing_step sha ed25519 actor now nid A None
     (A\<lparr>ab_gate := GateClosed, ab_offer := map_option (close_offer now) (ab_offer A),
        ab_audit := ab_audit A @ [entry actor D_GateClosed AboutPlane Succeeded now]\<rparr>)"
| Offer: "ab_gate A = GateOpen \<Longrightarrow> po_state r = OfferOpen \<Longrightarrow> po_failed r = 0 \<Longrightarrow> po_claim r = None \<Longrightarrow>
     po_confirmed_by r = None \<Longrightarrow> po_opened_by r = actor \<Longrightarrow> nid = Some (po_id r) \<Longrightarrow>
     pairing_step sha ed25519 actor now nid A None
     (A\<lparr>ab_offer := Some r, ab_audit := ab_audit A @ [entry actor D_Offered (AboutOffer (po_id r)) Succeeded now]\<rparr>)"
| Refuse: "ab_offer A = Some r \<Longrightarrow> live_offer r now \<Longrightarrow>
     pairing_step sha ed25519 actor now nid A None
     (A\<lparr>ab_offer := Some (failed_once r), ab_audit := ab_audit A @ failure_entries actor d now r\<rparr>)"
| Claim: "ab_offer A = Some r \<Longrightarrow> progress r now = ProgressOffered \<Longrightarrow>
     secret_matches sha (po_salt r) (po_digest r) (po_method r) presented \<Longrightarrow> pc_client c = actor \<Longrightarrow>
     pc_string c = authentication_string sha (pairing_transcript (ab_plane A) (po_id r) actor (key_of c) (pc_challenge c)) \<Longrightarrow>
     length (pc_challenge c) = 32 \<Longrightarrow>
     pairing_step sha ed25519 actor now nid A None
     (A\<lparr>ab_offer := Some (r\<lparr>po_state := OfferClaimed, po_claim := Some c, po_expires_at := i64_sat_add now PAIRING_WINDOW_MS\<rparr>),
        ab_audit := ab_audit A @ [entry actor D_Claimed (AboutOffer (po_id r)) Succeeded now]\<rparr>)"
| Confirm: "ab_offer A = Some r \<Longrightarrow> progress r now = ProgressAwaiting client shown \<Longrightarrow> client \<noteq> actor \<Longrightarrow>
     same_authentication_string shown presented \<Longrightarrow>
     pairing_step sha ed25519 actor now nid A None
     (A\<lparr>ab_offer := Some (r\<lparr>po_confirmed_by := Some actor, po_expires_at := i64_sat_add now PAIRING_WINDOW_MS\<rparr>),
        ab_audit := ab_audit A @ [entry actor D_Confirmed (AboutOffer (po_id r)) Succeeded now]\<rparr>)"
| Complete: "ab_offer A = Some r \<Longrightarrow> progress r now = ProgressConfirmed actor shown \<Longrightarrow> po_claim r = Some c \<Longrightarrow>
     pc_client c = actor \<Longrightarrow>
     verifies ed25519 (key_of c) (pairing_transcript (ab_plane A) (po_id r) actor (key_of c) (pc_challenge c)) signature \<Longrightarrow>
     pairing_step sha ed25519 actor now nid A (Some actor)
     (A\<lparr>ab_offer := None, ab_clients := upsert_row (new_client c now) (ab_clients A),
        ab_audit := ab_audit A @ [entry actor D_Completed (AboutClient actor) Succeeded now]\<rparr>)"
| Access: "find (\<lambda>p. pd_client p = client) (ab_clients A) = Some p \<Longrightarrow>
     pairing_step sha ed25519 actor now nid A (if access = AccessDisabled then Some client else None)
     (A\<lparr>ab_clients := map (\<lambda>p. if pd_client p = client then p\<lparr>pd_access := access\<rparr> else p) (ab_clients A),
        ab_audit := ab_audit A @ [entry actor (access_decision access) (AboutClient client) Succeeded now]\<rparr>)"
| Revoke: "find (\<lambda>p. pd_client p = client) (ab_clients A) = Some p \<Longrightarrow>
     pairing_step sha ed25519 actor now nid A (Some client)
     (A\<lparr>ab_clients := filter (\<lambda>p. pd_client p \<noteq> client) (ab_clients A),
        ab_audit := ab_audit A @ [entry actor D_ClientRevoked (AboutClient client) Succeeded now]\<rparr>)"

definition gone :: "pairing_body result \<Rightarrow> uuid option" where
  "gone r = (case r of Inl _ \<Rightarrow> None | Inr out \<Rightarrow> invalidated_client out)"

lemma gone_simps [simp]: "gone (Inl e) = None"
  by (simp add: gone_def)

abbreviation refines_step where
  "refines_step sha ed25519 actor now nid s a \<equiv>
     pairing_step sha ed25519 actor now nid (ceremony_of s) (gone (fst a)) (ceremony_of (snd a))"

lemma step_stutter [intro]: "refines_step sha ed25519 actor now nid s (Inl e, s)"
  by (simp add: pairing_step.Stutter)

lemma try_in_step:
  assumes "\<And>x. r = Inr x \<Longrightarrow> refines_step sha ed25519 actor now nid s (f x)"
  shows "refines_step sha ed25519 actor now nid s (try_in s r f)"
  using assms by (cases r) (auto simp: pairing_step.Stutter)

lemma refuse_proof_step:
  assumes "pg_offer s = Some r" and "live_offer r now"
  shows "refines_step sha ed25519 actor now nid s (refuse_proof actor (po_id r) d c now s)"
proof -
  obtain out s' where e: "refuse_proof actor (po_id r) d c now s = (out, s')" by fastforce
  show ?thesis
  proof (cases rule: refuse_proof_cases [OF e assms(1), case_names broken counted])
    case (broken x)
    then show ?thesis by (simp add: e pairing_step.Stutter)
  next
    case counted
    have "ceremony_of s' = (ceremony_of s)\<lparr>ab_offer := Some (failed_once r),
        ab_audit := ab_audit (ceremony_of s) @ failure_entries actor d now r\<rparr>"
      using counted by (simp add: ceremony_of_def)
    then show ?thesis
      using pairing_step.Refuse [of "ceremony_of s" r now sha ed25519 actor nid d] assms counted(1) e
      by (simp add: ceremony_of_def)
  qed
qed

lemma set_gate_step: "refines_step sha ed25519 actor now nid s (set_gate actor gate now s)"
proof (cases gate)
  case GateOpen
  then show ?thesis
    using pairing_step.OpenGate [of sha ed25519 actor now nid "ceremony_of s"]
    by (simp add: set_gate_def answer_def gone_def invalidated_client_def table_defs ceremony_of_def)
next
  case GateClosed
  have "map_option (close_offer now) (pg_offer s) =
      pg_offer (end_open_offer actor now (record_pairing_audit actor (gate_decision gate) AboutPlane Succeeded now
                 (append_pairing_event actor (PairingGateChanged gate) now (set_pairing_gate gate now s))))"
    by (auto simp: end_open_offer_def close_offer_def live_offer_def progress_def table_defs
        split: option.split pairing_offer_state.split)
  then show ?thesis
    using pairing_step.CloseGate [of sha ed25519 actor now nid "ceremony_of s"] GateClosed
    by (simp add: set_gate_def answer_def gone_def invalidated_client_def table_defs ceremony_of_def end_open_offer_def
        split: option.splits pairing_progress.splits)
qed

lemma open_pairing_step: "refines_step sha ed25519 actor now (Some new_id) s (open_pairing sha actor method new_id os now s)"
proof -
  have drawn: "refines_step sha ed25519 actor now (Some new_id) s (open_pairing sha actor method new_id os now s)"
    if "require_endpoint method = Inr ()" "pg_gate s = GateOpen" "issue method os = Inr (secret, disclosure, os1)"
      "random_bytes 16 os1 = Inr (salt, os2)" for secret disclosure os1 salt os2
    using that pairing_step.Offer [of "ceremony_of s" "fst (replace_pairing_offer new_id method salt
        (secret_digest sha salt method secret) actor now (i64_sat_add now PAIRING_WINDOW_MS) s)" actor "Some new_id" sha ed25519 now]
    by (simp add: open_pairing_def answer_def gone_def invalidated_client_def table_defs ceremony_of_def Let_def)
  have early: "refines_step sha ed25519 actor now (Some new_id) s (open_pairing sha actor method new_id os now s)"
    if "open_pairing sha actor method new_id os now s = (Inl e, s)" for e
    using that by (simp add: pairing_step.Stutter)
  show ?thesis
  proof (cases "require_endpoint method")
    case (Inr u)
    show ?thesis
    proof (cases "pg_gate s")
      case GateOpen
      show ?thesis
      proof (cases "issue method os")
        case issued: (Inr x)
        obtain secret disclosure os1 where x: "x = (secret, disclosure, os1)" by (cases x)
        show ?thesis
        proof (cases "random_bytes 16 os1")
          case (Inr y)
          then show ?thesis using drawn GateOpen issued x \<open>require_endpoint method = Inr u\<close> by (cases y) auto
        qed (use early GateOpen issued x Inr in \<open>auto simp: open_pairing_def\<close>)
      qed (use early GateOpen Inr in \<open>auto simp: open_pairing_def\<close>)
    qed (use early Inr in \<open>auto simp: open_pairing_def\<close>)
  qed (use early in \<open>auto simp: open_pairing_def\<close>)
qed

lemma claim_pairing_step: "refines_step sha ed25519 actor now nid s (claim_pairing sha actor presented key os now s)"
proof (cases "open_offer now s")
  case (Inr r)
  then have r: "pg_offer s = Some r" "progress r now = ProgressOffered" by (simp_all add: open_offer_Inr)
  show ?thesis
  proof (cases "secret_matches sha (po_salt r) (po_digest r) (po_method r) presented")
    case True
    show ?thesis
    proof (cases "random_bytes 32 os")
      case drawn: (Inr x)
      obtain challenge os1 where x: "x = (challenge, os1)" by (cases x)
      have "length challenge = 32" using drawn by (auto simp: x random_bytes_Inr)
      then show ?thesis
        using Inr True r drawn x pairing_step.Claim [of "ceremony_of s" r now sha presented
          "\<lparr>pc_client = actor, pc_algorithm = ck_algorithm key, pc_key = ck_key key, pc_challenge = challenge,
            pc_string = authentication_string sha (pairing_transcript (pg_plane s) (po_id r) actor key challenge)\<rparr>"
          actor ed25519 nid]
        by (simp add: claim_pairing_def answer_def gone_def invalidated_client_def table_defs ceremony_of_def key_of_def Let_def)
    qed (use Inr True in \<open>auto simp: claim_pairing_def pairing_step.Stutter\<close>)
  next
    case False
    then show ?thesis
      using refuse_proof_step [OF r(1) progress_cases(1) [OF r(2)]] Inr by (simp add: claim_pairing_def)
  qed
qed (simp add: claim_pairing_def pairing_step.Stutter)

lemma confirm_pairing_step: "refines_step sha ed25519 actor now nid s (confirm_pairing actor offer presented now s)"
proof (cases "named_offer offer s")
  case (Inr r)
  then have r: "pg_offer s = Some r" "po_id r = offer" by (simp_all add: named_offer_Inr)
  show ?thesis
  proof (cases "progress r now")
    case (ProgressAwaiting client shown)
    have live: "live_offer r now" using progress_cases(2) [OF ProgressAwaiting] by simp
    show ?thesis
      using Inr r ProgressAwaiting refuse_proof_step [OF r(1) live]
        pairing_step.Confirm [of "ceremony_of s" r now client shown actor presented sha ed25519 nid]
      by (auto simp: confirm_pairing_def pending_of_def answer_def gone_def invalidated_client_def table_defs ceremony_of_def
          Let_def pairing_step.Stutter)
  qed (use Inr in \<open>auto simp: confirm_pairing_def pending_of_def pairing_step.Stutter\<close>)
qed (simp add: confirm_pairing_def pairing_step.Stutter)

lemma complete_pairing_step: "refines_step sha ed25519 actor now nid s (complete_pairing ed25519 actor offer signature now s)"
proof (cases "named_offer offer s")
  case (Inr r)
  then have r: "pg_offer s = Some r" "po_id r = offer" by (simp_all add: named_offer_Inr)
  show ?thesis
  proof (cases "progress r now")
    case (ProgressConfirmed client shown)
    obtain c where c: "live_offer r now" "po_claim r = Some c" "pc_client c = client"
      using progress_cases(3) [OF ProgressConfirmed] by auto
    show ?thesis
    proof (cases "client = actor \<and>
        verifies ed25519 (key_of c) (pairing_transcript (pg_plane s) offer client (key_of c) (pc_challenge c)) signature")
      case True
      then have "pc_client c = actor" and v: "verifies ed25519 \<lparr>ck_algorithm = pc_algorithm c, ck_key = pc_key c\<rparr>
          (pairing_transcript (pg_plane s) offer actor \<lparr>ck_algorithm = pc_algorithm c, ck_key = pc_key c\<rparr> (pc_challenge c)) signature"
        using c(3) by (auto simp: key_of_def)
      then show ?thesis
        using Inr r ProgressConfirmed c pairing_step.Complete [of "ceremony_of s" r now actor shown c ed25519 signature sha nid]
        by (simp add: complete_pairing_def pending_of_def answer_def gone_def invalidated_client_def table_defs
            ceremony_of_def key_of_def new_client_def Let_def)
    next
      case False
      then show ?thesis
        using Inr r ProgressConfirmed c refuse_proof_step [OF r(1) c(1)]
        by (auto simp: complete_pairing_def pending_of_def key_of_def pairing_step.Stutter Let_def)
    qed
  qed (use Inr in \<open>auto simp: complete_pairing_def pending_of_def pairing_step.Stutter\<close>)
qed (simp add: complete_pairing_def pairing_step.Stutter)

lemma set_client_access_step: "refines_step sha ed25519 actor now nid s (set_client_access actor client access now s)"
proof (cases "paired_or_missing client s")
  case (Inr p)
  then have "find_paired_client client s = Some p" by (simp add: paired_or_missing_Inr)
  moreover from this have "pd_client p = client" by (auto simp: find_paired_client_def find_Some_iff)
  ultimately show ?thesis
    using Inr pairing_step.Access [of client "ceremony_of s" p sha ed25519 actor now nid AccessEnabled]
      pairing_step.Access [of client "ceremony_of s" p sha ed25519 actor now nid AccessDisabled]
    by (cases access)
      (simp_all add: set_client_access_def answer_def gone_def invalidated_client_def table_defs ceremony_of_def find_paired_client_def)
qed (simp add: set_client_access_def pairing_step.Stutter)

lemma revoke_client_step: "refines_step sha ed25519 actor now nid s (revoke_client actor client now s)"
proof (cases "paired_or_missing client s")
  case (Inr p)
  moreover from this have "find_paired_client client s = Some p" by (simp add: paired_or_missing_Inr)
  ultimately show ?thesis
    using pairing_step.Revoke [of client "ceremony_of s" p sha ed25519 actor now nid]
    by (simp add: revoke_client_def answer_def gone_def invalidated_client_def table_defs ceremony_of_def
        find_paired_client_def)
qed (simp add: revoke_client_def pairing_step.Stutter)

lemmas command_steps = set_gate_step open_pairing_step claim_pairing_step confirm_pairing_step complete_pairing_step
  set_client_access_step revoke_client_step

text \<open>The identity a Command gives a new offer.\<close>

definition drawn_id :: "pairing_command \<times> draws \<Rightarrow> uuid option" where
  "drawn_id c = (case fst c of OpenPairing _ \<Rightarrow> Some (dw_id (snd c)) | _ \<Rightarrow> None)"

lemma pairing_execute_step: "refines_step sha ed25519 actor now (drawn_id c) s (pairing_execute sha ed25519 actor c now s)"
  by (cases "fst c") (simp_all add: pairing_execute_def command_steps drawn_id_def)

section \<open>Invariants of the ceremony\<close>

text \<open>Who did what about an offer, in the order the audit has it.\<close>

definition offered_at :: "pairing_offer \<Rightarrow> int \<Rightarrow> pairing_audit" where
  "offered_at r t = entry (po_opened_by r) D_Offered (AboutOffer (po_id r)) Succeeded t"

definition offer_trail :: "pairing_offer \<Rightarrow> pairing_audit list \<Rightarrow> bool" where
  "offer_trail r audit \<longleftrightarrow>
     (case po_claim r of
        None \<Rightarrow> \<exists>t0. subseq [offered_at r t0] audit
      | Some c \<Rightarrow>
          (case po_confirmed_by r of
             None \<Rightarrow> \<exists>t0 t1. subseq [offered_at r t0, entry (pc_client c) D_Claimed (AboutOffer (po_id r)) Succeeded t1] audit
           | Some b \<Rightarrow> b \<noteq> pc_client c \<and>
               (\<exists>t0 t1 t2. subseq [offered_at r t0, entry (pc_client c) D_Claimed (AboutOffer (po_id r)) Succeeded t1,
                  entry b D_Confirmed (AboutOffer (po_id r)) Succeeded t2] audit)))"

definition offer_ok :: "pairing_offer \<Rightarrow> bool" where
  "offer_ok r \<longleftrightarrow> po_failed r \<le> MAX_PAIRING_ATTEMPTS \<and>
     ((\<forall>x. po_state r \<noteq> OfferInvalidated x) \<longrightarrow> po_failed r < MAX_PAIRING_ATTEMPTS) \<and>
     (po_state r = OfferOpen \<longrightarrow> po_claim r = None \<and> po_confirmed_by r = None) \<and>
     (po_state r = OfferClaimed \<longrightarrow> po_claim r \<noteq> None)"

definition paired_by_ceremony :: "uuid \<Rightarrow> int \<Rightarrow> pairing_audit list \<Rightarrow> bool" where
  "paired_by_ceremony client at audit \<longleftrightarrow>
     (\<exists>offer owner confirmer t0 t1 t2. confirmer \<noteq> client \<and>
        subseq [entry owner D_Offered (AboutOffer offer) Succeeded t0,
                entry client D_Claimed (AboutOffer offer) Succeeded t1,
                entry confirmer D_Confirmed (AboutOffer offer) Succeeded t2,
                entry client D_Completed (AboutClient client) Succeeded at] audit)"

definition ceremony_inv :: "ceremony \<Rightarrow> bool" where
  "ceremony_inv A \<longleftrightarrow>
     (\<forall>r. ab_offer A = Some r \<longrightarrow> offer_ok r \<and> offer_trail r (ab_audit A)) \<and>
     distinct (map pd_client (ab_clients A)) \<and>
     (\<forall>p \<in> set (ab_clients A). paired_by_ceremony (pd_client p) (pd_at p) (ab_audit A))"

lemma subseq_snoc: "subseq xs ys \<Longrightarrow> subseq (xs @ [x]) (ys @ [x])"
  by (simp add: list_emb_append_mono)

lemma subseq_grow: "subseq xs ys \<Longrightarrow> subseq xs (ys @ zs)"
  by (metis append_Nil2 list_emb_Nil list_emb_append_mono)

lemma offer_trail_grow: "offer_trail r audit \<Longrightarrow> offer_trail r (audit @ rest)"
  by (auto simp: offer_trail_def split: option.splits intro: subseq_grow)

lemma paired_by_ceremony_grow: "paired_by_ceremony c t audit \<Longrightarrow> paired_by_ceremony c t (audit @ rest)"
  unfolding paired_by_ceremony_def by (meson subseq_grow)

lemma upsert_row_clients:
  "set (map pd_client (upsert_row p ps)) = insert (pd_client p) (set (map pd_client ps))"
  by (induction ps) auto

lemma upsert_row_distinct: "distinct (map pd_client ps) \<Longrightarrow> distinct (map pd_client (upsert_row p ps))"
proof (induction ps)
  case (Cons q qs)
  then show ?case using upsert_row_clients [of p qs] by auto
qed simp

lemma upsert_row_set: "set (upsert_row p ps) \<subseteq> insert p (set ps)"
  by (induction ps) auto

lemma failed_once_fields [simp]:
  "po_id (failed_once r) = po_id r" "po_claim (failed_once r) = po_claim r"
  "po_confirmed_by (failed_once r) = po_confirmed_by r" "po_opened_by (failed_once r) = po_opened_by r"
  "po_failed (failed_once r) = po_failed r + 1" "po_expires_at (failed_once r) = po_expires_at r"
  by (cases "po_state r"; simp add: failed_once_def Let_def)+

lemma failed_once_ok: "offer_ok r \<Longrightarrow> live_offer r now \<Longrightarrow> offer_ok (failed_once r)"
  by (cases "po_state r") (auto simp: offer_ok_def failed_once_def live_offer_iff Let_def)

lemma close_offer_fields [simp]:
  "po_id (close_offer now r) = po_id r" "po_claim (close_offer now r) = po_claim r"
  "po_confirmed_by (close_offer now r) = po_confirmed_by r" "po_opened_by (close_offer now r) = po_opened_by r"
  "po_failed (close_offer now r) = po_failed r" "po_expires_at (close_offer now r) = po_expires_at r"
  by (simp_all add: close_offer_def)

lemma close_offer_ok: "offer_ok r \<Longrightarrow> offer_ok (close_offer now r)"
  by (auto simp: offer_ok_def close_offer_def)

lemma offer_trail_cong:
  assumes "po_id r' = po_id r" "po_claim r' = po_claim r" "po_confirmed_by r' = po_confirmed_by r" "po_opened_by r' = po_opened_by r"
  shows "offer_trail r' audit = offer_trail r audit"
  using assms by (simp add: offer_trail_def offered_at_def split: option.split)

lemma ceremony_inv_audit: "ceremony_inv A \<Longrightarrow> ceremony_inv (A\<lparr>ab_audit := ab_audit A @ rest\<rparr>)"
  by (auto simp: ceremony_inv_def offer_trail_grow paired_by_ceremony_grow)

lemma ceremony_inv_offer:
  assumes "ceremony_inv A" and "offer_ok r" and "offer_trail r (ab_audit A @ rest)"
  shows "ceremony_inv (A\<lparr>ab_offer := Some r, ab_audit := ab_audit A @ rest\<rparr>)"
  using assms by (auto simp: ceremony_inv_def paired_by_ceremony_grow)

lemma ceremony_inv_step:
  assumes "ceremony_inv A" and "pairing_step sha ed25519 actor now nid A g B"
  shows "ceremony_inv B"
  using assms(2)
proof cases
  case CloseGate
  have "offer_ok (close_offer now r) \<and> offer_trail (close_offer now r) (ab_audit A)" if "ab_offer A = Some r" for r
    using assms(1) that offer_trail_cong [of "close_offer now r" r] by (simp add: ceremony_inv_def close_offer_ok)
  then show ?thesis
    using assms(1) CloseGate by (auto simp: ceremony_inv_def offer_trail_grow paired_by_ceremony_grow)
next
  case (Offer r)
  have "subseq [offered_at r now] (ab_audit A @ [entry actor D_Offered (AboutOffer (po_id r)) Succeeded now])"
    using Offer subseq_snoc [of "[]" "ab_audit A"] by (simp add: offered_at_def)
  then show ?thesis
    using Offer ceremony_inv_offer [OF assms(1), of r] by (auto simp: offer_ok_def offer_trail_def MAX_PAIRING_ATTEMPTS_def)
next
  case (Refuse r d)
  then have "offer_ok (failed_once r)" "offer_trail (failed_once r) (ab_audit A)"
    using assms(1) failed_once_ok offer_trail_cong [of "failed_once r" r] by (auto simp: ceremony_inv_def)
  then show ?thesis using Refuse ceremony_inv_offer [OF assms(1)] offer_trail_grow by blast
next
  case (Claim r presented c)
  have r: "po_state r = OfferOpen" "offer_ok r" "offer_trail r (ab_audit A)"
    using Claim assms(1) by (auto simp: progress_def ceremony_inv_def offer_ok_def split: pairing_offer_state.splits if_splits option.splits)
  then obtain t0 where "subseq [offered_at r t0] (ab_audit A)" by (auto simp: offer_trail_def offer_ok_def)
  from subseq_snoc [OF this, of "entry actor D_Claimed (AboutOffer (po_id r)) Succeeded now"]
  have "offer_trail (r\<lparr>po_state := OfferClaimed, po_claim := Some c, po_expires_at := i64_sat_add now PAIRING_WINDOW_MS\<rparr>)
      (ab_audit A @ [entry actor D_Claimed (AboutOffer (po_id r)) Succeeded now])"
    using r Claim by (auto simp: offer_trail_def offer_ok_def offered_at_def)
  then show ?thesis using Claim r ceremony_inv_offer [OF assms(1)] by (auto simp: offer_ok_def)
next
  case (Confirm r client shown presented)
  obtain c where c: "po_state r = OfferClaimed" "po_confirmed_by r = None" "po_claim r = Some c" "pc_client c = client"
    using progress_cases(2) Confirm by blast
  have r: "offer_ok r" "offer_trail r (ab_audit A)" using Confirm assms(1) by (auto simp: ceremony_inv_def)
  with c obtain t0 t1 where
    "subseq [offered_at r t0, entry client D_Claimed (AboutOffer (po_id r)) Succeeded t1] (ab_audit A)"
    by (auto simp: offer_trail_def)
  from subseq_snoc [OF this, of "entry actor D_Confirmed (AboutOffer (po_id r)) Succeeded now"]
  have "offer_trail (r\<lparr>po_confirmed_by := Some actor, po_expires_at := i64_sat_add now PAIRING_WINDOW_MS\<rparr>)
      (ab_audit A @ [entry actor D_Confirmed (AboutOffer (po_id r)) Succeeded now])"
    using c Confirm by (auto simp: offer_trail_def offered_at_def)
  then show ?thesis using Confirm r c ceremony_inv_offer [OF assms(1)] by (auto simp: offer_ok_def)
next
  case (Complete r shown c signature)
  then obtain b where b: "po_confirmed_by r = Some b" using progress_cases(3) by fastforce
  have "offer_trail r (ab_audit A)" using Complete assms(1) by (auto simp: ceremony_inv_def)
  with b Complete obtain t0 t1 t2 where t: "b \<noteq> actor" "subseq [offered_at r t0,
      entry actor D_Claimed (AboutOffer (po_id r)) Succeeded t1, entry b D_Confirmed (AboutOffer (po_id r)) Succeeded t2] (ab_audit A)"
    by (auto simp: offer_trail_def)
  from subseq_snoc [OF t(2), of "entry actor D_Completed (AboutClient actor) Succeeded now"] t(1)
  have "paired_by_ceremony actor now (ab_audit A @ [entry actor D_Completed (AboutClient actor) Succeeded now])"
    unfolding paired_by_ceremony_def offered_at_def append_Cons append_Nil by blast
  then have "\<forall>p \<in> set (upsert_row (new_client c now) (ab_clients A)). paired_by_ceremony (pd_client p) (pd_at p)
      (ab_audit A @ [entry actor D_Completed (AboutClient actor) Succeeded now])"
    using upsert_row_set [of "new_client c now" "ab_clients A"] assms(1) Complete(6)
    by (auto simp: ceremony_inv_def new_client_def dest!: subsetD intro: paired_by_ceremony_grow)
  then show ?thesis
    using Complete assms(1) upsert_row_distinct by (auto simp: ceremony_inv_def)
next
  case (Access client p access)
  have "map pd_client (map (\<lambda>p. if pd_client p = client then p\<lparr>pd_access := access\<rparr> else p) (ab_clients A)) =
      map pd_client (ab_clients A)" by (simp add: comp_def)
  then show ?thesis
    using Access assms(1) by (auto simp: ceremony_inv_def offer_trail_grow intro: paired_by_ceremony_grow simp del: map_map)
next
  case (Revoke client p)
  then show ?thesis
    using assms(1) by (auto simp: ceremony_inv_def offer_trail_grow distinct_map_filter intro: paired_by_ceremony_grow)
next
  case OpenGate
  then show ?thesis using assms(1) by (auto simp: ceremony_inv_def offer_trail_grow paired_by_ceremony_grow)
qed (use assms(1) in simp)

section \<open>A closed gate\<close>

definition gate_inv :: "int \<Rightarrow> ceremony \<Rightarrow> bool" where
  "gate_inv t A \<longleftrightarrow> (ab_gate A = GateClosed \<longrightarrow> (\<forall>r. ab_offer A = Some r \<longrightarrow> \<not> live_offer r t))"

lemma gate_inv_later: "gate_inv t A \<Longrightarrow> t \<le> t' \<Longrightarrow> gate_inv t' A"
  by (auto simp: gate_inv_def live_offer_iff)

lemma gate_inv_step:
  assumes "gate_inv now A" and "pairing_step sha ed25519 actor now nid A g B"
  shows "gate_inv now B"
  using assms(2)
proof cases
  case CloseGate
  have "\<not> live_offer (close_offer now r) now" for r by (simp add: close_offer_def live_offer_iff)
  then show ?thesis using CloseGate by (auto simp: gate_inv_def)
next
  case (Refuse r d)
  then have "ab_gate A = GateOpen" using assms(1) by (cases "ab_gate A") (auto simp: gate_inv_def)
  then show ?thesis using Refuse by (simp add: gate_inv_def)
next
  case (Claim r presented c)
  then have "ab_gate A = GateOpen" using assms(1) progress_cases(1) by (cases "ab_gate A") (auto simp: gate_inv_def)
  then show ?thesis using Claim by (simp add: gate_inv_def)
next
  case (Confirm r client shown presented)
  then have "ab_gate A = GateOpen" using assms(1) progress_cases(2) by (cases "ab_gate A") (auto simp: gate_inv_def)
  then show ?thesis using Confirm by (simp add: gate_inv_def)
qed (use assms(1) in \<open>simp_all add: gate_inv_def\<close>)

text \<open>Whatever keeps its row's key over one step.\<close>

definition client_key :: "uuid \<Rightarrow> ceremony \<Rightarrow> client_public_key option" where
  "client_key client A =
     map_option (\<lambda>p. \<lparr>ck_algorithm = pd_algorithm p, ck_key = pd_key p\<rparr>) (find (\<lambda>p. pd_client p = client) (ab_clients A))"

lemma find_map_access:
  "find (\<lambda>q. pd_client q = client) (map (\<lambda>p. if pd_client p = x then p\<lparr>pd_access := access\<rparr> else p) ps) =
     map_option (\<lambda>p. if client = x then p\<lparr>pd_access := access\<rparr> else p) (find (\<lambda>q. pd_client q = client) ps)"
  by (induction ps) auto

lemma find_filter_client:
  "find (\<lambda>q. pd_client q = client) (filter (\<lambda>p. pd_client p \<noteq> x) ps) =
     (if client = x then None else find (\<lambda>q. pd_client q = client) ps)"
  by (induction ps) auto

lemmas find_rows = find_upsert_row find_map_access find_filter_client

lemma client_key_step:
  assumes "pairing_step sha ed25519 actor now nid A g B" and "client_key client B = Some k"
  obtains (kept) "client_key client A = Some k"
  | (proven) r c b shown signature where "client = actor" and "ab_offer A = Some r" and "live_offer r now" and "po_claim r = Some c"
      and "pc_client c = client" and "key_of c = k" and "po_confirmed_by r = Some b" and "g = Some client"
      and "verifies ed25519 k (pairing_transcript (ab_plane A) (po_id r) client k (pc_challenge c)) signature"
  using assms(1)
proof cases
  case (Complete r shown c signature)
  then obtain b where "live_offer r now" "po_confirmed_by r = Some b" using progress_cases(3) by fastforce
  then show thesis
    using Complete assms(2) kept proven [of r c b signature]
    by (cases "client = actor") (auto simp: client_key_def find_rows new_client_def key_of_def)
next
  case (Access x p access)
  then show thesis
    using assms(2) kept by (auto simp: client_key_def find_rows split: if_splits)
next
  case (Revoke x p)
  then show thesis
    using assms(2) kept by (auto simp: client_key_def find_rows split: if_splits)
qed (use assms(2) kept in \<open>auto simp: client_key_def\<close>)

section \<open>Failed proofs\<close>

definition denials :: "uuid \<Rightarrow> pairing_audit list \<Rightarrow> nat" where
  "denials offer audit = length (filter (\<lambda>e. pa_subject e = AboutOffer offer \<and> pa_outcome e = Denied) audit)"

definition offered_ids :: "pairing_audit list \<Rightarrow> uuid set" where
  "offered_ids audit = {offer. \<exists>e \<in> set audit. pa_decision e = D_Offered \<and> pa_subject e = AboutOffer offer}"

definition attempts_inv :: "ceremony \<Rightarrow> bool" where
  "attempts_inv A \<longleftrightarrow>
     (\<forall>offer. denials offer (ab_audit A) \<le> MAX_PAIRING_ATTEMPTS) \<and>
     (\<forall>offer. denials offer (ab_audit A) > 0 \<longrightarrow> offer \<in> offered_ids (ab_audit A)) \<and>
     (\<forall>r. ab_offer A = Some r \<longrightarrow> offer_ok r \<and> denials (po_id r) (ab_audit A) = po_failed r \<and>
        po_id r \<in> offered_ids (ab_audit A))"

lemma denials_append: "denials offer (xs @ ys) = denials offer xs + denials offer ys"
  by (simp add: denials_def)

lemma denials_single [simp]: "denials offer [] = 0" "denials offer [entry a d x Succeeded t] = 0"
  "denials offer [entry a d (AboutClient c) out t] = 0"
  by (simp_all add: denials_def)

lemma denials_failure [simp]: "denials offer (failure_entries actor d now r) = (if offer = po_id r then 1 else 0)"
  by (simp add: denials_def failure_entries_def)

lemma offered_ids_append [simp]: "offered_ids (xs @ ys) = offered_ids xs \<union> offered_ids ys"
  by (auto simp: offered_ids_def)

lemma offered_ids_single [simp]:
  "offered_ids [entry a d x out t] = (case (d, x) of (D_Offered, AboutOffer i) \<Rightarrow> {i} | _ \<Rightarrow> {})"
  by (auto simp: offered_ids_def split: pairing_decision.split pairing_subject.split)

lemma offer_after_step:
  assumes "pairing_step sha ed25519 actor now nid A g B"
  shows "offered_ids (ab_audit B) \<subseteq> offered_ids (ab_audit A) \<union> set_option nid \<union>
    (case ab_offer A of None \<Rightarrow> {} | Some r \<Rightarrow> {po_id r})"
  using assms by cases (auto simp: failure_entries_def offered_ids_def split: if_splits)

lemma attempts_inv_step:
  assumes inv: "attempts_inv A" and step: "pairing_step sha ed25519 actor now nid A g B"
    and fresh: "\<And>i. nid = Some i \<Longrightarrow> i \<notin> offered_ids (ab_audit A)"
  shows "attempts_inv B"
  using step
proof cases
  case CloseGate
  then show ?thesis using inv by (auto simp: attempts_inv_def denials_append close_offer_ok)
next
  case (Offer r)
  then have "denials (po_id r) (ab_audit A) = 0" using fresh inv by (auto simp: attempts_inv_def)
  then show ?thesis
    using Offer inv by (auto simp: attempts_inv_def denials_append offer_ok_def MAX_PAIRING_ATTEMPTS_def)
next
  case (Refuse r d)
  then have r: "offer_ok r" "denials (po_id r) (ab_audit A) = po_failed r" "po_id r \<in> offered_ids (ab_audit A)"
    "offer_ok (failed_once r)"
    using inv failed_once_ok by (auto simp: attempts_inv_def)
  moreover have "po_failed r + 1 \<le> MAX_PAIRING_ATTEMPTS" using r(4) by (simp add: offer_ok_def)
  ultimately show ?thesis using Refuse inv by (auto simp: attempts_inv_def denials_append)
next
  case (Claim r presented c)
  then have "\<forall>x. po_state r \<noteq> OfferInvalidated x" using progress_cases(1) live_offer_iff by blast
  then show ?thesis using Claim inv by (auto simp: attempts_inv_def denials_append offer_ok_def)
next
  case (Confirm r client shown presented)
  then have "po_state r = OfferClaimed" using progress_cases(2) by blast
  then show ?thesis using Confirm inv by (auto simp: attempts_inv_def denials_append offer_ok_def)
next
  case (Access client p access)
  then show ?thesis using inv by (cases access) (auto simp: attempts_inv_def denials_append)
qed (use inv in \<open>auto simp: attempts_inv_def denials_append\<close>)

section \<open>The key of an enabled client\<close>

definition enabled_key :: "uuid \<Rightarrow> ceremony \<Rightarrow> client_public_key option" where
  "enabled_key client A =
     (case find (\<lambda>p. pd_client p = client) (ab_clients A) of
        None \<Rightarrow> None
      | Some p \<Rightarrow> if pd_access p = AccessEnabled then Some \<lparr>ck_algorithm = pd_algorithm p, ck_key = pd_key p\<rparr> else None)"

lemma enabled_key_step:
  assumes "pairing_step sha ed25519 actor now nid A g B" and "enabled_key client A = Some k" and "g \<noteq> Some client"
  shows "enabled_key client B = Some k"
  using assms(1)
proof cases
  case (Complete r shown c signature)
  then show ?thesis using assms(2,3) by (auto simp: enabled_key_def find_rows new_client_def)
next
  case (Access x p access)
  then show ?thesis using assms(2,3) by (auto simp: enabled_key_def find_rows split: option.splits if_splits) (metis client_access.exhaust)+
next
  case (Revoke x p)
  then show ?thesis using assms(2,3) by (auto simp: enabled_key_def find_rows)
qed (use assms(2) in \<open>auto simp: enabled_key_def\<close>)

lemma enabled_key_audit: "enabled_key client (A\<lparr>ab_audit := l\<rparr>) = enabled_key client A"
  by (simp add: enabled_key_def)

end
