(* ===== verification/Jet_Remote.thy ===== *)
theory Jet_Remote
  imports Jet_Ceremony
begin

text \<open>
  Remote authority: \<open>jet-core/src/remote/mod.rs\<close> together with the Pairing Commands as they run
  through the Command pipeline of \<open>jet-core/src/command/execute.rs\<close>.

  A connection's authority is a token (\<open>Arc<watch::Sender<bool>>\<close>) named by a number; the registry
  holds weak references to it. Commands take the whole authority gate and authentication takes a
  part of it, so each is one step. The remote operations a revocation also denies, and replacing the
  store by a recovery snapshot, are not modelled.
\<close>

section \<open>Remote connections\<close>

record remote_session =
  rs_client :: uuid
  rs_token :: nat

record remote_sessions =
  ss_registry :: "(uuid \<times> nat list) list"
  ss_live :: "nat list"
  ss_revoked :: "nat list"
  ss_next :: nat

definition unauthorized :: core_error where
  "unauthorized = \<lparr>category = Unauthorized, code = ''connection.unauthorized'', retryable = False, detailed = False\<rparr>"

definition session_authorize :: "remote_session \<Rightarrow> remote_sessions \<Rightarrow> core_error + unit" where
  "session_authorize x S =
     (if rs_token x \<in> set (ss_revoked S) then Inl unauthorized
      else
        (case map_of (ss_registry S) (rs_client x) of
           None \<Rightarrow> Inl unauthorized
         | Some connections \<Rightarrow> if rs_token x \<in> set connections then Inr () else Inl unauthorized))"

text \<open>Connections nobody holds any more are forgotten.\<close>

definition retain_live :: "nat list \<Rightarrow> (uuid \<times> nat list) list \<Rightarrow> (uuid \<times> nat list) list" where
  "retain_live live reg =
     filter (\<lambda>(_, connections). connections \<noteq> [])
       (map (\<lambda>(client, connections). (client, filter (\<lambda>k. k \<in> set live) connections)) reg)"

fun push_connection :: "uuid \<Rightarrow> nat \<Rightarrow> (uuid \<times> nat list) list \<Rightarrow> (uuid \<times> nat list) list" where
  "push_connection client k [] = [(client, [k])]"
| "push_connection client k ((c, ks) # reg) =
     (if c = client then (c, ks @ [k]) # reg else (c, ks) # push_connection client k reg)"

definition MAX_REMOTE_CONNECTIONS :: nat where
  "MAX_REMOTE_CONNECTIONS = 128"

definition register_session :: "uuid \<Rightarrow> remote_sessions \<Rightarrow> (core_error + remote_session) \<times> remote_sessions" where
  "register_session client S0 =
     (let S = S0\<lparr>ss_registry := retain_live (ss_live S0) (ss_registry S0)\<rparr>
      in if sum_list (map (length \<circ> snd) (ss_registry S)) \<ge> MAX_REMOTE_CONNECTIONS
         then (Inl (unavailable_error ''connection.limit''), S)
         else (let k = ss_next S
               in (Inr \<lparr>rs_client = client, rs_token = k\<rparr>,
                   S\<lparr>ss_registry := push_connection client k (ss_registry S), ss_live := ss_live S @ [k], ss_next := k + 1\<rparr>)))"

definition invalidate_sessions :: "uuid \<Rightarrow> remote_sessions \<Rightarrow> remote_sessions" where
  "invalidate_sessions client S =
     (case map_of (ss_registry S) client of
        None \<Rightarrow> S
      | Some connections \<Rightarrow>
          S\<lparr>ss_registry := filter (\<lambda>(c, _). c \<noteq> client) (ss_registry S),
            ss_revoked := ss_revoked S @ filter (\<lambda>k. k \<in> set (ss_live S)) connections\<rparr>)"

datatype actor = LocalActor uuid | RemoteActor remote_session

fun actor_client :: "actor \<Rightarrow> uuid" where
  "actor_client (LocalActor client) = client"
| "actor_client (RemoteActor x) = rs_client x"

fun actor_authorize :: "actor \<Rightarrow> remote_sessions \<Rightarrow> core_error + unit" where
  "actor_authorize (LocalActor _) S = Inr ()"
| "actor_authorize (RemoteActor x) S = session_authorize x S"

record remote_plane =
  rm_plane :: "(pairing, pairing_body) plane"
  rm_sessions :: remote_sessions

text \<open>
  One Command on behalf of an Actor. Commands take the whole authority gate, so authorization,
  the transaction and the invalidation of live sessions are one step.
\<close>

definition execute_as ::
    "(bytes \<Rightarrow> bytes) \<Rightarrow> (bytes \<Rightarrow> bytes \<Rightarrow> bytes \<Rightarrow> bool) \<Rightarrow> security_state \<Rightarrow> actor \<Rightarrow> uuid \<Rightarrow> bytes \<Rightarrow>
     pairing_command \<times> draws \<Rightarrow> int \<Rightarrow> remote_plane \<Rightarrow> pairing_body result \<times> remote_plane" where
  "execute_as sha ed25519 st a command_id digest c now R =
     (case actor_authorize a (rm_sessions R) of
        Inl e \<Rightarrow> (Inl e, R)
      | Inr _ \<Rightarrow>
          (let env = \<lparr>en_actor = actor_client a, en_id = command_id, en_command = c, en_digest = digest\<rparr>;
               replayed = command_receipt (en_actor env) (en_id env) (rm_plane R) \<noteq> None;
               (r, P) = execute (pairing_handler sha ed25519) st env (Inr ()) (Inr ()) now (rm_plane R);
               gone = (if replayed then None else case r of Inl _ \<Rightarrow> None | Inr out \<Rightarrow> invalidated_client out)
           in (r, R\<lparr>rm_plane := P,
                    rm_sessions := (case gone of None \<Rightarrow> rm_sessions R
                                    | Some client \<Rightarrow> invalidate_sessions client (rm_sessions R))\<rparr>)))"

definition connection_verified ::
    "(bytes \<Rightarrow> bytes \<Rightarrow> bytes \<Rightarrow> bool) \<Rightarrow> uuid \<Rightarrow> bytes \<Rightarrow> bytes \<Rightarrow> pairing \<Rightarrow> bool" where
  "connection_verified ed25519 client message signature s =
     (case find_paired_client client s of
        None \<Rightarrow> False
      | Some p \<Rightarrow> pd_access p = AccessEnabled \<and>
          verifies ed25519 \<lparr>ck_algorithm = pd_algorithm p, ck_key = pd_key p\<rparr> message signature)"

definition authenticate_remote ::
    "(bytes \<Rightarrow> bytes \<Rightarrow> bytes \<Rightarrow> bool) \<Rightarrow> uuid \<Rightarrow> bytes \<Rightarrow> bytes \<Rightarrow> int \<Rightarrow> remote_plane \<Rightarrow>
     (core_error + actor) \<times> remote_plane" where
  "authenticate_remote ed25519 client message signature now R =
     (let verified = connection_verified ed25519 client message signature (pl_state (rm_plane R));
          s' = record_pairing_audit client D_ConnectionAuthenticated (AboutClient client)
                 (if verified then Succeeded else Denied) now (pl_state (rm_plane R));
          R1 = R\<lparr>rm_plane := (rm_plane R)\<lparr>pl_state := s'\<rparr>\<rparr>
      in if \<not> verified then (Inl unauthorized, R1)
         else (case register_session client (rm_sessions R1) of
                 (Inl e, S) \<Rightarrow> (Inl e, R1\<lparr>rm_sessions := S\<rparr>)
               | (Inr x, S) \<Rightarrow> (Inr (RemoteActor x), R1\<lparr>rm_sessions := S\<rparr>)))"

text \<open>The last holder of a connection lets go of it.\<close>

definition drop_session :: "nat \<Rightarrow> remote_plane \<Rightarrow> remote_plane" where
  "drop_session k R = R\<lparr>rm_sessions := (rm_sessions R)\<lparr>ss_live := removeAll k (ss_live (rm_sessions R))\<rparr>\<rparr>"

definition remote_pairing_signing_bytes :: "uuid \<Rightarrow> uuid \<Rightarrow> int \<Rightarrow> pairing \<Rightarrow> core_error + bytes" where
  "remote_pairing_signing_bytes client offer now s =
     rbind (ok_or (pg_offer s) unauthorized) (\<lambda>r.
       if po_id r \<noteq> offer \<or> po_expires_at r \<le> now then Inl unauthorized
       else rbind (ok_or (case po_claim r of Some c \<Rightarrow> if pc_client c = client then Some c else None | None \<Rightarrow> None) unauthorized)
         (\<lambda>c. Inr (pairing_transcript (pg_plane s) (po_id r) client
                     \<lparr>ck_algorithm = pc_algorithm c, ck_key = pc_key c\<rparr> (pc_challenge c))))"

section \<open>Histories\<close>

datatype remote_op =
    RExecute security_state actor uuid bytes "pairing_command \<times> draws" int
  | RAuthenticate uuid bytes bytes int
  | RDrop nat

fun op_time :: "remote_op \<Rightarrow> int option" where
  "op_time (RExecute _ _ _ _ _ now) = Some now"
| "op_time (RAuthenticate _ _ _ now) = Some now"
| "op_time (RDrop _) = None"

fun remote_step :: "(bytes \<Rightarrow> bytes) \<Rightarrow> (bytes \<Rightarrow> bytes \<Rightarrow> bytes \<Rightarrow> bool) \<Rightarrow> remote_plane \<Rightarrow> remote_op \<Rightarrow> remote_plane" where
  "remote_step sha ed25519 R (RExecute st a cid digest c now) = snd (execute_as sha ed25519 st a cid digest c now R)"
| "remote_step sha ed25519 R (RAuthenticate client message signature now) =
     snd (authenticate_remote ed25519 client message signature now R)"
| "remote_step sha ed25519 R (RDrop k) = drop_session k R"

definition new_remote_plane :: "uuid \<Rightarrow> remote_plane" where
  "new_remote_plane plane =
     \<lparr>rm_plane = \<lparr>pl_state = new_pairing plane, pl_receipts = [], pl_refusals = []\<rparr>,
      rm_sessions = \<lparr>ss_registry = [], ss_live = [], ss_revoked = [], ss_next = 0\<rparr>\<rparr>"

section \<open>Through the Command pipeline\<close>

lemma execute_as_cases:
  obtains (refused) e where "execute_as sha ed25519 st a cid digest c now R = (Inl e, R)"
  | (replayed) "pl_state (rm_plane (snd (execute_as sha ed25519 st a cid digest c now R))) = pl_state (rm_plane R)"
      and "rm_sessions (snd (execute_as sha ed25519 st a cid digest c now R)) = rm_sessions R"
  | (ran) r s where "actor_authorize a (rm_sessions R) = Inr ()"
      and "pairing_execute sha ed25519 (actor_client a) c now (pl_state (rm_plane R)) = (r, s)"
      and "fst (execute_as sha ed25519 st a cid digest c now R) = r"
      and "pl_state (rm_plane (snd (execute_as sha ed25519 st a cid digest c now R))) = s"
      and "rm_sessions (snd (execute_as sha ed25519 st a cid digest c now R)) =
        (case gone r of None \<Rightarrow> rm_sessions R | Some client \<Rightarrow> invalidate_sessions client (rm_sessions R))"
proof (cases "actor_authorize a (rm_sessions R)")
  case (Inl e)
  then show thesis using refused by (simp add: execute_as_def)
next
  case (Inr u)
  define env where "env = \<lparr>en_actor = actor_client a, en_id = cid, en_command = c, en_digest = digest\<rparr>"
  let ?H = "pairing_handler sha ed25519" and ?P = "rm_plane R"
  show thesis
  proof (cases "command_receipt (actor_client a) cid ?P")
    case (Some x)
    have "pl_state (snd (execute ?H st env (Inr ()) (Inr ()) now ?P)) = pl_state ?P"
      by (rule execute_cases [of ?H st env "Inr ()" "Inr ()" now ?P]) (use Some in \<open>auto simp: env_def\<close>)
    then show thesis
      using replayed Inr Some by (simp add: execute_as_def env_def Let_def split_beta)
  next
    case None
    have e: "execute ?H st env (Inr ()) (Inr ()) now ?P = command_transaction ?H st env (Some ()) now ?P"
      using None by (simp add: execute_def command_admit_def pairing_handler_def env_def)
    have n: "command_receipt (en_actor env) (en_id env) ?P = None" using None by (simp add: env_def)
    show thesis
    proof (cases rule: transaction_new [OF n, of ?H st "()" now, case_names refusal executed])
      case (refusal x)
      then show thesis
        using refused Inr None e by (simp add: execute_as_def env_def [symmetric] Let_def)
    next
      case (executed r s)
      then show thesis
        using ran [of r s] Inr None e
        by (simp add: execute_as_def env_def [symmetric] Let_def gone_def) (simp add: env_def pairing_handler_def)
    qed
  qed
qed

lemma executed_new:
  assumes "execute_as sha ed25519 st a cid digest c now R = (Inr out, R')" and "command_receipt (actor_client a) cid (rm_plane R) = None"
  shows "pairing_execute sha ed25519 (actor_client a) c now (pl_state (rm_plane R)) = (Inr out, pl_state (rm_plane R'))"
    and "rm_sessions R' = (case gone (Inr out) of None \<Rightarrow> rm_sessions R | Some y \<Rightarrow> invalidate_sessions y (rm_sessions R))"
proof -
  let ?H = "pairing_handler sha ed25519"
    and ?env = "\<lparr>en_actor = actor_client a, en_id = cid, en_command = c, en_digest = digest\<rparr>"
  have auth: "actor_authorize a (rm_sessions R) = Inr ()" using assms(1) by (auto simp: execute_as_def split: sum.splits)
  have n: "command_receipt (en_actor ?env) (en_id ?env) (rm_plane R) = None" using assms(2) by simp
  have e: "execute ?H st ?env (Inr ()) (Inr ()) now (rm_plane R) = command_transaction ?H st ?env (Some ()) now (rm_plane R)"
    using assms(2) by (simp add: execute_def command_admit_def pairing_handler_def)
  obtain s where s: "pairing_execute sha ed25519 (actor_client a) c now (pl_state (rm_plane R)) = (Inr out, s)"
    and R': "pl_state (rm_plane R') = s"
      "rm_sessions R' = (case invalidated_client out of None \<Rightarrow> rm_sessions R | Some y \<Rightarrow> invalidate_sessions y (rm_sessions R))"
    by (cases rule: transaction_new [OF n, of ?H st "()" now, case_names refusal executed])
      (use assms e auth in \<open>auto simp: execute_as_def Let_def pairing_handler_def\<close>)
  then show "pairing_execute sha ed25519 (actor_client a) c now (pl_state (rm_plane R)) = (Inr out, pl_state (rm_plane R'))"
    and "rm_sessions R' = (case gone (Inr out) of None \<Rightarrow> rm_sessions R | Some y \<Rightarrow> invalidate_sessions y (rm_sessions R))"
    by (simp_all add: gone_def)
qed

text \<open>Every step of the Plane is a step of the ceremony, taken by the Actor of the Command.\<close>

lemma execute_as_step:
  "\<exists>g. pairing_step sha ed25519 (actor_client a) now (drawn_id c) (ceremony_of (pl_state (rm_plane R))) g
      (ceremony_of (pl_state (rm_plane (snd (execute_as sha ed25519 st a cid digest c now R))))) \<and>
    rm_sessions (snd (execute_as sha ed25519 st a cid digest c now R)) =
      (case g of None \<Rightarrow> rm_sessions R | Some client \<Rightarrow> invalidate_sessions client (rm_sessions R))"
proof (cases rule: execute_as_cases [of sha ed25519 st a cid digest c now R, case_names refused replayed ran])
  case (refused e)
  then show ?thesis by (intro exI [of _ None]) (simp add: pairing_step.Stutter)
next
  case replayed
  then show ?thesis by (intro exI [of _ None]) (simp add: pairing_step.Stutter)
next
  case (ran r s)
  then show ?thesis using pairing_execute_step [of sha ed25519 "actor_client a" now c "pl_state (rm_plane R)"] by auto
qed

section \<open>Invariants of the ceremony\<close>

abbreviation ceremony_at :: "remote_plane \<Rightarrow> ceremony" where
  "ceremony_at R \<equiv> ceremony_of (pl_state (rm_plane R))"

abbreviation authenticated_entry :: "uuid \<Rightarrow> audit_outcome \<Rightarrow> int \<Rightarrow> pairing_audit" where
  "authenticated_entry client out now \<equiv> entry client D_ConnectionAuthenticated (AboutClient client) out now"

lemma authenticate_ceremony:
  "\<exists>out. ceremony_at (snd (authenticate_remote ed25519 client message signature now R)) =
     (ceremony_at R)\<lparr>ab_audit := ab_audit (ceremony_at R) @ [authenticated_entry client out now]\<rparr>"
  by (cases "connection_verified ed25519 client message signature (pl_state (rm_plane R))";
      cases "fst (register_session client (rm_sessions R))")
    (auto simp: authenticate_remote_def Let_def ceremony_of_def record_pairing_audit_def split: prod.split sum.split)

text \<open>
  An interface for what the ceremony keeps: a predicate that its steps preserve, and the record of
  a connection attempt too, holds after every history of the Plane.
\<close>

locale ceremony_invariant =
  fixes sha :: "bytes \<Rightarrow> bytes" and ed25519 :: "bytes \<Rightarrow> bytes \<Rightarrow> bytes \<Rightarrow> bool" and keeps :: "ceremony \<Rightarrow> bool"
  assumes step: "keeps A \<Longrightarrow> pairing_step sha ed25519 actor now nid A g B \<Longrightarrow> keeps B"
    and authenticated: "keeps A \<Longrightarrow> keeps (A\<lparr>ab_audit := ab_audit A @ [authenticated_entry client out now]\<rparr>)"
begin

lemma remote_step_keeps: "keeps (ceremony_at R) \<Longrightarrow> keeps (ceremony_at (remote_step sha ed25519 R op))"
proof (cases op)
  case (RExecute st a cid digest c now)
  assume "keeps (ceremony_at R)"
  then show ?thesis
    using execute_as_step [of sha ed25519 a now c R st cid digest] step RExecute by auto
next
  case (RAuthenticate client message signature now)
  assume "keeps (ceremony_at R)"
  then show ?thesis
    using authenticate_ceremony [of ed25519 client message signature now R] authenticated RAuthenticate by auto
qed (simp add: drop_session_def)

end

sublocale ceremony_invariant \<subseteq> machine "remote_step sha ed25519" "\<lambda>R. keeps (ceremony_at R)"
  by unfold_locales (rule remote_step_keeps)

interpretation ceremonies: ceremony_invariant sha ed25519 ceremony_inv for sha ed25519
  by unfold_locales (auto intro: ceremony_inv_step ceremony_inv_audit)

lemma new_ceremony_inv: "ceremony_inv (ceremony_at (new_remote_plane plane))"
  by (simp add: new_remote_plane_def new_pairing_def ceremony_of_def ceremony_inv_def)

lemma history_ceremony_inv: "ceremony_inv (ceremony_at (foldl (remote_step sha ed25519) (new_remote_plane plane) ops))"
  by (rule ceremonies.run_inv [OF new_ceremony_inv])

section \<open>A closed gate\<close>

abbreviation times :: "remote_op list \<Rightarrow> int list" where
  "times ops \<equiv> List.map_filter op_time ops"

lemma times_simps [simp]:
  "times [] = []" "times (ops @ ops') = times ops @ times ops'"
  "times (op # ops) = (case op_time op of None \<Rightarrow> [] | Some t \<Rightarrow> [t]) @ times ops"
  by (simp_all add: List.map_filter_def split: option.split)

lemma remote_step_gate:
  assumes "case op_time op of None \<Rightarrow> gate_inv t (ceremony_at R) | Some now \<Rightarrow> gate_inv now (ceremony_at R) \<and> now \<le> t"
  shows "gate_inv t (ceremony_at (remote_step sha ed25519 R op))"
proof (cases op)
  case (RExecute st a cid digest c now)
  then have g: "gate_inv now (ceremony_at R)" "now \<le> t" using assms by auto
  obtain x where "pairing_step sha ed25519 (actor_client a) now (drawn_id c) (ceremony_at R) x
      (ceremony_at (remote_step sha ed25519 R op))"
    using execute_as_step [of sha ed25519 a now c R st cid digest] RExecute by auto
  from gate_inv_later [OF gate_inv_step [OF g(1) this] g(2)] show ?thesis .
next
  case (RAuthenticate client message signature now)
  then have "gate_inv t (ceremony_at R)" using assms gate_inv_later by auto
  then show ?thesis
    using authenticate_ceremony [of ed25519 client message signature now R] RAuthenticate by (auto simp: gate_inv_def)
qed (use assms in \<open>auto simp: drop_session_def\<close>)

lemma history_gate_inv:
  assumes "sorted (times ops)" and "\<forall>u \<in> set (times ops). u \<le> t"
  shows "gate_inv t (ceremony_at (foldl (remote_step sha ed25519) (new_remote_plane plane) ops))"
  using assms
proof (induction ops arbitrary: t rule: rev_induct)
  case Nil
  then show ?case by (simp add: new_remote_plane_def new_pairing_def ceremony_of_def gate_inv_def)
next
  case (snoc op ops)
  have "case op_time op of None \<Rightarrow> gate_inv t (ceremony_at (foldl (remote_step sha ed25519) (new_remote_plane plane) ops))
      | Some now \<Rightarrow> gate_inv now (ceremony_at (foldl (remote_step sha ed25519) (new_remote_plane plane) ops)) \<and> now \<le> t"
    using snoc by (cases "op_time op") (auto simp: sorted_append)
  then show ?case by (simp add: remote_step_gate)
qed

section \<open>Failed proofs\<close>

fun opened_by_op :: "remote_op \<Rightarrow> uuid list" where
  "opened_by_op (RExecute _ _ _ _ c _) = (case drawn_id c of None \<Rightarrow> [] | Some i \<Rightarrow> [i])"
| "opened_by_op _ = []"

lemma remote_step_attempts:
  assumes "attempts_inv (ceremony_at R)" and "set (opened_by_op op) \<inter> offered_ids (ab_audit (ceremony_at R)) = {}"
  shows "attempts_inv (ceremony_at (remote_step sha ed25519 R op)) \<and>
    offered_ids (ab_audit (ceremony_at (remote_step sha ed25519 R op))) \<subseteq>
      offered_ids (ab_audit (ceremony_at R)) \<union> set (opened_by_op op)"
proof (cases op)
  case (RExecute st a cid digest c now)
  obtain x where x: "pairing_step sha ed25519 (actor_client a) now (drawn_id c) (ceremony_at R) x
      (ceremony_at (remote_step sha ed25519 R op))"
    using execute_as_step [of sha ed25519 a now c R st cid digest] RExecute by auto
  have "attempts_inv (ceremony_at (remote_step sha ed25519 R op))"
    by (rule attempts_inv_step [OF assms(1) x]) (use assms(2) RExecute in auto)
  moreover have "offered_ids (ab_audit (ceremony_at (remote_step sha ed25519 R op))) \<subseteq>
      offered_ids (ab_audit (ceremony_at R)) \<union> set (opened_by_op op)"
    using offer_after_step [OF x] assms(1) RExecute
    by (cases "drawn_id c"; cases "ab_offer (ceremony_at R)") (auto simp: attempts_inv_def)
  ultimately show ?thesis by simp
next
  case (RAuthenticate client message signature now)
  then show ?thesis
    using authenticate_ceremony [of ed25519 client message signature now R] assms(1)
    by (auto simp: attempts_inv_def denials_append)
qed (use assms in \<open>auto simp: drop_session_def\<close>)

lemma history_attempts:
  assumes "distinct (concat (map opened_by_op ops))"
  shows "attempts_inv (ceremony_at (foldl (remote_step sha ed25519) (new_remote_plane plane) ops)) \<and>
    offered_ids (ab_audit (ceremony_at (foldl (remote_step sha ed25519) (new_remote_plane plane) ops)))
      \<subseteq> set (concat (map opened_by_op ops))"
  using assms
proof (induction ops rule: rev_induct)
  case Nil
  then show ?case
    by (simp add: new_remote_plane_def new_pairing_def ceremony_of_def attempts_inv_def offered_ids_def denials_def)
next
  case (snoc op ops)
  let ?R = "foldl (remote_step sha ed25519) (new_remote_plane plane) ops"
  have IH: "attempts_inv (ceremony_at ?R)" "offered_ids (ab_audit (ceremony_at ?R)) \<subseteq> set (concat (map opened_by_op ops))"
    using snoc by simp_all
  moreover have "set (opened_by_op op) \<inter> offered_ids (ab_audit (ceremony_at ?R)) = {}"
    using IH(2) snoc.prems by auto
  ultimately show ?case using remote_step_attempts [of ?R op sha ed25519] by auto
qed

section \<open>Live authority\<close>

definition registered :: "uuid \<Rightarrow> nat \<Rightarrow> remote_sessions \<Rightarrow> bool" where
  "registered client k S \<longleftrightarrow> (\<exists>ks. map_of (ss_registry S) client = Some ks \<and> k \<in> set ks)"

definition sessions_inv :: "remote_sessions \<Rightarrow> bool" where
  "sessions_inv S \<longleftrightarrow> distinct (map fst (ss_registry S)) \<and> (\<forall>client k. registered client k S \<longrightarrow> k < ss_next S)"

lemma session_authorize_iff:
  "session_authorize x S = Inr () \<longleftrightarrow> rs_token x \<notin> set (ss_revoked S) \<and> registered (rs_client x) (rs_token x) S"
  by (auto simp: session_authorize_def registered_def split: option.splits)

lemma retain_live_keys: "distinct (map fst reg) \<Longrightarrow> distinct (map fst (retain_live live reg))"
  unfolding retain_live_def
  by (rule distinct_map_filter) (simp add: comp_def split_def)

lemma map_of_retain_live:
  "distinct (map fst reg) \<Longrightarrow> map_of (retain_live live reg) client =
     (case map_of reg client of None \<Rightarrow> None
      | Some ks \<Rightarrow> let ks' = filter (\<lambda>k. k \<in> set live) ks in if ks' = [] then None else Some ks')"
proof (induction reg)
  case (Cons e reg)
  obtain c ks where e: "e = (c, ks)" by fastforce
  have absent: "map_of (retain_live live reg) c = None"
    using Cons.IH Cons.prems by (auto simp: e map_of_eq_None_iff retain_live_def image_iff)
  show ?case
    using Cons absent by (auto simp: e retain_live_def Let_def split: option.split)
qed (simp add: retain_live_def)

lemma map_of_push: "map_of (push_connection client k reg) c =
    (if c = client then Some ((case map_of reg client of None \<Rightarrow> [] | Some ks \<Rightarrow> ks) @ [k]) else map_of reg c)"
  by (induction reg) auto

lemma push_keys: "fst ` set (push_connection client k reg) = insert client (fst ` set reg)"
  by (induction client k reg rule: push_connection.induct) auto

lemma push_distinct: "distinct (map fst reg) \<Longrightarrow> distinct (map fst (push_connection client k reg))"
proof (induction reg)
  case (Cons e reg)
  then show ?case using push_keys [of client k reg] by (cases e) auto
qed simp

text \<open>Registering only adds the new connection; retaining only drops dead ones.\<close>

lemma register_session_effect:
  assumes "sessions_inv S"
  shows "sessions_inv (snd (register_session client S)) \<and> ss_revoked (snd (register_session client S)) = ss_revoked S \<and>
    ss_next S \<le> ss_next (snd (register_session client S)) \<and>
    (\<forall>c k. registered c k (snd (register_session client S)) \<longrightarrow>
       registered c k S \<or> (c = client \<and> fst (register_session client S) = Inr \<lparr>rs_client = client, rs_token = k\<rparr> \<and> k = ss_next S))"
proof -
  have d: "distinct (map fst (ss_registry S))" using assms by (simp add: sessions_inv_def)
  define S1 where "S1 = S\<lparr>ss_registry := retain_live (ss_live S) (ss_registry S)\<rparr>"
  have r1: "registered c k S1 \<Longrightarrow> registered c k S" for c k
    using map_of_retain_live [OF d] by (auto simp: S1_def registered_def Let_def split: option.splits if_splits)
  have "ss_next S1 = ss_next S" "distinct (map fst (ss_registry S1))" using retain_live_keys [OF d] by (simp_all add: S1_def)
  then have i1: "sessions_inv S1" using assms r1 unfolding sessions_inv_def by metis
  show ?thesis
  proof (cases "sum_list (map (length \<circ> snd) (ss_registry S1)) \<ge> MAX_REMOTE_CONNECTIONS")
    case True
    then show ?thesis using i1 r1 by (auto simp: register_session_def S1_def Let_def)
  next
    case False
    define S2 where "S2 = S1\<lparr>ss_registry := push_connection client (ss_next S) (ss_registry S1),
      ss_live := ss_live S1 @ [ss_next S], ss_next := ss_next S + 1\<rparr>"
    have e: "register_session client S = (Inr \<lparr>rs_client = client, rs_token = ss_next S\<rparr>, S2)"
      using False by (simp add: register_session_def S1_def S2_def Let_def)
    have r2: "registered c k S2 \<Longrightarrow> registered c k S1 \<or> c = client \<and> k = ss_next S" for c k
      by (cases "map_of (ss_registry S1) client") (auto simp: registered_def S2_def map_of_push split: if_splits)
    have "sessions_inv S2"
      using i1 r2 push_distinct by (fastforce simp: sessions_inv_def S2_def S1_def)
    then show ?thesis using e r1 r2 by (auto simp: S2_def S1_def)
  qed
qed

lemma register_session_registered:
  assumes "sessions_inv S" and "registered c k (snd (register_session client S))"
  shows "registered c k S \<or> c = client \<and> k = ss_next S"
  using register_session_effect [OF assms(1), of client] assms(2) by blast

lemma invalidate_sessions_effect:
  assumes "sessions_inv S"
  shows "sessions_inv (invalidate_sessions client S) \<and> ss_next (invalidate_sessions client S) = ss_next S \<and>
    set (ss_revoked S) \<subseteq> set (ss_revoked (invalidate_sessions client S)) \<and>
    (\<forall>c k. registered c k (invalidate_sessions client S) \<longleftrightarrow> registered c k S \<and> c \<noteq> client)"
proof -
  have m: "map_of (filter (\<lambda>(c, _). c \<noteq> client) reg) c = (if c = client then None else map_of reg c)"
    for reg :: "(uuid \<times> nat list) list" and c
    by (induction reg) auto
  have d: "distinct (map fst (filter (\<lambda>(c, _). c \<noteq> client) (ss_registry S)))"
    using assms distinct_map_filter by (auto simp: sessions_inv_def)
  show ?thesis
    using assms m d by (cases "map_of (ss_registry S) client")
      (auto simp: invalidate_sessions_def sessions_inv_def registered_def split: if_splits)
qed

text \<open>The composition: every registered connection belongs to a client whose row is enabled.\<close>

definition remote_inv :: "remote_plane \<Rightarrow> bool" where
  "remote_inv R \<longleftrightarrow> sessions_inv (rm_sessions R) \<and>
     (\<forall>client k. registered client k (rm_sessions R) \<longrightarrow> enabled_key client (ceremony_at R) \<noteq> None)"

text \<open>What one step does to a connection that exists.\<close>

definition session_kept :: "remote_session \<Rightarrow> remote_plane \<Rightarrow> remote_plane \<Rightarrow> bool" where
  "session_kept x R R' \<longleftrightarrow>
     (session_authorize x (rm_sessions R') = Inr () \<longrightarrow>
        session_authorize x (rm_sessions R) = Inr () \<and>
        enabled_key (rs_client x) (ceremony_at R') = enabled_key (rs_client x) (ceremony_at R))"

lemma authenticate_sessions:
  "rm_sessions (snd (authenticate_remote ed25519 client message signature now R)) =
     (if connection_verified ed25519 client message signature (pl_state (rm_plane R))
      then snd (register_session client (rm_sessions R)) else rm_sessions R)"
  by (auto simp: authenticate_remote_def Let_def split: prod.split sum.split)

lemma authenticate_actor:
  "fst (authenticate_remote ed25519 client message signature now R) = Inr a \<longleftrightarrow>
     connection_verified ed25519 client message signature (pl_state (rm_plane R)) \<and>
     (\<exists>x. fst (register_session client (rm_sessions R)) = Inr x \<and> a = RemoteActor x)"
  by (auto simp: authenticate_remote_def Let_def split: prod.split sum.split)

lemma authenticate_enabled:
  "enabled_key c (ceremony_at (snd (authenticate_remote ed25519 client message signature now R))) = enabled_key c (ceremony_at R)"
  using authenticate_ceremony [of ed25519 client message signature now R] by (auto simp: enabled_key_audit)

lemma connection_verified_key:
  "connection_verified ed25519 client message signature s \<longleftrightarrow>
     (\<exists>k. enabled_key client (ceremony_of s) = Some k \<and> verifies ed25519 k message signature)"
  by (auto simp: connection_verified_def enabled_key_def ceremony_of_def find_paired_client_def split: option.splits)

lemma remote_inv_step:
  assumes "remote_inv R"
  shows "remote_inv (remote_step sha ed25519 R op)"
proof (cases op)
  case (RExecute st a cid digest c now)
  obtain g where g: "pairing_step sha ed25519 (actor_client a) now (drawn_id c) (ceremony_at R) g
      (ceremony_at (remote_step sha ed25519 R op))"
    and s: "rm_sessions (remote_step sha ed25519 R op) =
      (case g of None \<Rightarrow> rm_sessions R | Some client \<Rightarrow> invalidate_sessions client (rm_sessions R))"
    using execute_as_step [of sha ed25519 a now c R st cid digest] RExecute by auto
  have i: "sessions_inv (rm_sessions R)" using assms by (simp add: remote_inv_def)
  have r: "registered client k (rm_sessions (remote_step sha ed25519 R op)) \<Longrightarrow>
      registered client k (rm_sessions R) \<and> g \<noteq> Some client" for client k
    using s invalidate_sessions_effect [OF i] by (auto split: option.splits)
  have "sessions_inv (rm_sessions (remote_step sha ed25519 R op))"
    using s i invalidate_sessions_effect [OF i] by (auto split: option.splits)
  moreover have "enabled_key client (ceremony_at (remote_step sha ed25519 R op)) \<noteq> None"
    if h: "registered client k (rm_sessions (remote_step sha ed25519 R op))" for client k
    using r [OF h] assms enabled_key_step [OF g] by (fastforce simp: remote_inv_def)
  ultimately show ?thesis by (auto simp: remote_inv_def)
next
  case (RAuthenticate client message signature now)
  have i: "sessions_inv (rm_sessions R)" using assms by (simp add: remote_inv_def)
  show ?thesis
  proof (cases "connection_verified ed25519 client message signature (pl_state (rm_plane R))")
    case True
    then have "enabled_key client (ceremony_at R) \<noteq> None" by (auto simp: connection_verified_key)
    then show ?thesis
      using RAuthenticate True assms register_session_effect [OF i, of client]
      by (auto simp: remote_inv_def authenticate_sessions authenticate_enabled dest!: register_session_registered [OF i])
  qed (use RAuthenticate assms in \<open>auto simp: remote_inv_def authenticate_sessions authenticate_enabled\<close>)
next
  case (RDrop k)
  then show ?thesis using assms by (auto simp: remote_inv_def drop_session_def sessions_inv_def registered_def)
qed

interpretation remote: machine "remote_step sha ed25519" remote_inv for sha ed25519
  by unfold_locales (rule remote_inv_step)

lemma new_remote_inv: "remote_inv (new_remote_plane plane)"
  by (simp add: new_remote_plane_def remote_inv_def sessions_inv_def registered_def)

lemma session_kept_step:
  assumes inv: "remote_inv R" and old: "rs_token x < ss_next (rm_sessions R)"
  shows "session_kept x R (remote_step sha ed25519 R op) \<and>
    ss_next (rm_sessions R) \<le> ss_next (rm_sessions (remote_step sha ed25519 R op))"
proof (cases op)
  case (RExecute st a cid digest c now)
  obtain g where g: "pairing_step sha ed25519 (actor_client a) now (drawn_id c) (ceremony_at R) g
      (ceremony_at (remote_step sha ed25519 R op))"
    and s: "rm_sessions (remote_step sha ed25519 R op) =
      (case g of None \<Rightarrow> rm_sessions R | Some client \<Rightarrow> invalidate_sessions client (rm_sessions R))"
    using execute_as_step [of sha ed25519 a now c R st cid digest] RExecute by auto
  have i: "sessions_inv (rm_sessions R)" using inv by (simp add: remote_inv_def)
  have "session_authorize x (rm_sessions R) = Inr () \<and> g \<noteq> Some (rs_client x)"
    if "session_authorize x (rm_sessions (remote_step sha ed25519 R op)) = Inr ()"
    using that s invalidate_sessions_effect [OF i] by (auto simp: session_authorize_iff split: option.splits)
  then have "session_kept x R (remote_step sha ed25519 R op)"
    using enabled_key_step [OF g] inv by (fastforce simp: session_kept_def remote_inv_def session_authorize_iff)
  then show ?thesis using s invalidate_sessions_effect [OF i] by (auto split: option.splits)
next
  case (RAuthenticate client message signature now)
  have i: "sessions_inv (rm_sessions R)" using inv by (simp add: remote_inv_def)
  show ?thesis
    using RAuthenticate old register_session_effect [OF i, of client]
    by (auto simp: session_kept_def authenticate_sessions authenticate_enabled session_authorize_iff
        dest!: register_session_registered [OF i])
qed (simp add: session_kept_def drop_session_def session_authorize_def)

lemma session_kept_run:
  assumes "remote_inv R" and "rs_token x < ss_next (rm_sessions R)"
  shows "session_kept x R (foldl (remote_step sha ed25519) R ops)"
  using assms
proof (induction ops arbitrary: R)
  case Nil
  then show ?case by (simp add: session_kept_def)
next
  case (Cons op ops)
  have "session_kept x (remote_step sha ed25519 R op) (foldl (remote_step sha ed25519) (remote_step sha ed25519 R op) ops)"
    using Cons.IH [OF remote_inv_step [OF Cons.prems(1)]] session_kept_step [OF Cons.prems, of sha ed25519 op] Cons.prems(2)
    by simp
  then show ?case using session_kept_step [OF Cons.prems, of sha ed25519 op] by (simp add: session_kept_def)
qed

section \<open>A whole pairing through the pipeline\<close>

abbreviation demo_op :: "uuid \<Rightarrow> uuid \<Rightarrow> pairing_command \<Rightarrow> bytes \<Rightarrow> int \<Rightarrow> remote_op" where
  "demo_op client cid c os now \<equiv> RExecute Trusted (LocalActor client) cid [] (c, \<lparr>dw_id = 5, dw_bytes = os\<rparr>) now"

definition demo_offered :: "remote_op list" where
  "demo_offered =
     [demo_op 1 10 (SetPairingGate GateOpen) [] 100,
      demo_op 1 11 (OpenPairing ByManualCode) (replicate 24 1) 100]"

definition demo_ceremony :: "remote_op list" where
  "demo_ceremony = demo_offered @
     [demo_op 7 12 (ClaimPairing (ucs ''1111 1111'') demo_key) (replicate 32 3) 101,
      demo_op 1 13 (ConfirmPairing 5 (authentication_string demo_sha demo_message)) [] 102,
      demo_op 7 14 (CompletePairing 5 (ck_key demo_key @ demo_message)) [] 103]"

abbreviation demo_run :: "remote_op list \<Rightarrow> remote_plane" where
  "demo_run ops \<equiv> foldl (remote_step demo_sha demo_ed25519) (new_remote_plane 9) ops"

text \<open>A local Command with an unused identity, in a trusted Plane, runs.\<close>

lemma local_step:
  assumes "command_receipt client cid (rm_plane R) = None"
    and "pairing_execute sha ed25519 client c now (pl_state (rm_plane R)) = (Inr out, s)"
  shows "pl_state (rm_plane (remote_step sha ed25519 R (RExecute Trusted (LocalActor client) cid d c now))) = s"
    and "(a, i) \<noteq> (client, cid) \<Longrightarrow> command_receipt a i (rm_plane R) = None \<Longrightarrow>
      command_receipt a i (rm_plane (remote_step sha ed25519 R (RExecute Trusted (LocalActor client) cid d c now))) = None"
proof -
  have "\<exists>rc. rm_plane (snd (execute_as sha ed25519 Trusted (LocalActor client) cid d c now R)) =
      insert_command_receipt rc ((prune_command_receipts_before (cutoff_of now) (rm_plane R))\<lparr>pl_state := s\<rparr>) \<and>
      rp_actor rc = client \<and> rp_command rc = cid"
    using assms
    by (intro exI [of _ "new_receipt (pairing_handler sha ed25519)
          \<lparr>en_actor = client, en_id = cid, en_command = c, en_digest = d\<rparr> now (Inr out)"])
      (simp add: execute_as_def execute_def command_admit_def command_transaction_def pairing_handler_def Let_def
        receipt_after_prune cutoff_of_def security_admit_def new_receipt_def)
  then show "pl_state (rm_plane (remote_step sha ed25519 R (RExecute Trusted (LocalActor client) cid d c now))) = s"
    and "(a, i) \<noteq> (client, cid) \<Longrightarrow> command_receipt a i (rm_plane R) = None \<Longrightarrow>
      command_receipt a i (rm_plane (remote_step sha ed25519 R (RExecute Trusted (LocalActor client) cid d c now))) = None"
    by (auto simp: receipt_after_insert receipt_after_prune)
qed

lemma demo_new: "command_receipt a i (rm_plane (new_remote_plane p)) = None" "pl_state (rm_plane (new_remote_plane p)) = new_pairing p"
  by (simp_all add: new_remote_plane_def command_receipt_def)

lemma demo_gate_open:
  "pl_state (rm_plane (demo_run [demo_op 1 10 (SetPairingGate GateOpen) [] 100])) = snd (set_gate 1 GateOpen 100 (new_pairing 9))"
  "(a, i) \<noteq> (1, 10) \<Longrightarrow> command_receipt a i (rm_plane (demo_run [demo_op 1 10 (SetPairingGate GateOpen) [] 100])) = None"
proof -
  obtain out where e: "pairing_execute demo_sha demo_ed25519 1 (SetPairingGate GateOpen, \<lparr>dw_id = 5, dw_bytes = []\<rparr>) 100
      (pl_state (rm_plane (new_remote_plane 9))) = (Inr out, snd (set_gate 1 GateOpen 100 (new_pairing 9)))"
    by (simp add: demo_new pairing_execute_def set_gate_def answer_def)
  show "pl_state (rm_plane (demo_run [demo_op 1 10 (SetPairingGate GateOpen) [] 100])) = snd (set_gate 1 GateOpen 100 (new_pairing 9))"
    using local_step(1) [OF demo_new(1) e] by simp
  show "(a, i) \<noteq> (1, 10) \<Longrightarrow> command_receipt a i (rm_plane (demo_run [demo_op 1 10 (SetPairingGate GateOpen) [] 100])) = None"
    using local_step(2) [OF demo_new(1) e, of a i 10] by (simp add: demo_new)
qed

lemma demo_history:
  obtains p where "find_paired_client 7 (pl_state (rm_plane (demo_run demo_ceremony))) = Some p"
    and "pd_at p = 103" and "pd_access p = AccessEnabled" and "pd_key p = replicate 32 2" and "pd_algorithm p = Ed25519"
    and "\<And>a i. (a, i) \<notin> {(1, 10), (1, 11), (7, 12), (1, 13), (7, 14)} \<Longrightarrow> command_receipt a i (rm_plane (demo_run demo_ceremony)) = None"
    and "pg_clients (pl_state (rm_plane (demo_run (butlast demo_ceremony)))) = []"
proof -
  define R1 where "R1 = demo_run [demo_op 1 10 (SetPairingGate GateOpen) [] 100]"
  define s where "s = pl_state (rm_plane R1)"
  have g: "pg_gate s = GateOpen" "pg_plane s = 9" "pg_clients s = []"
    using demo_gate_open(1) by (simp_all add: s_def R1_def set_gate_def answer_def table_defs new_pairing_def)
  have f1: "(a, i) \<noteq> (1, 10) \<Longrightarrow> command_receipt a i (rm_plane R1) = None" for a i
    using demo_gate_open(2) by (simp add: R1_def)
  obtain out s1 where o1: "open_pairing demo_sha 1 ByManualCode 5 (replicate 24 1) 100 s = (Inr out, s1)"
      "co_disclosure out = Some (ManualCode [49, 49, 49, 49, 45, 49, 49, 49, 49])"
    using demo_open [OF g(1)] by auto
  have d: "filter is_digit (ucs ''1111 1111'') = filter is_digit [49, 49, 49, 49, 45, 49, 49, 49, 49]"
    by (simp add: ucs_def is_digit_def of_char_def)
  have v: "verifies demo_ed25519 demo_key demo_message (ck_key demo_key @ demo_message)"
    by (simp add: verifies_def demo_defs)
  obtain a2 s2 a3 s3 a4 s4 where c: "claim_pairing demo_sha 7 (ucs ''1111 1111'') demo_key (replicate 32 3) 101 s1 = (Inr a2, s2)"
      "confirm_pairing 1 5 (authentication_string demo_sha demo_message) 102 s2 = (Inr a3, s3)"
      "complete_pairing demo_ed25519 7 5 (ck_key demo_key @ demo_message) 103 s3 = (Inr a4, s4)"
    and p: "find_paired_client 7 s4 = Some \<lparr>pd_client = 7, pd_algorithm = ck_algorithm demo_key,
        pd_key = ck_key demo_key, pd_protocol = PAIRING_PROTOCOL, pd_access = AccessEnabled, pd_at = 103\<rparr>" and none: "pg_clients s3 = []"
    using pairing_completes [OF o1 d, of "replicate 32 3" 7 1 101 102 103 demo_message demo_key demo_ed25519] v g
    by (fastforce simp: i64_sat_add_def PAIRING_WINDOW_MS_def demo_message_def)
  define R2 where "R2 = remote_step demo_sha demo_ed25519 R1 (demo_op 1 11 (OpenPairing ByManualCode) (replicate 24 1) 100)"
  note l2 = local_step [of 1 11 R1 demo_sha demo_ed25519 "(OpenPairing ByManualCode, \<lparr>dw_id = 5, dw_bytes = replicate 24 1\<rparr>)" 100 out s1]
  have R2: "pl_state (rm_plane R2) = s1" "(a, i) \<notin> {(1, 10), (1, 11)} \<Longrightarrow> command_receipt a i (rm_plane R2) = None" for a i
    using l2(1) l2(2) [of a i] f1 o1(1) by (auto simp: R2_def pairing_execute_def s_def)
  define R3 where "R3 = remote_step demo_sha demo_ed25519 R2 (demo_op 7 12 (ClaimPairing (ucs ''1111 1111'') demo_key) (replicate 32 3) 101)"
  note l3 = local_step [of 7 12 R2 demo_sha demo_ed25519
      "(ClaimPairing (ucs ''1111 1111'') demo_key, \<lparr>dw_id = 5, dw_bytes = replicate 32 3\<rparr>)" 101 a2 s2]
  have R3: "pl_state (rm_plane R3) = s2"
    "(a, i) \<notin> {(1, 10), (1, 11), (7, 12)} \<Longrightarrow> command_receipt a i (rm_plane R3) = None" for a i
    using l3(1) l3(2) [of a i] R2 c(1) by (auto simp: R3_def pairing_execute_def)
  define R4 where "R4 = remote_step demo_sha demo_ed25519 R3 (demo_op 1 13 (ConfirmPairing 5 (authentication_string demo_sha demo_message)) [] 102)"
  note l4 = local_step [of 1 13 R3 demo_sha demo_ed25519
      "(ConfirmPairing 5 (authentication_string demo_sha demo_message), \<lparr>dw_id = 5, dw_bytes = []\<rparr>)" 102 a3 s3]
  have R4: "pl_state (rm_plane R4) = s3"
    "(a, i) \<notin> {(1, 10), (1, 11), (7, 12), (1, 13)} \<Longrightarrow> command_receipt a i (rm_plane R4) = None" for a i
    using l4(1) l4(2) [of a i] R3 c(2) by (auto simp: R4_def pairing_execute_def)
  note l5 = local_step [of 7 14 R4 demo_sha demo_ed25519
      "(CompletePairing 5 (ck_key demo_key @ demo_message), \<lparr>dw_id = 5, dw_bytes = []\<rparr>)" 103 a4 s4]
  have e: "demo_run demo_ceremony = remote_step demo_sha demo_ed25519 R4 (demo_op 7 14 (CompletePairing 5 (ck_key demo_key @ demo_message)) [] 103)"
    by (simp add: demo_ceremony_def demo_offered_def R4_def R3_def R2_def R1_def)
  have R5: "pl_state (rm_plane (demo_run demo_ceremony)) = s4"
    "(a, i) \<notin> {(1, 10), (1, 11), (7, 12), (1, 13), (7, 14)} \<Longrightarrow> command_receipt a i (rm_plane (demo_run demo_ceremony)) = None" for a i
    using l5(1) l5(2) [of a i] R4 c(3) by (auto simp: e pairing_execute_def)
  have "demo_run (butlast demo_ceremony) = R4"
    by (simp add: demo_ceremony_def demo_offered_def R4_def R3_def R2_def R1_def)
  then have none': "pg_clients (pl_state (rm_plane (demo_run (butlast demo_ceremony)))) = []" using R4(1) none by simp
  show thesis by (rule that [of "\<lparr>pd_client = 7, pd_algorithm = ck_algorithm demo_key, pd_key = ck_key demo_key,
      pd_protocol = PAIRING_PROTOCOL, pd_access = AccessEnabled, pd_at = 103\<rparr>"]) (use R5 p none' in \<open>auto simp: demo_key_def\<close>)
qed

section \<open>Who controls the Plane\<close>

text \<open>
  C9: A client is Paired only by a whole ceremony. After any history of Commands and connections,
  every Paired client's row goes back to an offer an owner opened, a claim of that offer by this
  very client, a confirmation of it by a different identity, and a completion by the client, each
  recorded in the audit in that order.
\<close>

theorem pairing_takes_a_ceremony:
  fixes sha ed25519 plane ops
  defines "R \<equiv> foldl (remote_step sha ed25519) (new_remote_plane plane) ops"
  assumes "find_paired_client client (pl_state (rm_plane R)) = Some p"
  shows "\<exists>offer owner confirmer t0 t1 t2. confirmer \<noteq> client \<and>
    subseq [entry owner D_Offered (AboutOffer offer) Succeeded t0,
            entry client D_Claimed (AboutOffer offer) Succeeded t1,
            entry confirmer D_Confirmed (AboutOffer offer) Succeeded t2,
            entry client D_Completed (AboutClient client) Succeeded (pd_at p)] (pg_audit (pl_state (rm_plane R)))"
proof -
  have "p \<in> set (ab_clients (ceremony_at R))" "pd_client p = client"
    using assms(2) by (auto simp: find_paired_client_def find_Some_iff ceremony_of_def)
  then show ?thesis
    using history_ceremony_inv [of sha ed25519 plane ops]
    unfolding R_def [symmetric] ceremony_inv_def paired_by_ceremony_def by (auto simp: ceremony_of_def)
qed

theorem pairing_takes_a_ceremony_witness:
  "\<exists>offer owner confirmer t0 t1 t2. confirmer \<noteq> 7 \<and>
    subseq [entry owner D_Offered (AboutOffer offer) Succeeded t0,
            entry 7 D_Claimed (AboutOffer offer) Succeeded t1,
            entry confirmer D_Confirmed (AboutOffer offer) Succeeded t2,
            entry 7 D_Completed (AboutClient 7) Succeeded 103] (pg_audit (pl_state (rm_plane (demo_run demo_ceremony))))"
proof (rule demo_history)
  fix p
  assume "find_paired_client 7 (pl_state (rm_plane (demo_run demo_ceremony))) = Some p" "pd_at p = 103"
  then show ?thesis using pairing_takes_a_ceremony [of 7 demo_sha demo_ed25519 9 demo_ceremony p] by auto
qed

text \<open>
  C5: A key gains control only through a proof of possession. When a step gives
  a client a key it did not have, then the step is
  a Command of that client itself, and the Plane's offer was claimed by the client with exactly this
  key, confirmed by another identity, is within its window and its attempts, and a signature
  verified under this key over the transcript of Plane, offer, client, key and challenge; and the gate is open,
  provided the clock was never set back.
\<close>

theorem new_key_was_proven:
  fixes sha ed25519 plane ops
  defines "R \<equiv> foldl (remote_step sha ed25519) (new_remote_plane plane) ops"
  assumes "client_key client (ceremony_at (remote_step sha ed25519 R op)) = Some k" and "client_key client (ceremony_at R) \<noteq> Some k"
  shows "\<exists>st a cid digest c now r claim b signature. op = RExecute st a cid digest c now \<and> actor_client a = client \<and>
    (sorted (times (ops @ [op])) \<longrightarrow> pg_gate (pl_state (rm_plane R)) = GateOpen) \<and> pg_offer (pl_state (rm_plane R)) = Some r \<and> now \<le> po_expires_at r \<and>
    po_failed r < MAX_PAIRING_ATTEMPTS \<and> po_claim r = Some claim \<and> pc_client claim = client \<and> key_of claim = k \<and>
    po_confirmed_by r = Some b \<and> b \<noteq> client \<and>
    verifies ed25519 k (pairing_transcript (pg_plane (pl_state (rm_plane R))) (po_id r) client k (pc_challenge claim)) signature"
proof (cases op)
  case (RExecute st a cid digest c now)
  obtain g where g: "pairing_step sha ed25519 (actor_client a) now (drawn_id c) (ceremony_at R) g
      (ceremony_at (remote_step sha ed25519 R op))"
    using execute_as_step [of sha ed25519 a now c R st cid digest] RExecute by auto
  obtain r claim b signature where p: "client = actor_client a" "ab_offer (ceremony_at R) = Some r" "live_offer r now"
      "po_claim r = Some claim" "pc_client claim = client" "key_of claim = k" "po_confirmed_by r = Some b"
      "verifies ed25519 k (pairing_transcript (ab_plane (ceremony_at R)) (po_id r) client k (pc_challenge claim)) signature"
    by (rule client_key_step [OF g assms(2)]) (use assms(3) in auto)
  have i: "ceremony_inv (ceremony_at R)" unfolding R_def by (rule history_ceremony_inv)
  then have ok: "offer_ok r" "offer_trail r (ab_audit (ceremony_at R))" using p(2) by (auto simp: ceremony_inv_def)
  have "b \<noteq> client" using ok(2) p by (auto simp: offer_trail_def)
  moreover have "po_failed r < MAX_PAIRING_ATTEMPTS" "now \<le> po_expires_at r"
    using ok(1) p(3) by (auto simp: offer_ok_def live_offer_iff)
  moreover have "pg_gate (pl_state (rm_plane R)) = GateOpen" if sorted: "sorted (times (ops @ [op]))"
  proof -
    have "gate_inv now (ceremony_at R)"
      unfolding R_def by (rule history_gate_inv) (use sorted RExecute in \<open>auto simp: sorted_append\<close>)
    then show ?thesis
      using p(2,3) by (cases "pg_gate (pl_state (rm_plane R))") (auto simp: gate_inv_def ceremony_of_def)
  qed
  ultimately show ?thesis using p RExecute by (auto simp: ceremony_of_def)
next
  case (RAuthenticate client' message signature now)
  then show ?thesis
    using assms(2,3) authenticate_ceremony [of ed25519 client' message signature now R] by (auto simp: client_key_def)
qed (use assms(2,3) in \<open>auto simp: drop_session_def\<close>)

theorem new_key_was_proven_witness:
  "\<exists>k. client_key 7 (ceremony_at (demo_run demo_ceremony)) = Some k \<and>
    pg_gate (pl_state (rm_plane (demo_run (butlast demo_ceremony)))) = GateOpen \<and>
    (\<exists>message signature. verifies demo_ed25519 k message signature)"
proof (rule demo_history)
  fix p :: paired_client
  let ?op = "demo_op 7 14 (CompletePairing 5 (ck_key demo_key @ demo_message)) [] 103"
  let ?k = "\<lparr>ck_algorithm = pd_algorithm p, ck_key = pd_key p\<rparr>"
  assume p: "find_paired_client 7 (pl_state (rm_plane (demo_run demo_ceremony))) = Some p"
    "pg_clients (pl_state (rm_plane (demo_run (butlast demo_ceremony)))) = []"
  have d: "demo_ceremony = butlast demo_ceremony @ [?op]" by (simp add: demo_ceremony_def demo_offered_def)
  have e: "demo_run demo_ceremony = remote_step demo_sha demo_ed25519 (demo_run (butlast demo_ceremony)) ?op"
    by (subst d) simp
  have "sorted (times (butlast demo_ceremony @ [?op]))" by (simp add: demo_ceremony_def demo_offered_def)
  moreover have "client_key 7 (ceremony_at (demo_run demo_ceremony)) = Some ?k"
    using p(1) by (simp add: client_key_def ceremony_of_def find_paired_client_def)
  moreover have "client_key 7 (ceremony_at (demo_run (butlast demo_ceremony))) \<noteq> Some ?k"
    using p(2) by (simp add: client_key_def ceremony_of_def)
  ultimately show ?thesis
    using new_key_was_proven [of 7 demo_sha demo_ed25519 9 "butlast demo_ceremony" ?op ?k] e by fastforce
qed

text \<open>
  C24: Guessing is bounded. Over any history in which new offers get new identities, the audit holds
  at most five refused proofs (wrong secrets, wrong authentication strings and bad signatures
  together) about any one offer.
\<close>

theorem pairing_attempts_bounded:
  assumes "distinct (concat (map opened_by_op ops))"
  shows "denials offer (pg_audit (pl_state (rm_plane (foldl (remote_step sha ed25519) (new_remote_plane plane) ops)))) \<le> 5"
  using history_attempts [OF assms, of sha ed25519 plane]
  by (simp add: attempts_inv_def ceremony_of_def MAX_PAIRING_ATTEMPTS_def)

theorem pairing_attempts_bounded_witness:
  "denials 5 (pg_audit (pl_state (rm_plane (demo_run demo_ceremony)))) \<le> 5"
  using pairing_attempts_bounded [of demo_ceremony 5 demo_sha demo_ed25519 9]
  by (simp add: demo_ceremony_def demo_offered_def drawn_id_def)

text \<open>
  C8: A connection's authority is current. If a connection authenticated after some history is still
  authorized after any further one, then it was proven with the key of an enabled Paired client, and
  that client is still Paired, still enabled, and still has that very key: disabling, revoking or
  pairing the client anew ended every connection it had.
\<close>

theorem remote_authority_is_current:
  fixes sha ed25519 plane ops
  defines "R \<equiv> foldl (remote_step sha ed25519) (new_remote_plane plane) ops"
  assumes "authenticate_remote ed25519 client message signature now R = (Inr (RemoteActor x), R')"
    and "session_authorize x (rm_sessions (foldl (remote_step sha ed25519) R' ops')) = Inr ()"
  shows "\<exists>p q. find_paired_client client (pl_state (rm_plane R)) = Some p \<and> pd_access p = AccessEnabled \<and>
    verifies ed25519 \<lparr>ck_algorithm = pd_algorithm p, ck_key = pd_key p\<rparr> message signature \<and>
    find_paired_client client (pl_state (rm_plane (foldl (remote_step sha ed25519) R' ops'))) = Some q \<and>
    pd_access q = AccessEnabled \<and> pd_key q = pd_key p \<and> pd_algorithm q = pd_algorithm p"
proof -
  let ?R = "foldl (remote_step sha ed25519) R' ops'"
  have inv: "remote_inv R" unfolding R_def by (rule remote.run_inv [OF new_remote_inv])
  then have i: "sessions_inv (rm_sessions R)" by (simp add: remote_inv_def)
  have a: "fst (authenticate_remote ed25519 client message signature now R) = Inr (RemoteActor x)" and
    R': "R' = snd (authenticate_remote ed25519 client message signature now R)" using assms(2) by simp_all
  have v: "connection_verified ed25519 client message signature (pl_state (rm_plane R))"
    and reg: "fst (register_session client (rm_sessions R)) = Inr x"
    using a unfolding authenticate_actor by auto
  have x: "rs_client x = client" "rs_token x = ss_next (rm_sessions R)"
    and n: "rs_token x < ss_next (rm_sessions R')"
    using reg v R' by (auto simp: register_session_def authenticate_sessions Let_def split: if_splits)
  have inv': "remote_inv R'"
    using remote_inv_step [OF inv, of sha ed25519 "RAuthenticate client message signature now"] R' by simp
  have "enabled_key client (ceremony_at ?R) = enabled_key client (ceremony_at R)"
    using session_kept_run [OF inv' n, of sha ed25519 ops'] assms(3) x(1) R' by (simp add: session_kept_def authenticate_enabled)
  then show ?thesis
    using v by (auto simp: connection_verified_def enabled_key_def ceremony_of_def find_paired_client_def split: option.splits if_splits)
qed

text \<open>The connection of the witness: the Paired client proves its key on the demo message.\<close>

lemma demo_connected:
  "\<exists>x R'. authenticate_remote demo_ed25519 7 demo_message (ck_key demo_key @ demo_message) 104 (demo_run demo_ceremony) =
     (Inr (RemoteActor x), R') \<and> rs_client x = 7 \<and> rs_token x = 0 \<and> ss_next (rm_sessions R') = 1 \<and>
     session_authorize x (rm_sessions R') = Inr () \<and>
     (\<forall>a i. (a, i) \<notin> {(1, 10), (1, 11), (7, 12), (1, 13), (7, 14)} \<longrightarrow> command_receipt a i (rm_plane R') = None) \<and>
     find_paired_client 7 (pl_state (rm_plane R')) = find_paired_client 7 (pl_state (rm_plane (demo_run demo_ceremony)))"
proof (rule demo_history)
  fix p
  assume p: "find_paired_client 7 (pl_state (rm_plane (demo_run demo_ceremony))) = Some p" "pd_access p = AccessEnabled"
    "pd_key p = replicate 32 2" "pd_algorithm p = Ed25519"
    "\<And>a i. (a, i) \<notin> {(1, 10), (1, 11), (7, 12), (1, 13), (7, 14)} \<Longrightarrow> command_receipt a i (rm_plane (demo_run demo_ceremony)) = None"
  have s: "rm_sessions (snd (execute_as demo_sha demo_ed25519 st (LocalActor c) cid d x now R)) = rm_sessions R"
    if "rm_sessions R = rm_sessions (new_remote_plane 9)" for st c cid d x now R
    using execute_as_step [of demo_sha demo_ed25519 "LocalActor c" now x R st cid d] that
    by (auto simp: new_remote_plane_def invalidate_sessions_def split: option.splits)
  have "rm_sessions (demo_run demo_ceremony) = rm_sessions (new_remote_plane 9)"
    by (simp add: demo_ceremony_def demo_offered_def s)
  moreover have "connection_verified demo_ed25519 7 demo_message (ck_key demo_key @ demo_message) (pl_state (rm_plane (demo_run demo_ceremony)))"
    using p by (simp add: connection_verified_def verifies_def demo_defs)
  ultimately show ?thesis
    using p(5)
    by (simp add: authenticate_remote_def register_session_def retain_live_def new_remote_plane_def
        MAX_REMOTE_CONNECTIONS_def session_authorize_def find_paired_client_def record_pairing_audit_def Let_def)
qed

theorem remote_authority_is_current_witness:
  "\<exists>x R' p q. authenticate_remote demo_ed25519 7 demo_message (ck_key demo_key @ demo_message) 104 (demo_run demo_ceremony) =
     (Inr (RemoteActor x), R') \<and> session_authorize x (rm_sessions (foldl (remote_step demo_sha demo_ed25519) R' [])) = Inr () \<and>
     find_paired_client 7 (pl_state (rm_plane (demo_run demo_ceremony))) = Some p \<and>
     find_paired_client 7 (pl_state (rm_plane R')) = Some q \<and> pd_key q = pd_key p"
  using demo_connected
    remote_authority_is_current [of demo_ed25519 7 demo_message "ck_key demo_key @ demo_message" 104 demo_sha 9 demo_ceremony _ _ "[]"]
  by fastforce

text \<open>
  C23: Revocation is final. Once a new Command that revokes or disables a client is answered with
  success, no connection of that client that existed then is ever authorized again, whatever
  happens afterwards: enabling the client again, or pairing it anew, admits new connections only.
\<close>

theorem revocation_is_final:
  fixes sha ed25519 plane ops
  defines "R \<equiv> foldl (remote_step sha ed25519) (new_remote_plane plane) ops"
  assumes "execute_as sha ed25519 st a cid digest (c, dw) now R = (Inr out, R')"
    and "c = RevokePairedClient client \<or> c = SetPairedClientAccess client AccessDisabled"
    and "command_receipt (actor_client a) cid (rm_plane R) = None"
    and "rs_client x = client" and "rs_token x < ss_next (rm_sessions R)"
  shows "session_authorize x (rm_sessions (foldl (remote_step sha ed25519) R' ops')) = Inl unauthorized"
proof -
  have inv: "remote_inv R" unfolding R_def by (rule remote.run_inv [OF new_remote_inv])
  then have i: "sessions_inv (rm_sessions R)" by (simp add: remote_inv_def)
  have ran: "pairing_execute sha ed25519 (actor_client a) (c, dw) now (pl_state (rm_plane R)) = (Inr out, pl_state (rm_plane R'))"
    and s: "rm_sessions R' = (case gone (Inr out) of None \<Rightarrow> rm_sessions R | Some y \<Rightarrow> invalidate_sessions y (rm_sessions R))"
    by (rule executed_new [OF assms(2,4)])+
  have "gone (Inr out) = Some client"
    using ran assms(3)
    by (auto simp: pairing_execute_def set_client_access_def revoke_client_def try_in_def answer_def gone_def invalidated_client_def
        paired_or_missing_Inr find_paired_client_def find_Some_iff split: sum.splits)
  then have R': "rm_sessions R' = invalidate_sessions client (rm_sessions R)" using s by simp
  have inv': "remote_inv R'"
    using remote_inv_step [OF inv, of sha ed25519 "RExecute st a cid digest (c, dw) now"] assms(2) by simp
  have "\<not> registered client (rs_token x) (rm_sessions R')" "rs_token x < ss_next (rm_sessions R')"
    using invalidate_sessions_effect [OF i, of client] R' assms(6) by auto
  then have "session_authorize x (rm_sessions (foldl (remote_step sha ed25519) R' ops')) \<noteq> Inr ()"
    using session_kept_run [OF inv', of x sha ed25519 ops'] assms(5) by (auto simp: session_kept_def session_authorize_iff)
  then show ?thesis by (auto simp: session_authorize_def split: option.splits if_splits)
qed

theorem revocation_is_final_witness:
  "\<exists>R' out R''. R' = demo_run (demo_ceremony @ [RAuthenticate 7 demo_message (ck_key demo_key @ demo_message) 104]) \<and>
     session_authorize \<lparr>rs_client = 7, rs_token = 0\<rparr> (rm_sessions R') = Inr () \<and>
     execute_as demo_sha demo_ed25519 Trusted (LocalActor 1) 15 [] (RevokePairedClient 7, \<lparr>dw_id = 0, dw_bytes = []\<rparr>) 105 R' = (Inr out, R'') \<and>
     session_authorize \<lparr>rs_client = 7, rs_token = 0\<rparr> (rm_sessions R'') = Inl unauthorized"
proof -
  let ?ops = "demo_ceremony @ [RAuthenticate 7 demo_message (ck_key demo_key @ demo_message) 104]"
  let ?c = "(RevokePairedClient 7, \<lparr>dw_id = 0, dw_bytes = []\<rparr>)"
  obtain x R' where a: "authenticate_remote demo_ed25519 7 demo_message (ck_key demo_key @ demo_message) 104 (demo_run demo_ceremony) =
      (Inr (RemoteActor x), R')" and x: "rs_client x = 7" "rs_token x = 0" "ss_next (rm_sessions R') = 1"
      "session_authorize x (rm_sessions R') = Inr ()"
    and fresh: "command_receipt 1 15 (rm_plane R') = None"
    and p: "find_paired_client 7 (pl_state (rm_plane R')) = find_paired_client 7 (pl_state (rm_plane (demo_run demo_ceremony)))"
    using demo_connected by auto
  have R': "demo_run ?ops = R'" using a by simp
  have xe: "x = \<lparr>rs_client = 7, rs_token = 0\<rparr>" using x by (cases x) simp
  obtain q where q: "find_paired_client 7 (pl_state (rm_plane R')) = Some q" using p by (metis demo_history)
  then obtain out s where "pairing_execute demo_sha demo_ed25519 1 ?c 105 (pl_state (rm_plane R')) = (Inr out, s)"
    by (simp add: pairing_execute_def revoke_client_def paired_or_missing_def answer_def)
  then have "fst (execute_as demo_sha demo_ed25519 Trusted (LocalActor 1) 15 [] ?c 105 R') = Inr out"
    using fresh
    by (simp add: execute_as_def execute_def command_admit_def command_transaction_def pairing_handler_def Let_def
        receipt_after_prune security_admit_def)
  then obtain R'' where e: "execute_as demo_sha demo_ed25519 Trusted (LocalActor 1) 15 [] ?c 105 R' = (Inr out, R'')"
    by (metis prod.collapse)
  have "session_authorize \<lparr>rs_client = 7, rs_token = 0\<rparr> (rm_sessions (foldl (remote_step demo_sha demo_ed25519) R'' [])) = Inl unauthorized"
    by (rule revocation_is_final [of demo_sha demo_ed25519 Trusted "LocalActor 1" 15 "[]" "RevokePairedClient 7"
          "\<lparr>dw_id = 0, dw_bytes = []\<rparr>" 105 9 ?ops out R'' 7])
      (use e R' fresh x in simp_all)
  then show ?thesis using e R' x(4) xe by auto
qed

end
