(* ===== verification/Jet_Container.thy ===== *)
theory Jet_Container
  imports Jet_Audit "HOL-Library.List_Lexorder"
begin

text \<open>
  The bounded container of \<open>jet-core/src/store_recovery/bundle/format.rs\<close>: named byte strings behind a
  hashed manifest. Recovery bundles and Plane transfer bundles are two kinds of it, told apart by
  their magic. A \<open>BTreeMap<String, Vec<u8>>\<close> is a list sorted by name; the byte order of UTF-8 names is
  the order of their scalar values. SHA-256, its hexadecimal spelling and the JSON of the manifest
  are parameters.
\<close>

section \<open>Data\<close>

type_synonym components = "(ustring \<times> bytes) list"

record container =
  ct_magic :: bytes
  ct_accepts :: "ustring \<Rightarrow> bool"

record manifest_component =
  mc_name :: ustring
  mc_size :: nat
  mc_sha256 :: ustring

record manifest =
  mf_version :: u32
  mf_event_payload_version :: u32
  mf_components :: "manifest_component list"

record format_lib =
  fl_digest :: "bytes \<Rightarrow> bytes"
  fl_hex :: "bytes \<Rightarrow> ustring"
  fl_print :: "manifest \<Rightarrow> bytes"
  fl_parse :: "bytes \<Rightarrow> manifest option"

definition MAX_BYTES :: nat where
  "MAX_BYTES = 256 * 1024 * 1024"

definition MAX_MANIFEST :: nat where
  "MAX_MANIFEST = 1024 * 1024"

definition ascii_bytes :: "string \<Rightarrow> bytes" where
  "ascii_bytes s = map (\<lambda>c. of_nat (of_char c)) s"

definition RECOVERY :: container where
  "RECOVERY =
     \<lparr>ct_magic = ascii_bytes ''JET-RECOVERY'' @ [0, 1],
      ct_accepts = (\<lambda>name. name = ucs ''state.sqlite3'' \<or> name = ucs ''crafts.json'')\<rparr>"

definition TRANSFER :: container where
  "TRANSFER = \<lparr>ct_magic = ascii_bytes ''JET-TRANSFER'' @ [0, 1], ct_accepts = (\<lambda>name. name = ucs ''transfer.json'')\<rparr>"

definition format_invalid :: core_error where
  "format_invalid = invalid_input ''recovery.invalid_bundle''"

definition content_hash :: "format_lib \<Rightarrow> bytes \<Rightarrow> ustring" where
  "content_hash L b = fl_hex L (fl_digest L b)"

definition is_lower_hex :: "nat \<Rightarrow> bool" where
  "is_lower_hex c \<longleftrightarrow> (48 \<le> c \<and> c \<le> 57) \<or> (97 \<le> c \<and> c \<le> 102)"

definition ARTIFACT_PREFIX :: ustring where
  "ARTIFACT_PREFIX = ucs ''artifacts/''"

definition strip_prefix :: "ustring \<Rightarrow> ustring \<Rightarrow> ustring option" where
  "strip_prefix p s = (if take (length p) s = p then Some (drop (length p) s) else None)"

definition artifact_name :: "ustring \<Rightarrow> ustring option" where
  "artifact_name name =
     (case strip_prefix ARTIFACT_PREFIX name of
        None \<Rightarrow> None
      | Some h \<Rightarrow> if utf8_len h = 64 \<and> list_all is_lower_hex h then Some h else None)"

section \<open>Sorted maps\<close>

fun insert_part :: "ustring \<Rightarrow> bytes \<Rightarrow> components \<Rightarrow> components" where
  "insert_part n b [] = [(n, b)]"
| "insert_part n b ((k, v) # ps) =
     (if n < k then (n, b) # (k, v) # ps
      else if n = k then (n, b) # ps
      else (k, v) # insert_part n b ps)"

abbreviation sorted_parts :: "components \<Rightarrow> bool" where
  "sorted_parts ps \<equiv> sorted_wrt (<) (map fst ps)"

section \<open>Encoding and decoding\<close>

definition part_component :: "format_lib \<Rightarrow> ustring \<times> bytes \<Rightarrow> manifest_component" where
  "part_component L p = \<lparr>mc_name = fst p, mc_size = length (snd p), mc_sha256 = content_hash L (snd p)\<rparr>"

definition container_manifest :: "format_lib \<Rightarrow> components \<Rightarrow> manifest" where
  "container_manifest L parts =
     \<lparr>mf_version = 1, mf_event_payload_version = 1, mf_components = map (part_component L) parts\<rparr>"

definition encode_in :: "format_lib \<Rightarrow> container \<Rightarrow> components \<Rightarrow> core_error + bytes" where
  "encode_in L c parts =
     (let manifest = fl_print L (container_manifest L parts);
          size = length (ct_magic c) + 4 + 32 + length manifest + sum_list (map (length \<circ> snd) parts)
      in if usize_max < size then Inl format_invalid
         else if MAX_MANIFEST < length manifest \<or> MAX_BYTES < size \<or> 4096 < length parts then Inl format_invalid
         else Inr (ct_magic c @ be_bytes 4 (length manifest) @ fl_digest L manifest @ manifest @
                   concat (map snd parts)))"

definition take_front :: "bytes \<Rightarrow> nat \<Rightarrow> core_error + bytes \<times> bytes" where
  "take_front bs n = (if length bs < n then Inl format_invalid else Inr (take n bs, drop n bs))"

definition component_refused ::
    "format_lib \<Rightarrow> manifest_component \<Rightarrow> bytes \<Rightarrow> components \<Rightarrow> bool" where
  "component_refused L m payload parts \<longleftrightarrow>
     content_hash L payload \<noteq> mc_sha256 m \<or>
     (case artifact_name (mc_name m) of None \<Rightarrow> False | Some h \<Rightarrow> h \<noteq> mc_sha256 m) \<or>
     map_of parts (mc_name m) \<noteq> None"

fun decode_components ::
    "format_lib \<Rightarrow> container \<Rightarrow> manifest_component list \<Rightarrow> bytes \<Rightarrow> components \<Rightarrow> core_error + components" where
  "decode_components L c [] remaining parts =
     (if remaining = [] then Inr parts else Inl format_invalid)"
| "decode_components L c (m # ms) remaining parts =
     (if \<not> ct_accepts c (mc_name m) \<and> artifact_name (mc_name m) = None then Inl format_invalid
      else rbind (take_front remaining (mc_size m)) (\<lambda>(payload, rest).
        if component_refused L m payload parts then Inl format_invalid
        else decode_components L c ms rest (insert_part (mc_name m) payload parts)))"

definition decode_in :: "format_lib \<Rightarrow> container \<Rightarrow> bytes \<Rightarrow> core_error + components" where
  "decode_in L c bs =
     (if MAX_BYTES < length bs \<or> take (length (ct_magic c)) bs \<noteq> ct_magic c then Inl format_invalid
      else
        rbind (take_front (drop (length (ct_magic c)) bs) 4) (\<lambda>(len, r1).
        if MAX_MANIFEST < be_nat len then Inl format_invalid
        else
          rbind (take_front r1 32) (\<lambda>(expected, r2).
          rbind (take_front r2 (be_nat len)) (\<lambda>(document, r3).
            if fl_digest L document \<noteq> expected then Inl format_invalid
            else
              rbind (ok_or (fl_parse L document) format_invalid) (\<lambda>m.
                if mf_version m \<noteq> 1 \<or> mf_event_payload_version m \<noteq> 1 \<or> 4096 < length (mf_components m)
                then Inl format_invalid
                else decode_components L c (mf_components m) r3 [])))))"

section \<open>What an accepted container holds\<close>

text \<open>A part a container of kind \<open>c\<close> carries: an accepted name, or an Artifact under its own hash.\<close>

definition part_ok :: "format_lib \<Rightarrow> container \<Rightarrow> ustring \<times> bytes \<Rightarrow> bool" where
  "part_ok L c p \<longleftrightarrow>
     (case artifact_name (fst p) of
        None \<Rightarrow> ct_accepts c (fst p)
      | Some h \<Rightarrow> h = content_hash L (snd p))"

definition format_laws :: "format_lib \<Rightarrow> bool" where
  "format_laws L \<longleftrightarrow> (\<forall>b. length (fl_digest L b) = 32) \<and> (\<forall>m. fl_parse L (fl_print L m) = Some m)"

lemma take_front_append: "take_front (a @ b) (length a) = Inr (a, b)"
  by (simp add: take_front_def)

lemma take_front_Inr: "take_front bs n = Inr (a, b) \<longleftrightarrow> bs = a @ b \<and> length a = n"
  by (auto simp: take_front_def)

lemma insert_part_last: "list_all (\<lambda>k. k < n) (map fst ps) \<Longrightarrow> insert_part n b ps = ps @ [(n, b)]"
  by (induction ps) auto

lemma insert_part_set:
  "map_of ps n = None \<Longrightarrow> set (insert_part n b ps) = insert (n, b) (set ps)"
proof (induction ps)
  case (Cons p ps)
  then show ?case by (cases p) (auto split: if_splits)
qed simp

lemma insert_part_sorted:
  assumes "sorted_parts ps"
  shows "sorted_parts (insert_part n b ps) \<and> fst ` set (insert_part n b ps) = insert n (fst ` set ps)"
  using assms
proof (induction ps)
  case (Cons p ps)
  then show ?case by (cases p) (auto simp: not_less_iff_gr_or_eq)
qed simp

lemma insert_part_bytes:
  "map_of ps n = None \<Longrightarrow>
   sum_list (map (length \<circ> snd) (insert_part n b ps)) = length b + sum_list (map (length \<circ> snd) ps)"
proof (induction ps)
  case (Cons p ps)
  then show ?case by (cases p) (auto split: if_splits)
qed simp

lemma decode_components_encoded:
  assumes "sorted_parts (acc @ ps)" and "list_all (part_ok L c) ps"
  shows "decode_components L c (map (part_component L) ps) (concat (map snd ps)) acc = Inr (acc @ ps)"
  using assms
proof (induction ps arbitrary: acc)
  case (Cons p ps)
  obtain n b where p: "p = (n, b)" by (cases p)
  have lt: "list_all (\<lambda>k. k < n) (map fst acc)" and s: "sorted_parts ((acc @ [(n, b)]) @ ps)"
    using Cons.prems by (auto simp: p sorted_wrt_append list_all_iff)
  have fresh: "map_of acc n = None" using lt by (force simp: map_of_eq_None_iff list_all_iff)
  have "\<not> component_refused L (part_component L p) b acc"
    using fresh Cons.prems by (auto simp: component_refused_def part_component_def part_ok_def p split: option.splits)
  moreover have "ct_accepts c n \<or> artifact_name n \<noteq> None"
    using Cons.prems by (auto simp: part_ok_def p split: option.splits)
  moreover have "decode_components L c (map (part_component L) ps) (concat (map snd ps)) (acc @ [(n, b)])
      = Inr ((acc @ [(n, b)]) @ ps)"
    using Cons s by simp
  moreover have "mc_name (part_component L p) = n" "mc_size (part_component L p) = length b"
    by (simp_all add: part_component_def p)
  ultimately show ?case using take_front_append [of b] by (simp add: p insert_part_last [OF lt])
qed simp

lemma decode_components_same:
  assumes "decode_components L c (map (part_component L) ps) (concat (map snd ps)) acc = Inr out" and "sorted_parts (acc @ ps)"
  shows "out = acc @ ps"
  using assms
proof (induction ps arbitrary: acc)
  case (Cons p ps)
  obtain n b where p: "p = (n, b)" by (cases p)
  have lt: "list_all (\<lambda>k. k < n) (map fst acc)"
    using Cons.prems(2) by (auto simp: p sorted_wrt_append list_all_iff)
  have t: "take_front (b @ concat (map snd ps)) (length b) = Inr (b, concat (map snd ps))" by (rule take_front_append)
  have "mc_name (part_component L p) = n" "mc_size (part_component L p) = length b" by (simp_all add: part_component_def p)
  with Cons.prems(1) have "decode_components L c (map (part_component L) ps) (concat (map snd ps)) (acc @ [(n, b)]) = Inr out"
    by (auto simp: p t insert_part_last [OF lt] split: if_splits)
  from Cons.IH [OF this] Cons.prems(2) show ?case by (simp add: p)
qed simp

lemma decode_components_Inr:
  assumes "decode_components L c ms remaining acc = Inr parts" and "sorted_parts acc"
    and "list_all (part_ok L c) acc"
  shows "sorted_parts parts \<and> list_all (part_ok L c) parts \<and>
    sum_list (map (length \<circ> snd) parts) = sum_list (map (length \<circ> snd) acc) + length remaining \<and>
    length parts \<le> length acc + length ms"
  using assms
proof (induction ms arbitrary: remaining acc)
  case (Cons m ms)
  from Cons.prems(1) obtain payload rest where t: "take_front remaining (mc_size m) = Inr (payload, rest)"
    and ok: "ct_accepts c (mc_name m) \<or> artifact_name (mc_name m) \<noteq> None"
    and r: "\<not> component_refused L m payload acc"
    and d: "decode_components L c ms rest (insert_part (mc_name m) payload acc) = Inr parts"
    by (auto simp: rbind_Inr_iff split: if_splits)
  have fresh: "map_of acc (mc_name m) = None" using r by (simp add: component_refused_def)
  have part: "part_ok L c (mc_name m, payload)"
    using ok r by (auto simp: part_ok_def component_refused_def split: option.splits)
  have all: "list_all (part_ok L c) (insert_part (mc_name m) payload acc)"
    using part Cons.prems(3) by (auto simp: list_all_iff insert_part_set [OF fresh])
  have len: "length (insert_part (mc_name m) payload acc) \<le> Suc (length acc)"
    by (induction acc rule: insert_part.induct) auto
  from Cons.IH [OF d conjunct1 [OF insert_part_sorted [OF Cons.prems(2)]] all] t len show ?case
    using insert_part_bytes [OF fresh, of payload] by (auto simp: take_front_Inr comp_def)
qed (auto split: if_splits)

lemma decode_in_Inr:
  assumes "decode_in L c bs = Inr parts"
  shows "sorted_parts parts \<and> list_all (part_ok L c) parts \<and> length parts \<le> 4096 \<and>
    sum_list (map (length \<circ> snd) parts) \<le> MAX_BYTES"
proof -
  from assms obtain m :: manifest and k where d: "decode_components L c (mf_components m) (drop k bs) [] = Inr parts"
    and n: "\<not> 4096 < length (mf_components m)" and b: "\<not> MAX_BYTES < length bs"
    by (auto simp: decode_in_def rbind_Inr_iff take_front_def split: if_splits)
  from decode_components_Inr [OF d] n b show ?thesis by auto
qed

lemma encode_in_Inr:
  assumes "encode_in L c parts = Inr bs"
  shows "bs = ct_magic c @ be_bytes 4 (length (fl_print L (container_manifest L parts))) @
      fl_digest L (fl_print L (container_manifest L parts)) @ fl_print L (container_manifest L parts) @
      concat (map snd parts)"
    and "length (fl_print L (container_manifest L parts)) \<le> MAX_MANIFEST" and "length parts \<le> 4096"
    and "length (ct_magic c) + 4 + 32 + length (fl_print L (container_manifest L parts)) +
      sum_list (map (length \<circ> snd) parts) \<le> MAX_BYTES"
  using assms by (auto simp: encode_in_def Let_def split: if_splits)

lemma container_decodes:
  assumes "format_laws L" and "encode_in L c parts = Inr bs"
  shows "decode_in L c bs = decode_components L c (map (part_component L) parts) (concat (map snd parts)) []"
proof -
  define doc where "doc = fl_print L (container_manifest L parts)"
  have dig: "length (fl_digest L doc) = 32" and parse: "fl_parse L doc = Some (container_manifest L parts)"
    using assms(1) by (simp_all add: format_laws_def doc_def)
  note e = encode_in_Inr [OF assms(2), folded doc_def]
  have len: "length bs \<le> MAX_BYTES" using e(1,4) dig by (simp add: length_concat)
  have nat: "be_nat (be_bytes 4 (length doc)) = length doc" using e(2) by (simp add: MAX_MANIFEST_def)
  have t1: "take_front (drop (length (ct_magic c)) bs) 4 =
      Inr (be_bytes 4 (length doc), fl_digest L doc @ doc @ concat (map snd parts))"
    by (simp add: e(1) take_front_Inr)
  have t2: "take_front (fl_digest L doc @ doc @ concat (map snd parts)) 32 =
      Inr (fl_digest L doc, doc @ concat (map snd parts))"
    using dig by (simp add: take_front_Inr)
  have t3: "take_front (doc @ concat (map snd parts)) (length doc) = Inr (doc, concat (map snd parts))"
    by (rule take_front_append)
  have "take (length (ct_magic c)) bs = ct_magic c" by (simp add: e(1))
  then show ?thesis
    using len e(2,3) by (simp add: decode_in_def t1 t2 t3 nat parse container_manifest_def)
qed

lemma container_roundtrip:
  assumes "format_laws L" and "encode_in L c parts = Inr bs" and "sorted_parts parts"
    and "list_all (part_ok L c) parts"
  shows "decode_in L c bs = Inr parts"
  using container_decodes [OF assms(1,2)] decode_components_encoded [of "[]" parts L c] assms(3,4) by simp

lemma container_decodes_same:
  "format_laws L \<Longrightarrow> encode_in L c parts = Inr bs \<Longrightarrow> sorted_parts parts \<Longrightarrow> decode_in L c bs = Inr out \<Longrightarrow> out = parts"
  using container_decodes [of L c parts bs] decode_components_same [of L c parts "[]" out] by simp

end
