(* ===== verification/Jet_Bundle.thy ===== *)
theory Jet_Bundle
  imports Jet_Container Jet_Run "HOL-Library.Product_Lexorder"
begin

text \<open>
  The rows a Plane transfer touches and the bundle that carries a Conversation between two Planes:
  \<open>jet-core/src/plane_transfer/bundle.rs\<close> on \<open>jet-store/src/{conversation,run,journal,artifact,setting,
  schedule,turn_queue}\<close> and \<open>jet-store/src/authority\<close>.

  A table is the list of its rows in insertion order; a primary key or a unique column that is already
  taken refuses the insertion. The Authority fences and the Deletion ledger live outside SQLite and are
  part of the state. JSON is a parameter (\<open>bundle_lib\<close>).
\<close>

section \<open>Rows\<close>

datatype retention_policy = Retain | ForgetAfterFinalRun

datatype working_tree = NoProject | WorkspaceOf uuid | LocalCheckout uuid

record authority_record =
  au_state :: authority_state
  au_epoch :: u64

definition HOME_AUTHORITY :: authority_record where
  "HOME_AUTHORITY = \<lparr>au_state = Home, au_epoch = 1\<rparr>"

record conversation_record =
  cr_id :: uuid
  cr_revision :: nat
  cr_retention :: retention_policy
  cr_tree :: working_tree
  cr_name :: name
  cr_authority :: authority_record
  cr_created :: int

record run_record =
  rn_id :: uuid
  rn_conversation :: uuid
  rn_revision :: nat
  rn_lifecycle :: run_lifecycle
  rn_name :: name
  rn_created :: int
  rn_ended :: "int option"

datatype plane_transfer_role = SourceRole | TargetRole

datatype plane_transfer_phase = PhasePrepared | PhaseRelinquished | PhaseCommitted

record plane_transfer =
  pt_id :: uuid
  pt_conversation :: uuid
  pt_role :: plane_transfer_role
  pt_phase :: plane_transfer_phase
  pt_retired_epoch :: u64
  pt_peer :: uuid
  pt_bundle :: ustring
  pt_prepared_at :: int
  pt_settled_at :: "int option"

record authority_fence =
  af_conversation :: uuid
  af_retired_epoch :: u64
  af_transfer :: uuid
  af_source :: uuid
  af_target :: uuid
  af_fenced_at :: int

datatype trash_reason =
  ManualForget | AutomaticForget | DeleteEverywhere | AutodeleteRule | AutodeleteEverywhere | PlaneTransferred

datatype transfer_event =
    TransferPrepared uuid uuid u64
  | TransferImported uuid uuid u64
  | TransferRelinquished authority_fence int
  | TransferCommitted uuid uuid u64
  | TransferAborted uuid
  | ConversationTrashed trash_reason int
  | ConversationRestored

datatype event_body = Transcript ustring u32 ustring | CoreEvent transfer_event

record event_record =
  er_id :: uuid
  er_client :: uuid
  er_at :: int
  er_conversation :: "uuid option"
  er_run :: "uuid option"
  er_body :: event_body

datatype setting_scope = ScopePlane | ScopeProject uuid | ScopeConversation uuid

record setting_record =
  sr_key :: ustring
  sr_scope :: setting_scope
  sr_value :: ustring
  sr_updated :: int

record artifact_reference =
  ae_run :: uuid
  ae_sha256 :: ustring
  ae_size :: nat

record queue_row =
  qr_conversation :: uuid
  qr_state :: ustring
  qr_pending :: nat

record schedule_row =
  sw_id :: uuid
  sw_conversation :: uuid
  sw_due :: int
  sw_state :: ustring

record trash_record =
  tr_conversation :: uuid
  tr_reason :: trash_reason
  tr_trashed_at :: int
  tr_expires_at :: int

record fence_record =
  fr_fenced_at :: int
  fr_conversation :: uuid
  fr_retired_epoch :: u64
  fr_transfer :: uuid
  fr_target :: uuid

datatype home_decision =
    D_Prepared | D_Imported | D_Relinquished | D_Committed | D_Aborted
  | D_Forgotten | D_DeletionAuthorized | D_Restored | D_Deleted

record home_store =
  hs_plane :: uuid
  hs_conversations :: "conversation_record list"
  hs_runs :: "run_record list"
  hs_events :: "event_record list"
  hs_queues :: "queue_row list"
  hs_schedules :: "schedule_row list"
  hs_settings :: "setting_record list"
  hs_artifacts :: "artifact_reference list"
  hs_transfers :: "plane_transfer list"
  hs_trash :: "trash_record list"
  hs_effects :: "uuid list"
  hs_audit :: "(home_decision \<times> uuid option \<times> int) list"
  hs_fences :: "fence_record list"
  hs_fences_applied :: nat
  hs_deletions :: "uuid list"
  hs_deletions_applied :: nat

section \<open>Reading and writing rows\<close>

definition store_refused :: core_error where
  "store_refused = internal ''store.integrity''"

definition conversation_of :: "uuid \<Rightarrow> home_store \<Rightarrow> conversation_record option" where
  "conversation_of cid s = find (\<lambda>c. cr_id c = cid) (hs_conversations s)"

definition runs_of :: "uuid \<Rightarrow> home_store \<Rightarrow> run_record list" where
  "runs_of cid s = filter (\<lambda>r. rn_conversation r = cid) (hs_runs s)"

definition TRANSCRIPT_KINDS :: "ustring list" where
  "TRANSCRIPT_KINDS = [ucs ''turn.input'', ucs ''run.output'', ucs ''artifact.published'']"

definition TRANSCRIPT_EVENT_LIMIT :: nat where
  "TRANSCRIPT_EVENT_LIMIT = 65536"

fun is_transcript :: "event_body \<Rightarrow> bool" where
  "is_transcript (Transcript k v p) = (k \<in> set TRANSCRIPT_KINDS)"
| "is_transcript (CoreEvent e) = False"

definition transcript_events :: "uuid \<Rightarrow> home_store \<Rightarrow> core_error + event_record list" where
  "transcript_events cid s =
     (let rows = filter (\<lambda>e. er_conversation e = Some cid \<and> is_transcript (er_body e)) (hs_events s)
      in if TRANSCRIPT_EVENT_LIMIT < length rows then Inl store_refused else Inr rows)"

definition run_artifacts :: "uuid \<Rightarrow> home_store \<Rightarrow> artifact_reference list" where
  "run_artifacts rid s = sort_key ae_sha256 (filter (\<lambda>a. ae_run a = rid) (hs_artifacts s))"

fun scope_rank :: "setting_scope \<Rightarrow> nat" where
  "scope_rank (ScopeConversation c) = 0"
| "scope_rank ScopePlane = 1"
| "scope_rank (ScopeProject p) = 2"

definition project_of :: "uuid \<Rightarrow> home_store \<Rightarrow> uuid option" where
  "project_of cid s =
     (case conversation_of cid s of
        None \<Rightarrow> None
      | Some c \<Rightarrow> (case cr_tree c of NoProject \<Rightarrow> None | WorkspaceOf p \<Rightarrow> Some p | LocalCheckout p \<Rightarrow> Some p))"

text \<open>Every row that can apply to the Conversation: its own, the Plane's and its Project's.\<close>

definition settings_for_conversation :: "uuid \<Rightarrow> home_store \<Rightarrow> setting_record list" where
  "settings_for_conversation cid s =
     sort_key sr_key (sort_key (scope_rank \<circ> sr_scope)
       (filter (\<lambda>r. case sr_scope r of
                      ScopePlane \<Rightarrow> True
                    | ScopeConversation c \<Rightarrow> c = cid
                    | ScopeProject p \<Rightarrow> project_of cid s = Some p) (hs_settings s)))"

definition turn_queue_of :: "uuid \<Rightarrow> home_store \<Rightarrow> ustring option" where
  "turn_queue_of cid s = map_option qr_state (find (\<lambda>q. qr_conversation q = cid) (hs_queues s))"

definition scheduled_tasks_of :: "uuid \<Rightarrow> home_store \<Rightarrow> ustring list" where
  "scheduled_tasks_of cid s =
     map sw_state (sort_key sw_id (filter (\<lambda>w. sw_conversation w = cid) (hs_schedules s)))"

definition uuid_prefix :: "uuid \<Rightarrow> ustring" where
  "uuid_prefix u = map unat (hex_serialize (be_bytes 4 (u div 2 ^ 96)))"

definition fallback_name :: "string \<Rightarrow> uuid \<Rightarrow> name" where
  "fallback_name what u = \<lparr>nm_value = ucs what @ uuid_prefix u, nm_source = Deterministic\<rparr>"

record new_conversation =
  nc_id :: uuid
  nc_retention :: retention_policy
  nc_tree :: working_tree
  nc_created :: int

definition insert_conversation :: "new_conversation \<Rightarrow> home_store \<Rightarrow> core_error + home_store" where
  "insert_conversation n s =
     rbind (require (conversation_of (nc_id n) s = None) store_refused) (\<lambda>_.
       Inr (s\<lparr>hs_conversations := hs_conversations s @
         [\<lparr>cr_id = nc_id n, cr_revision = 1, cr_retention = nc_retention n, cr_tree = nc_tree n,
           cr_name = fallback_name ''Conversation '' (nc_id n), cr_authority = HOME_AUTHORITY,
           cr_created = nc_created n\<rparr>]\<rparr>))"

definition update_conversation ::
    "uuid \<Rightarrow> (conversation_record \<Rightarrow> conversation_record) \<Rightarrow> home_store \<Rightarrow> home_store" where
  "update_conversation cid f s =
     s\<lparr>hs_conversations := map (\<lambda>c. if cr_id c = cid then f c else c) (hs_conversations s)\<rparr>"

definition update_conversation_name_row :: "uuid \<Rightarrow> name \<Rightarrow> home_store \<Rightarrow> home_store" where
  "update_conversation_name_row cid nm =
     update_conversation cid (\<lambda>c. c\<lparr>cr_name := nm, cr_revision := cr_revision c + 1\<rparr>)"

definition set_conversation_authority :: "uuid \<Rightarrow> authority_record \<Rightarrow> home_store \<Rightarrow> home_store" where
  "set_conversation_authority cid a =
     update_conversation cid (\<lambda>c. c\<lparr>cr_authority := a, cr_revision := cr_revision c + 1\<rparr>)"

definition insert_run :: "uuid \<Rightarrow> uuid \<Rightarrow> int \<Rightarrow> home_store \<Rightarrow> core_error + home_store" where
  "insert_run rid cid created s =
     rbind (require (find (\<lambda>r. rn_id r = rid) (hs_runs s) = None \<and> conversation_of cid s \<noteq> None) store_refused) (\<lambda>_.
       Inr (s\<lparr>hs_runs := hs_runs s @
         [\<lparr>rn_id = rid, rn_conversation = cid, rn_revision = 1, rn_lifecycle = L_Created,
           rn_name = fallback_name ''Run '' rid, rn_created = created, rn_ended = None\<rparr>]\<rparr>))"

definition update_run :: "uuid \<Rightarrow> (run_record \<Rightarrow> run_record) \<Rightarrow> home_store \<Rightarrow> home_store" where
  "update_run rid f s = s\<lparr>hs_runs := map (\<lambda>r. if rn_id r = rid then f r else r) (hs_runs s)\<rparr>"

definition ended_lifecycle :: "run_lifecycle \<Rightarrow> int \<Rightarrow> run_record \<Rightarrow> run_record" where
  "ended_lifecycle l now r =
     r\<lparr>rn_lifecycle := l,
       rn_ended := (if is_terminal l then Some now else rn_ended r),
       rn_revision := (if rn_lifecycle r = l then rn_revision r else rn_revision r + 1)\<rparr>"

definition update_run_lifecycle_row ::
    "uuid \<Rightarrow> run_lifecycle \<Rightarrow> int \<Rightarrow> home_store \<Rightarrow> core_error + home_store" where
  "update_run_lifecycle_row rid l now s =
     rbind (require (find (\<lambda>r. rn_id r = rid) (hs_runs s) \<noteq> None) store_refused) (\<lambda>_.
       Inr (update_run rid (ended_lifecycle l now) s))"

definition update_run_name_row :: "uuid \<Rightarrow> name \<Rightarrow> home_store \<Rightarrow> home_store" where
  "update_run_name_row rid nm = update_run rid (\<lambda>r. r\<lparr>rn_name := nm, rn_revision := rn_revision r + 1\<rparr>)"

definition append_event_record :: "event_record \<Rightarrow> home_store \<Rightarrow> core_error + home_store" where
  "append_event_record e s =
     rbind (require (find (\<lambda>x. er_id x = er_id e) (hs_events s) = None) store_refused) (\<lambda>_.
       Inr (s\<lparr>hs_events := hs_events s @ [e]\<rparr>))"

definition reference_artifact :: "artifact_reference \<Rightarrow> home_store \<Rightarrow> home_store" where
  "reference_artifact a s =
     (if list_ex (\<lambda>x. ae_run x = ae_run a \<and> ae_sha256 x = ae_sha256 a) (hs_artifacts s) then s
      else s\<lparr>hs_artifacts := hs_artifacts s @ [a]\<rparr>)"

definition save_turn_queue :: "queue_row \<Rightarrow> home_store \<Rightarrow> home_store" where
  "save_turn_queue q s =
     (if list_ex (\<lambda>x. qr_conversation x = qr_conversation q) (hs_queues s)
      then s\<lparr>hs_queues := map (\<lambda>x. if qr_conversation x = qr_conversation q then q else x) (hs_queues s)\<rparr>
      else s\<lparr>hs_queues := hs_queues s @ [q]\<rparr>)"

definition save_schedule_row :: "schedule_row \<Rightarrow> home_store \<Rightarrow> home_store" where
  "save_schedule_row w s =
     (if list_ex (\<lambda>x. sw_id x = sw_id w) (hs_schedules s)
      then s\<lparr>hs_schedules :=
             map (\<lambda>x. if sw_id x = sw_id w then x\<lparr>sw_due := sw_due w, sw_state := sw_state w\<rparr> else x)
               (hs_schedules s)\<rparr>
      else s\<lparr>hs_schedules := hs_schedules s @ [w]\<rparr>)"

definition upsert_setting :: "setting_record \<Rightarrow> home_store \<Rightarrow> home_store" where
  "upsert_setting r s =
     (if list_ex (\<lambda>x. sr_key x = sr_key r \<and> sr_scope x = sr_scope r) (hs_settings s)
      then s\<lparr>hs_settings :=
             map (\<lambda>x. if sr_key x = sr_key r \<and> sr_scope x = sr_scope r
                      then x\<lparr>sr_value := sr_value r, sr_updated := sr_updated r\<rparr> else x) (hs_settings s)\<rparr>
      else s\<lparr>hs_settings := hs_settings s @ [r]\<rparr>)"

section \<open>The bundle\<close>

record bundled_conversation =
  bc_id :: uuid
  bc_retention :: retention_policy
  bc_name :: name
  bc_created :: int
  bc_retired_epoch :: u64
  bc_in_project :: bool

record bundled_run =
  br_id :: uuid
  br_lifecycle :: run_lifecycle
  br_name :: name
  br_created :: int
  br_ended :: "int option"

record bundled_event =
  be_id :: uuid
  be_client :: uuid
  be_at :: int
  be_run :: "uuid option"
  be_kind :: ustring
  be_version :: u32
  be_payload :: ustring

record bundled_setting =
  bs_key :: ustring
  bs_value :: ustring
  bs_updated :: int

record transfer_bundle =
  tb_format :: u32
  tb_transfer :: uuid
  tb_source :: uuid
  tb_target :: uuid
  tb_prepared_at :: int
  tb_conversation :: bundled_conversation
  tb_runs :: "bundled_run list"
  tb_events :: "bundled_event list"
  tb_turn_queue :: "ustring option"
  tb_schedules :: "ustring list"
  tb_settings :: "bundled_setting list"
  tb_artifacts :: "artifact_reference list"

record 'r bundle_lib = format_lib +
  bl_print :: "transfer_bundle \<Rightarrow> bytes"
  bl_parse :: "bytes \<Rightarrow> transfer_bundle option"
  bl_is_json :: "ustring \<Rightarrow> bool"
  bl_parse_queue :: "ustring \<Rightarrow> 'r turn_queue option"
  bl_parse_stored :: "ustring \<Rightarrow> 'r stored_queue option"
  bl_print_stored :: "'r stored_queue \<Rightarrow> ustring"
  bl_parse_task :: "ustring \<Rightarrow> scheduled_task option"
  bl_print_task :: "scheduled_task \<Rightarrow> ustring"

definition BUNDLE_FORMAT :: u32 where
  "BUNDLE_FORMAT = 1"

definition RUN_LIMIT :: nat where
  "RUN_LIMIT = 4096"

definition SCHEDULE_LIMIT :: nat where
  "SCHEDULE_LIMIT = 32"

definition SETTING_LIMIT :: nat where
  "SETTING_LIMIT = 256"

definition ARTIFACT_LIMIT :: nat where
  "ARTIFACT_LIMIT = 4096"

definition PAYLOAD_LIMIT :: nat where
  "PAYLOAD_LIMIT = 65536"

definition STATE_LIMIT :: nat where
  "STATE_LIMIT = 1024 * 1024"

definition invalid_bundle :: core_error where
  "invalid_bundle = invalid_input ''transfer.invalid_bundle''"

definition bundled_run_of :: "run_record \<Rightarrow> bundled_run" where
  "bundled_run_of r =
     \<lparr>br_id = rn_id r, br_lifecycle = rn_lifecycle r, br_name = rn_name r, br_created = rn_created r,
      br_ended = rn_ended r\<rparr>"

fun body_parts :: "event_body \<Rightarrow> ustring \<times> u32 \<times> ustring" where
  "body_parts (Transcript k v p) = (k, v, p)"
| "body_parts (CoreEvent e) = ([], 0, [])"

definition bundled_event_of :: "event_record \<Rightarrow> bundled_event" where
  "bundled_event_of e =
     (case body_parts (er_body e) of (k, v, p) \<Rightarrow>
        \<lparr>be_id = er_id e, be_client = er_client e, be_at = er_at e, be_run = er_run e, be_kind = k,
         be_version = v, be_payload = p\<rparr>)"

definition bundled_setting_of :: "setting_record \<Rightarrow> bundled_setting" where
  "bundled_setting_of r = \<lparr>bs_key = sr_key r, bs_value = sr_value r, bs_updated = sr_updated r\<rparr>"

definition capture :: "plane_transfer \<Rightarrow> uuid \<Rightarrow> home_store \<Rightarrow> core_error + transfer_bundle" where
  "capture t source s =
     (let cid = pt_conversation t in
      rbind (ok_or (conversation_of cid s) conversation_not_found) (\<lambda>c.
      rbind (transcript_events cid s) (\<lambda>events.
        Inr \<lparr>tb_format = BUNDLE_FORMAT, tb_transfer = pt_id t, tb_source = source, tb_target = pt_peer t,
             tb_prepared_at = pt_prepared_at t,
             tb_conversation =
               \<lparr>bc_id = cid, bc_retention = cr_retention c, bc_name = cr_name c, bc_created = cr_created c,
                bc_retired_epoch = pt_retired_epoch t, bc_in_project = (cr_tree c \<noteq> NoProject)\<rparr>,
             tb_runs = map bundled_run_of (runs_of cid s),
             tb_events = map bundled_event_of events,
             tb_turn_queue = turn_queue_of cid s,
             tb_schedules = scheduled_tasks_of cid s,
             tb_settings = map bundled_setting_of (settings_for_conversation cid s),
             tb_artifacts = concat (map (\<lambda>r. run_artifacts (rn_id r) s) (runs_of cid s))\<rparr>)))"

text \<open>The published payloads are files by hash; \<open>None\<close> is a file that is not there.\<close>

definition artifact_missing :: core_error where
  "artifact_missing = not_found ''artifact.not_found''"

definition artifact_corrupt :: core_error where
  "artifact_corrupt = unavailable_error ''artifact.corrupt''"

definition verify_payload :: "('r, 'z) bundle_lib_scheme \<Rightarrow> artifact_reference \<Rightarrow> bytes \<Rightarrow> core_error + unit" where
  "verify_payload L a content =
     require (length content = ae_size a \<and> fl_hex L (fl_digest L content) = ae_sha256 a) artifact_corrupt"

definition read_bounded :: "bytes \<Rightarrow> nat \<Rightarrow> core_error + bytes \<times> nat" where
  "read_bounded content remaining =
     (if remaining < length content then Inl format_invalid else Inr (content, remaining - length content))"

fun encode_artifacts ::
    "('r, 'z) bundle_lib_scheme \<Rightarrow> (ustring \<Rightarrow> bytes option) \<Rightarrow> artifact_reference list \<Rightarrow> nat \<Rightarrow> components \<Rightarrow>
     core_error + components" where
  "encode_artifacts L files [] remaining parts = Inr parts"
| "encode_artifacts L files (a # as) remaining parts =
     (let name = ARTIFACT_PREFIX @ ae_sha256 a in
      if map_of parts name \<noteq> None then encode_artifacts L files as remaining parts
      else
        rbind (ok_or (files (ae_sha256 a)) artifact_missing) (\<lambda>content.
        rbind (verify_payload L a content) (\<lambda>_.
        rbind (read_bounded content remaining) (\<lambda>(content, remaining').
          encode_artifacts L files as remaining' (insert_part name content parts)))))"

definition TRANSFER_JSON :: ustring where
  "TRANSFER_JSON = ucs ''transfer.json''"

definition encode_bundle ::
    "'r bundle_lib \<Rightarrow> (ustring \<Rightarrow> bytes option) \<Rightarrow> transfer_bundle \<Rightarrow> core_error + bytes" where
  "encode_bundle L files b =
     rbind (encode_artifacts L files (tb_artifacts b) MAX_BYTES [(TRANSFER_JSON, bl_print L b)]) (\<lambda>parts.
       case encode_in (format_lib.truncate L) TRANSFER parts of
         Inl _ \<Rightarrow> Inl invalid_bundle
       | Inr bs \<Rightarrow> Inr bs)"

definition valid_name :: "name \<Rightarrow> bool" where
  "valid_name n \<longleftrightarrow>
     nm_value n \<noteq> [] \<and> utf8_len (nm_value n) \<le> MAX_NAME_BYTES \<and> \<not> list_ex is_control (nm_value n)"

fun validate_runs :: "bundled_run list \<Rightarrow> uuid list \<Rightarrow> core_error + uuid list" where
  "validate_runs [] seen = Inr seen"
| "validate_runs (r # rs) seen =
     (if \<not> is_terminal (br_lifecycle r) \<or> \<not> valid_name (br_name r) \<or> br_id r \<in> set seen
      then Inl invalid_bundle else validate_runs rs (br_id r # seen))"

fun validate_events ::
    "'r bundle_lib \<Rightarrow> uuid list \<Rightarrow> bundled_event list \<Rightarrow> uuid list \<Rightarrow> core_error + unit" where
  "validate_events L runs [] seen = Inr ()"
| "validate_events L runs (e # es) seen =
     (if be_kind e \<notin> set TRANSCRIPT_KINDS \<or> be_version e \<noteq> 1 \<or> PAYLOAD_LIMIT < utf8_len (be_payload e)
         \<or> \<not> bl_is_json L (be_payload e)
         \<or> (case be_run e of None \<Rightarrow> False | Some r \<Rightarrow> r \<notin> set runs)
         \<or> be_id e \<in> set seen
      then Inl invalid_bundle else validate_events L runs es (be_id e # seen))"

fun validate_schedules :: "'r bundle_lib \<Rightarrow> uuid \<Rightarrow> ustring list \<Rightarrow> uuid list \<Rightarrow> core_error + unit" where
  "validate_schedules L cid [] seen = Inr ()"
| "validate_schedules L cid (w # ws) seen =
     (if STATE_LIMIT < utf8_len w then Inl invalid_bundle
      else
        (case bl_parse_task L w of
           None \<Rightarrow> Inl invalid_bundle
         | Some t \<Rightarrow>
             if st_conversation t \<noteq> cid \<or> st_id t \<in> set seen then Inl invalid_bundle
             else validate_schedules L cid ws (st_id t # seen)))"

definition validate_queue :: "'r bundle_lib \<Rightarrow> ustring option \<Rightarrow> core_error + unit" where
  "validate_queue L q =
     (case q of
        None \<Rightarrow> Inr ()
      | Some w \<Rightarrow> require (utf8_len w \<le> STATE_LIMIT \<and> bl_parse_queue L w \<noteq> None) invalid_bundle)"

definition validate_bundle :: "'r bundle_lib \<Rightarrow> transfer_bundle \<Rightarrow> core_error + unit" where
  "validate_bundle L b =
     (let c = tb_conversation b in
      if bc_retired_epoch c = 0 \<or> tb_source b = tb_target b
         \<or> RUN_LIMIT < length (tb_runs b) \<or> TRANSCRIPT_EVENT_LIMIT < length (tb_events b)
         \<or> SCHEDULE_LIMIT < length (tb_schedules b) \<or> SETTING_LIMIT < length (tb_settings b)
         \<or> ARTIFACT_LIMIT < length (tb_artifacts b) \<or> \<not> valid_name (bc_name c)
      then Inl invalid_bundle
      else
        rbind (validate_runs (tb_runs b) []) (\<lambda>runs.
        rbind (validate_events L runs (tb_events b) []) (\<lambda>_.
        rbind (validate_queue L (tb_turn_queue b)) (\<lambda>_.
        rbind (validate_schedules L (bc_id c) (tb_schedules b) []) (\<lambda>_.
        rbind (require (list_all (\<lambda>x. bs_key x \<noteq> [] \<and> utf8_len (bs_key x) \<le> 128 \<and> utf8_len (bs_value x) \<le> STATE_LIMIT)
                 (tb_settings b)) invalid_bundle) (\<lambda>_.
          require (list_all (\<lambda>a. ae_run a \<in> set runs \<and> artifact_name (ARTIFACT_PREFIX @ ae_sha256 a) \<noteq> None)
            (tb_artifacts b)) invalid_bundle))))))"

function trim_start_matches :: "ustring \<Rightarrow> ustring \<Rightarrow> ustring" where
  "trim_start_matches p s =
     (if p \<noteq> [] \<and> take (length p) s = p then trim_start_matches p (drop (length p) s) else s)"
  by pat_completeness auto
termination
proof (relation "measure (length \<circ> snd)")
  fix p s :: ustring
  assume "p \<noteq> [] \<and> take (length p) s = p"
  then have "0 < length p" "length p \<le> length s" by (auto dest: arg_cong [where f = length])
  then show "((p, drop (length p) s), p, s) \<in> measure (length \<circ> snd)" by (simp del: length_greater_0_conv)
qed simp

declare trim_start_matches.simps [simp del]

record decoded_bundle =
  db_bundle :: transfer_bundle
  db_payloads :: components

definition referenced_payloads :: "transfer_bundle \<Rightarrow> (ustring \<times> nat) list" where
  "referenced_payloads b =
     remdups_adj (sort (map (\<lambda>a. (ae_sha256 a, ae_size a)) (tb_artifacts b)))"

definition decode_bundle :: "'r bundle_lib \<Rightarrow> bytes \<Rightarrow> core_error + decoded_bundle" where
  "decode_bundle L bs =
     (case decode_in (format_lib.truncate L) TRANSFER bs of
        Inl _ \<Rightarrow> Inl invalid_bundle
      | Inr parts \<Rightarrow>
          rbind (ok_or (map_of parts TRANSFER_JSON) invalid_bundle) (\<lambda>document.
          rbind (ok_or (bl_parse L document) invalid_bundle) (\<lambda>b.
            if tb_format b \<noteq> BUNDLE_FORMAT then Inl (incompatible ''transfer.format_incompatible'')
            else
              rbind (validate_bundle L b) (\<lambda>_.
                let payloads = fold (\<lambda>p. insert_part (trim_start_matches ARTIFACT_PREFIX (fst p)) (snd p))
                                 (filter (\<lambda>p. fst p \<noteq> TRANSFER_JSON) parts) [];
                    supplied = map (\<lambda>p. (fst p, length (snd p))) payloads
                in if referenced_payloads b \<noteq> supplied then Inl invalid_bundle
                   else Inr \<lparr>db_bundle = b, db_payloads = payloads\<rparr>))))"

section \<open>What the bundle carries arrives\<close>

definition bundle_laws :: "'r bundle_lib \<Rightarrow> bool" where
  "bundle_laws L \<longleftrightarrow> format_laws (format_lib.truncate L) \<and> (\<forall>b. bl_parse L (bl_print L b) = Some b)"

lemma strict_remdups_adj_sort: "sorted_wrt (<) (remdups_adj (sort xs))"
proof -
  have "sorted ys \<Longrightarrow> sorted_wrt (<) (remdups_adj ys)" for ys :: "'a list"
  proof (induction ys rule: remdups_adj.induct)
    case (3 x y zs)
    then show ?case by (auto simp: less_le)
  qed auto
  then show ?thesis by simp
qed

lemma artifact_name_prefix:
  "artifact_name (ARTIFACT_PREFIX @ h) = (if utf8_len h = 64 \<and> list_all is_lower_hex h then Some h else None)"
  by (simp add: artifact_name_def strip_prefix_def)

lemma artifact_name_Some: "artifact_name n = Some h \<Longrightarrow> n = ARTIFACT_PREFIX @ h"
  by (auto simp: artifact_name_def strip_prefix_def split: if_splits) (metis append_take_drop_id)

lemma transfer_json_no_artifact: "artifact_name TRANSFER_JSON = None"
  by (simp add: artifact_name_def strip_prefix_def TRANSFER_JSON_def ARTIFACT_PREFIX_def ucs_def)

lemma trim_artifact:
  assumes "artifact_name (ARTIFACT_PREFIX @ h) = Some h"
  shows "trim_start_matches ARTIFACT_PREFIX (ARTIFACT_PREFIX @ h) = h"
proof -
  have "take (length ARTIFACT_PREFIX) h \<noteq> ARTIFACT_PREFIX"
  proof
    assume "take (length ARTIFACT_PREFIX) h = ARTIFACT_PREFIX"
    then have "set ARTIFACT_PREFIX \<subseteq> set h" by (metis set_take_subset)
    then have "47 \<in> set h" by (auto simp: ARTIFACT_PREFIX_def ucs_def)
    then show False
      using assms by (auto simp: artifact_name_prefix list_all_iff is_lower_hex_def split: if_splits)
  qed
  moreover have "ARTIFACT_PREFIX \<noteq> []" by (simp add: ARTIFACT_PREFIX_def ucs_def)
  ultimately show ?thesis by (simp add: trim_start_matches.simps [of _ "_ @ _"] trim_start_matches.simps [of _ h])
qed

lemma append_less_iff: "(p @ a < p @ b) = (a < (b :: nat list))"
  by (induction p) auto

lemma fold_insert_sorted:
  "sorted_parts (acc @ qs) \<Longrightarrow> fold (\<lambda>p. insert_part (fst p) (snd p)) qs acc = acc @ qs"
proof (induction qs arbitrary: acc)
  case (Cons q qs)
  then have "insert_part (fst q) (snd q) acc = acc @ [q]"
    by (subst insert_part_last) (auto simp: sorted_wrt_append list_all_iff)
  then show ?case using Cons.IH [of "acc @ [q]"] Cons.prems by simp
qed simp

text \<open>What the encoder has written when it has met the Artifacts \<open>met\<close>.\<close>

definition encoded_parts ::
    "'r bundle_lib \<Rightarrow> (ustring \<Rightarrow> bytes option) \<Rightarrow> bytes \<Rightarrow> artifact_reference set \<Rightarrow> components \<Rightarrow> bool" where
  "encoded_parts L files document met parts \<longleftrightarrow>
     sorted_parts parts \<and> (TRANSFER_JSON, document) \<in> set parts \<and>
     (\<forall>(n, v) \<in> set parts. n = TRANSFER_JSON \<or>
        (\<exists>a\<in>met. n = ARTIFACT_PREFIX @ ae_sha256 a \<and> length v = ae_size a \<and>
           content_hash (format_lib.truncate L) v = ae_sha256 a \<and> files (ae_sha256 a) = Some v)) \<and>
     (\<forall>a\<in>met. \<exists>v. (ARTIFACT_PREFIX @ ae_sha256 a, v) \<in> set parts)"

lemma json_not_prefixed: "TRANSFER_JSON \<noteq> ARTIFACT_PREFIX @ h"
  by (simp add: TRANSFER_JSON_def ARTIFACT_PREFIX_def ucs_def)

lemma sorted_parts_distinct: "sorted_parts ps \<Longrightarrow> distinct (map fst ps)"
  by (simp add: strict_sorted_iff)

lemma encoded_parts_insert:
  assumes "encoded_parts L files document met parts" and "map_of parts (ARTIFACT_PREFIX @ ae_sha256 a) = None"
    and "files (ae_sha256 a) = Some content" and "verify_payload L a content = Inr ()"
  shows "encoded_parts L files document (insert a met) (insert_part (ARTIFACT_PREFIX @ ae_sha256 a) content parts)"
proof -
  have "content_hash (format_lib.truncate L) content = ae_sha256 a" "length content = ae_size a"
    using assms(4) by (simp_all add: verify_payload_def content_hash_def format_lib.defs)
  then have new: "case (ARTIFACT_PREFIX @ ae_sha256 a, content) of (n, v) \<Rightarrow> n = TRANSFER_JSON \<or>
      (\<exists>x\<in>insert a met. n = ARTIFACT_PREFIX @ ae_sha256 x \<and> length v = ae_size x \<and>
        content_hash (format_lib.truncate L) v = ae_sha256 x \<and> files (ae_sha256 x) = Some v)"
    using assms(3) by auto
  show ?thesis
    using assms(1) new insert_part_sorted [of parts "ARTIFACT_PREFIX @ ae_sha256 a" content]
    unfolding encoded_parts_def insert_part_set [OF assms(2)] by (auto simp del: map_map)
qed

lemma encode_artifacts_Inr:
  assumes "encode_artifacts L files as remaining parts = Inr out"
    and "encoded_parts L files document met parts"
  shows "encoded_parts L files document (met \<union> set as) out"
  using assms
proof (induction as arbitrary: remaining parts met)
  case (Cons a as)
  show ?case
  proof (cases "map_of parts (ARTIFACT_PREFIX @ ae_sha256 a)")
    case None
    with Cons.prems(1) obtain content where c: "files (ae_sha256 a) = Some content"
      and v: "verify_payload L a content = Inr ()"
      and e: "encode_artifacts L files as (remaining - length content)
          (insert_part (ARTIFACT_PREFIX @ ae_sha256 a) content parts) = Inr out"
      by (auto simp: Let_def rbind_Inr_iff read_bounded_def split: if_splits)
    from Cons.IH [OF e encoded_parts_insert [OF Cons.prems(2) None c v]] show ?thesis by simp
  next
    case (Some v)
    then have m: "(ARTIFACT_PREFIX @ ae_sha256 a, v) \<in> set parts" by (rule map_of_SomeD)
    have "encoded_parts L files document (insert a met) parts"
      using Cons.prems(2) m unfolding encoded_parts_def by fast
    with Cons Some show ?thesis by (fastforce simp: Let_def)
  qed
qed simp

lemma validate_bundle_artifacts:
  "validate_bundle L b = Inr () \<Longrightarrow> a \<in> set (tb_artifacts b) \<Longrightarrow>
   artifact_name (ARTIFACT_PREFIX @ ae_sha256 a) = Some (ae_sha256 a)"
  by (auto simp: validate_bundle_def Let_def rbind_Inr_iff list_all_iff artifact_name_prefix split: if_splits)

definition payload_parts :: "components \<Rightarrow> components" where
  "payload_parts parts =
     map (\<lambda>p. (trim_start_matches ARTIFACT_PREFIX (fst p), snd p)) (filter (\<lambda>p. fst p \<noteq> TRANSFER_JSON) parts)"

lemma fold_payload_parts:
  assumes "sorted_parts (payload_parts parts)"
  shows "fold (\<lambda>p. insert_part (trim_start_matches ARTIFACT_PREFIX (fst p)) (snd p))
      (filter (\<lambda>p. fst p \<noteq> TRANSFER_JSON) parts) [] = payload_parts parts"
  using fold_insert_sorted [of "[]" "payload_parts parts"] assms by (simp add: payload_parts_def fold_map comp_def)

definition sizes_agree :: "artifact_reference list \<Rightarrow> bool" where
  "sizes_agree as \<longleftrightarrow> list_all (\<lambda>a. list_all (\<lambda>b. ae_sha256 a = ae_sha256 b \<longrightarrow> ae_size a = ae_size b) as) as"

lemma encoded_payload:
  assumes "encoded_parts L files document met parts"
    and "\<And>a. a \<in> met \<Longrightarrow> artifact_name (ARTIFACT_PREFIX @ ae_sha256 a) = Some (ae_sha256 a)"
    and "p \<in> set parts" and "fst p \<noteq> TRANSFER_JSON"
  obtains a where "a \<in> met" "fst p = ARTIFACT_PREFIX @ ae_sha256 a"
    "trim_start_matches ARTIFACT_PREFIX (fst p) = ae_sha256 a" "length (snd p) = ae_size a"
    "content_hash (format_lib.truncate L) (snd p) = ae_sha256 a" "files (ae_sha256 a) = Some (snd p)"
proof -
  from assms obtain a where "a \<in> met" "fst p = ARTIFACT_PREFIX @ ae_sha256 a" "length (snd p) = ae_size a"
    "content_hash (format_lib.truncate L) (snd p) = ae_sha256 a" "files (ae_sha256 a) = Some (snd p)"
    by (cases p) (fastforce simp: encoded_parts_def)
  then show thesis using that trim_artifact [OF assms(2)] by metis
qed

lemma payload_parts_sorted:
  assumes "encoded_parts L files document met parts"
    and "\<And>a. a \<in> met \<Longrightarrow> artifact_name (ARTIFACT_PREFIX @ ae_sha256 a) = Some (ae_sha256 a)"
  shows "sorted_parts (payload_parts parts)"
proof -
  let ?qs = "filter (\<lambda>p. fst p \<noteq> TRANSFER_JSON) parts"
  have "sorted_wrt (\<lambda>p q. fst p < fst q) ?qs"
    using assms(1) by (simp add: encoded_parts_def sorted_wrt_map sorted_wrt_filter)
  then have "sorted_wrt (\<lambda>p q. trim_start_matches ARTIFACT_PREFIX (fst p) < trim_start_matches ARTIFACT_PREFIX (fst q)) ?qs"
  proof (rule sorted_wrt_mono_rel [rotated])
    fix p q assume "p \<in> set ?qs" "q \<in> set ?qs" and lt: "fst p < fst q"
    then have p: "p \<in> set parts" "fst p \<noteq> TRANSFER_JSON" and q: "q \<in> set parts" "fst q \<noteq> TRANSFER_JSON" by auto
    show "trim_start_matches ARTIFACT_PREFIX (fst p) < trim_start_matches ARTIFACT_PREFIX (fst q)"
      by (rule encoded_payload [OF assms p], simp, rule encoded_payload [OF assms q], simp) (use lt append_less_iff in auto)
  qed
  then show ?thesis by (simp add: payload_parts_def sorted_wrt_map comp_def)
qed

lemma payload_parts_lookup:
  assumes "encoded_parts L files document met parts"
    and "\<And>a. a \<in> met \<Longrightarrow> artifact_name (ARTIFACT_PREFIX @ ae_sha256 a) = Some (ae_sha256 a)" and "a \<in> met"
  obtains v where "(ae_sha256 a, v) \<in> set (payload_parts parts)" "files (ae_sha256 a) = Some v"
proof -
  from assms(1,3) obtain v where m: "(ARTIFACT_PREFIX @ ae_sha256 a, v) \<in> set parts" by (auto simp: encoded_parts_def)
  have n: "ARTIFACT_PREFIX @ ae_sha256 a \<noteq> TRANSFER_JSON" using json_not_prefixed by metis
  obtain x :: artifact_reference where "files (ae_sha256 x) = Some v" "ae_sha256 x = ae_sha256 a"
    by (rule encoded_payload [OF assms(1,2) m]) (use n in auto)
  moreover have "(ae_sha256 a, v) \<in> set (payload_parts parts)"
    using m n trim_artifact [OF assms(2) [OF assms(3)]] by (force simp: payload_parts_def)
  ultimately show thesis using that by simp
qed

lemma supplied_is_referenced:
  assumes enc: "encoded_parts L files document (set (tb_artifacts b)) parts"
    and names: "\<And>a. a \<in> set (tb_artifacts b) \<Longrightarrow> artifact_name (ARTIFACT_PREFIX @ ae_sha256 a) = Some (ae_sha256 a)"
    and agree: "sizes_agree (tb_artifacts b)"
  shows "map (\<lambda>p. (fst p, length (snd p))) (payload_parts parts) = referenced_payloads b"
proof (rule strict_sorted_equal)
  let ?ps = "payload_parts parts"
  show "sorted_wrt (<) (referenced_payloads b)"
    by (simp add: referenced_payloads_def strict_remdups_adj_sort)
  have "sorted_wrt (\<lambda>p q. fst p < fst q) ?ps"
    using payload_parts_sorted [OF enc names] by (simp add: sorted_wrt_map)
  then have "sorted_wrt (\<lambda>p q. (fst p, length (snd p)) < (fst q, length (snd q))) ?ps"
    by (rule sorted_wrt_mono_rel [rotated]) (simp add: less_prod_def)
  then show "sorted_wrt (<) (map (\<lambda>p. (fst p, length (snd p))) ?ps)" by (simp add: sorted_wrt_map)
  have "(ae_sha256 a, ae_size a) \<in> (\<lambda>p. (fst p, length (snd p))) ` set ?ps" if a: "a \<in> set (tb_artifacts b)" for a
  proof -
    obtain v where m: "(ae_sha256 a, v) \<in> set ?ps" by (rule payload_parts_lookup [OF enc names a])
    then obtain p where p: "p \<in> set parts" "fst p \<noteq> TRANSFER_JSON" "snd p = v"
      "trim_start_matches ARTIFACT_PREFIX (fst p) = ae_sha256 a" by (auto simp: payload_parts_def)
    obtain x where "x \<in> set (tb_artifacts b)" "ae_sha256 x = ae_sha256 a" "length v = ae_size x"
      using encoded_payload [OF enc names p(1,2)] p(3,4) by metis
    moreover have "ae_sha256 x = ae_sha256 a \<longrightarrow> ae_size x = ae_size a"
      using agree a \<open>x \<in> set (tb_artifacts b)\<close> unfolding sizes_agree_def list_all_iff by blast
    ultimately have "length v = ae_size a" by simp
    with m show ?thesis by force
  qed
  moreover have "(fst q, length (snd q)) \<in> (\<lambda>a. (ae_sha256 a, ae_size a)) ` set (tb_artifacts b)" if q: "q \<in> set ?ps" for q
  proof -
    from q obtain p where p: "p \<in> set parts" "fst p \<noteq> TRANSFER_JSON"
      "q = (trim_start_matches ARTIFACT_PREFIX (fst p), snd p)" by (auto simp: payload_parts_def)
    show ?thesis by (rule encoded_payload [OF enc names p(1,2)]) (use p(3) in auto)
  qed
  ultimately show "set (map (\<lambda>p. (fst p, length (snd p))) ?ps) = set (referenced_payloads b)"
    by (auto simp: referenced_payloads_def)
qed

lemma encode_bundle_Inr:
  assumes "encode_bundle L files b = Inr bs"
  obtains parts where "encode_artifacts L files (tb_artifacts b) MAX_BYTES [(TRANSFER_JSON, bl_print L b)] = Inr parts"
    "encode_in (format_lib.truncate L) TRANSFER parts = Inr bs"
proof -
  from assms obtain parts where "encode_artifacts L files (tb_artifacts b) MAX_BYTES [(TRANSFER_JSON, bl_print L b)] = Inr parts"
    and "(case encode_in (format_lib.truncate L) TRANSFER parts of Inl _ \<Rightarrow> Inl invalid_bundle | Inr bs \<Rightarrow> Inr bs) = Inr bs"
    unfolding encode_bundle_def rbind_Inr_iff by blast
  then show thesis using that by (cases "encode_in (format_lib.truncate L) TRANSFER parts") auto
qed

text \<open>What a decoder makes of an encoded bundle that is valid.\<close>

lemma encoded_decodes:
  assumes "bundle_laws L" and "encode_bundle L files b = Inr bs" and "validate_bundle L b = Inr ()"
    and "tb_format b = BUNDLE_FORMAT"
  obtains parts where "encoded_parts L files (bl_print L b) (set (tb_artifacts b)) parts"
    "decode_bundle L bs =
       (if referenced_payloads b = map (\<lambda>p. (fst p, length (snd p))) (payload_parts parts)
        then Inr \<lparr>db_bundle = b, db_payloads = payload_parts parts\<rparr> else Inl invalid_bundle)"
proof -
  let ?F = "format_lib.truncate L" and ?as = "set (tb_artifacts b)"
  from encode_bundle_Inr [OF assms(2)] obtain parts
    where e: "encode_artifacts L files (tb_artifacts b) MAX_BYTES [(TRANSFER_JSON, bl_print L b)] = Inr parts"
      and bs: "encode_in ?F TRANSFER parts = Inr bs" .
  have enc: "encoded_parts L files (bl_print L b) ?as parts"
    using encode_artifacts_Inr [OF e, of "bl_print L b" "{}"] by (simp add: encoded_parts_def)
  note names = validate_bundle_artifacts [OF assms(3)]
  have ok: "part_ok ?F TRANSFER p" if p: "p \<in> set parts" for p
  proof (cases "fst p = TRANSFER_JSON")
    case True
    then show ?thesis using transfer_json_no_artifact by (simp add: part_ok_def TRANSFER_def TRANSFER_JSON_def)
  next
    case False
    show ?thesis by (rule encoded_payload [OF enc names p False]) (auto simp: part_ok_def names)
  qed
  then have "decode_in ?F TRANSFER bs = Inr parts"
    using assms(1) bs enc by (intro container_roundtrip) (auto simp: bundle_laws_def encoded_parts_def list_all_iff)
  moreover have "map_of parts TRANSFER_JSON = Some (bl_print L b)"
    using enc sorted_parts_distinct by (auto simp: encoded_parts_def)
  moreover have "bl_parse L (bl_print L b) = Some b" using assms(1) by (simp add: bundle_laws_def)
  ultimately have "decode_bundle L bs =
      (if referenced_payloads b = map (\<lambda>p. (fst p, length (snd p))) (payload_parts parts)
       then Inr \<lparr>db_bundle = b, db_payloads = payload_parts parts\<rparr> else Inl invalid_bundle)"
    using assms(3,4) fold_payload_parts [OF payload_parts_sorted [OF enc names]] by (simp add: decode_bundle_def Let_def)
  then show thesis using that [OF enc] by simp
qed

lemma bundle_roundtrip:
  assumes "bundle_laws L" and "encode_bundle L files b = Inr bs" and "validate_bundle L b = Inr ()"
    and "tb_format b = BUNDLE_FORMAT" and "sizes_agree (tb_artifacts b)"
  shows "\<exists>payloads. decode_bundle L bs = Inr \<lparr>db_bundle = b, db_payloads = payloads\<rparr> \<and>
    (\<forall>a\<in>set (tb_artifacts b). map_of payloads (ae_sha256 a) = files (ae_sha256 a))"
proof -
  from encoded_decodes [OF assms(1-4)] obtain parts where enc: "encoded_parts L files (bl_print L b) (set (tb_artifacts b)) parts"
    and d: "decode_bundle L bs =
       (if referenced_payloads b = map (\<lambda>p. (fst p, length (snd p))) (payload_parts parts)
        then Inr \<lparr>db_bundle = b, db_payloads = payload_parts parts\<rparr> else Inl invalid_bundle)" .
  note names = validate_bundle_artifacts [OF assms(3)]
  have "decode_bundle L bs = Inr \<lparr>db_bundle = b, db_payloads = payload_parts parts\<rparr>"
    using d supplied_is_referenced [OF enc names assms(5)] by simp
  moreover have "map_of (payload_parts parts) (ae_sha256 a) = files (ae_sha256 a)" if a: "a \<in> set (tb_artifacts b)" for a
  proof -
    obtain v where "(ae_sha256 a, v) \<in> set (payload_parts parts)" "files (ae_sha256 a) = Some v"
      by (rule payload_parts_lookup [OF enc names a])
    then show ?thesis using sorted_parts_distinct [OF payload_parts_sorted [OF enc names]] by simp
  qed
  ultimately show ?thesis by blast
qed

text \<open>
  Two references to one hash with different sizes: the encoder verifies the first only, and the
  payload it carries has one size.
\<close>

lemma sizes_refused:
  assumes "bundle_laws L" and "encode_bundle L files b = Inr bs" and "validate_bundle L b = Inr ()"
    and "tb_format b = BUNDLE_FORMAT" and "\<not> sizes_agree (tb_artifacts b)"
  shows "decode_bundle L bs = Inl invalid_bundle"
proof -
  from encoded_decodes [OF assms(1-4)] obtain parts where enc: "encoded_parts L files (bl_print L b) (set (tb_artifacts b)) parts"
    and d: "decode_bundle L bs =
       (if referenced_payloads b = map (\<lambda>p. (fst p, length (snd p))) (payload_parts parts)
        then Inr \<lparr>db_bundle = b, db_payloads = payload_parts parts\<rparr> else Inl invalid_bundle)" .
  note names = validate_bundle_artifacts [OF assms(3)]
  let ?supplied = "map (\<lambda>p. (fst p, length (snd p))) (payload_parts parts)"
  from assms(5) obtain a a' where m: "a \<in> set (tb_artifacts b)" "a' \<in> set (tb_artifacts b)"
    and ne: "ae_sha256 a = ae_sha256 a'" "ae_size a \<noteq> ae_size a'" by (auto simp: sizes_agree_def list_all_iff)
  have "(ae_sha256 x, ae_size x) \<in> set (referenced_payloads b)" if "x \<in> set (tb_artifacts b)" for x
    using that by (simp add: referenced_payloads_def)
  then have two: "(ae_sha256 a, ae_size a) \<in> set (referenced_payloads b)" "(ae_sha256 a, ae_size a') \<in> set (referenced_payloads b)"
    using m ne(1) by metis+
  have "distinct (map fst (payload_parts parts))" by (rule sorted_parts_distinct [OF payload_parts_sorted [OF enc names]])
  then have "distinct (map fst ?supplied)" by (simp add: comp_def)
  then have "referenced_payloads b \<noteq> ?supplied" using two ne(2) by (metis eq_key_imp_eq_value)
  then show ?thesis using d by simp
qed

lemma decoded_is_encoded:
  assumes "bundle_laws L" and "encode_bundle L files b = Inr bs" and "decode_bundle L bs = Inr d"
  shows "db_bundle d = b"
proof -
  let ?F = "format_lib.truncate L"
  from encode_bundle_Inr [OF assms(2)] obtain parts
    where e: "encode_artifacts L files (tb_artifacts b) MAX_BYTES [(TRANSFER_JSON, bl_print L b)] = Inr parts"
      and bs: "encode_in ?F TRANSFER parts = Inr bs" .
  have enc: "encoded_parts L files (bl_print L b) (set (tb_artifacts b)) parts"
    using encode_artifacts_Inr [OF e, of "bl_print L b" "{}"] by (simp add: encoded_parts_def)
  have json: "map_of parts TRANSFER_JSON = Some (bl_print L b)"
    using enc sorted_parts_distinct by (auto simp: encoded_parts_def)
  from assms(3) obtain out where out: "decode_in ?F TRANSFER bs = Inr out"
    by (cases "decode_in ?F TRANSFER bs") (auto simp: decode_bundle_def)
  then have "out = parts"
    using container_decodes_same [OF _ bs] assms(1) enc by (auto simp: bundle_laws_def encoded_parts_def)
  then show ?thesis
    using assms(1,3) out json by (auto simp: decode_bundle_def bundle_laws_def rbind_Inr_iff Let_def split: if_splits)
qed

end
