(* ===== verification/Jet_Transfer.thy ===== *)
theory Jet_Transfer
  imports Jet_Bundle Jet_Security
begin

text \<open>
  Moving a Conversation's Home Plane, on one Plane: \<open>jet-core/src/plane_transfer/{mod,prepare,import,
  settle}.rs\<close> on \<open>jet-store/src/authority/{mod,transfer}.rs\<close>, with Jet Trash
  (\<open>jet-core/src/retention/{command,protection,sweep}.rs\<close>, \<open>jet-store/src/conversation/{trash,purge}.rs\<close>) and
  the two ledgers a commit writes first and an open reapplies (\<open>jet-store/src/{transaction,open}.rs\<close>,
  \<open>deletion/reapply.rs\<close>).

  An operation is one write transaction: an error leaves the store as it was. Commands hold the whole
  authority gate, so no other Command runs between the snapshot a prepare reads and its write; the
  snapshot is an argument of its own.
\<close>

section \<open>Protections\<close>

datatype protection =
  ActiveRun | PendingTurn | EnabledSchedule | DirtyWorkspace | UnpushedWork | UnresolvedEffect

record workspace_state =
  ws_dirty :: bool
  ws_unpushed :: bool

definition clean_workspace :: workspace_state where
  "clean_workspace = \<lparr>ws_dirty = False, ws_unpushed = False\<rparr>"

definition load_stored_queue :: "'r bundle_lib \<Rightarrow> uuid \<Rightarrow> home_store \<Rightarrow> core_error + 'r turn_queue" where
  "load_stored_queue L cid s =
     rbind (require (conversation_of cid s \<noteq> None) conversation_not_found) (\<lambda>_.
       case turn_queue_of cid s of
         None \<Rightarrow> Inr empty_queue
       | Some w \<Rightarrow> (case bl_parse_stored L w of
                     None \<Rightarrow> Inl (internal ''run.invalid_record'')
                   | Some q \<Rightarrow> Inr (into_queue q)))"

definition protections :: "'r bundle_lib \<Rightarrow> uuid \<Rightarrow> workspace_state \<Rightarrow> home_store \<Rightarrow> core_error + protection list" where
  "protections L cid ws s =
     rbind (load_stored_queue L cid s) (\<lambda>q.
       Inr ((if list_ex (\<lambda>r. \<not> is_terminal (rn_lifecycle r)) (runs_of cid s) then [ActiveRun] else []) @
            (if list_ex (\<lambda>e. t_state (e_turn e) = Queued_Turn \<or> t_state (e_turn e) = Active) (q_entries q)
             then [PendingTurn] else []) @
            (if scheduled_tasks_of cid s \<noteq> [] then [EnabledSchedule] else []) @
            (if ws_dirty ws then [DirtyWorkspace] else []) @
            (if ws_unpushed ws then [UnpushedWork] else []) @
            (if cid \<in> set (hs_effects s) then [UnresolvedEffect] else [])))"

definition has_live_work :: "protection list \<Rightarrow> bool" where
  "has_live_work ps \<longleftrightarrow> ActiveRun \<in> set ps \<or> PendingTurn \<in> set ps"

section \<open>Transfer rows\<close>

definition plane_transfer_of :: "uuid \<Rightarrow> home_store \<Rightarrow> plane_transfer option" where
  "plane_transfer_of tid s = find (\<lambda>t. pt_id t = tid) (hs_transfers s)"

definition open_plane_transfer :: "uuid \<Rightarrow> home_store \<Rightarrow> plane_transfer option" where
  "open_plane_transfer cid s =
     (case filter (\<lambda>t. pt_conversation t = cid \<and> pt_phase t = PhasePrepared) (hs_transfers s) of
        [] \<Rightarrow> None
      | t # ts \<Rightarrow> Some (fold (\<lambda>x best. if pt_prepared_at best < pt_prepared_at x then x else best) ts t))"

definition insert_plane_transfer :: "plane_transfer \<Rightarrow> home_store \<Rightarrow> core_error + home_store" where
  "insert_plane_transfer t s =
     rbind (require (plane_transfer_of (pt_id t) s = None \<and> conversation_of (pt_conversation t) s \<noteq> None) store_refused) (\<lambda>_.
       Inr (s\<lparr>hs_transfers := hs_transfers s @ [t]\<rparr>))"

definition with_phase :: "plane_transfer_phase \<Rightarrow> int \<Rightarrow> plane_transfer \<Rightarrow> plane_transfer" where
  "with_phase ph now t = t\<lparr>pt_phase := ph, pt_settled_at := Some now\<rparr>"

definition settle_plane_transfer :: "uuid \<Rightarrow> plane_transfer_phase \<Rightarrow> int \<Rightarrow> home_store \<Rightarrow> home_store" where
  "settle_plane_transfer tid ph now s =
     s\<lparr>hs_transfers := map (\<lambda>t. if pt_id t = tid then with_phase ph now t else t) (hs_transfers s)\<rparr>"

definition delete_plane_transfer :: "uuid \<Rightarrow> home_store \<Rightarrow> home_store" where
  "delete_plane_transfer tid s = s\<lparr>hs_transfers := filter (\<lambda>t. pt_id t \<noteq> tid) (hs_transfers s)\<rparr>"

definition trash_entry :: "uuid \<Rightarrow> home_store \<Rightarrow> trash_record option" where
  "trash_entry cid s = find (\<lambda>r. tr_conversation r = cid) (hs_trash s)"

definition insert_trash :: "trash_record \<Rightarrow> home_store \<Rightarrow> core_error + home_store" where
  "insert_trash r s =
     rbind (require (conversation_of (tr_conversation r) s \<noteq> None) store_refused) (\<lambda>_.
       Inr (if trash_entry (tr_conversation r) s = None then s\<lparr>hs_trash := hs_trash s @ [r]\<rparr> else s))"

text \<open>
  The rows a Conversation reaches in the tables of the model, with the cascades of its own row: the Trash entry, the queue and
  the transfers. The Settings of the Conversation are not among the statements; the statements on the Workspace, Git
  delivery, usage, remote-operation and search tables, which the model does not have, are left out.
\<close>

definition purge_rows :: "uuid \<Rightarrow> home_store \<Rightarrow> home_store" where
  "purge_rows cid s =
     (let gone = map rn_id (runs_of cid s) in
      s\<lparr>hs_conversations := filter (\<lambda>c. cr_id c \<noteq> cid) (hs_conversations s),
        hs_runs := filter (\<lambda>r. rn_conversation r \<noteq> cid) (hs_runs s),
        hs_events := filter (\<lambda>e. er_conversation e \<noteq> Some cid) (hs_events s),
        hs_queues := filter (\<lambda>q. qr_conversation q \<noteq> cid) (hs_queues s),
        hs_schedules := filter (\<lambda>w. sw_conversation w \<noteq> cid) (hs_schedules s),
        hs_artifacts := filter (\<lambda>a. ae_run a \<notin> set gone) (hs_artifacts s),
        hs_transfers := filter (\<lambda>t. pt_conversation t \<noteq> cid) (hs_transfers s),
        hs_trash := filter (\<lambda>r. tr_conversation r \<noteq> cid) (hs_trash s),
        hs_effects := filter (\<lambda>c. c \<noteq> cid) (hs_effects s)\<rparr>)"

definition core_event :: "uuid \<Rightarrow> uuid \<Rightarrow> uuid \<Rightarrow> transfer_event \<Rightarrow> int \<Rightarrow> event_record" where
  "core_event eid actor cid e now =
     \<lparr>er_id = eid, er_client = actor, er_at = now, er_conversation = Some cid, er_run = None, er_body = CoreEvent e\<rparr>"

definition home_audit :: "home_decision \<Rightarrow> uuid \<Rightarrow> int \<Rightarrow> home_store \<Rightarrow> home_store" where
  "home_audit d cid now s = s\<lparr>hs_audit := hs_audit s @ [(d, Some cid, now)]\<rparr>"

text \<open>The records about a deleted Conversation stay and no longer say which one it was.\<close>

definition anonymize_home_audit :: "uuid \<Rightarrow> home_store \<Rightarrow> home_store" where
  "anonymize_home_audit cid s =
     s\<lparr>hs_audit := map (\<lambda>(d, target, at). (d, if target = Some cid then None else target, at)) (hs_audit s)\<rparr>"

definition journal_and_audit ::
    "uuid \<Rightarrow> uuid \<Rightarrow> uuid \<Rightarrow> transfer_event \<Rightarrow> home_decision \<Rightarrow> int \<Rightarrow> home_store \<Rightarrow> core_error + home_store" where
  "journal_and_audit eid actor cid e d now s =
     rbind (append_event_record (core_event eid actor cid e now) s) (\<lambda>s1. Inr (home_audit d cid now s1))"

section \<open>The gate\<close>

definition require_unfrozen :: "uuid \<Rightarrow> home_store \<Rightarrow> core_error + unit" where
  "require_unfrozen cid s =
     (case open_plane_transfer cid s of
        None \<Rightarrow> Inr ()
      | Some t \<Rightarrow> require (pt_role t \<noteq> SourceRole) (conflict ''conversation.transfer_prepared''))"

definition require_home :: "uuid \<Rightarrow> home_store \<Rightarrow> core_error + unit" where
  "require_home cid s =
     rbind (ok_or (conversation_of cid s) conversation_not_found) (\<lambda>c.
       if au_state (cr_authority c) = Home then require_unfrozen cid s else Inl not_authoritative)"

section \<open>Prepare\<close>

record planned =
  pn_transfer :: plane_transfer
  pn_recorded :: bool
  pn_revision :: nat

definition plan :: "'r bundle_lib \<Rightarrow> uuid \<Rightarrow> uuid \<Rightarrow> int \<Rightarrow> uuid \<Rightarrow> home_store \<Rightarrow> core_error + planned" where
  "plan L cid target now tid s =
     rbind (ok_or (conversation_of cid s) conversation_not_found) (\<lambda>c.
     rbind (require (hs_plane s \<noteq> target) (invalid_input ''transfer.same_plane'')) (\<lambda>_.
     rbind (require (au_state (cr_authority c) = Home) not_authoritative) (\<lambda>_.
       case open_plane_transfer cid s of
         Some t \<Rightarrow>
           if pt_role t = SourceRole \<and> pt_peer t = target
           then Inr \<lparr>pn_transfer = t, pn_recorded = True, pn_revision = cr_revision c\<rparr>
           else Inl (conflict ''transfer.in_progress'')
       | None \<Rightarrow>
           rbind (protections L cid clean_workspace s) (\<lambda>ps.
           rbind (require (\<not> has_live_work ps) (conflict ''transfer.live_work'')) (\<lambda>_.
           rbind (require (trash_entry cid s = None) (conflict ''transfer.trashed'')) (\<lambda>_.
             Inr \<lparr>pn_transfer =
                    \<lparr>pt_id = tid, pt_conversation = cid, pt_role = SourceRole, pt_phase = PhasePrepared,
                     pt_retired_epoch = au_epoch (cr_authority c), pt_peer = target, pt_bundle = [],
                     pt_prepared_at = now, pt_settled_at = None\<rparr>,
                  pn_recorded = False, pn_revision = cr_revision c\<rparr>))))))"

definition require_bundle :: "plane_transfer \<Rightarrow> ustring \<Rightarrow> core_error + unit" where
  "require_bundle t sha = require (pt_bundle t = sha) (conflict ''transfer.bundle_mismatch'')"

definition prepare_write ::
    "'r bundle_lib \<Rightarrow> uuid \<Rightarrow> uuid \<Rightarrow> uuid \<Rightarrow> int \<Rightarrow> uuid \<Rightarrow> uuid \<Rightarrow> planned \<Rightarrow> ustring \<Rightarrow> home_store \<Rightarrow>
     core_error + plane_transfer \<times> home_store" where
  "prepare_write L actor cid target now tid eid p sha s =
     rbind (plan L cid target now tid s) (\<lambda>current.
       if pn_recorded current \<noteq> pn_recorded p \<or> pn_revision current \<noteq> pn_revision p
          \<or> (pn_recorded p \<and> pt_id (pn_transfer current) \<noteq> pt_id (pn_transfer p))
       then Inl (conflict ''transfer.stale'')
       else if pn_recorded p
       then (case require_bundle (pn_transfer current) sha of
               Inl _ \<Rightarrow> Inl (conflict ''transfer.bundle_drift'')
             | Inr _ \<Rightarrow> Inr (pn_transfer current, s))
       else
         let t = (pn_transfer p)\<lparr>pt_bundle := sha\<rparr> in
         rbind (insert_plane_transfer t s) (\<lambda>s1.
         rbind (journal_and_audit eid actor cid (TransferPrepared (pt_id t) target (pt_retired_epoch t)) D_Prepared now s1) (\<lambda>s2.
           Inr (t, s2))))"

definition prepare_plane_transfer ::
    "'r bundle_lib \<Rightarrow> (ustring \<Rightarrow> bytes option) \<Rightarrow> uuid \<Rightarrow> uuid \<Rightarrow> uuid \<Rightarrow> int \<Rightarrow> uuid \<Rightarrow> uuid \<Rightarrow> uuid \<Rightarrow> home_store \<Rightarrow>
     home_store \<Rightarrow> core_error + (plane_transfer \<times> bytes) \<times> home_store" where
  "prepare_plane_transfer L files actor cid target now tid tid' eid snapshot s =
     rbind (plan L cid target now tid snapshot) (\<lambda>p.
     rbind (capture (pn_transfer p) (hs_plane snapshot) snapshot) (\<lambda>b.
     rbind (encode_bundle L files b) (\<lambda>bs.
     rbind (prepare_write L actor cid target now tid' eid p (content_hash (format_lib.truncate L) bs) s) (\<lambda>(t, s').
       Inr ((t, bs), s')))))"

text \<open>
  The admission the Command asks for before anything is read. Whether the session is authorized and why the
  store may be read-only are arguments.
\<close>

definition prepare_command ::
    "core_error + unit \<Rightarrow> core_error option \<Rightarrow> security_state \<Rightarrow> 'r bundle_lib \<Rightarrow> (ustring \<Rightarrow> bytes option) \<Rightarrow> uuid \<Rightarrow> uuid \<Rightarrow>
     uuid \<Rightarrow> int \<Rightarrow> uuid \<Rightarrow> uuid \<Rightarrow> uuid \<Rightarrow> home_store \<Rightarrow> home_store \<Rightarrow> core_error + (plane_transfer \<times> bytes) \<times> home_store" where
  "prepare_command authorized read_only security L files actor cid target now tid tid' eid snapshot s =
     rbind authorized (\<lambda>_.
     rbind (case read_only of Some e \<Rightarrow> Inl e | None \<Rightarrow> Inr ()) (\<lambda>_.
     rbind (security_admit security security_class.Guarded) (\<lambda>_.
       prepare_plane_transfer L files actor cid target now tid tid' eid snapshot s)))"

lemma prepare_command_trusted:
  "prepare_command authorized read_only security L files actor cid target now tid tid' eid snapshot s = Inr r \<Longrightarrow>
   authorized = Inr () \<and> read_only = None \<and> security = Trusted \<and>
   prepare_plane_transfer L files actor cid target now tid tid' eid snapshot s = Inr r"
  by (auto simp: prepare_command_def rbind_Inr_iff security_admit_def split: option.splits security_state.splits)

section \<open>Import\<close>

record prepared_import =
  pi_bundle :: transfer_bundle
  pi_sha256 :: ustring
  pi_tree :: working_tree

definition prepare_plane_transfer_import ::
    "'r bundle_lib \<Rightarrow> (uuid \<Rightarrow> bool) \<Rightarrow> core_error + unit \<Rightarrow> (decoded_bundle \<Rightarrow> core_error + unit) \<Rightarrow> bytes \<Rightarrow> uuid option \<Rightarrow> home_store \<Rightarrow>
     core_error + prepared_import" where
  "prepare_plane_transfer_import L projects disk publish bs project s =
     rbind (decode_bundle L bs) (\<lambda>d.
     rbind (require (tb_target (db_bundle d) = hs_plane s) (invalid_input ''transfer.wrong_plane'')) (\<lambda>_.
     rbind (case project of
              Some p \<Rightarrow> if projects p then Inr (LocalCheckout p) else Inl (not_found ''project.not_found'')
            | None \<Rightarrow> if bc_in_project (tb_conversation (db_bundle d))
                      then Inl (invalid_input ''transfer.project_required'') else Inr NoProject) (\<lambda>tree.
     rbind disk (\<lambda>_.
     rbind (publish d) (\<lambda>_.
       Inr \<lparr>pi_bundle = db_bundle d, pi_sha256 = content_hash (format_lib.truncate L) bs, pi_tree = tree\<rparr>)))))"

definition discard_transfer_tombstone :: "uuid \<Rightarrow> home_store \<Rightarrow> core_error + home_store" where
  "discard_transfer_tombstone cid s =
     (case conversation_of cid s of
        None \<Rightarrow> Inl store_refused
      | Some c \<Rightarrow>
          if au_state (cr_authority c) = Relinquished then Inr (purge_rows cid s) else Inl store_refused)"

fun rfold :: "('x \<Rightarrow> 's \<Rightarrow> 'e + 's) \<Rightarrow> 'x list \<Rightarrow> 's \<Rightarrow> 'e + 's" where
  "rfold f [] s = Inr s"
| "rfold f (x # xs) s = rbind (f x s) (rfold f xs)"

definition import_run :: "uuid \<Rightarrow> bundled_run \<Rightarrow> home_store \<Rightarrow> core_error + home_store" where
  "import_run cid r s =
     rbind (insert_run (br_id r) cid (br_created r) s) (\<lambda>s1.
     rbind (update_run_lifecycle_row (br_id r) (br_lifecycle r)
              (case br_ended r of None \<Rightarrow> br_created r | Some e \<Rightarrow> e) s1) (\<lambda>s2.
       Inr (update_run_name_row (br_id r) (br_name r) s2)))"

definition import_event :: "uuid \<Rightarrow> bundled_event \<Rightarrow> home_store \<Rightarrow> core_error + home_store" where
  "import_event cid e s =
     append_event_record \<lparr>er_id = be_id e, er_client = be_client e, er_at = be_at e, er_conversation = Some cid,
       er_run = be_run e, er_body = Transcript (be_kind e) (be_version e) (be_payload e)\<rparr> s"

text \<open>\<open>turn::queue::save\<close> and \<open>schedule::save\<close>: the row of a queue or a task, encoded again.\<close>

definition saved_queue :: "'r bundle_lib \<Rightarrow> uuid \<Rightarrow> 'r turn_queue \<Rightarrow> queue_row" where
  "saved_queue L cid q =
     \<lparr>qr_conversation = cid,
      qr_state = bl_print_stored L
        (if q_quota_until q \<noteq> None \<or> list_ex (\<lambda>e. e_retry_run e \<noteq> None) (q_entries q) then stored_queue.Guarded q else Legacy q),
      qr_pending = length (filter is_queued (q_entries q))\<rparr>"

definition import_queue :: "'r bundle_lib \<Rightarrow> uuid \<Rightarrow> ustring option \<Rightarrow> home_store \<Rightarrow> core_error + home_store" where
  "import_queue L cid w s =
     (case w of
        None \<Rightarrow> Inr s
      | Some state \<Rightarrow>
          rbind (ok_or (bl_parse_queue L state) invalid_bundle) (\<lambda>q. Inr (save_turn_queue (saved_queue L cid q) s)))"

definition import_schedule :: "'r bundle_lib \<Rightarrow> ustring \<Rightarrow> home_store \<Rightarrow> core_error + home_store" where
  "import_schedule L w s =
     rbind (ok_or (bl_parse_task L w) invalid_bundle) (\<lambda>t.
       Inr (save_schedule_row \<lparr>sw_id = st_id t, sw_conversation = st_conversation t, sw_due = sf_due (st_next t),
         sw_state = bl_print_task L t\<rparr> s))"

definition import_setting :: "uuid \<Rightarrow> bundled_setting \<Rightarrow> home_store \<Rightarrow> home_store" where
  "import_setting cid x =
     upsert_setting \<lparr>sr_key = bs_key x, sr_scope = ScopeConversation cid, sr_value = bs_value x, sr_updated = bs_updated x\<rparr>"

text \<open>The rows of the Conversation, once its own row is there.\<close>

definition import_content :: "'r bundle_lib \<Rightarrow> transfer_bundle \<Rightarrow> home_store \<Rightarrow> core_error + home_store" where
  "import_content L b s =
     (let cid = bc_id (tb_conversation b) in
      rbind (rfold (import_run cid) (tb_runs b) s) (\<lambda>s1.
      rbind (rfold (import_event cid) (tb_events b) s1) (\<lambda>s2.
      let s3 = fold reference_artifact (tb_artifacts b) s2 in
      rbind (import_queue L cid (tb_turn_queue b) s3) (\<lambda>s4.
      rbind (rfold (import_schedule L) (tb_schedules b) s4) (\<lambda>s5.
        Inr (fold (import_setting cid) (tb_settings b) s5))))))"

definition make_room :: "uuid \<Rightarrow> u64 \<Rightarrow> home_store \<Rightarrow> core_error + home_store" where
  "make_room cid epoch s =
     (case conversation_of cid s of
        None \<Rightarrow> Inr s
      | Some c \<Rightarrow>
          if au_state (cr_authority c) \<noteq> Relinquished \<or> epoch \<le> au_epoch (cr_authority c)
          then Inl (conflict ''transfer.conversation_exists'')
          else discard_transfer_tombstone cid s)"

definition import_record ::
    "'r bundle_lib \<Rightarrow> uuid \<Rightarrow> prepared_import \<Rightarrow> int \<Rightarrow> uuid \<Rightarrow> home_store \<Rightarrow> core_error + plane_transfer \<times> home_store" where
  "import_record L actor p now eid s =
     (let b = pi_bundle p; c = tb_conversation b; cid = bc_id c in
      case plane_transfer_of (tb_transfer b) s of
        Some t \<Rightarrow> rbind (require_bundle t (pi_sha256 p)) (\<lambda>_. Inr (t, s))
      | None \<Rightarrow>
          rbind (ok_or (u64_checked_add (bc_retired_epoch c) 1) invalid_bundle) (\<lambda>epoch.
          rbind (make_room cid epoch s) (\<lambda>s1.
          rbind (insert_conversation \<lparr>nc_id = cid, nc_retention = bc_retention c, nc_tree = pi_tree p, nc_created = bc_created c\<rparr> s1) (\<lambda>s2.
          let s3 = set_conversation_authority cid \<lparr>au_state = Prepared, au_epoch = epoch\<rparr>
                     (update_conversation_name_row cid (bc_name c) s2);
              t = \<lparr>pt_id = tb_transfer b, pt_conversation = cid, pt_role = TargetRole, pt_phase = PhasePrepared,
                   pt_retired_epoch = bc_retired_epoch c, pt_peer = tb_source b, pt_bundle = pi_sha256 p,
                   pt_prepared_at = now, pt_settled_at = None\<rparr>
          in rbind (import_content L b s3) (\<lambda>s4.
             rbind (insert_plane_transfer t s4) (\<lambda>s5.
             rbind (journal_and_audit eid actor cid (TransferImported (tb_transfer b) (tb_source b) epoch) D_Imported now s5) (\<lambda>s6.
               Inr (t, s6))))))))"

section \<open>Relinquish, commit, abort\<close>

definition TOMBSTONE_MS :: int where
  "TOMBSTONE_MS = 30 * 24 * 60 * 60 * 1000"

definition recorded_transfer :: "uuid \<Rightarrow> plane_transfer_role \<Rightarrow> home_store \<Rightarrow> core_error + plane_transfer" where
  "recorded_transfer tid role s =
     rbind (ok_or (plane_transfer_of tid s) (not_found ''transfer.not_found'')) (\<lambda>t.
     rbind (require (pt_role t = role) (conflict ''transfer.wrong_role'')) (\<lambda>_. Inr t))"

definition fence_of :: "plane_transfer \<Rightarrow> uuid \<Rightarrow> authority_fence" where
  "fence_of t source =
     \<lparr>af_conversation = pt_conversation t, af_retired_epoch = pt_retired_epoch t, af_transfer = pt_id t,
      af_source = source, af_target = pt_peer t,
      af_fenced_at = (case pt_settled_at t of None \<Rightarrow> pt_prepared_at t | Some at \<Rightarrow> at)\<rparr>"

text \<open>
  A relinquishment leaves the fence it raises with its transaction. The commit appends those fences to
  their ledger before the rows, with \<open>ledger\<close> the answer of the append and of the applied count: a
  ledger that cannot be trusted or written refuses, and the transaction is abandoned.
\<close>

definition record_fence :: "fence_record \<Rightarrow> fence_record list \<Rightarrow> fence_record list" where
  "record_fence f fences = fences @ [f]"

definition commit_fences :: "(core_error + unit) \<Rightarrow> fence_record list \<Rightarrow> home_store \<Rightarrow> core_error + home_store" where
  "commit_fences ledger fences s =
     (if fences = [] then Inr s
      else rbind ledger (\<lambda>_.
        Inr (s\<lparr>hs_fences := hs_fences s @ fences, hs_fences_applied := length (hs_fences s) + length fences\<rparr>)))"

text \<open>
  The row changes of a relinquishment and the fence it raises. A fence the
  ledger already holds for this epoch, reapplied after a crash, is not raised twice.
\<close>

definition relinquish_plane_transfer ::
    "plane_transfer \<Rightarrow> int \<Rightarrow> int \<Rightarrow> home_store \<Rightarrow> core_error + home_store \<times> fence_record list" where
  "relinquish_plane_transfer t now expires s =
     (let retired = \<lparr>au_state = Relinquished, au_epoch = pt_retired_epoch t\<rparr>;
          already = (case conversation_of (pt_conversation t) s of None \<Rightarrow> False | Some c \<Rightarrow> cr_authority c = retired);
          s1 = settle_plane_transfer (pt_id t) PhaseRelinquished now
                 (set_conversation_authority (pt_conversation t) retired s)
      in rbind (insert_trash \<lparr>tr_conversation = pt_conversation t, tr_reason = PlaneTransferred,
                  tr_trashed_at = now, tr_expires_at = expires\<rparr> s1) (\<lambda>s2.
           Inr (s2, if already then []
                    else record_fence \<lparr>fr_fenced_at = now, fr_conversation = pt_conversation t,
                           fr_retired_epoch = pt_retired_epoch t, fr_transfer = pt_id t, fr_target = pt_peer t\<rparr> [])))"

definition relinquish ::
    "'r bundle_lib \<Rightarrow> (core_error + unit) \<Rightarrow> uuid \<Rightarrow> uuid \<Rightarrow> ustring \<Rightarrow> int \<Rightarrow> uuid \<Rightarrow> home_store \<Rightarrow>
     core_error + authority_fence \<times> home_store" where
  "relinquish L ledger actor tid sha now eid s =
     rbind (recorded_transfer tid SourceRole s) (\<lambda>t.
     rbind (require_bundle t sha) (\<lambda>_.
       case pt_phase t of
         PhaseRelinquished \<Rightarrow> Inr (fence_of t (hs_plane s), s)
       | PhaseCommitted \<Rightarrow> Inl (internal ''transfer.phase_invalid'')
       | PhasePrepared \<Rightarrow>
           rbind (protections L (pt_conversation t) clean_workspace s) (\<lambda>ps.
           rbind (require (\<not> has_live_work ps) (conflict ''transfer.live_work'')) (\<lambda>_.
           rbind (relinquish_plane_transfer t now (i64_sat_add now TOMBSTONE_MS) s) (\<lambda>(s1, fences).
           let f = fence_of (with_phase PhaseRelinquished now t) (hs_plane s) in
           rbind (journal_and_audit eid actor (pt_conversation t)
                    (TransferRelinquished f (i64_sat_add now TOMBSTONE_MS)) D_Relinquished now s1) (\<lambda>s2.
           rbind (commit_fences ledger fences s2) (\<lambda>s3.
             Inr (f, s3))))))))"

definition fence_names :: "authority_fence \<Rightarrow> plane_transfer \<Rightarrow> uuid \<Rightarrow> bool" where
  "fence_names f t plane \<longleftrightarrow>
     af_transfer f = pt_id t \<and> af_conversation f = pt_conversation t \<and> af_retired_epoch f = pt_retired_epoch t \<and>
     af_source f = pt_peer t \<and> af_target f = plane"

definition commit_transfer ::
    "uuid \<Rightarrow> uuid \<Rightarrow> ustring \<Rightarrow> authority_fence \<Rightarrow> int \<Rightarrow> uuid \<Rightarrow> home_store \<Rightarrow> core_error + plane_transfer \<times> home_store" where
  "commit_transfer actor tid sha f now eid s =
     rbind (recorded_transfer tid TargetRole s) (\<lambda>t.
     rbind (require_bundle t sha) (\<lambda>_.
       case pt_phase t of
         PhaseCommitted \<Rightarrow> Inr (t, s)
       | PhaseRelinquished \<Rightarrow> Inl (internal ''transfer.phase_invalid'')
       | PhasePrepared \<Rightarrow>
           rbind (require (fence_names f t (hs_plane s)) (conflict ''transfer.fence_invalid'')) (\<lambda>_.
           rbind (ok_or (conversation_of (pt_conversation t) s) conversation_not_found) (\<lambda>c.
           rbind (ok_or (u64_checked_add (pt_retired_epoch t) 1) invalid_bundle) (\<lambda>epoch.
           rbind (require (cr_authority c = \<lparr>au_state = Prepared, au_epoch = epoch\<rparr>) not_authoritative) (\<lambda>_.
           let s1 = settle_plane_transfer tid PhaseCommitted now
                      (set_conversation_authority (pt_conversation t) \<lparr>au_state = Home, au_epoch = epoch\<rparr> s)
           in rbind (journal_and_audit eid actor (pt_conversation t)
                       (TransferCommitted tid (af_source f) epoch) D_Committed now s1) (\<lambda>s2.
                Inr (with_phase PhaseCommitted now t, s2))))))))"

definition abort_transfer :: "uuid \<Rightarrow> uuid \<Rightarrow> int \<Rightarrow> uuid \<Rightarrow> home_store \<Rightarrow> core_error + home_store" where
  "abort_transfer actor tid now eid s =
     rbind (recorded_transfer tid SourceRole s) (\<lambda>t.
     rbind (require (pt_phase t = PhasePrepared) (conflict ''transfer.relinquished'')) (\<lambda>_.
       journal_and_audit eid actor (pt_conversation t) (TransferAborted tid) D_Aborted now (delete_plane_transfer tid s)))"

section \<open>Jet Trash\<close>

definition require_unstaged :: "'r bundle_lib \<Rightarrow> uuid \<Rightarrow> home_store \<Rightarrow> core_error + protection list" where
  "require_unstaged L cid s =
     rbind (protections L cid clean_workspace s) (\<lambda>ps.
     rbind (require (trash_entry cid s = None) (conflict ''retention.already_trashed'')) (\<lambda>_.
     rbind (require_unfrozen cid s) (\<lambda>_. Inr ps)))"

fun staging_decision :: "trash_reason \<Rightarrow> core_error + home_decision" where
  "staging_decision ManualForget = Inr D_Forgotten"
| "staging_decision AutomaticForget = Inr D_Forgotten"
| "staging_decision AutodeleteRule = Inr D_Forgotten"
| "staging_decision DeleteEverywhere = Inr D_DeletionAuthorized"
| "staging_decision AutodeleteEverywhere = Inr D_DeletionAuthorized"
| "staging_decision PlaneTransferred = Inl (internal ''retention.tombstone_not_staged'')"

text \<open>\<open>by = None\<close> is the retention sweep, which writes no Event of its own.\<close>

definition stage ::
    "uuid option \<Rightarrow> uuid \<Rightarrow> trash_reason \<Rightarrow> int \<Rightarrow> int \<Rightarrow> uuid \<Rightarrow> home_store \<Rightarrow> core_error + trash_record \<times> home_store" where
  "stage by cid reason grace now eid s =
     (let r = \<lparr>tr_conversation = cid, tr_reason = reason, tr_trashed_at = now, tr_expires_at = i64_sat_add now grace\<rparr> in
      rbind (insert_trash r s) (\<lambda>s1.
      rbind (staging_decision reason) (\<lambda>d.
        case by of
          None \<Rightarrow> Inr (r, home_audit d cid now s1)
        | Some actor \<Rightarrow>
            rbind (journal_and_audit eid actor cid (ConversationTrashed reason (tr_expires_at r)) d now s1) (\<lambda>s2.
              Inr (r, s2)))))"

definition forget_conversation ::
    "'r bundle_lib \<Rightarrow> uuid \<Rightarrow> uuid \<Rightarrow> int \<Rightarrow> int \<Rightarrow> uuid \<Rightarrow> home_store \<Rightarrow> core_error + trash_record \<times> home_store" where
  "forget_conversation L actor cid grace now eid s =
     rbind (require_unstaged L cid s) (\<lambda>ps.
     rbind (require (\<not> has_live_work ps) (conflict ''retention.live_work'')) (\<lambda>_.
       stage (Some actor) cid ManualForget grace now eid s))"

definition restore_conversation :: "uuid \<Rightarrow> uuid \<Rightarrow> int \<Rightarrow> uuid \<Rightarrow> home_store \<Rightarrow> core_error + home_store" where
  "restore_conversation actor cid now eid s =
     (case trash_entry cid s of
        None \<Rightarrow> Inl (not_found ''retention.not_trashed'')
      | Some r \<Rightarrow>
          if tr_reason r = PlaneTransferred then Inl (conflict ''retention.transferred'')
          else journal_and_audit eid actor cid ConversationRestored D_Restored now
                 (s\<lparr>hs_trash := filter (\<lambda>x. tr_conversation x \<noteq> cid) (hs_trash s)\<rparr>))"

text \<open>
  The sweep asks the store twice: outside any transaction, then, with what it saw of the Workspace
  (\<open>None\<close> when Git could not be asked), in the transaction that stages.
\<close>

definition stage_if_unprotected ::
    "'r bundle_lib \<Rightarrow> workspace_state option \<Rightarrow> uuid \<Rightarrow> trash_reason option \<Rightarrow> int \<Rightarrow> int \<Rightarrow> home_store \<Rightarrow> home_store \<Rightarrow>
     core_error + bool \<times> home_store" where
  "stage_if_unprotected L ws cid reason grace now snapshot s =
     rbind (protections L cid clean_workspace snapshot) (\<lambda>found.
       if found \<noteq> [] then Inr (False, s)
       else
         (case ws of
            None \<Rightarrow> Inr (False, s)
          | Some state \<Rightarrow>
              rbind (protections L cid state s) (\<lambda>ps.
                if ps \<noteq> [] \<or> trash_entry cid s \<noteq> None then Inr (False, s)
                else
                  (case reason of
                     None \<Rightarrow> Inr (False, s)
                   | Some why \<Rightarrow> rbind (stage None cid why grace now 0 s) (\<lambda>(r, s'). Inr (True, s'))))))"

definition delete_conversation :: "uuid \<Rightarrow> home_store \<Rightarrow> home_store" where
  "delete_conversation cid s =
     (purge_rows cid s)\<lparr>hs_deletions := hs_deletions s @ [cid], hs_deletions_applied := length (hs_deletions s) + 1\<rparr>"

definition expired_trash :: "int \<Rightarrow> home_store \<Rightarrow> trash_record list" where
  "expired_trash now s =
     take 16 (sort_key tr_expires_at (sort_key tr_conversation (filter (\<lambda>r. tr_expires_at r \<le> now) (hs_trash s))))"

definition delete_for_good :: "'r bundle_lib \<Rightarrow> trash_record \<Rightarrow> int \<Rightarrow> home_store \<Rightarrow> core_error + bool \<times> home_store" where
  "delete_for_good L r now s =
     rbind (protections L (tr_conversation r) clean_workspace s) (\<lambda>ps.
       if ActiveRun \<in> set ps \<or> PendingTurn \<in> set ps \<or> UnresolvedEffect \<in> set ps then Inr (False, s)
       else Inr (True, anonymize_home_audit (tr_conversation r)
         (home_audit D_Deleted (tr_conversation r) now (delete_conversation (tr_conversation r) s))))"

section \<open>Opening the store\<close>

definition retire_fenced :: "fence_record \<Rightarrow> home_store \<Rightarrow> home_store" where
  "retire_fenced f =
     update_conversation (fr_conversation f) (\<lambda>c.
       if au_epoch (cr_authority c) = fr_retired_epoch f \<and> au_state (cr_authority c) = Home
       then c\<lparr>cr_authority := (cr_authority c)\<lparr>au_state := Relinquished\<rparr>, cr_revision := cr_revision c + 1\<rparr>
       else c)"

definition reapply_fences :: "home_store \<Rightarrow> home_store" where
  "reapply_fences s =
     (let s1 = fold retire_fenced (hs_fences s) s
      in s1\<lparr>hs_fences_applied := max (hs_fences_applied s) (length (hs_fences s))\<rparr>)"

definition reapply_deletions :: "home_store \<Rightarrow> home_store" where
  "reapply_deletions s =
     (let s1 = fold purge_rows (hs_deletions s) s
      in s1\<lparr>hs_deletions_applied := max (hs_deletions_applied s) (length (hs_deletions s))\<rparr>)"

definition reopen :: "home_store \<Rightarrow> home_store" where
  "reopen s = reapply_fences (reapply_deletions s)"

section \<open>What the operations do to authority and transfers\<close>

definition authority_of :: "uuid \<Rightarrow> home_store \<Rightarrow> authority_record option" where
  "authority_of cid s = map_option cr_authority (conversation_of cid s)"

text \<open>Two stores with the same Conversation rows, transfers and ledgers.\<close>

definition same_core :: "home_store \<Rightarrow> home_store \<Rightarrow> bool" where
  "same_core s s' \<longleftrightarrow>
     hs_plane s' = hs_plane s \<and> hs_conversations s' = hs_conversations s \<and> hs_transfers s' = hs_transfers s \<and>
     hs_fences s' = hs_fences s \<and> hs_deletions s' = hs_deletions s"

lemma same_core_refl [simp]: "same_core s s"
  by (simp add: same_core_def)

lemma same_core_trans: "same_core s t \<Longrightarrow> same_core t u \<Longrightarrow> same_core s u"
  by (simp add: same_core_def)

lemma same_core_conversation: "same_core s s' \<Longrightarrow> conversation_of cid s' = conversation_of cid s"
  by (simp add: same_core_def conversation_of_def)

lemma same_core_authority: "same_core s s' \<Longrightarrow> authority_of cid s' = authority_of cid s"
  by (simp add: authority_of_def same_core_conversation)

lemma rfold_core:
  assumes "\<And>x s s'. f x s = Inr s' \<Longrightarrow> same_core s s'"
  shows "rfold f xs s = Inr s' \<Longrightarrow> same_core s s'"
proof (induction xs arbitrary: s)
  case (Cons x xs)
  then obtain s1 where "f x s = Inr s1" "rfold f xs s1 = Inr s'" by (auto simp: rbind_Inr_iff)
  then show ?case using Cons.IH assms same_core_trans by blast
qed simp

lemma fold_core:
  assumes "\<And>x s. same_core s (f x s)"
  shows "same_core s (fold f xs s)"
proof (induction xs arbitrary: s)
  case (Cons x xs)
  then show ?case using assms [of s x] same_core_trans [of s "f x s"] by simp
qed simp

lemma update_run_core: "same_core s (update_run rid f s)"
  by (simp add: same_core_def update_run_def)

lemma import_run_core: "import_run cid r s = Inr s' \<Longrightarrow> same_core s s'"
  by (auto simp: import_run_def insert_run_def update_run_lifecycle_row_def update_run_name_row_def rbind_Inr_iff
      same_core_def update_run_def)

lemma append_event_record_core: "append_event_record e s = Inr s' \<Longrightarrow> same_core s s'"
  by (auto simp: append_event_record_def rbind_Inr_iff same_core_def)

lemma import_content_core:
  assumes "import_content L b s = Inr s'"
  shows "same_core s s'"
proof -
  let ?cid = "bc_id (tb_conversation b)"
  from assms obtain s1 s2 s4 s5 where r: "rfold (import_run ?cid) (tb_runs b) s = Inr s1"
    and e: "rfold (import_event ?cid) (tb_events b) s1 = Inr s2"
    and q: "import_queue L ?cid (tb_turn_queue b) (fold reference_artifact (tb_artifacts b) s2) = Inr s4"
    and w: "rfold (import_schedule L) (tb_schedules b) s4 = Inr s5"
    and s': "s' = fold (import_setting ?cid) (tb_settings b) s5"
    by (auto simp: import_content_def Let_def rbind_Inr_iff)
  have "same_core s s1" using r by (rule rfold_core [rotated]) (rule import_run_core)
  moreover have "same_core s1 s2"
    using e by (rule rfold_core [rotated]) (auto simp: import_event_def intro: append_event_record_core)
  moreover have "same_core s2 (fold reference_artifact (tb_artifacts b) s2)"
    by (rule fold_core) (simp add: reference_artifact_def same_core_def)
  moreover have "same_core (fold reference_artifact (tb_artifacts b) s2) s4"
    using q by (auto simp: import_queue_def save_turn_queue_def same_core_def rbind_Inr_iff split: option.splits)
  moreover have "same_core s4 s5"
    using w by (rule rfold_core [rotated])
      (auto simp: import_schedule_def save_schedule_row_def same_core_def rbind_Inr_iff)
  moreover have "same_core s5 s'"
    unfolding s' by (rule fold_core) (simp add: import_setting_def upsert_setting_def same_core_def)
  ultimately show ?thesis using same_core_trans by blast
qed

lemma journal_and_audit_core: "journal_and_audit eid actor cid e d now s = Inr s' \<Longrightarrow> same_core s s'"
  by (auto simp: journal_and_audit_def home_audit_def append_event_record_def rbind_Inr_iff same_core_def)

lemma find_map_same:
  assumes "\<And>c. cr_id (f c) = cr_id c"
  shows "find (\<lambda>c. cr_id c = cid) (map (\<lambda>c. if cr_id c = k then f c else c) cs) =
    (if cid = k then map_option f (find (\<lambda>c. cr_id c = cid) cs) else find (\<lambda>c. cr_id c = cid) cs)"
  using assms by (induction cs) auto

lemma conversation_of_update:
  assumes "\<And>c. cr_id (f c) = cr_id c"
  shows "conversation_of cid (update_conversation k f s) =
    (if cid = k then map_option f (conversation_of cid s) else conversation_of cid s)"
  using find_map_same [of f, OF assms] by (simp add: conversation_of_def update_conversation_def)

lemma authority_of_set:
  "authority_of cid (set_conversation_authority k a s) =
   (if cid = k \<and> authority_of cid s \<noteq> None then Some a else authority_of cid s)"
  by (auto simp: authority_of_def set_conversation_authority_def conversation_of_update)

lemma authority_of_name: "authority_of cid (update_conversation_name_row k n s) = authority_of cid s"
  by (auto simp: authority_of_def update_conversation_name_row_def conversation_of_update option.map_comp comp_def)

lemma find_filter_out:
  "find (\<lambda>c. cr_id c = cid) (filter (\<lambda>c. cr_id c \<noteq> k) cs) = (if cid = k then None else find (\<lambda>c. cr_id c = cid) cs)"
  by (induction cs) auto

lemma authority_of_purge: "authority_of cid (purge_rows k s) = (if cid = k then None else authority_of cid s)"
  by (simp add: authority_of_def conversation_of_def purge_rows_def Let_def find_filter_out)

lemma purge_rows_sel [simp]:
  "hs_plane (purge_rows k s) = hs_plane s"
  "hs_transfers (purge_rows k s) = filter (\<lambda>t. pt_conversation t \<noteq> k) (hs_transfers s)"
  "hs_fences (purge_rows k s) = hs_fences s" "hs_deletions (purge_rows k s) = hs_deletions s"
  by (simp_all add: purge_rows_def Let_def)

lemma authority_of_insert:
  "insert_conversation n s = Inr s' \<Longrightarrow>
   authority_of cid s' = (if cid = nc_id n then Some HOME_AUTHORITY else authority_of cid s)"
  by (auto simp: insert_conversation_def rbind_Inr_iff authority_of_def conversation_of_def find_append split: option.splits)

lemma fold_pick: "fold (\<lambda>x best. if P best x then x else best) xs y \<in> set (y # xs)"
proof (induction xs arbitrary: y)
  case (Cons x xs)
  then show ?case using Cons [of x] Cons [of y] by auto
qed simp

lemma open_plane_transfer_None:
  "open_plane_transfer cid s = None \<longleftrightarrow>
   (\<forall>t\<in>set (hs_transfers s). pt_conversation t = cid \<longrightarrow> pt_phase t \<noteq> PhasePrepared)"
  by (auto simp: open_plane_transfer_def filter_empty_conv split: list.splits)
    (metis (mono_tags, lifting) list.set_intros(1) mem_Collect_eq set_filter)

lemma open_plane_transfer_Some:
  assumes "open_plane_transfer cid s = Some t"
  shows "t \<in> set (hs_transfers s) \<and> pt_conversation t = cid \<and> pt_phase t = PhasePrepared"
proof -
  let ?rows = "filter (\<lambda>t. pt_conversation t = cid \<and> pt_phase t = PhasePrepared) (hs_transfers s)"
  from assms obtain y ys where r: "?rows = y # ys"
    and t: "t = fold (\<lambda>x best. if pt_prepared_at best < pt_prepared_at x then x else best) ys y"
    by (auto simp: open_plane_transfer_def split: list.splits)
  have "t \<in> set ?rows" unfolding r t by (rule fold_pick)
  then show ?thesis by simp
qed

lemma plane_transfer_of_Some: "plane_transfer_of tid s = Some t \<Longrightarrow> t \<in> set (hs_transfers s) \<and> pt_id t = tid"
  by (auto simp: plane_transfer_of_def find_Some_iff)

lemma plane_transfer_of_None: "plane_transfer_of tid s = None \<longleftrightarrow> tid \<notin> pt_id ` set (hs_transfers s)"
  by (auto simp: plane_transfer_of_def find_None_iff)

text \<open>What a transfer is about: its Conversation, the epoch it retires, its source and its target.\<close>

definition bundle_info :: "transfer_bundle \<Rightarrow> uuid \<times> u64 \<times> uuid \<times> uuid" where
  "bundle_info b = (bc_id (tb_conversation b), bc_retired_epoch (tb_conversation b), tb_source b, tb_target b)"

lemma capture_info:
  "capture t source s = Inr b \<Longrightarrow>
   tb_transfer b = pt_id t \<and> bundle_info b = (pt_conversation t, pt_retired_epoch t, source, pt_peer t)"
  by (auto simp: capture_def Let_def rbind_Inr_iff bundle_info_def)

lemma plan_continued:
  "plan L cid target now tid s = Inr p \<Longrightarrow> open_plane_transfer cid s = Some t \<Longrightarrow>
   pn_transfer p = t \<and> pn_recorded p \<and> pt_role t = SourceRole"
  by (auto simp: plan_def rbind_Inr_iff split: if_splits)

lemma plan_begun:
  assumes "plan L cid target now tid s = Inr p" and "open_plane_transfer cid s = None"
  obtains a where "authority_of cid s = Some a" "au_state a = Home" "\<not> pn_recorded p"
    "pn_transfer p = \<lparr>pt_id = tid, pt_conversation = cid, pt_role = SourceRole, pt_phase = PhasePrepared,
       pt_retired_epoch = au_epoch a, pt_peer = target, pt_bundle = [], pt_prepared_at = now, pt_settled_at = None\<rparr>"
  using assms by (auto simp: plan_def rbind_Inr_iff authority_of_def)

lemma insert_plane_transfer_Inr:
  "insert_plane_transfer t s = Inr s' \<longleftrightarrow>
   pt_id t \<notin> pt_id ` set (hs_transfers s) \<and> authority_of (pt_conversation t) s \<noteq> None \<and>
   s' = s\<lparr>hs_transfers := hs_transfers s @ [t]\<rparr>"
  by (auto simp: insert_plane_transfer_def rbind_Inr_iff plane_transfer_of_None authority_of_def)

lemma authority_of_transfers [simp]: "authority_of cid (s\<lparr>hs_transfers := ts\<rparr>) = authority_of cid s"
  by (simp add: authority_of_def conversation_of_def)

lemma prepare_transfer_Inr:
  assumes "prepare_plane_transfer L files actor cid target now tid tid' eid s s = Inr ((t, bs), s')"
  obtains (again) b where "s' = s" "t \<in> set (hs_transfers s)" "pt_role t = SourceRole"
      "encode_bundle L files b = Inr bs" "tb_transfer b = pt_id t"
      "bundle_info b = (pt_conversation t, pt_retired_epoch t, hs_plane s, pt_peer t)"
  | (fresh) a b where "authority_of cid s = Some a" "au_state a = Home" "open_plane_transfer cid s = None"
      "pt_id t = tid" "pt_conversation t = cid" "pt_role t = SourceRole" "pt_phase t = PhasePrepared"
      "pt_retired_epoch t = au_epoch a" "tid \<notin> pt_id ` set (hs_transfers s)"
      "hs_transfers s' = hs_transfers s @ [t]" "\<And>k. authority_of k s' = authority_of k s" "hs_plane s' = hs_plane s"
      "encode_bundle L files b = Inr bs" "tb_transfer b = pt_id t"
      "bundle_info b = (pt_conversation t, pt_retired_epoch t, hs_plane s, pt_peer t)"
proof -
  from assms obtain p b where p: "plan L cid target now tid s = Inr p"
    and b: "capture (pn_transfer p) (hs_plane s) s = Inr b" "encode_bundle L files b = Inr bs"
    and w: "prepare_write L actor cid target now tid' eid p (content_hash (format_lib.truncate L) bs) s = Inr (t, s')"
    by (auto simp: prepare_plane_transfer_def rbind_Inr_iff)
  note info = capture_info [OF b(1)]
  from w obtain p' where p': "plan L cid target now tid' s = Inr p'"
    by (auto simp: prepare_write_def rbind_Inr_iff)
  show thesis
  proof (cases "open_plane_transfer cid s")
    case (Some t0)
    note c = plan_continued [OF p Some] and c' = plan_continued [OF p' Some]
    then have "t = t0" "s' = s"
      using w p' by (auto simp: prepare_write_def require_bundle_def require_def split: if_splits)
    then show thesis using again b(2) info c open_plane_transfer_Some [OF Some] by metis
  next
    case None
    from plan_begun [OF p None] obtain a where a: "authority_of cid s = Some a" "au_state a = Home" "\<not> pn_recorded p"
      "pn_transfer p = \<lparr>pt_id = tid, pt_conversation = cid, pt_role = SourceRole, pt_phase = PhasePrepared,
         pt_retired_epoch = au_epoch a, pt_peer = target, pt_bundle = [], pt_prepared_at = now, pt_settled_at = None\<rparr>" .
    from plan_begun [OF p' None] have "\<not> pn_recorded p'" by blast
    with w p' a(3) obtain s1 where t: "t = (pn_transfer p)\<lparr>pt_bundle := content_hash (format_lib.truncate L) bs\<rparr>"
      and i: "insert_plane_transfer t s = Inr s1"
      and j: "journal_and_audit eid actor cid (TransferPrepared (pt_id t) target (pt_retired_epoch t)) D_Prepared now s1 = Inr s'"
      by (auto simp: prepare_write_def Let_def rbind_Inr_iff split: if_splits)
    from i have s1: "s1 = s\<lparr>hs_transfers := hs_transfers s @ [t]\<rparr>" "pt_id t \<notin> pt_id ` set (hs_transfers s)"
      by (simp_all add: insert_plane_transfer_Inr)
    note core = journal_and_audit_core [OF j]
    show thesis
      by (rule fresh [of a b])
        (use a t s1 b(2) info core same_core_authority [OF core] None in \<open>auto simp: same_core_def\<close>)
  qed
qed

lemma make_room_Inr:
  assumes "make_room cid epoch s = Inr s'"
  shows "authority_of cid s = None \<and> s' = s \<or>
    (\<exists>a. authority_of cid s = Some a \<and> au_state a = Relinquished \<and> au_epoch a < epoch) \<and> s' = purge_rows cid s"
  using assms by (auto simp: make_room_def discard_transfer_tombstone_def authority_of_def split: option.splits if_splits)

lemma import_Inr:
  assumes "import_record L actor p now eid s = Inr (t, s')"
  obtains (again) "s' = s" "plane_transfer_of (tb_transfer (pi_bundle p)) s = Some t"
  | (fresh) epoch s1 where "tb_transfer (pi_bundle p) \<notin> pt_id ` set (hs_transfers s)"
      "u64_checked_add (bc_retired_epoch (tb_conversation (pi_bundle p))) 1 = Some epoch"
      "make_room (bc_id (tb_conversation (pi_bundle p))) epoch s = Inr s1"
      "\<And>k. authority_of k s' = (if k = bc_id (tb_conversation (pi_bundle p))
         then Some \<lparr>au_state = Prepared, au_epoch = epoch\<rparr> else authority_of k s)"
      "hs_transfers s' = hs_transfers s1 @ [t]" "hs_plane s' = hs_plane s"
      "t = \<lparr>pt_id = tb_transfer (pi_bundle p), pt_conversation = bc_id (tb_conversation (pi_bundle p)),
         pt_role = TargetRole, pt_phase = PhasePrepared,
         pt_retired_epoch = bc_retired_epoch (tb_conversation (pi_bundle p)), pt_peer = tb_source (pi_bundle p),
         pt_bundle = pi_sha256 p, pt_prepared_at = now, pt_settled_at = None\<rparr>"
proof (cases "plane_transfer_of (tb_transfer (pi_bundle p)) s")
  case (Some t0)
  then show thesis using assms again by (auto simp: import_record_def Let_def rbind_Inr_iff)
next
  case None
  let ?b = "pi_bundle p"
  let ?c = "tb_conversation ?b"
  let ?cid = "bc_id ?c"
  let ?n = "\<lparr>nc_id = ?cid, nc_retention = bc_retention ?c, nc_tree = pi_tree p, nc_created = bc_created ?c\<rparr>"
  let ?t = "\<lparr>pt_id = tb_transfer ?b, pt_conversation = ?cid, pt_role = TargetRole, pt_phase = PhasePrepared,
     pt_retired_epoch = bc_retired_epoch ?c, pt_peer = tb_source ?b, pt_bundle = pi_sha256 p, pt_prepared_at = now, pt_settled_at = None\<rparr>"
  from assms None obtain epoch s1 s2 s4 s5 where e: "u64_checked_add (bc_retired_epoch ?c) 1 = Some epoch"
    and m: "make_room ?cid epoch s = Inr s1" and i: "insert_conversation ?n s1 = Inr s2"
    and c: "import_content L ?b (set_conversation_authority ?cid \<lparr>au_state = Prepared, au_epoch = epoch\<rparr>
        (update_conversation_name_row ?cid (bc_name ?c) s2)) = Inr s4"
    and x: "insert_plane_transfer ?t s4 = Inr s5"
    and j: "journal_and_audit eid actor ?cid (TransferImported (tb_transfer ?b) (tb_source ?b) epoch) D_Imported now s5 = Inr s'"
    and t: "t = ?t"
    by (auto simp: import_record_def Let_def rbind_Inr_iff)
  have s2: "hs_transfers s2 = hs_transfers s1" "hs_plane s2 = hs_plane s1"
    using i by (auto simp: insert_conversation_def rbind_Inr_iff)
  have core: "same_core (set_conversation_authority ?cid \<lparr>au_state = Prepared, au_epoch = epoch\<rparr>
      (update_conversation_name_row ?cid (bc_name ?c) s2)) s4"
    by (rule import_content_core [OF c])
  have s4: "hs_transfers s4 = hs_transfers s1" "hs_plane s4 = hs_plane s"
    using core s2 make_room_Inr [OF m]
    by (auto simp: same_core_def set_conversation_authority_def update_conversation_name_row_def update_conversation_def)
  have a4: "authority_of k s4 = (if k = ?cid then Some \<lparr>au_state = Prepared, au_epoch = epoch\<rparr> else authority_of k s)" for k
    using make_room_Inr [OF m] authority_of_insert [OF i, of k] same_core_authority [OF core, of k]
    by (auto simp: authority_of_set authority_of_name authority_of_purge)
  have s5: "s5 = s4\<lparr>hs_transfers := hs_transfers s4 @ [?t]\<rparr>" using x by (simp add: insert_plane_transfer_Inr)
  note core' = journal_and_audit_core [OF j]
  show thesis
    by (rule fresh [OF _ e m])
      (use None a4 s4 s5 t core' same_core_authority [OF core'] in \<open>auto simp: same_core_def plane_transfer_of_None\<close>)
qed

lemma recorded_transfer_Inr:
  "recorded_transfer tid role s = Inr t \<longleftrightarrow> plane_transfer_of tid s = Some t \<and> pt_role t = role"
  by (auto simp: recorded_transfer_def rbind_Inr_iff)

lemma protections_exist: "protections L cid ws s = Inr ps \<Longrightarrow> authority_of cid s \<noteq> None"
  by (auto simp: protections_def load_stored_queue_def rbind_Inr_iff authority_of_def)

definition settle_row :: "uuid \<Rightarrow> plane_transfer_phase \<Rightarrow> int \<Rightarrow> plane_transfer \<Rightarrow> plane_transfer" where
  "settle_row tid ph now t = (if pt_id t = tid then with_phase ph now t else t)"

lemma settle_row_fields [simp]:
  "pt_id (settle_row tid ph now t) = pt_id t" "pt_conversation (settle_row tid ph now t) = pt_conversation t"
  "pt_role (settle_row tid ph now t) = pt_role t" "pt_retired_epoch (settle_row tid ph now t) = pt_retired_epoch t"
  "pt_peer (settle_row tid ph now t) = pt_peer t"
  "pt_phase (settle_row tid ph now t) = (if pt_id t = tid then ph else pt_phase t)"
  by (simp_all add: settle_row_def with_phase_def)

lemma settle_plane_transfer_sel [simp]:
  "hs_transfers (settle_plane_transfer tid ph now s) = map (settle_row tid ph now) (hs_transfers s)"
  "hs_plane (settle_plane_transfer tid ph now s) = hs_plane s"
  "authority_of k (settle_plane_transfer tid ph now s) = authority_of k s"
  by (simp_all add: settle_plane_transfer_def settle_row_def [abs_def] authority_of_def conversation_of_def)

lemma set_conversation_authority_sel [simp]:
  "hs_transfers (set_conversation_authority k a s) = hs_transfers s"
  "hs_plane (set_conversation_authority k a s) = hs_plane s"
  by (simp_all add: set_conversation_authority_def update_conversation_def)

lemma insert_trash_Inr:
  "insert_trash r s = Inr s' \<Longrightarrow>
   hs_transfers s' = hs_transfers s \<and> hs_plane s' = hs_plane s \<and> authority_of k s' = authority_of k s"
  by (auto simp: insert_trash_def rbind_Inr_iff authority_of_def conversation_of_def)

lemma commit_fences_rows:
  "commit_fences ledger fences s = Inr s' \<Longrightarrow>
   hs_plane s' = hs_plane s \<and> hs_conversations s' = hs_conversations s \<and> hs_transfers s' = hs_transfers s"
  by (auto simp: commit_fences_def rbind_Inr_iff split: if_splits)

lemma commit_fences_authority: "commit_fences ledger fences s = Inr s' \<Longrightarrow> authority_of k s' = authority_of k s"
  using commit_fences_rows by (auto simp: authority_of_def conversation_of_def)

lemma relinquish_Inr:
  assumes "relinquish L ledger actor tid sha now eid s = Inr (f, s')"
  obtains (again) t where "s' = s" "t \<in> set (hs_transfers s)" "pt_role t = SourceRole" "pt_phase t = PhaseRelinquished"
      "f = fence_of t (hs_plane s)"
  | (retired) t where "t \<in> set (hs_transfers s)" "pt_id t = tid" "pt_role t = SourceRole" "pt_phase t = PhasePrepared"
      "authority_of (pt_conversation t) s \<noteq> None" "f = fence_of (with_phase PhaseRelinquished now t) (hs_plane s)"
      "hs_transfers s' = map (settle_row tid PhaseRelinquished now) (hs_transfers s)" "hs_plane s' = hs_plane s"
      "\<And>k. authority_of k s' = (if k = pt_conversation t
         then Some \<lparr>au_state = Relinquished, au_epoch = pt_retired_epoch t\<rparr> else authority_of k s)"
proof -
  from assms obtain t where t: "plane_transfer_of tid s = Some t" "pt_role t = SourceRole"
    by (auto simp: relinquish_def rbind_Inr_iff recorded_transfer_Inr)
  note row = plane_transfer_of_Some [OF t(1)]
  have rec: "recorded_transfer tid SourceRole s = Inr t" using t by (simp add: recorded_transfer_Inr)
  show thesis
  proof (cases "pt_phase t")
    case PhasePrepared
    with assms rec obtain ps s1 fences s2 where p: "protections L (pt_conversation t) clean_workspace s = Inr ps"
      and r: "relinquish_plane_transfer t now (i64_sat_add now TOMBSTONE_MS) s = Inr (s1, fences)"
      and j: "journal_and_audit eid actor (pt_conversation t)
          (TransferRelinquished f (i64_sat_add now TOMBSTONE_MS)) D_Relinquished now s1 = Inr s2"
      and c: "commit_fences ledger fences s2 = Inr s'"
      and f: "f = fence_of (with_phase PhaseRelinquished now t) (hs_plane s)"
      by (auto simp: relinquish_def rbind_Inr_iff Let_def)
    note core = journal_and_audit_core [OF j] and ex = protections_exist [OF p] and rows = commit_fences_rows [OF c]
    from r have s1: "hs_transfers s1 = map (settle_row (pt_id t) PhaseRelinquished now) (hs_transfers s)"
      "hs_plane s1 = hs_plane s"
      "authority_of k s1 = (if k = pt_conversation t \<and> authority_of k s \<noteq> None
         then Some \<lparr>au_state = Relinquished, au_epoch = pt_retired_epoch t\<rparr> else authority_of k s)" for k
      by (auto simp: relinquish_plane_transfer_def Let_def rbind_Inr_iff authority_of_set dest!: insert_trash_Inr [where k = k])
    show thesis
      by (rule retired [of t])
        (use row t PhasePrepared ex f core s1 rows commit_fences_authority [OF c] same_core_authority [OF core] in
          \<open>auto simp: same_core_def\<close>)
  next
    case PhaseRelinquished
    with assms rec have "s' = s" "f = fence_of t (hs_plane s)" by (auto simp: relinquish_def rbind_Inr_iff)
    then show thesis using again row t PhaseRelinquished by metis
  next
    case PhaseCommitted
    with assms rec show thesis by (auto simp: relinquish_def rbind_Inr_iff)
  qed
qed

lemma commit_Inr:
  assumes "commit_transfer actor tid sha f now eid s = Inr (t', s')"
  obtains (again) "s' = s"
  | (taken) t epoch where "t \<in> set (hs_transfers s)" "pt_id t = tid" "pt_role t = TargetRole" "pt_phase t = PhasePrepared"
      "fence_names f t (hs_plane s)" "u64_checked_add (pt_retired_epoch t) 1 = Some epoch"
      "authority_of (pt_conversation t) s = Some \<lparr>au_state = Prepared, au_epoch = epoch\<rparr>"
      "hs_transfers s' = map (settle_row tid PhaseCommitted now) (hs_transfers s)" "hs_plane s' = hs_plane s"
      "\<And>k. authority_of k s' = (if k = pt_conversation t
         then Some \<lparr>au_state = Home, au_epoch = epoch\<rparr> else authority_of k s)"
proof -
  from assms obtain t where t: "plane_transfer_of tid s = Some t" "pt_role t = TargetRole"
    by (auto simp: commit_transfer_def rbind_Inr_iff recorded_transfer_Inr)
  note row = plane_transfer_of_Some [OF t(1)]
  have rec: "recorded_transfer tid TargetRole s = Inr t" using t by (simp add: recorded_transfer_Inr)
  show thesis
  proof (cases "pt_phase t")
    case PhasePrepared
    let ?home = "\<lambda>epoch. settle_plane_transfer tid PhaseCommitted now
      (set_conversation_authority (pt_conversation t) \<lparr>au_state = Home, au_epoch = epoch\<rparr> s)"
    from PhasePrepared assms rec obtain c epoch where c: "conversation_of (pt_conversation t) s = Some c"
      and e: "u64_checked_add (pt_retired_epoch t) 1 = Some epoch" and n: "fence_names f t (hs_plane s)"
      and a: "cr_authority c = \<lparr>au_state = Prepared, au_epoch = epoch\<rparr>"
      and j: "journal_and_audit eid actor (pt_conversation t) (TransferCommitted tid (af_source f) epoch) D_Committed now (?home epoch) = Inr s'"
      by (auto simp: commit_transfer_def rbind_Inr_iff Let_def)
    note core = journal_and_audit_core [OF j]
    have "authority_of (pt_conversation t) s = Some \<lparr>au_state = Prepared, au_epoch = epoch\<rparr>"
      using c a by (simp add: authority_of_def)
    then show thesis
      by (intro taken [of t epoch])
        (use row t PhasePrepared e n core same_core_authority [OF core] in \<open>auto simp: same_core_def authority_of_set\<close>)
  next
    case PhaseRelinquished
    with assms rec show thesis by (auto simp: commit_transfer_def rbind_Inr_iff)
  next
    case PhaseCommitted
    with assms rec again show thesis by (auto simp: commit_transfer_def rbind_Inr_iff)
  qed
qed

end
