(* ===== verification/Jet_Home.thy ===== *)
theory Jet_Home
  imports Jet_Transfer
begin

text \<open>
  Several Planes and the clients that carry bundles and fences between them
  (\<open>docs/plane-transfer.md\<close>). A world is one store per Plane with the bundles a prepare has returned and
  the fences a relinquish has returned. Clients are honest carriers: they present bundles and fences
  that were returned. They import a bundle at any time and as often as they like, with one exception: not
  on a target that has committed the transfer and has since discarded its record of it. Nothing on the
  target refuses that import (\<open>fenced_epoch_taken_again\<close> in \<open>Jet_Arrival\<close>), and after it the old fence would make the
  target Home a second time. The specification is a
  single holder per Conversation, which is either at a Plane in an epoch or on its way to one.
\<close>

section \<open>The world\<close>

record home_world =
  hw_planes :: "uuid \<Rightarrow> home_store"
  hw_created :: "uuid list"
  hw_transfers :: "uuid list"
  hw_bundles :: "bytes list"
  hw_fences :: "authority_fence list"
  hw_taken :: "uuid list"

definition empty_store :: "uuid \<Rightarrow> home_store" where
  "empty_store p =
     \<lparr>hs_plane = p, hs_conversations = [], hs_runs = [], hs_events = [], hs_queues = [], hs_schedules = [],
      hs_settings = [], hs_artifacts = [], hs_transfers = [], hs_trash = [], hs_effects = [], hs_audit = [],
      hs_fences = [], hs_fences_applied = 0, hs_deletions = [], hs_deletions_applied = 0\<rparr>"

definition new_world :: home_world where
  "new_world = \<lparr>hw_planes = empty_store, hw_created = [], hw_transfers = [], hw_bundles = [], hw_fences = [], hw_taken = []\<rparr>"

definition set_plane :: "uuid \<Rightarrow> home_store \<Rightarrow> home_world \<Rightarrow> home_world" where
  "set_plane p s W = W\<lparr>hw_planes := (hw_planes W)(p := s)\<rparr>"

text \<open>The Plane has not committed the transfer, or still has its record of it.\<close>

definition importable :: "uuid \<Rightarrow> uuid \<Rightarrow> home_world \<Rightarrow> bool" where
  "importable tid p W \<longleftrightarrow> tid \<notin> set (hw_taken W) \<or> plane_transfer_of tid (hw_planes W p) \<noteq> None"

text \<open>Everything a Plane does outside transfers: authority and transfer rows stay.\<close>

definition other_work :: "home_store \<Rightarrow> home_store \<Rightarrow> bool" where
  "other_work s s' \<longleftrightarrow>
     hs_plane s' = hs_plane s \<and> hs_transfers s' = hs_transfers s \<and> (\<forall>k. authority_of k s' = authority_of k s)"

inductive home_step :: "'r bundle_lib \<Rightarrow> home_world \<Rightarrow> home_world \<Rightarrow> bool" for L where
  create: "nc_id n \<notin> set (hw_created W) \<Longrightarrow> insert_conversation n (hw_planes W p) = Inr s \<Longrightarrow>
    home_step L W ((set_plane p s W)\<lparr>hw_created := nc_id n # hw_created W\<rparr>)"
| prepare: "tid \<notin> set (hw_transfers W) \<Longrightarrow>
    prepare_plane_transfer L files actor cid target now tid tid' eid (hw_planes W p) (hw_planes W p) = Inr ((t, bs), s) \<Longrightarrow>
    home_step L W ((set_plane p s W)\<lparr>hw_transfers := pt_id t # hw_transfers W, hw_bundles := bs # hw_bundles W\<rparr>)"
| import: "bs \<in> set (hw_bundles W) \<Longrightarrow>
    prepare_plane_transfer_import L projects disk publish bs project (hw_planes W p) = Inr pi \<Longrightarrow>
    importable (tb_transfer (pi_bundle pi)) p W \<Longrightarrow>
    import_record L actor pi now eid (hw_planes W p) = Inr (t, s) \<Longrightarrow> home_step L W (set_plane p s W)"
| relinquish: "relinquish L ledger actor tid sha now eid (hw_planes W p) = Inr (f, s) \<Longrightarrow>
    home_step L W ((set_plane p s W)\<lparr>hw_fences := f # hw_fences W\<rparr>)"
| relinquish_crash: "relinquish L ledger actor tid sha now eid (hw_planes W p) = Inr (f, s) \<Longrightarrow>
    home_step L W (set_plane p (reopen ((hw_planes W p)\<lparr>hs_fences := hs_fences s\<rparr>)) W)"
| commit: "f \<in> set (hw_fences W) \<Longrightarrow> commit_transfer actor tid sha f now eid (hw_planes W p) = Inr (t, s) \<Longrightarrow>
    home_step L W ((set_plane p s W)\<lparr>hw_taken := tid # hw_taken W\<rparr>)"
| abort: "abort_transfer actor tid now eid (hw_planes W p) = Inr s \<Longrightarrow> home_step L W (set_plane p s W)"
| forget: "forget_conversation L actor cid grace now eid (hw_planes W p) = Inr (r, s) \<Longrightarrow> home_step L W (set_plane p s W)"
| restore: "restore_conversation actor cid now eid (hw_planes W p) = Inr s \<Longrightarrow> home_step L W (set_plane p s W)"
| stage: "stage_if_unprotected L ws cid reason grace now snapshot (hw_planes W p) = Inr (b, s) \<Longrightarrow> home_step L W (set_plane p s W)"
| delete: "delete_for_good L r now (hw_planes W p) = Inr (b, s) \<Longrightarrow> home_step L W (set_plane p s W)"
| reopen: "home_step L W (set_plane p (reopen (hw_planes W p)) W)"
| work: "other_work (hw_planes W p) s \<Longrightarrow> home_step L W (set_plane p s W)"

inductive_cases home_step_cases: "home_step L W W'"

section \<open>The specification: one holder\<close>

datatype holder = Held uuid u64 | Moving uuid uuid uuid u64

inductive holder_step :: "(uuid \<Rightarrow> holder option) \<Rightarrow> (uuid \<Rightarrow> holder option) \<Rightarrow> bool" where
  begin_holding: "H cid = None \<Longrightarrow> holder_step H (H(cid \<mapsto> Held p 1))"
| retire_authority: "H cid = Some (Held p e) \<Longrightarrow> holder_step H (H(cid \<mapsto> Moving tid p q e))"
| take_authority: "H cid = Some (Moving tid p q e) \<Longrightarrow> u64_checked_add e 1 = Some e' \<Longrightarrow>
    holder_step H (H(cid \<mapsto> Held q e'))"
| fade_authority: "(\<And>cid. H' cid = H cid \<or> (\<exists>e. H cid = Some (Held p e) \<and> (H' cid = None \<or> (\<exists>tid q. H' cid = Some (Moving tid p q e))))) \<Longrightarrow>
    holder_step H H'"

text \<open>The world \<open>W\<close> has the holders \<open>H\<close>; \<open>I\<close> is what each transfer identity stands for.\<close>

definition prepared_source :: "plane_transfer \<Rightarrow> bool" where
  "prepared_source t \<longleftrightarrow> pt_role t = SourceRole \<and> pt_phase t = PhasePrepared"

definition prepared_target :: "plane_transfer \<Rightarrow> bool" where
  "prepared_target t \<longleftrightarrow> pt_role t = TargetRole \<and> pt_phase t = PhasePrepared"

definition row_info :: "plane_transfer \<Rightarrow> uuid \<Rightarrow> uuid \<times> u64 \<times> uuid \<times> uuid" where
  "row_info t p =
     (case pt_role t of
        SourceRole \<Rightarrow> (pt_conversation t, pt_retired_epoch t, p, pt_peer t)
      | TargetRole \<Rightarrow> (pt_conversation t, pt_retired_epoch t, pt_peer t, p))"

definition rows_ok :: "(uuid \<Rightarrow> holder option) \<Rightarrow> (uuid \<rightharpoonup> uuid \<times> u64 \<times> uuid \<times> uuid) \<Rightarrow> uuid \<Rightarrow> home_store \<Rightarrow> bool" where
  "rows_ok H I p s \<longleftrightarrow>
     hs_plane s = p \<and> distinct (map pt_id (hs_transfers s)) \<and>
     (\<forall>t\<in>set (hs_transfers s). authority_of (pt_conversation t) s \<noteq> None \<and> I (pt_id t) = Some (row_info t p)) \<and>
     (\<forall>t\<in>set (hs_transfers s). \<forall>t'\<in>set (hs_transfers s).
        pt_phase t = PhasePrepared \<longrightarrow> pt_phase t' = PhasePrepared \<longrightarrow> pt_conversation t = pt_conversation t' \<longrightarrow> t = t') \<and>
     (\<forall>t\<in>set (hs_transfers s). prepared_source t \<longrightarrow>
        authority_of (pt_conversation t) s = Some \<lparr>au_state = Home, au_epoch = pt_retired_epoch t\<rparr> \<or>
        H (pt_conversation t) = Some (Moving (pt_id t) p (pt_peer t) (pt_retired_epoch t))) \<and>
     (\<forall>t\<in>set (hs_transfers s). prepared_target t \<longrightarrow>
        (\<exists>e. u64_checked_add (pt_retired_epoch t) 1 = Some e \<and>
             authority_of (pt_conversation t) s = Some \<lparr>au_state = Prepared, au_epoch = e\<rparr>))"

definition homes_ok :: "(uuid \<Rightarrow> holder option) \<Rightarrow> uuid list \<Rightarrow> uuid \<Rightarrow> home_store \<Rightarrow> bool" where
  "homes_ok H created p s \<longleftrightarrow>
     (\<forall>cid a. authority_of cid s = Some a \<longrightarrow>
        cid \<in> set created \<and> (au_state a = Home \<longrightarrow> H cid = Some (Held p (au_epoch a))))"

definition fences_ok ::
    "(uuid \<Rightarrow> holder option) \<Rightarrow> (uuid \<rightharpoonup> uuid \<times> u64 \<times> uuid \<times> uuid) \<Rightarrow> authority_fence list \<Rightarrow> uuid \<Rightarrow> home_store \<Rightarrow> bool" where
  "fences_ok H I fs p s \<longleftrightarrow>
     (\<forall>t\<in>set (hs_transfers s).
        (\<forall>f\<in>set fs. af_transfer f = pt_id t \<longrightarrow> pt_phase t = PhasePrepared \<longrightarrow>
           pt_role t = TargetRole \<and> H (pt_conversation t) = Some (Moving (pt_id t) (pt_peer t) p (pt_retired_epoch t))) \<and>
        (pt_role t = SourceRole \<longrightarrow> pt_phase t = PhaseRelinquished \<longrightarrow> fence_of t p \<in> set fs))"

definition carried_ok :: "'r bundle_lib \<Rightarrow> (uuid \<rightharpoonup> uuid \<times> u64 \<times> uuid \<times> uuid) \<Rightarrow> home_world \<Rightarrow> bool" where
  "carried_ok L I W \<longleftrightarrow>
     (\<forall>bs\<in>set (hw_bundles W). \<exists>b files. encode_bundle L files b = Inr bs \<and> I (tb_transfer b) = Some (bundle_info b)) \<and>
     (\<forall>f\<in>set (hw_fences W).
        I (af_transfer f) = Some (af_conversation f, af_retired_epoch f, af_source f, af_target f)) \<and>
     (\<forall>tid i. I tid = Some i \<longrightarrow> tid \<in> set (hw_transfers W) \<and> fst i \<in> set (hw_created W))"

text \<open>A fence that was returned and not yet committed names the Conversation as on its way to the target.\<close>

definition fences_due :: "(uuid \<Rightarrow> holder option) \<Rightarrow> home_world \<Rightarrow> bool" where
  "fences_due H W \<longleftrightarrow>
     (\<forall>f\<in>set (hw_fences W). af_transfer f \<in> set (hw_taken W) \<or>
        H (af_conversation f) = Some (Moving (af_transfer f) (af_source f) (af_target f) (af_retired_epoch f)))"

definition sim ::
    "'r bundle_lib \<Rightarrow> home_world \<Rightarrow> (uuid \<Rightarrow> holder option) \<Rightarrow> (uuid \<rightharpoonup> uuid \<times> u64 \<times> uuid \<times> uuid) \<Rightarrow> bool" where
  "sim L W H I \<longleftrightarrow>
     carried_ok L I W \<and> fences_due H W \<and> (\<forall>cid. H cid \<noteq> None \<longrightarrow> cid \<in> set (hw_created W)) \<and>
     (\<forall>p. rows_ok H I p (hw_planes W p) \<and> homes_ok H (hw_created W) p (hw_planes W p) \<and>
          fences_ok H I (hw_fences W) p (hw_planes W p))"

definition plane_ok ::
    "(uuid \<Rightarrow> holder option) \<Rightarrow> (uuid \<rightharpoonup> uuid \<times> u64 \<times> uuid \<times> uuid) \<Rightarrow> uuid list \<Rightarrow> authority_fence list \<Rightarrow> uuid \<Rightarrow>
     home_store \<Rightarrow> bool" where
  "plane_ok H I created fs p s \<longleftrightarrow> rows_ok H I p s \<and> homes_ok H created p s \<and> fences_ok H I fs p s"

lemma sim_plane: "sim L W H I \<Longrightarrow> plane_ok H I (hw_created W) (hw_fences W) p (hw_planes W p)"
  by (simp add: sim_def plane_ok_def)

lemma simI:
  assumes "carried_ok L I W" and "fences_due H W" and "\<And>cid. H cid \<noteq> None \<Longrightarrow> cid \<in> set (hw_created W)"
    and "\<And>p. plane_ok H I (hw_created W) (hw_fences W) p (hw_planes W p)"
  shows "sim L W H I"
  using assms by (simp add: sim_def plane_ok_def)

lemma row_unique:
  assumes "plane_ok H I created fs p s" "t \<in> set (hs_transfers s)" "t' \<in> set (hs_transfers s)" "pt_id t = pt_id t'"
  shows "t = t'"
  using assms by (auto simp: plane_ok_def rows_ok_def distinct_map inj_on_def)

lemma prepared_unique:
  assumes "plane_ok H I created fs p s" "t \<in> set (hs_transfers s)" "t' \<in> set (hs_transfers s)"
    "pt_phase t = PhasePrepared" "pt_phase t' = PhasePrepared" "pt_conversation t = pt_conversation t'"
  shows "t = t'"
  using assms unfolding plane_ok_def rows_ok_def by blast

lemma home_held:
  "plane_ok H I created fs p s \<Longrightarrow> authority_of cid s = Some a \<Longrightarrow> au_state a = Home \<Longrightarrow> H cid = Some (Held p (au_epoch a))"
  by (simp add: plane_ok_def homes_ok_def)

lemma source_row:
  assumes "plane_ok H I created fs p s" "t \<in> set (hs_transfers s)" "prepared_source t"
  shows "H (pt_conversation t) = Some (Held p (pt_retired_epoch t)) \<and>
      authority_of (pt_conversation t) s = Some \<lparr>au_state = Home, au_epoch = pt_retired_epoch t\<rparr> \<or>
    H (pt_conversation t) = Some (Moving (pt_id t) p (pt_peer t) (pt_retired_epoch t))"
  using assms home_held [OF assms(1)] unfolding plane_ok_def rows_ok_def by fastforce

lemma target_row:
  assumes "plane_ok H I created fs p s" "t \<in> set (hs_transfers s)" "prepared_target t"
  obtains e where "u64_checked_add (pt_retired_epoch t) 1 = Some e"
    "authority_of (pt_conversation t) s = Some \<lparr>au_state = Prepared, au_epoch = e\<rparr>"
  using assms unfolding plane_ok_def rows_ok_def by blast

lemma fenced_row:
  assumes "plane_ok H I created fs p s" "t \<in> set (hs_transfers s)" "f \<in> set fs" "af_transfer f = pt_id t"
    "pt_phase t = PhasePrepared"
  shows "pt_role t = TargetRole \<and> H (pt_conversation t) = Some (Moving (pt_id t) (pt_peer t) p (pt_retired_epoch t))"
  using assms unfolding plane_ok_def fences_ok_def by blast

lemma row_known:
  "plane_ok H I created fs p s \<Longrightarrow> t \<in> set (hs_transfers s) \<Longrightarrow> I (pt_id t) = Some (row_info t p)"
  by (simp add: plane_ok_def rows_ok_def)

lemma rows_okI:
  assumes "hs_plane s = p" and "distinct (map pt_id (hs_transfers s))"
    and "\<And>t. t \<in> set (hs_transfers s) \<Longrightarrow> authority_of (pt_conversation t) s \<noteq> None"
    and "\<And>t. t \<in> set (hs_transfers s) \<Longrightarrow> I (pt_id t) = Some (row_info t p)"
    and "\<And>t t'. t \<in> set (hs_transfers s) \<Longrightarrow> t' \<in> set (hs_transfers s) \<Longrightarrow> pt_phase t = PhasePrepared \<Longrightarrow>
      pt_phase t' = PhasePrepared \<Longrightarrow> pt_conversation t = pt_conversation t' \<Longrightarrow> t = t'"
    and "\<And>t. t \<in> set (hs_transfers s) \<Longrightarrow> prepared_source t \<Longrightarrow>
      authority_of (pt_conversation t) s = Some \<lparr>au_state = Home, au_epoch = pt_retired_epoch t\<rparr> \<or>
      H (pt_conversation t) = Some (Moving (pt_id t) p (pt_peer t) (pt_retired_epoch t))"
    and "\<And>t. t \<in> set (hs_transfers s) \<Longrightarrow> prepared_target t \<Longrightarrow>
      \<exists>e. u64_checked_add (pt_retired_epoch t) 1 = Some e \<and>
          authority_of (pt_conversation t) s = Some \<lparr>au_state = Prepared, au_epoch = e\<rparr>"
  shows "rows_ok H I p s"
  unfolding rows_ok_def using assms by blast

lemma rows_ok_basic:
  assumes "plane_ok H I created fs p s"
  shows "hs_plane s = p" and "distinct (map pt_id (hs_transfers s))"
    and "t \<in> set (hs_transfers s) \<Longrightarrow> authority_of (pt_conversation t) s \<noteq> None"
  using assms by (auto simp: plane_ok_def rows_ok_def)

text \<open>A Plane keeps its place in the simulation when the holders that change are none of its business.\<close>

lemma plane_frame:
  assumes ok: "plane_ok H I created fs q s" and I: "I \<subseteq>\<^sub>m I'" and c: "set created \<subseteq> set created'" and fs: "set fs \<subseteq> set fs'"
    and new: "\<And>f t. f \<in> set fs' \<Longrightarrow> f \<notin> set fs \<Longrightarrow> t \<in> set (hs_transfers s) \<Longrightarrow> af_transfer f = pt_id t \<Longrightarrow>
        pt_phase t = PhasePrepared \<Longrightarrow> pt_role t = TargetRole \<and>
        H' (pt_conversation t) = Some (Moving (pt_id t) (pt_peer t) q (pt_retired_epoch t))"
    and held: "\<And>cid e. H cid = Some (Held q e) \<Longrightarrow> H' cid = H cid"
    and coming: "\<And>cid tid r e. H cid = Some (Moving tid r q e) \<Longrightarrow> H' cid = H cid"
    and leaving: "\<And>t. t \<in> set (hs_transfers s) \<Longrightarrow> prepared_source t \<Longrightarrow>
        H (pt_conversation t) = Some (Moving (pt_id t) q (pt_peer t) (pt_retired_epoch t)) \<Longrightarrow>
        H' (pt_conversation t) = H (pt_conversation t)"
  shows "plane_ok H' I' created' fs' q s"
proof -
  have "homes_ok H' created' q s"
    using ok c held unfolding plane_ok_def homes_ok_def by fastforce
  moreover have "rows_ok H' I' q s"
  proof (rule rows_okI)
    fix t assume t: "t \<in> set (hs_transfers s)"
    show "I' (pt_id t) = Some (row_info t q)" using row_known [OF ok t] I by (metis domI map_le_def)
    show "authority_of (pt_conversation t) s = Some \<lparr>au_state = Home, au_epoch = pt_retired_epoch t\<rparr> \<or>
      H' (pt_conversation t) = Some (Moving (pt_id t) q (pt_peer t) (pt_retired_epoch t))" if "prepared_source t"
      using source_row [OF ok t that] leaving [OF t that] by metis
  next
    fix t assume "t \<in> set (hs_transfers s)" "prepared_target t"
    then show "\<exists>e. u64_checked_add (pt_retired_epoch t) 1 = Some e \<and>
        authority_of (pt_conversation t) s = Some \<lparr>au_state = Prepared, au_epoch = e\<rparr>"
      using target_row [OF ok] by metis
  qed (use rows_ok_basic [OF ok] prepared_unique [OF ok] in auto)
  moreover have "fences_ok H' I' fs' q s"
    unfolding fences_ok_def
  proof (intro ballI conjI impI)
    fix t f assume t: "t \<in> set (hs_transfers s)" and f: "f \<in> set fs'" "af_transfer f = pt_id t" "pt_phase t = PhasePrepared"
    show "pt_role t = TargetRole" "H' (pt_conversation t) = Some (Moving (pt_id t) (pt_peer t) q (pt_retired_epoch t))"
      using new [OF f(1) _ t f(2,3)] fenced_row [OF ok t _ f(2,3)] coming by (cases "f \<in> set fs"; fastforce)+
  next
    fix t assume "t \<in> set (hs_transfers s)" "pt_role t = SourceRole" "pt_phase t = PhaseRelinquished"
    then show "fence_of t q \<in> set fs'" using ok fs by (auto simp: plane_ok_def fences_ok_def)
  qed
  ultimately show ?thesis by (simp add: plane_ok_def)
qed

section \<open>Losing authority: deletion, reopening, a crash while relinquishing\<close>

definition fade_one :: "authority_record option \<Rightarrow> authority_record option \<Rightarrow> bool" where
  "fade_one x y \<longleftrightarrow> y = x \<or> (\<exists>a. x = Some a \<and> au_state a = Home \<and> y = Some (a\<lparr>au_state := Relinquished\<rparr>))"

definition fades :: "uuid set \<Rightarrow> home_store \<Rightarrow> home_store \<Rightarrow> bool" where
  "fades D s s' \<longleftrightarrow>
     hs_plane s' = hs_plane s \<and> hs_transfers s' = filter (\<lambda>t. pt_conversation t \<notin> D) (hs_transfers s) \<and>
     (\<forall>k. if k \<in> D then authority_of k s' = None else fade_one (authority_of k s) (authority_of k s'))"

lemma fade_one_None [simp]: "fade_one None y \<longleftrightarrow> y = None"
  by (auto simp: fade_one_def)

lemma fade_one_trans: "fade_one x y \<Longrightarrow> fade_one y z \<Longrightarrow> fade_one x z"
  by (auto simp: fade_one_def)

lemma fades_refl: "fades {} s s"
  by (simp add: fades_def fade_one_def)

lemma fades_authority:
  "fades D s s' \<Longrightarrow> k \<in> D \<Longrightarrow> authority_of k s' = None"
  "fades D s s' \<Longrightarrow> k \<notin> D \<Longrightarrow> fade_one (authority_of k s) (authority_of k s')"
  unfolding fades_def by presburger+

lemma fades_trans:
  assumes st: "fades D s t" and tu: "fades E t u"
  shows "fades (D \<union> E) s u"
proof -
  have "if k \<in> D \<union> E then authority_of k u = None else fade_one (authority_of k s) (authority_of k u)" for k
  proof (cases "k \<in> E")
    case True
    then show ?thesis using fades_authority(1) [OF tu] by simp
  next
    case False
    note u = fades_authority(2) [OF tu False]
    show ?thesis
    proof (cases "k \<in> D")
      case True
      then show ?thesis using u fades_authority(1) [OF st True] by simp
    next
      case d: False
      then show ?thesis using False fade_one_trans [OF fades_authority(2) [OF st d] u] by simp
    qed
  qed
  moreover have "hs_transfers u = filter (\<lambda>t. pt_conversation t \<notin> D \<union> E) (hs_transfers s)" "hs_plane u = hs_plane s"
    using assms by (auto simp: fades_def intro: filter_cong)
  ultimately show ?thesis unfolding fades_def by blast
qed

lemma fades_purge: "fades {k} s (purge_rows k s)"
  by (auto simp: fades_def authority_of_purge fade_one_def)

lemma authority_of_retire:
  "authority_of k (retire_fenced f s) =
   (if k = fr_conversation f
    then map_option (\<lambda>a. if au_epoch a = fr_retired_epoch f \<and> au_state a = Home then a\<lparr>au_state := Relinquished\<rparr> else a)
           (authority_of k s)
    else authority_of k s)"
  unfolding authority_of_def retire_fenced_def
  by (subst conversation_of_update) (auto simp: option.map_comp comp_def if_distrib [of cr_authority] intro!: option.map_cong)

lemma fades_retire: "fades {} s (retire_fenced f s)"
proof -
  have "hs_plane (retire_fenced f s) = hs_plane s" "hs_transfers (retire_fenced f s) = hs_transfers s"
    by (simp_all add: retire_fenced_def update_conversation_def)
  moreover have "fade_one (authority_of k s) (authority_of k (retire_fenced f s))" for k
    by (cases "authority_of k s") (auto simp: authority_of_retire fade_one_def)
  ultimately show ?thesis by (simp add: fades_def)
qed

lemma fades_fold_purge: "fades (set ks) s (fold purge_rows ks s)"
proof (induction ks arbitrary: s)
  case (Cons k ks)
  then show ?case using fades_trans [OF fades_purge [of k s] Cons] by simp
qed (simp add: fades_refl)

lemma fades_fold_retire: "fades {} s (fold retire_fenced fs s)"
proof (induction fs arbitrary: s)
  case (Cons f fs)
  then show ?case using fades_trans [OF fades_retire [of s f] Cons] by simp
qed (simp add: fades_refl)

lemma fades_cong:
  assumes "fades D s t" and "hs_conversations t' = hs_conversations t" "hs_transfers t' = hs_transfers t" "hs_plane t' = hs_plane t"
  shows "fades D s t'"
proof -
  have "authority_of k t' = authority_of k t" for k using assms(2) by (simp add: authority_of_def conversation_of_def)
  then show ?thesis using assms by (simp add: fades_def)
qed

lemma fades_reopen: "fades (set (hs_deletions s)) s (reopen s)"
proof -
  have "fades (set (hs_deletions s)) s (reapply_deletions s)"
    by (rule fades_cong [OF fades_fold_purge]) (simp_all add: reapply_deletions_def Let_def)
  moreover have "fades {} (reapply_deletions s) (reopen s)"
    unfolding reopen_def
    by (rule fades_cong [OF fades_fold_retire]) (simp_all add: reapply_fences_def Let_def)
  ultimately show ?thesis using fades_trans by fastforce
qed

lemma fades_crash: "fades (set (hs_deletions s)) s (reopen (s\<lparr>hs_fences := fs\<rparr>))"
proof -
  have "fades {} s (s\<lparr>hs_fences := fs\<rparr>)" by (rule fades_cong [OF fades_refl]) simp_all
  then show ?thesis using fades_trans [OF _ fades_reopen [of "s\<lparr>hs_fences := fs\<rparr>"]] by fastforce
qed

definition faded_holder :: "uuid \<Rightarrow> home_store \<Rightarrow> home_store \<Rightarrow> (uuid \<Rightarrow> holder option) \<Rightarrow> uuid \<Rightarrow> holder option" where
  "faded_holder p s s' H cid =
     (case H cid of
        Some (Held q e) \<Rightarrow>
          if q = p \<and> authority_of cid s = Some \<lparr>au_state = Home, au_epoch = e\<rparr> \<and> authority_of cid s' \<noteq> authority_of cid s
          then map_option (\<lambda>t. Moving (pt_id t) p (pt_peer t) e)
                 (find (\<lambda>t. prepared_source t \<and> pt_conversation t = cid) (hs_transfers s'))
          else H cid
      | _ \<Rightarrow> H cid)"

lemma faded_holder_step: "holder_step H (faded_holder p s s' H)"
  by (rule fade_authority [where p = p]) (auto simp: faded_holder_def split: option.splits holder.splits)

lemma faded_holder_simps:
  "H cid = Some (Moving tid q r e) \<Longrightarrow> faded_holder p s s' H cid = H cid"
  "H cid = Some (Held q e) \<Longrightarrow> q \<noteq> p \<Longrightarrow> faded_holder p s s' H cid = H cid"
  "authority_of cid s' = authority_of cid s \<Longrightarrow> faded_holder p s s' H cid = H cid"
  "H cid = None \<Longrightarrow> faded_holder p s s' H cid = None"
  by (auto simp: faded_holder_def split: option.splits holder.splits)

lemma faded_source:
  assumes ok: "plane_ok H I created fs p s" and f: "fades D s s'" and t: "t \<in> set (hs_transfers s')" and src: "prepared_source t"
  shows "authority_of (pt_conversation t) s' = Some \<lparr>au_state = Home, au_epoch = pt_retired_epoch t\<rparr> \<or>
    faded_holder p s s' H (pt_conversation t) = Some (Moving (pt_id t) p (pt_peer t) (pt_retired_epoch t))"
proof -
  let ?c = "pt_conversation t"
  have t': "t \<in> set (hs_transfers s)" and sub: "set (hs_transfers s') \<subseteq> set (hs_transfers s)" using f t by (auto simp: fades_def)
  from source_row [OF ok t' src] show ?thesis
  proof
    assume h: "H ?c = Some (Held p (pt_retired_epoch t)) \<and>
      authority_of ?c s = Some \<lparr>au_state = Home, au_epoch = pt_retired_epoch t\<rparr>"
    obtain x where x: "find (\<lambda>t. prepared_source t \<and> pt_conversation t = ?c) (hs_transfers s') = Some x"
      using t src by (cases "find (\<lambda>t. prepared_source t \<and> pt_conversation t = ?c) (hs_transfers s')") (auto simp: find_None_iff)
    then have "x \<in> set (hs_transfers s)" "prepared_source x" "pt_conversation x = ?c"
      using sub by (auto simp: find_Some_iff dest: nth_mem)
    then have "x = t" using prepared_unique [OF ok _ t'] src by (auto simp: prepared_source_def)
    then show ?thesis using h x by (auto simp: faded_holder_def)
  next
    assume "H ?c = Some (Moving (pt_id t) p (pt_peer t) (pt_retired_epoch t))"
    then show ?thesis by (simp add: faded_holder_simps(1))
  qed
qed

lemma faded_plane:
  assumes ok: "plane_ok H I created fs p s" and f: "fades D s s'"
  shows "plane_ok (faded_holder p s s' H) I created fs p s'"
proof -
  let ?H = "faded_holder p s s' H"
  have sub: "set (hs_transfers s') \<subseteq> set (hs_transfers s)" and kept: "\<And>t. t \<in> set (hs_transfers s') \<Longrightarrow> pt_conversation t \<notin> D"
    using f by (auto simp: fades_def)
  have one: "fade_one (authority_of k s) (authority_of k s')" if "k \<notin> D" for k using fades_authority(2) [OF f that] .
  have "homes_ok ?H created p s'"
    unfolding homes_ok_def
  proof (intro allI impI)
    fix cid a assume a: "authority_of cid s' = Some a"
    then have "cid \<notin> D" using fades_authority(1) [OF f] by fastforce
    have "fade_one (authority_of cid s) (Some a)" using one [OF \<open>cid \<notin> D\<close>] a by simp
    then obtain b where b: "authority_of cid s = Some b" "a = b \<or> au_state a = Relinquished"
      by (cases "authority_of cid s") (auto simp: fade_one_def)
    have "au_state a = Home \<longrightarrow> ?H cid = Some (Held p (au_epoch a))"
      using b a home_held [OF ok b(1)] faded_holder_simps(3) [of cid s' s] by auto
    then show "cid \<in> set created \<and> (au_state a = Home \<longrightarrow> ?H cid = Some (Held p (au_epoch a)))"
      using ok b(1) by (auto simp: plane_ok_def homes_ok_def)
  qed
  moreover have "rows_ok ?H I p s'"
  proof (rule rows_okI)
    show "hs_plane s' = p" using f rows_ok_basic(1) [OF ok] by (simp add: fades_def)
    show "distinct (map pt_id (hs_transfers s'))" using f rows_ok_basic(2) [OF ok] by (simp add: fades_def distinct_map_filter)
    fix t assume t: "t \<in> set (hs_transfers s')"
    note t' = subsetD [OF sub t] and d = kept [OF t]
    show "authority_of (pt_conversation t) s' \<noteq> None"
      using rows_ok_basic(3) [OF ok t'] one [OF d] by (auto simp: fade_one_def)
    show "I (pt_id t) = Some (row_info t p)" by (rule row_known [OF ok t'])
    show "\<exists>e. u64_checked_add (pt_retired_epoch t) 1 = Some e \<and>
        authority_of (pt_conversation t) s' = Some \<lparr>au_state = Prepared, au_epoch = e\<rparr>" if "prepared_target t"
      by (rule target_row [OF ok t' that]) (use one [OF d] in \<open>auto simp: fade_one_def\<close>)
  qed (use prepared_unique [OF ok] faded_source [OF ok f] sub in auto)
  moreover have "fences_ok ?H I fs p s'"
    unfolding fences_ok_def
  proof (intro ballI conjI impI)
    fix t f assume t: "t \<in> set (hs_transfers s')" and x: "f \<in> set fs" "af_transfer f = pt_id t" "pt_phase t = PhasePrepared"
    note r = fenced_row [OF ok subsetD [OF sub t] x]
    from r show "pt_role t = TargetRole" by simp
    from r show "?H (pt_conversation t) = Some (Moving (pt_id t) (pt_peer t) p (pt_retired_epoch t))"
      by (simp add: faded_holder_simps(1))
  next
    fix t assume "t \<in> set (hs_transfers s')" "pt_role t = SourceRole" "pt_phase t = PhaseRelinquished"
    then show "fence_of t p \<in> set fs" using ok sub by (auto simp: plane_ok_def fences_ok_def)
  qed
  ultimately show ?thesis by (simp add: plane_ok_def)
qed

lemma set_plane_sel [simp]:
  "hw_planes (set_plane p s W) q = (if q = p then s else hw_planes W q)"
  "hw_created (set_plane p s W) = hw_created W" "hw_transfers (set_plane p s W) = hw_transfers W"
  "hw_bundles (set_plane p s W) = hw_bundles W" "hw_fences (set_plane p s W) = hw_fences W"
  "hw_taken (set_plane p s W) = hw_taken W"
  by (simp_all add: set_plane_def)

lemma carried_set_plane [simp]: "carried_ok L I (set_plane p s W) = carried_ok L I W"
  by (simp add: carried_ok_def)

lemma sim_parts:
  assumes "sim L W H I"
  shows "carried_ok L I W" and "H cid \<noteq> None \<Longrightarrow> cid \<in> set (hw_created W)" and "fences_due H W"
  using assms by (auto simp: sim_def)

lemma fences_due_keep:
  assumes "fences_due H W" and "set (hw_fences W') \<subseteq> set (hw_fences W)" and "set (hw_taken W) \<subseteq> set (hw_taken W')"
    and "\<And>cid tid q r e. H cid = Some (Moving tid q r e) \<Longrightarrow> H' cid = H cid"
  shows "fences_due H' W'"
  using assms unfolding fences_due_def by (metis subsetD)

lemma fence_dueD:
  "fences_due H W \<Longrightarrow> f \<in> set (hw_fences W) \<Longrightarrow> af_transfer f \<notin> set (hw_taken W) \<Longrightarrow>
   H (af_conversation f) = Some (Moving (af_transfer f) (af_source f) (af_target f) (af_retired_epoch f))"
  unfolding fences_due_def by blast

text \<open>A step of one Plane that changes no holder another Plane is part of.\<close>

lemma sim_local:
  assumes sim: "sim L W H I" and p: "plane_ok H' I (hw_created W) (hw_fences W) p s'"
    and c: "\<And>cid. H' cid \<noteq> None \<Longrightarrow> cid \<in> set (hw_created W)"
    and held: "\<And>cid q e. q \<noteq> p \<Longrightarrow> H cid = Some (Held q e) \<Longrightarrow> H' cid = H cid"
    and moving: "\<And>cid tid q r e. H cid = Some (Moving tid q r e) \<Longrightarrow> H' cid = H cid"
  shows "sim L (set_plane p s' W) H' I"
proof (rule simI)
  fix q
  show "plane_ok H' I (hw_created (set_plane p s' W)) (hw_fences (set_plane p s' W)) q (hw_planes (set_plane p s' W) q)"
  proof (cases "q = p")
    case False
    have "plane_ok H' I (hw_created W) (hw_fences W) q (hw_planes W q)"
      by (rule plane_frame [OF sim_plane [OF sim]]) (use False held moving in auto)
    then show ?thesis using False by simp
  qed (simp add: p)
next
  show "fences_due H' (set_plane p s' W)" by (rule fences_due_keep [OF sim_parts(3) [OF sim] _ _ moving]) simp_all
qed (use sim_parts [OF sim] c in simp_all)

lemma sim_fade:
  assumes sim: "sim L W H I" and f: "fades D (hw_planes W p) s'"
  shows "\<exists>H'. holder_step H H' \<and> sim L (set_plane p s' W) H' I"
proof (intro exI conjI)
  show "holder_step H (faded_holder p (hw_planes W p) s' H)" by (rule faded_holder_step)
  show "sim L (set_plane p s' W) (faded_holder p (hw_planes W p) s' H) I"
  proof (rule sim_local [OF sim faded_plane [OF sim_plane [OF sim] f]])
    fix cid assume "faded_holder p (hw_planes W p) s' H cid \<noteq> None"
    then show "cid \<in> set (hw_created W)" using sim_parts(2) [OF sim, of cid] faded_holder_simps(4) [of H cid]
      by (cases "H cid") auto
  qed (simp_all add: faded_holder_simps)
qed

section \<open>Steps that move no authority\<close>

lemma subset_plane:
  assumes ok: "plane_ok H I created fs p s" and s': "hs_plane s' = hs_plane s" "\<And>k. authority_of k s' = authority_of k s"
    and sub: "hs_transfers s' = filter P (hs_transfers s)"
  shows "plane_ok H I created fs p s'"
proof -
  have m: "t \<in> set (hs_transfers s)" if "t \<in> set (hs_transfers s')" for t using that sub by simp
  have "homes_ok H created p s'" using ok s' by (simp add: plane_ok_def homes_ok_def)
  moreover have "rows_ok H I p s'"
  proof (rule rows_okI)
    fix t assume "t \<in> set (hs_transfers s')"
    note t = m [OF this]
    show "I (pt_id t) = Some (row_info t p)" by (rule row_known [OF ok t])
    show "authority_of (pt_conversation t) s' = Some \<lparr>au_state = Home, au_epoch = pt_retired_epoch t\<rparr> \<or>
        H (pt_conversation t) = Some (Moving (pt_id t) p (pt_peer t) (pt_retired_epoch t))" if "prepared_source t"
      using source_row [OF ok t that] s'(2) by auto
    show "\<exists>e. u64_checked_add (pt_retired_epoch t) 1 = Some e \<and>
        authority_of (pt_conversation t) s' = Some \<lparr>au_state = Prepared, au_epoch = e\<rparr>" if "prepared_target t"
      by (rule target_row [OF ok t that]) (use s'(2) in auto)
    show "authority_of (pt_conversation t) s' \<noteq> None" using rows_ok_basic(3) [OF ok t] s'(2) by simp
    fix t' assume "t' \<in> set (hs_transfers s')" "pt_phase t = PhasePrepared" "pt_phase t' = PhasePrepared"
      "pt_conversation t = pt_conversation t'"
    then show "t = t'" using prepared_unique [OF ok t m] by blast
  qed (use rows_ok_basic(1,2) [OF ok] s'(1) sub in \<open>simp_all add: distinct_map_filter\<close>)
  moreover have "fences_ok H I fs p s'"
    using ok m by (simp add: plane_ok_def fences_ok_def)
  ultimately show ?thesis by (simp add: plane_ok_def)
qed

lemma sim_quiet:
  assumes "sim L W H I" and "hs_plane s' = hs_plane (hw_planes W p)" "\<And>k. authority_of k s' = authority_of k (hw_planes W p)"
    "hs_transfers s' = filter P (hs_transfers (hw_planes W p))"
  shows "\<exists>H'. holder_step H H' \<and> sim L (set_plane p s' W) H' I"
proof (intro exI conjI)
  show "holder_step H H" by (rule fade_authority) simp
  show "sim L (set_plane p s' W) H I"
    using sim_local [OF assms(1) subset_plane [OF sim_plane [OF assms(1)] assms(2-4)]] sim_parts(2) [OF assms(1)] by simp
qed

lemma other_work_quiet:
  "sim L W H I \<Longrightarrow> other_work (hw_planes W p) s' \<Longrightarrow> \<exists>H'. holder_step H H' \<and> sim L (set_plane p s' W) H' I"
  by (rule sim_quiet [where P = "\<lambda>_. True"]) (auto simp: other_work_def)

lemma same_core_other_work: "same_core s s' \<Longrightarrow> other_work s s'"
  unfolding other_work_def using same_core_authority [of s s'] by (simp add: same_core_def)

lemma other_work_trans: "other_work s t \<Longrightarrow> other_work t u \<Longrightarrow> other_work s u"
  by (simp add: other_work_def)

lemma insert_trash_other: "insert_trash r s = Inr s' \<Longrightarrow> other_work s s'"
  using insert_trash_Inr by (auto simp: other_work_def)

lemma home_audit_core: "same_core s (home_audit d cid now s)"
  by (simp add: home_audit_def same_core_def)

lemma stage_other:
  assumes "stage who cid reason grace now eid s = Inr (r, s')"
  shows "other_work s s'"
proof -
  from assms obtain x :: trash_record and s1 where i: "insert_trash x s = Inr s1"
    and d: "(\<exists>d. s' = home_audit d cid now s1) \<or> (\<exists>actor e d. journal_and_audit eid actor cid e d now s1 = Inr s')"
    by (cases who) (auto simp: stage_def Let_def rbind_Inr_iff, blast+)
  from d have "same_core s1 s'" using home_audit_core journal_and_audit_core by blast
  then show ?thesis using other_work_trans [OF insert_trash_other [OF i] same_core_other_work] by simp
qed

lemma forget_other: "forget_conversation L actor cid grace now eid s = Inr (r, s') \<Longrightarrow> other_work s s'"
  by (auto simp: forget_conversation_def rbind_Inr_iff intro: stage_other)

lemma restore_other: "restore_conversation actor cid now eid s = Inr s' \<Longrightarrow> other_work s s'"
  by (auto simp: restore_conversation_def split: option.splits if_splits dest!: journal_and_audit_core same_core_other_work)
    (auto simp: other_work_def authority_of_def conversation_of_def)

lemma stage_if_unprotected_other: "stage_if_unprotected L ws cid reason grace now snapshot s = Inr (b, s') \<Longrightarrow> other_work s s'"
  by (auto simp: stage_if_unprotected_def rbind_Inr_iff other_work_def split: if_splits option.splits
      dest!: stage_other)

lemma abort_quiet:
  assumes "abort_transfer actor tid now eid s = Inr s'"
  shows "hs_plane s' = hs_plane s" "authority_of k s' = authority_of k s"
    "hs_transfers s' = filter (\<lambda>t. pt_id t \<noteq> tid) (hs_transfers s)"
proof -
  from assms obtain t :: plane_transfer where "journal_and_audit eid actor (pt_conversation t) (TransferAborted tid) D_Aborted now
      (delete_plane_transfer tid s) = Inr s'"
    by (auto simp: abort_transfer_def rbind_Inr_iff)
  note core = journal_and_audit_core [OF this]
  then show "hs_plane s' = hs_plane s" "hs_transfers s' = filter (\<lambda>t. pt_id t \<noteq> tid) (hs_transfers s)"
    by (simp_all add: same_core_def delete_plane_transfer_def)
  show "authority_of k s' = authority_of k s"
    using same_core_authority [OF core] by (simp add: delete_plane_transfer_def)
qed

lemma delete_fades:
  assumes "delete_for_good L r now s = Inr (b, s')"
  shows "\<exists>D. fades D s s'"
proof (cases "s' = s")
  case True
  then show ?thesis using fades_refl by blast
next
  case False
  with assms have "s' = anonymize_home_audit (tr_conversation r) (home_audit D_Deleted (tr_conversation r) now (delete_conversation (tr_conversation r) s))"
    by (auto simp: delete_for_good_def rbind_Inr_iff split: if_splits)
  then have "fades {tr_conversation r} s s'"
    by (intro fades_cong [OF fades_purge]) (simp_all add: anonymize_home_audit_def home_audit_def delete_conversation_def)
  then show ?thesis by blast
qed

end
