(* ===== verification/Jet_Holder.thy ===== *)
theory Jet_Holder
  imports Jet_Home
begin

text \<open>
  The simulation between the Planes and the single holder: every step of the world is a step of the
  specification, so a Conversation is Home on at most one Plane.
\<close>

section \<open>Steps that move the authority of one Conversation\<close>

text \<open>The transfer rows of \<open>cid\<close> at \<open>p\<close> agree with a new authority and a new holder.\<close>

definition rows_agree ::
    "uuid \<Rightarrow> (uuid \<Rightarrow> holder option) \<Rightarrow> (uuid \<rightharpoonup> uuid \<times> u64 \<times> uuid \<times> uuid) \<Rightarrow> authority_fence list \<Rightarrow> uuid \<Rightarrow>
     authority_record \<Rightarrow> plane_transfer list \<Rightarrow> bool" where
  "rows_agree cid H I fs p a ts \<longleftrightarrow>
     (\<forall>t\<in>set ts. pt_conversation t = cid \<longrightarrow>
        I (pt_id t) = Some (row_info t p) \<and>
        (prepared_source t \<longrightarrow> a = \<lparr>au_state = Home, au_epoch = pt_retired_epoch t\<rparr> \<or>
           H cid = Some (Moving (pt_id t) p (pt_peer t) (pt_retired_epoch t))) \<and>
        (prepared_target t \<longrightarrow> (\<exists>e. u64_checked_add (pt_retired_epoch t) 1 = Some e \<and> a = \<lparr>au_state = Prepared, au_epoch = e\<rparr>)) \<and>
        (\<forall>f\<in>set fs. af_transfer f = pt_id t \<longrightarrow> pt_phase t = PhasePrepared \<longrightarrow>
           pt_role t = TargetRole \<and> H cid = Some (Moving (pt_id t) (pt_peer t) p (pt_retired_epoch t))) \<and>
        (pt_role t = SourceRole \<longrightarrow> pt_phase t = PhaseRelinquished \<longrightarrow> fence_of t p \<in> set fs) \<and>
        (\<forall>t'\<in>set ts. pt_conversation t' = cid \<longrightarrow> pt_phase t = PhasePrepared \<longrightarrow> pt_phase t' = PhasePrepared \<longrightarrow> t = t'))"

lemma rows_agreeD:
  assumes "rows_agree cid H I fs p a ts" and "t \<in> set ts" and "pt_conversation t = cid"
  shows "I (pt_id t) = Some (row_info t p)"
    and "prepared_source t \<Longrightarrow> a = \<lparr>au_state = Home, au_epoch = pt_retired_epoch t\<rparr> \<or>
      H cid = Some (Moving (pt_id t) p (pt_peer t) (pt_retired_epoch t))"
    and "prepared_target t \<Longrightarrow> \<exists>e. u64_checked_add (pt_retired_epoch t) 1 = Some e \<and> a = \<lparr>au_state = Prepared, au_epoch = e\<rparr>"
    and "f \<in> set fs \<Longrightarrow> af_transfer f = pt_id t \<Longrightarrow> pt_phase t = PhasePrepared \<Longrightarrow>
      pt_role t = TargetRole \<and> H cid = Some (Moving (pt_id t) (pt_peer t) p (pt_retired_epoch t))"
    and "pt_role t = SourceRole \<Longrightarrow> pt_phase t = PhaseRelinquished \<Longrightarrow> fence_of t p \<in> set fs"
    and "t' \<in> set ts \<Longrightarrow> pt_conversation t' = cid \<Longrightarrow> pt_phase t = PhasePrepared \<Longrightarrow> pt_phase t' = PhasePrepared \<Longrightarrow> t = t'"
  using assms unfolding rows_agree_def by blast+

lemma plane_change:
  assumes ok: "plane_ok H I c fs p s" and H: "\<And>k. k \<noteq> cid \<Longrightarrow> H' k = H k" and I: "I \<subseteq>\<^sub>m I'"
    and c: "set c \<subseteq> set c'" and fs: "set fs \<subseteq> set fs'"
    and plane: "hs_plane s' = hs_plane s" and auth: "\<And>k. authority_of k s' = (if k = cid then Some a else authority_of k s)"
    and cid: "cid \<in> set c'" and home: "au_state a = Home \<Longrightarrow> H' cid = Some (Held p (au_epoch a))"
    and old: "\<And>t. t \<in> set (hs_transfers s') \<Longrightarrow> pt_conversation t \<noteq> cid \<Longrightarrow> t \<in> set (hs_transfers s)"
    and distinct: "distinct (map pt_id (hs_transfers s'))"
    and agree: "rows_agree cid H' I' fs' p a (hs_transfers s')"
    and new: "\<And>f t. f \<in> set fs' \<Longrightarrow> f \<notin> set fs \<Longrightarrow> t \<in> set (hs_transfers s) \<Longrightarrow> pt_conversation t \<noteq> cid \<Longrightarrow> af_transfer f \<noteq> pt_id t"
  shows "plane_ok H' I' c' fs' p s'"
proof -
  note agreeD = rows_agreeD [OF agree]
  have "homes_ok H' c' p s'"
    unfolding homes_ok_def using ok c cid home H by (auto simp: auth plane_ok_def homes_ok_def)
  moreover have "rows_ok H' I' p s'"
  proof (rule rows_okI)
    fix t assume t: "t \<in> set (hs_transfers s')"
    show "authority_of (pt_conversation t) s' \<noteq> None" using rows_ok_basic(3) [OF ok old [OF t]] by (auto simp: auth)
    show "I' (pt_id t) = Some (row_info t p)"
      using agreeD(1) [OF t] row_known [OF ok old [OF t]] I by (metis domI map_le_def)
    show "authority_of (pt_conversation t) s' = Some \<lparr>au_state = Home, au_epoch = pt_retired_epoch t\<rparr> \<or>
        H' (pt_conversation t) = Some (Moving (pt_id t) p (pt_peer t) (pt_retired_epoch t))" if "prepared_source t"
      using agreeD(2) [OF t _ that] source_row [OF ok old [OF t] that] H [of "pt_conversation t"]
      by (cases "pt_conversation t = cid") (auto simp: auth)
    show "\<exists>e. u64_checked_add (pt_retired_epoch t) 1 = Some e \<and>
        authority_of (pt_conversation t) s' = Some \<lparr>au_state = Prepared, au_epoch = e\<rparr>" if "prepared_target t"
    proof (cases "pt_conversation t = cid")
      case True
      then show ?thesis using agreeD(3) [OF t True that] by (simp add: auth)
    next
      case False
      show ?thesis by (rule target_row [OF ok old [OF t False] that]) (use False in \<open>auto simp: auth\<close>)
    qed
    fix t' assume t': "t' \<in> set (hs_transfers s')" and p: "pt_phase t = PhasePrepared" "pt_phase t' = PhasePrepared"
      and same: "pt_conversation t = pt_conversation t'"
    show "t = t'"
    proof (cases "pt_conversation t = cid")
      case True
      then show ?thesis using agreeD(6) [OF t True t' _ p] same by simp
    next
      case False
      then show ?thesis using prepared_unique [OF ok old [OF t] old [OF t'] p same] same by simp
    qed
  qed (use plane rows_ok_basic(1) [OF ok] distinct in simp_all)
  moreover have "fences_ok H' I' fs' p s'"
    unfolding fences_ok_def
  proof (intro ballI)
    fix t assume t: "t \<in> set (hs_transfers s')"
    show "(\<forall>f\<in>set fs'. af_transfer f = pt_id t \<longrightarrow> pt_phase t = PhasePrepared \<longrightarrow>
        pt_role t = TargetRole \<and> H' (pt_conversation t) = Some (Moving (pt_id t) (pt_peer t) p (pt_retired_epoch t))) \<and>
      (pt_role t = SourceRole \<longrightarrow> pt_phase t = PhaseRelinquished \<longrightarrow> fence_of t p \<in> set fs')"
    proof (cases "pt_conversation t = cid")
      case True
      then show ?thesis using agreeD(4,5) [OF t True] by simp
    next
      case False
      note t0 = old [OF t False]
      have "fence_of t p \<in> set fs'" if "pt_role t = SourceRole" "pt_phase t = PhaseRelinquished"
        using ok t0 fs that by (auto simp: plane_ok_def fences_ok_def)
      then show ?thesis using fenced_row [OF ok t0] new [OF _ _ t0 False] H [OF False] by metis
    qed
  qed
  ultimately show ?thesis by (simp add: plane_ok_def)
qed

lemma home_eta: "au_state a = Home \<Longrightarrow> a = \<lparr>au_state = Home, au_epoch = au_epoch a\<rparr>" for a :: authority_record
  by simp

lemma holder_stays: "holder_step H H"
  by (rule fade_authority) simp

lemma insert_conversation_sel:
  "insert_conversation n s = Inr s' \<Longrightarrow> hs_plane s' = hs_plane s \<and> hs_transfers s' = hs_transfers s"
  by (auto simp: insert_conversation_def rbind_Inr_iff)

lemma create_sim:
  assumes sim: "sim L W H I" and new: "nc_id n \<notin> set (hw_created W)" and i: "insert_conversation n (hw_planes W p) = Inr s"
  shows "\<exists>H'. holder_step H H' \<and> sim L ((set_plane p s W)\<lparr>hw_created := nc_id n # hw_created W\<rparr>) H' I"
proof (intro exI conjI)
  let ?cid = "nc_id n" and ?H = "H(nc_id n \<mapsto> Held p 1)"
  have none: "H ?cid = None" using sim_parts(2) [OF sim, of ?cid] new by blast
  then show "holder_step H ?H" by (rule begin_holding)
  note ok = sim_plane [OF sim]
  have fresh: "pt_conversation t \<noteq> ?cid" if "t \<in> set (hs_transfers (hw_planes W p))" for t
    using rows_ok_basic(3) [OF ok that] ok [of p] new by (auto simp: plane_ok_def homes_ok_def)
  have p: "plane_ok ?H I (?cid # hw_created W) (hw_fences W) p s"
    by (rule plane_change [OF ok [of p], where cid = ?cid and a = HOME_AUTHORITY])
      (use insert_conversation_sel [OF i] authority_of_insert [OF i] fresh rows_ok_basic(2) [OF ok [of p]] in
        \<open>auto simp: rows_agree_def HOME_AUTHORITY_def\<close>)
  show "sim L ((set_plane p s W)\<lparr>hw_created := ?cid # hw_created W\<rparr>) ?H I"
  proof (rule simI)
    show "carried_ok L I ((set_plane p s W)\<lparr>hw_created := ?cid # hw_created W\<rparr>)"
      using sim_parts(1) [OF sim] by (fastforce simp: carried_ok_def)
    show "fences_due ?H ((set_plane p s W)\<lparr>hw_created := ?cid # hw_created W\<rparr>)"
      by (rule fences_due_keep [OF sim_parts(3) [OF sim]]) (use none in auto)
    fix q
    have "plane_ok ?H I (?cid # hw_created W) (hw_fences W) q (hw_planes W q)"
      by (rule plane_frame [OF ok [of q]]) (use none in auto)
    then show "plane_ok ?H I (hw_created ((set_plane p s W)\<lparr>hw_created := ?cid # hw_created W\<rparr>))
        (hw_fences ((set_plane p s W)\<lparr>hw_created := ?cid # hw_created W\<rparr>)) q
        (hw_planes ((set_plane p s W)\<lparr>hw_created := ?cid # hw_created W\<rparr>) q)"
      using p by simp
  qed (use sim_parts(2) [OF sim] in \<open>auto split: if_splits\<close>)
qed

lemma source_row_info: "pt_role t = SourceRole \<Longrightarrow> row_info t p = (pt_conversation t, pt_retired_epoch t, p, pt_peer t)"
  by (simp add: row_info_def)

lemma carriedD:
  assumes "carried_ok L I W"
  shows "bs \<in> set (hw_bundles W) \<Longrightarrow> \<exists>b files. encode_bundle L files b = Inr bs \<and> I (tb_transfer b) = Some (bundle_info b)"
    and "f \<in> set (hw_fences W) \<Longrightarrow> I (af_transfer f) = Some (af_conversation f, af_retired_epoch f, af_source f, af_target f)"
    and "I tid = Some i \<Longrightarrow> tid \<in> set (hw_transfers W) \<and> fst i \<in> set (hw_created W)"
  using assms unfolding carried_ok_def by blast+

lemma carriedI:
  assumes "\<And>bs. bs \<in> set (hw_bundles W) \<Longrightarrow> \<exists>b files. encode_bundle L files b = Inr bs \<and> I (tb_transfer b) = Some (bundle_info b)"
    and "\<And>f. f \<in> set (hw_fences W) \<Longrightarrow> I (af_transfer f) = Some (af_conversation f, af_retired_epoch f, af_source f, af_target f)"
    and "\<And>tid i. I tid = Some i \<Longrightarrow> tid \<in> set (hw_transfers W) \<and> fst i \<in> set (hw_created W)"
  shows "carried_ok L I W"
  using assms unfolding carried_ok_def by blast

lemma carried_new:
  assumes c: "carried_ok L I W" and tid: "tid \<notin> set (hw_transfers W)" and cid: "fst i \<in> set (hw_created W)"
    and b: "encode_bundle L files b = Inr bs" "tb_transfer b = tid" "bundle_info b = i"
  shows "carried_ok L (I(tid \<mapsto> i)) ((set_plane p s W)\<lparr>hw_transfers := tid # hw_transfers W, hw_bundles := bs # hw_bundles W\<rparr>)"
proof (rule carriedI)
  have unknown: "I tid = None" using carriedD(3) [OF c, of tid] tid by (cases "I tid") auto
  fix x assume "x \<in> set (hw_bundles ((set_plane p s W)\<lparr>hw_transfers := tid # hw_transfers W, hw_bundles := bs # hw_bundles W\<rparr>))"
  then consider "x = bs" | "x \<in> set (hw_bundles W)" by auto
  then show "\<exists>b files. encode_bundle L files b = Inr x \<and> (I(tid \<mapsto> i)) (tb_transfer b) = Some (bundle_info b)"
  proof cases
    case 1
    then show ?thesis using b by auto
  next
    case 2
    from carriedD(1) [OF c this] obtain b' files' where
      "encode_bundle L files' b' = Inr x" "I (tb_transfer b') = Some (bundle_info b')" by blast
    then show ?thesis using unknown by (intro exI [of _ b'] exI [of _ files']) auto
  qed
next
  have unknown: "I tid = None" using carriedD(3) [OF c, of tid] tid by (cases "I tid") auto
  fix f assume "f \<in> set (hw_fences ((set_plane p s W)\<lparr>hw_transfers := tid # hw_transfers W, hw_bundles := bs # hw_bundles W\<rparr>))"
  then have "I (af_transfer f) = Some (af_conversation f, af_retired_epoch f, af_source f, af_target f)"
    using carriedD(2) [OF c] by simp
  then show "(I(tid \<mapsto> i)) (af_transfer f) = Some (af_conversation f, af_retired_epoch f, af_source f, af_target f)"
    using unknown by auto
next
  fix k j assume "(I(tid \<mapsto> i)) k = Some j"
  then show "k \<in> set (hw_transfers ((set_plane p s W)\<lparr>hw_transfers := tid # hw_transfers W, hw_bundles := bs # hw_bundles W\<rparr>)) \<and>
      fst j \<in> set (hw_created ((set_plane p s W)\<lparr>hw_transfers := tid # hw_transfers W, hw_bundles := bs # hw_bundles W\<rparr>))"
    using carriedD(3) [OF c, of k j] cid by (cases "k = tid") auto
qed

lemma relinquished_fence:
  "plane_ok H I c fs p s \<Longrightarrow> t \<in> set (hs_transfers s) \<Longrightarrow> pt_role t = SourceRole \<Longrightarrow> pt_phase t = PhaseRelinquished \<Longrightarrow>
   fence_of t p \<in> set fs"
  by (simp add: plane_ok_def fences_ok_def)

text \<open>Rows of \<open>cid\<close> from before, none of them prepared, and at most one new row.\<close>

lemma rows_agree_settled:
  assumes ok: "plane_ok H0 I0 c fs0 p s" and I: "I0 \<subseteq>\<^sub>m I" and fs: "set fs0 \<subseteq> set fs"
    and old: "\<And>t. t \<in> set ts \<Longrightarrow> pt_conversation t = cid \<Longrightarrow>
      t \<in> set (hs_transfers s) \<and> pt_phase t \<noteq> PhasePrepared"
  shows "rows_agree cid H I fs p a ts"
  unfolding rows_agree_def
proof (intro ballI impI conjI)
  fix t assume t: "t \<in> set ts" "pt_conversation t = cid"
  note t' = old [OF t]
  show "I (pt_id t) = Some (row_info t p)" using row_known [OF ok conjunct1 [OF t']] I by (metis domI map_le_def)
  show "pt_role t = SourceRole \<Longrightarrow> pt_phase t = PhaseRelinquished \<Longrightarrow> fence_of t p \<in> set fs"
    using relinquished_fence [OF ok] t' fs by blast
qed (use old in \<open>auto simp: prepared_source_def prepared_target_def\<close>)

lemma rows_agree_snoc:
  assumes old: "rows_agree cid H I fs p a ts" and none: "\<And>t. t \<in> set ts \<Longrightarrow> pt_conversation t = cid \<Longrightarrow> pt_phase t \<noteq> PhasePrepared"
    and t: "pt_phase t = PhasePrepared" "I (pt_id t) = Some (row_info t p)"
      "\<And>f. f \<in> set fs \<Longrightarrow> af_transfer f = pt_id t \<Longrightarrow>
        pt_role t = TargetRole \<and> H cid = Some (Moving (pt_id t) (pt_peer t) p (pt_retired_epoch t))"
      "pt_role t = SourceRole \<Longrightarrow> a = \<lparr>au_state = Home, au_epoch = pt_retired_epoch t\<rparr>"
      "pt_role t = TargetRole \<Longrightarrow> \<exists>e. u64_checked_add (pt_retired_epoch t) 1 = Some e \<and> a = \<lparr>au_state = Prepared, au_epoch = e\<rparr>"
  shows "rows_agree cid H I fs p a (ts @ [t])"
  unfolding rows_agree_def
proof (intro ballI impI)
  fix x assume x: "x \<in> set (ts @ [t])" "pt_conversation x = cid"
  have uniq: "\<forall>t'\<in>set (ts @ [t]). pt_conversation t' = cid \<longrightarrow> pt_phase x = PhasePrepared \<longrightarrow> pt_phase t' = PhasePrepared \<longrightarrow> x = t'"
    using none x by auto
  show "I (pt_id x) = Some (row_info x p) \<and>
    (prepared_source x \<longrightarrow> a = \<lparr>au_state = Home, au_epoch = pt_retired_epoch x\<rparr> \<or>
       H cid = Some (Moving (pt_id x) p (pt_peer x) (pt_retired_epoch x))) \<and>
    (prepared_target x \<longrightarrow> (\<exists>e. u64_checked_add (pt_retired_epoch x) 1 = Some e \<and> a = \<lparr>au_state = Prepared, au_epoch = e\<rparr>)) \<and>
    (\<forall>f\<in>set fs. af_transfer f = pt_id x \<longrightarrow> pt_phase x = PhasePrepared \<longrightarrow>
       pt_role x = TargetRole \<and> H cid = Some (Moving (pt_id x) (pt_peer x) p (pt_retired_epoch x))) \<and>
    (pt_role x = SourceRole \<longrightarrow> pt_phase x = PhaseRelinquished \<longrightarrow> fence_of x p \<in> set fs) \<and>
    (\<forall>t'\<in>set (ts @ [t]). pt_conversation t' = cid \<longrightarrow> pt_phase x = PhasePrepared \<longrightarrow> pt_phase t' = PhasePrepared \<longrightarrow> x = t')"
  proof (cases "x = t")
    case True
    then show ?thesis using t uniq by (auto simp: prepared_source_def prepared_target_def)
  next
    case False
    then have m: "x \<in> set ts" using x by simp
    show ?thesis
      using rows_agreeD(1,5) [OF old m x(2)] none [OF m x(2)] uniq by (auto simp: prepared_source_def prepared_target_def)
  qed
qed

lemma prepare_sim:
  assumes sim: "sim L W H I" and tid: "tid \<notin> set (hw_transfers W)"
    and prep: "prepare_plane_transfer L files actor cid target now tid tid' eid (hw_planes W p) (hw_planes W p) = Inr ((t, bs), s)"
  shows "\<exists>H' I'. holder_step H H' \<and>
    sim L ((set_plane p s W)\<lparr>hw_transfers := pt_id t # hw_transfers W, hw_bundles := bs # hw_bundles W\<rparr>) H' I'"
proof -
  let ?W = "(set_plane p s W)\<lparr>hw_transfers := pt_id t # hw_transfers W, hw_bundles := bs # hw_bundles W\<rparr>"
  note ok = sim_plane [OF sim] and carried = sim_parts(1) [OF sim]
  note hp = rows_ok_basic(1) [OF ok [of p]]
  from prep show ?thesis
  proof (cases rule: prepare_transfer_Inr)
    case (again b)
    have "I (tb_transfer b) = Some (bundle_info b)"
      using row_known [OF ok again(2)] again hp by (simp add: source_row_info)
    then have c: "carried_ok L I ?W"
      using again(4) by (intro carriedI) (use carriedD [OF carried] in auto)
    have "fences_due H ?W" by (rule fences_due_keep [OF sim_parts(3) [OF sim]]) simp_all
    then have "sim L ?W H I"
      by (rule simI [OF c]) (use sim_parts(2) [OF sim] ok again(1) in auto)
    then show ?thesis using holder_stays by blast
  next
    case (fresh a b)
    let ?I = "I(tid \<mapsto> (cid, au_epoch a, p, pt_peer t))"
    have unknown: "I tid = None" using carriedD(3) [OF carried, of tid] tid by (cases "I tid") auto
    then have le: "I \<subseteq>\<^sub>m ?I" by (auto simp: map_le_def)
    have created: "cid \<in> set (hw_created W)" using ok [of p] fresh(1) by (auto simp: plane_ok_def homes_ok_def)
    have none: "pt_phase x \<noteq> PhasePrepared" if "x \<in> set (hs_transfers (hw_planes W p))" "pt_conversation x = cid" for x
      using fresh(3) that by (auto simp: open_plane_transfer_None)
    have no_fence: "af_transfer f \<noteq> tid" if "f \<in> set (hw_fences W)" for f
      using carriedD(2) [OF carried that] unknown by auto
    have c: "carried_ok L ?I ?W"
      using carried_new [OF carried tid _ fresh(13)] created fresh hp by simp
    have "rows_agree cid H ?I (hw_fences W) p a (hs_transfers (hw_planes W p))"
      using none by (intro rows_agree_settled [OF ok [of p] le]) auto
    then have "rows_agree cid H ?I (hw_fences W) p a (hs_transfers s)"
      unfolding fresh(10) by (rule rows_agree_snoc)
        (use none fresh(4-8) no_fence home_eta [OF fresh(2)] in \<open>auto simp: source_row_info\<close>)
    then have p: "plane_ok H ?I (hw_created W) (hw_fences W) p s"
      by (intro plane_change [OF ok [of p] _ le, where cid = cid and a = a])
        (use fresh hp created rows_ok_basic(2) [OF ok [of p]] home_held [OF ok fresh(1,2)] in auto)
    have "sim L ?W H ?I"
    proof (rule simI [OF c fences_due_keep [OF sim_parts(3) [OF sim]]])
      fix q
      have "plane_ok H ?I (hw_created W) (hw_fences W) q (hw_planes W q)"
        by (rule plane_frame [OF ok [of q] le]) auto
      then show "plane_ok H ?I (hw_created ?W) (hw_fences ?W) q (hw_planes ?W q)" using p by simp
    qed (use sim_parts(2) [OF sim] in auto)
    then show ?thesis using holder_stays by blast
  qed
qed

lemma import_target:
  assumes "prepare_plane_transfer_import L projects disk publish bs project s = Inr pi"
  obtains d where "decode_bundle L bs = Inr d" "pi_bundle pi = db_bundle d" "tb_target (db_bundle d) = hs_plane s"
  using assms by (auto simp: prepare_plane_transfer_import_def rbind_Inr_iff)

lemma import_sim:
  assumes laws: "bundle_laws L" and sim: "sim L W H I" and bs: "bs \<in> set (hw_bundles W)"
    and pi: "prepare_plane_transfer_import L projects disk publish bs project (hw_planes W p) = Inr pi"
    and able: "importable (tb_transfer (pi_bundle pi)) p W"
    and imp: "import_record L actor pi now eid (hw_planes W p) = Inr (t, s)"
  shows "\<exists>H'. holder_step H H' \<and> sim L (set_plane p s W) H' I"
proof -
  note ok = sim_plane [OF sim] and carried = sim_parts(1) [OF sim]
  note hp = rows_ok_basic(1) [OF ok [of p]]
  let ?b = "pi_bundle pi"
  let ?cid = "bc_id (tb_conversation ?b)"
  from import_target [OF pi] obtain d where d: "decode_bundle L bs = Inr d" "?b = db_bundle d" "tb_target ?b = p"
    using hp by metis
  from carriedD(1) [OF carried bs] obtain b files where "encode_bundle L files b = Inr bs" "I (tb_transfer b) = Some (bundle_info b)"
    by blast
  then have info: "I (tb_transfer ?b) = Some (bundle_info ?b)"
    using decoded_is_encoded [OF laws _ d(1)] d(2) by simp
  from imp show ?thesis
  proof (cases rule: import_Inr)
    case again
    then show ?thesis using other_work_quiet [OF sim, of p s] by (simp add: other_work_def)
  next
    case (fresh epoch s1)
    have due: "H ?cid = Some (Moving (tb_transfer ?b) (tb_source ?b) p (bc_retired_epoch (tb_conversation ?b)))"
      if "f \<in> set (hw_fences W)" "af_transfer f = tb_transfer ?b" for f
    proof -
      have "tb_transfer ?b \<notin> set (hw_taken W)"
        using able fresh(1) by (force simp: importable_def dest!: plane_transfer_of_Some)
      then show ?thesis
        using fence_dueD [OF sim_parts(3) [OF sim] that(1)] carriedD(2) [OF carried that(1)] that(2) info d(3)
        by (auto simp: bundle_info_def)
    qed
    have created: "?cid \<in> set (hw_created W)" using carriedD(3) [OF carried info] by (simp add: bundle_info_def)
    have rows: "x \<in> set (hs_transfers (hw_planes W p)) \<and> pt_conversation x \<noteq> ?cid" if "x \<in> set (hs_transfers s1)" for x
      using that make_room_Inr [OF fresh(3)] rows_ok_basic(3) [OF ok [of p], of x] by auto
    have dist: "distinct (map pt_id (hs_transfers s1))"
      using make_room_Inr [OF fresh(3)] rows_ok_basic(2) [OF ok [of p]] by (auto simp: distinct_map_filter)
    have "rows_agree ?cid H I (hw_fences W) p \<lparr>au_state = Prepared, au_epoch = epoch\<rparr> (hs_transfers s1)"
      using rows by (auto simp: rows_agree_def)
    then have "rows_agree ?cid H I (hw_fences W) p \<lparr>au_state = Prepared, au_epoch = epoch\<rparr> (hs_transfers s)"
      unfolding fresh(5) by (rule rows_agree_snoc)
        (use rows fresh(2,7) due info d(3) in \<open>auto simp: row_info_def bundle_info_def\<close>)
    then have "plane_ok H I (hw_created W) (hw_fences W) p s"
      by (intro plane_change [OF ok [of p], where cid = ?cid and a = "\<lparr>au_state = Prepared, au_epoch = epoch\<rparr>"])
        (use fresh(1,4-7) hp created dist rows in auto)
    then have "sim L (set_plane p s W) H I"
      using sim_local [OF sim] sim_parts(2) [OF sim] by simp
    then show ?thesis using holder_stays by blast
  qed
qed

text \<open>Settling the row \<open>t\<close> of a Conversation leaves none of its rows prepared.\<close>

lemma settle_other:
  assumes ok: "plane_ok H I c fs p s" and t: "t \<in> set (hs_transfers s)" "pt_phase t = PhasePrepared"
    and x: "x \<in> set (map (settle_row (pt_id t) ph now) (hs_transfers s))"
  shows "x = with_phase ph now t \<or> (x \<in> set (hs_transfers s) \<and> pt_id x \<noteq> pt_id t \<and>
    (pt_conversation x = pt_conversation t \<longrightarrow> pt_phase x \<noteq> PhasePrepared))"
proof -
  from x obtain y where y: "y \<in> set (hs_transfers s)" "x = settle_row (pt_id t) ph now y" by auto
  show ?thesis
  proof (cases "pt_id y = pt_id t")
    case True
    then have "y = t" using row_unique [OF ok y(1) t(1)] by simp
    then show ?thesis using y by (simp add: settle_row_def)
  next
    case False
    then have "x = y" using y by (simp add: settle_row_def)
    then show ?thesis using prepared_unique [OF ok t(1) y(1) t(2)] y(1) False by auto
  qed
qed

lemma settled_fields [simp]:
  "pt_id (with_phase ph now t) = pt_id t" "pt_conversation (with_phase ph now t) = pt_conversation t"
  "pt_role (with_phase ph now t) = pt_role t" "pt_phase (with_phase ph now t) = ph"
  by (simp_all add: with_phase_def)

lemma settled_info [simp]: "row_info (with_phase ph now t) p = row_info t p"
  by (cases "pt_role t") (simp_all add: with_phase_def row_info_def)

lemma settled_distinct:
  "plane_ok H I c fs p s \<Longrightarrow> distinct (map pt_id (map (settle_row tid ph now) (hs_transfers s)))"
  using rows_ok_basic(2) by (simp add: comp_def)

lemma settled_agree:
  assumes ok: "plane_ok H I c fs p s" and t: "t \<in> set (hs_transfers s)" "pt_phase t = PhasePrepared" and fs: "set fs \<subseteq> set fs'"
    and ph: "ph \<noteq> PhasePrepared" "pt_role t = SourceRole \<Longrightarrow> fence_of (with_phase ph now t) p \<in> set fs'"
  shows "rows_agree (pt_conversation t) H' I fs' p a (map (settle_row (pt_id t) ph now) (hs_transfers s))"
proof -
  have none: "pt_phase x \<noteq> PhasePrepared"
    if "x \<in> set (map (settle_row (pt_id t) ph now) (hs_transfers s))" "pt_conversation x = pt_conversation t" for x
    using settle_other [OF ok t that(1)] that(2) ph(1) by auto
  show ?thesis
    unfolding rows_agree_def
  proof (intro ballI impI conjI)
  fix x assume m: "x \<in> set (map (settle_row (pt_id t) ph now) (hs_transfers s))" and c: "pt_conversation x = pt_conversation t"
  note x = settle_other [OF ok t m]
  show "I (pt_id x) = Some (row_info x p)" using x row_known [OF ok] t(1) by auto
  show "pt_role x = SourceRole \<Longrightarrow> pt_phase x = PhaseRelinquished \<Longrightarrow> fence_of x p \<in> set fs'"
    using x relinquished_fence [OF ok] fs ph(2) by auto
  qed (use none in \<open>(simp del: set_map add: prepared_source_def prepared_target_def)+\<close>)
qed

lemma relinquish_sim:
  assumes sim: "sim L W H I" and rel: "relinquish L ledger actor tid sha now eid (hw_planes W p) = Inr (f, s)"
  shows "\<exists>H'. holder_step H H' \<and> sim L ((set_plane p s W)\<lparr>hw_fences := f # hw_fences W\<rparr>) H' I"
proof -
  let ?W = "(set_plane p s W)\<lparr>hw_fences := f # hw_fences W\<rparr>"
  note ok = sim_plane [OF sim] and carried = sim_parts(1) [OF sim]
  note hp = rows_ok_basic(1) [OF ok [of p]]
  from rel show ?thesis
  proof (cases rule: relinquish_Inr)
    case (again t)
    then have f: "f \<in> set (hw_fences W)" using relinquished_fence [OF ok again(2-4)] hp by simp
    have "sim L ?W H I"
    proof (rule simI)
      show "carried_ok L I ?W" using f carriedD [OF carried] by (intro carriedI) auto
      show "fences_due H ?W" by (rule fences_due_keep [OF sim_parts(3) [OF sim]]) (use f in auto)
      fix q show "plane_ok H I (hw_created ?W) (hw_fences ?W) q (hw_planes ?W q)"
        using again(1) plane_frame [OF ok [of q], of I "hw_created W" "f # hw_fences W" H] f by auto
    qed (use sim_parts(2) [OF sim] in auto)
    then show ?thesis using holder_stays by blast
  next
    case (retired t)
    let ?c = "pt_conversation t" and ?e = "pt_retired_epoch t"
    let ?m = "Moving tid p (pt_peer t) ?e"
    let ?H = "H(?c \<mapsto> ?m)"
    have src: "prepared_source t" using retired by (simp add: prepared_source_def)
    have info: "I tid = Some (?c, ?e, p, pt_peer t)" using row_known [OF ok retired(1)] retired(2,3) by (simp add: source_row_info)
    have holder: "H ?c = Some (Held p ?e) \<or> H ?c = Some ?m" using source_row [OF ok retired(1) src] retired(2) by auto
    then have step: "holder_step H ?H"
      using retire_authority [of H ?c p ?e tid "pt_peer t"] holder_stays [of H] by (auto simp: fun_upd_idem)
    have fence: "af_transfer f = tid" "f = fence_of (with_phase PhaseRelinquished now t) p"
      using retired hp by (simp_all add: fence_of_def with_phase_def)
    have p: "plane_ok ?H I (hw_created W) (f # hw_fences W) p s"
    proof (rule plane_change [OF ok [of p], where cid = ?c and a = "\<lparr>au_state = Relinquished, au_epoch = ?e\<rparr>"])
      show "rows_agree ?c ?H I (f # hw_fences W) p \<lparr>au_state = Relinquished, au_epoch = ?e\<rparr> (hs_transfers s)"
        using settled_agree [OF ok retired(1,4), where fs' = "f # hw_fences W" and ph = PhaseRelinquished and now = now] retired(2,7) fence(2)
        by (simp add: subset_insertI)
      show "distinct (map pt_id (hs_transfers s))" using settled_distinct [OF ok [of p]] retired(7) by simp
      show "?c \<in> set (hw_created W)" using carriedD(3) [OF carried info] by simp
    next
      fix x assume "x \<in> set (hs_transfers s)" "pt_conversation x \<noteq> ?c"
      then show "x \<in> set (hs_transfers (hw_planes W p))"
        using settle_other [OF ok retired(1,4)] retired(2,7) by fastforce
    next
      fix g x assume "g \<in> set (f # hw_fences W)" "g \<notin> set (hw_fences W)" and x: "x \<in> set (hs_transfers (hw_planes W p))" "pt_conversation x \<noteq> ?c"
      then have "g = f" by simp
      then show "af_transfer g \<noteq> pt_id x" using row_unique [OF ok retired(1) x(1)] x(2) fence(1) retired(2) by auto
    qed (use retired(8,9) hp in auto)
    have "sim L ?W ?H I"
    proof (rule simI)
      show "carried_ok L I ?W"
        using carriedD [OF carried] info fence by (intro carriedI) (auto simp: fence_of_def with_phase_def)
      show "fences_due ?H ?W"
        unfolding fences_due_def
      proof
        fix g assume "g \<in> set (hw_fences ?W)"
        then consider "g = f" | "g \<in> set (hw_fences W)" by auto
        then show "af_transfer g \<in> set (hw_taken ?W) \<or>
          ?H (af_conversation g) = Some (Moving (af_transfer g) (af_source g) (af_target g) (af_retired_epoch g))"
        proof cases
          case 1
          then show ?thesis using fence retired(2) by (simp add: fence_of_def with_phase_def)
        next
          case 2
          then show ?thesis using fence_dueD [OF sim_parts(3) [OF sim] 2] holder by auto
        qed
      qed
      fix q
      have "plane_ok ?H I (hw_created W) (f # hw_fences W) q (hw_planes W q)" if "q \<noteq> p"
      proof (rule plane_frame [OF ok [of q]])
        fix g x assume "g \<in> set (f # hw_fences W)" "g \<notin> set (hw_fences W)" and x: "x \<in> set (hs_transfers (hw_planes W q))"
          "af_transfer g = pt_id x" "pt_phase x = PhasePrepared"
        then have "pt_id x = tid" using fence(1) by simp
        then show "pt_role x = TargetRole \<and> ?H (pt_conversation x) = Some (Moving (pt_id x) (pt_peer x) q (pt_retired_epoch x))"
          using row_known [OF ok x(1)] info that by (cases "pt_role x") (auto simp: row_info_def)
      qed (use holder that retired(2) in auto)
      then show "plane_ok ?H I (hw_created ?W) (hw_fences ?W) q (hw_planes ?W q)" using p by simp
    qed (use sim_parts(2) [OF sim] carriedD(3) [OF carried info] in \<open>auto split: if_splits\<close>)
    then show ?thesis using step by blast
  qed
qed

lemma commit_sim:
  assumes sim: "sim L W H I" and f: "f \<in> set (hw_fences W)"
    and com: "commit_transfer actor tid sha f now eid (hw_planes W p) = Inr (t', s)"
  shows "\<exists>H'. holder_step H H' \<and> sim L ((set_plane p s W)\<lparr>hw_taken := tid # hw_taken W\<rparr>) H' I"
proof -
  let ?W = "(set_plane p s W)\<lparr>hw_taken := tid # hw_taken W\<rparr>"
  note ok = sim_plane [OF sim] and carried = sim_parts(1) [OF sim]
  note hp = rows_ok_basic(1) [OF ok [of p]]
  from com show ?thesis
  proof (cases rule: commit_Inr)
    case again
    have "sim L ?W H I"
      by (rule simI) (use again sim_parts [OF sim] ok in \<open>auto simp: carried_ok_def fences_due_def\<close>)
    then show ?thesis using holder_stays by blast
  next
    case (taken t epoch)
    let ?c = "pt_conversation t"
    let ?H = "H(?c \<mapsto> Held p epoch)"
    have ft: "af_transfer f = pt_id t" using taken(5) by (simp add: fence_names_def)
    have moving: "H ?c = Some (Moving (pt_id t) (pt_peer t) p (pt_retired_epoch t))"
      using fenced_row [OF ok taken(1) f ft taken(4)] by simp
    have created: "?c \<in> set (hw_created W)" using sim_parts(2) [OF sim, of ?c] moving by simp
    have p: "plane_ok ?H I (hw_created W) (hw_fences W) p s"
    proof (rule plane_change [OF ok [of p], where cid = ?c and a = "\<lparr>au_state = Home, au_epoch = epoch\<rparr>"])
      show "rows_agree ?c ?H I (hw_fences W) p \<lparr>au_state = Home, au_epoch = epoch\<rparr> (hs_transfers s)"
        using settled_agree [OF ok taken(1,4)] taken(2,3,8) by auto
      show "distinct (map pt_id (hs_transfers s))" using settled_distinct [OF ok [of p]] taken(8) by simp
    next
      fix x assume "x \<in> set (hs_transfers s)" "pt_conversation x \<noteq> ?c"
      then show "x \<in> set (hs_transfers (hw_planes W p))"
        using settle_other [OF ok taken(1,4)] taken(2,8) by fastforce
    qed (use taken(9,10) created in auto)
    have "sim L ?W ?H I"
    proof (rule simI)
      show "carried_ok L I ?W" using carriedD [OF carried] by (intro carriedI) auto
      show "fences_due ?H ?W"
        unfolding fences_due_def
      proof
        fix g assume "g \<in> set (hw_fences ?W)"
        then show "af_transfer g \<in> set (hw_taken ?W) \<or>
          ?H (af_conversation g) = Some (Moving (af_transfer g) (af_source g) (af_target g) (af_retired_epoch g))"
          using fence_dueD [OF sim_parts(3) [OF sim], of g] moving taken(2) by auto
      qed
      fix q
      have "plane_ok ?H I (hw_created W) (hw_fences W) q (hw_planes W q)" if "q \<noteq> p"
      proof (rule plane_frame [OF ok [of q]])
        fix x assume x: "x \<in> set (hs_transfers (hw_planes W q))" "prepared_source x"
          "H (pt_conversation x) = Some (Moving (pt_id x) q (pt_peer x) (pt_retired_epoch x))"
        have "pt_conversation x \<noteq> ?c"
        proof
          assume "pt_conversation x = ?c"
          then have "af_transfer f = pt_id x" using moving x(3) ft by simp
          from fenced_row [OF ok x(1) f this] x(2) show False by (auto simp: prepared_source_def)
        qed
        then show "?H (pt_conversation x) = H (pt_conversation x)" by simp
      qed (use moving that in auto)
      then show "plane_ok ?H I (hw_created ?W) (hw_fences ?W) q (hw_planes ?W q)"
        using p by simp
    qed (use sim_parts [OF sim] created in \<open>auto split: if_splits\<close>)
    moreover have "holder_step H ?H" using take_authority [of H ?c, OF moving taken(6)] .
    ultimately show ?thesis by blast
  qed
qed

section \<open>The Planes implement one holder\<close>

lemma home_step_sim:
  assumes laws: "bundle_laws L" and step: "home_step L W W'" and sim: "sim L W H I"
  shows "\<exists>H' I'. holder_step H H' \<and> sim L W' H' I'"
  using step
proof cases
  case (create n p s)
  then show ?thesis using create_sim [OF sim] by blast
next
  case (prepare tid files actor cid target now tid' eid p t bs s)
  then show ?thesis using prepare_sim [OF sim] by blast
next
  case (import bs projects disk publish project p pi actor now eid t s)
  then show ?thesis using import_sim [OF laws sim] by blast
next
  case (relinquish ledger actor tid sha now eid p f s)
  then show ?thesis using relinquish_sim [OF sim] by blast
next
  case (relinquish_crash ledger actor tid sha now eid p f s)
  then show ?thesis using sim_fade [OF sim fades_crash] by blast
next
  case (commit f actor tid sha now eid p t s)
  then show ?thesis using commit_sim [OF sim] by blast
next
  case (abort actor tid now eid p s)
  then show ?thesis using sim_quiet [OF sim abort_quiet [OF abort(2)]] by blast
next
  case (forget actor cid grace now eid p r s)
  then show ?thesis using other_work_quiet [OF sim forget_other] holder_stays by blast
next
  case (restore actor cid now eid p s)
  then show ?thesis using other_work_quiet [OF sim restore_other] holder_stays by blast
next
  case (stage ws cid reason grace now snapshot p b s)
  then show ?thesis using other_work_quiet [OF sim stage_if_unprotected_other] holder_stays by blast
next
  case (delete r now p b s)
  then show ?thesis using sim_fade [OF sim] delete_fades [OF delete(2)] by blast
next
  case (reopen p)
  then show ?thesis using sim_fade [OF sim fades_reopen] by blast
next
  case (work p s)
  then show ?thesis using other_work_quiet [OF sim] holder_stays by blast
qed

lemma new_world_sim: "sim L new_world Map.empty Map.empty"
  by (rule simI) (auto simp: new_world_def carried_ok_def fences_due_def plane_ok_def rows_ok_def homes_ok_def fences_ok_def
    empty_store_def authority_of_def conversation_of_def)

text \<open>Forward simulation: what every step of the program keeps with a step of its specification.\<close>

locale simulation =
  fixes step :: "'s \<Rightarrow> 's \<Rightarrow> bool" and spec_step :: "'a \<Rightarrow> 'a \<Rightarrow> bool" and related :: "'s \<Rightarrow> 'a \<Rightarrow> bool"
  assumes step_simulated: "related s a \<Longrightarrow> step s s' \<Longrightarrow> \<exists>a'. spec_step a a' \<and> related s' a'"
begin

lemma reachable_simulated:
  assumes "step\<^sup>*\<^sup>* s s'" and "related s a"
  shows "\<exists>a'. spec_step\<^sup>*\<^sup>* a a' \<and> related s' a'"
  using assms
proof (induction rule: rtranclp_induct)
  case (step y z)
  then obtain b where "spec_step\<^sup>*\<^sup>* a b" "related y b" by blast
  then show ?case using step_simulated [OF _ step(2)] by (meson rtranclp.rtrancl_into_rtrancl)
qed blast

end

interpretation holders: simulation "\<lambda>W W'. bundle_laws L \<and> home_step L W W'" holder_step "\<lambda>W H. \<exists>I. sim L W H I" for L
  by unfold_locales (use home_step_sim in blast)

lemma reachable_holders:
  assumes "bundle_laws L" and "(home_step L)\<^sup>*\<^sup>* new_world W"
  obtains H I where "holder_step\<^sup>*\<^sup>* Map.empty H" "sim L W H I"
  using holders.reachable_simulated [of L new_world W Map.empty] assms new_world_sim by auto

end
