(* ===== verification/Jet_Arrival.thy ===== *)
theory Jet_Arrival
  imports Jet_Transfer
begin

text \<open>
  What a transfer brings: an honest transfer completes, and the Conversation on the target has the
  Runs and the transcript it had on the source.
\<close>

section \<open>An honest transfer completes\<close>

lemma plane_transfer_of_last:
  "hs_transfers s = ts @ [t] \<Longrightarrow> pt_id t \<notin> pt_id ` set ts \<Longrightarrow> plane_transfer_of (pt_id t) s = Some t"
proof -
  assume s: "hs_transfers s = ts @ [t]" and new: "pt_id t \<notin> pt_id ` set ts"
  have "find (\<lambda>x. pt_id x = pt_id t) ts = None" unfolding find_None_iff using new by (metis image_eqI)
  then show ?thesis by (simp add: plane_transfer_of_def find_append s)
qed

lemma journal_fresh:
  assumes "eid \<notin> er_id ` set (hs_events s)"
  obtains s' where "journal_and_audit eid actor cid e d now s = Inr s'"
proof -
  have "find (\<lambda>x. er_id x = eid) (hs_events s) = None" using assms by (auto simp: find_None_iff)
  then show thesis using that by (simp add: journal_and_audit_def append_event_record_def core_event_def)
qed

lemma relinquish_fresh:
  assumes t: "plane_transfer_of tid s = Some t" "pt_role t = SourceRole" "pt_phase t = PhasePrepared"
    and live: "protections L (pt_conversation t) clean_workspace s = Inr ps" "\<not> has_live_work ps"
    and eid: "eid \<notin> er_id ` set (hs_events s)"
  shows "\<exists>s'. relinquish L (Inr ()) actor tid (pt_bundle t) now eid s = Inr (fence_of (with_phase PhaseRelinquished now t) (hs_plane s), s')"
    and "authority_of (pt_conversation t) s \<noteq> Some \<lparr>au_state = Relinquished, au_epoch = pt_retired_epoch t\<rparr> \<Longrightarrow>
      relinquish L (Inl e) actor tid (pt_bundle t) now eid s = Inl e"
proof -
  let ?s1 = "settle_plane_transfer (pt_id t) PhaseRelinquished now
    (set_conversation_authority (pt_conversation t) \<lparr>au_state = Relinquished, au_epoch = pt_retired_epoch t\<rparr> s)"
  have "authority_of (pt_conversation t) ?s1 \<noteq> None" using protections_exist [OF live(1)] by (simp add: authority_of_set)
  then have ex: "conversation_of (pt_conversation t) ?s1 \<noteq> None" by (simp add: authority_of_def)
  then obtain s2 fences where r: "relinquish_plane_transfer t now (i64_sat_add now TOMBSTONE_MS) s = Inr (s2, fences)"
    and ev: "hs_events s2 = hs_events s"
    and raised: "authority_of (pt_conversation t) s \<noteq> Some \<lparr>au_state = Relinquished, au_epoch = pt_retired_epoch t\<rparr> \<Longrightarrow> fences \<noteq> []"
    by (auto simp: relinquish_plane_transfer_def Let_def insert_trash_def record_fence_def settle_plane_transfer_def
      set_conversation_authority_def update_conversation_def authority_of_def split: option.splits)
  from journal_fresh [of eid s2] ev eid obtain s3 where
    "journal_and_audit eid actor (pt_conversation t) (TransferRelinquished (fence_of (with_phase PhaseRelinquished now t) (hs_plane s))
       (i64_sat_add now TOMBSTONE_MS)) D_Relinquished now s2 = Inr s3" by metis
  then have rel: "relinquish L ledger actor tid (pt_bundle t) now eid s =
      rbind (commit_fences ledger fences s3) (\<lambda>s4. Inr (fence_of (with_phase PhaseRelinquished now t) (hs_plane s), s4))" for ledger
    using t live r by (simp add: relinquish_def recorded_transfer_def require_bundle_def Let_def)
  show "\<exists>s'. relinquish L (Inr ()) actor tid (pt_bundle t) now eid s = Inr (fence_of (with_phase PhaseRelinquished now t) (hs_plane s), s')"
    by (simp add: rel commit_fences_def)
  show "relinquish L (Inl e) actor tid (pt_bundle t) now eid s = Inl e"
    if "authority_of (pt_conversation t) s \<noteq> Some \<lparr>au_state = Relinquished, au_epoch = pt_retired_epoch t\<rparr>"
    using raised [OF that] by (simp add: rel commit_fences_def)
qed

lemma commit_fresh:
  assumes t: "plane_transfer_of tid s = Some t" "pt_role t = TargetRole" "pt_phase t = PhasePrepared"
    and f: "fence_names f t (hs_plane s)" and e: "u64_checked_add (pt_retired_epoch t) 1 = Some epoch"
    and a: "authority_of (pt_conversation t) s = Some \<lparr>au_state = Prepared, au_epoch = epoch\<rparr>"
    and eid: "eid \<notin> er_id ` set (hs_events s)"
  shows "\<exists>s'. commit_transfer actor tid (pt_bundle t) f now eid s = Inr (with_phase PhaseCommitted now t, s')"
proof -
  let ?s1 = "settle_plane_transfer tid PhaseCommitted now
    (set_conversation_authority (pt_conversation t) \<lparr>au_state = Home, au_epoch = epoch\<rparr> s)"
  have "hs_events ?s1 = hs_events s" by (simp add: settle_plane_transfer_def set_conversation_authority_def update_conversation_def)
  from journal_fresh [of eid ?s1] this eid obtain s2 where
    "journal_and_audit eid actor (pt_conversation t) (TransferCommitted tid (af_source f) epoch) D_Committed now ?s1 = Inr s2" by metis
  then show ?thesis
    using t f e a by (auto simp: commit_transfer_def recorded_transfer_def require_bundle_def authority_of_def Let_def)
qed

lemma relinquish_fresh_authority:
  assumes "relinquish L ledger actor tid sha now eid s = Inr (f, s')" "plane_transfer_of tid s = Some t" "pt_phase t = PhasePrepared"
  shows "authority_of (pt_conversation t) s' = Some \<lparr>au_state = Relinquished, au_epoch = pt_retired_epoch t\<rparr>"
proof -
  from assms obtain ps s1 fences s2 where p: "protections L (pt_conversation t) clean_workspace s = Inr ps"
    and r: "relinquish_plane_transfer t now (i64_sat_add now TOMBSTONE_MS) s = Inr (s1, fences)"
    and j: "journal_and_audit eid actor (pt_conversation t)
        (TransferRelinquished f (i64_sat_add now TOMBSTONE_MS)) D_Relinquished now s1 = Inr s2"
    and c: "commit_fences ledger fences s2 = Inr s'"
    by (auto simp: relinquish_def rbind_Inr_iff Let_def recorded_transfer_Inr)
  show ?thesis
    using r protections_exist [OF p] commit_fences_authority [OF c] same_core_authority [OF journal_and_audit_core [OF j], of "pt_conversation t"]
    by (auto simp: relinquish_plane_transfer_def Let_def rbind_Inr_iff authority_of_set
      dest!: insert_trash_Inr [where k = "pt_conversation t"])
qed

lemma commit_fresh_authority:
  assumes "commit_transfer actor tid sha f now eid s = Inr (t', s')" "plane_transfer_of tid s = Some t" "pt_phase t = PhasePrepared"
    "u64_checked_add (pt_retired_epoch t) 1 = Some epoch"
  shows "authority_of (pt_conversation t) s' = Some \<lparr>au_state = Home, au_epoch = epoch\<rparr>"
proof -
  from assms obtain c where c: "conversation_of (pt_conversation t) s = Some c"
    and j: "journal_and_audit eid actor (pt_conversation t) (TransferCommitted tid (af_source f) epoch) D_Committed now
      (settle_plane_transfer tid PhaseCommitted now
        (set_conversation_authority (pt_conversation t) \<lparr>au_state = Home, au_epoch = epoch\<rparr> s)) = Inr s'"
    by (auto simp: commit_transfer_def rbind_Inr_iff Let_def recorded_transfer_Inr)
  have "authority_of (pt_conversation t) s \<noteq> None" using c by (simp add: authority_of_def)
  then show ?thesis
    using same_core_authority [OF journal_and_audit_core [OF j], of "pt_conversation t"] by (simp add: authority_of_set)
qed

text \<open>
  A commit asks only the rows: a fence in the Plane's own ledger for the very epoch does not
  stop it, so a Plane that moved on and lost its rows takes the epoch it has retired once more.
\<close>

lemma fenced_epoch_taken_again:
  assumes "g \<in> set (hs_fences s)" "fr_conversation g = pt_conversation t" "fr_retired_epoch g = epoch"
    and t: "plane_transfer_of tid s = Some t" "pt_role t = TargetRole" "pt_phase t = PhasePrepared"
    and f: "fence_names f t (hs_plane s)" and e: "u64_checked_add (pt_retired_epoch t) 1 = Some epoch"
    and a: "authority_of (pt_conversation t) s = Some \<lparr>au_state = Prepared, au_epoch = epoch\<rparr>"
    and eid: "eid \<notin> er_id ` set (hs_events s)"
  shows "\<exists>t' s'. commit_transfer actor tid (pt_bundle t) f now eid s = Inr (t', s') \<and>
    authority_of (pt_conversation t) s' = Some \<lparr>au_state = Home, au_epoch = fr_retired_epoch g\<rparr>"
  using commit_fresh [OF t f e a eid, of actor now] commit_fresh_authority [OF _ t(1,3) e] assms(3) by metis

text \<open>What a prepare leaves: the row it returns, and the protections as they were.\<close>

lemma protections_same:
  assumes "hs_queues s' = hs_queues s" "hs_runs s' = hs_runs s" "hs_schedules s' = hs_schedules s" "hs_effects s' = hs_effects s"
    "hs_conversations s' = hs_conversations s"
  shows "protections L cid ws s' = protections L cid ws s"
  using assms by (simp add: protections_def load_stored_queue_def conversation_of_def turn_queue_of_def runs_of_def scheduled_tasks_of_def)

lemma prepare_row:
  assumes "prepare_plane_transfer L files actor cid target now tid tid' eid s s = Inr ((t, bs), s')"
    and none: "open_plane_transfer cid s = None"
  obtains b ps where "encode_bundle L files b = Inr bs" "pt_bundle t = content_hash (format_lib.truncate L) bs"
    "plane_transfer_of (pt_id t) s' = Some t" "pt_role t = SourceRole" "pt_phase t = PhasePrepared" "pt_conversation t = cid"
    "tb_transfer b = pt_id t" "bundle_info b = (cid, pt_retired_epoch t, hs_plane s, pt_peer t)" "hs_plane s' = hs_plane s"
    "protections L cid clean_workspace s' = Inr ps" "\<not> has_live_work ps" "capture (t\<lparr>pt_bundle := []\<rparr>) (hs_plane s) s = Inr b"
    "authority_of cid s' = Some \<lparr>au_state = Home, au_epoch = pt_retired_epoch t\<rparr>"
proof -
  from assms obtain p b where p: "plan L cid target now tid s = Inr p"
    and b: "capture (pn_transfer p) (hs_plane s) s = Inr b" "encode_bundle L files b = Inr bs"
    and w: "prepare_write L actor cid target now tid' eid p (content_hash (format_lib.truncate L) bs) s = Inr (t, s')"
    by (auto simp: prepare_plane_transfer_def rbind_Inr_iff)
  from plan_begun [OF p none] obtain a where home: "au_state a = Home" and a: "authority_of cid s = Some a" "\<not> pn_recorded p"
    "pn_transfer p = \<lparr>pt_id = tid, pt_conversation = cid, pt_role = SourceRole, pt_phase = PhasePrepared,
       pt_retired_epoch = au_epoch a, pt_peer = target, pt_bundle = [], pt_prepared_at = now, pt_settled_at = None\<rparr>" by blast
  from p none obtain ps where ps: "protections L cid clean_workspace s = Inr ps" "\<not> has_live_work ps"
    by (auto simp: plan_def rbind_Inr_iff)
  from w a(2) obtain s1 where t: "t = (pn_transfer p)\<lparr>pt_bundle := content_hash (format_lib.truncate L) bs\<rparr>"
    and i: "insert_plane_transfer t s = Inr s1"
    and j: "journal_and_audit eid actor cid (TransferPrepared (pt_id t) target (pt_retired_epoch t)) D_Prepared now s1 = Inr s'"
    by (auto simp: prepare_write_def Let_def rbind_Inr_iff split: if_splits)
  from i have s1: "s1 = s\<lparr>hs_transfers := hs_transfers s @ [t]\<rparr>" "pt_id t \<notin> pt_id ` set (hs_transfers s)"
    by (simp_all add: insert_plane_transfer_Inr)
  have s': "hs_queues s' = hs_queues s" "hs_runs s' = hs_runs s" "hs_schedules s' = hs_schedules s" "hs_effects s' = hs_effects s"
    "hs_conversations s' = hs_conversations s" "hs_transfers s' = hs_transfers s @ [t]" "hs_plane s' = hs_plane s"
    using j s1 by (auto simp: journal_and_audit_def append_event_record_def rbind_Inr_iff home_audit_def)
  have "authority_of cid s' = Some \<lparr>au_state = Home, au_epoch = pt_retired_epoch t\<rparr>"
    using a(1,3) t s'(5) home by (cases a) (auto simp: authority_of_def conversation_of_def)
  then show thesis
    by (intro that [OF b(2) _ plane_transfer_of_last [OF s'(6) s1(2)]])
      (use t a(3) s'(7) ps b(1) capture_info [OF b(1)] protections_same [OF s'(1-5), of L cid clean_workspace] in auto)
qed

lemma transfer_completes_lemma:
  assumes laws: "bundle_laws L"
    and prep: "prepare_plane_transfer L files actor cid target now tid tid' eid s s = Inr ((t, bs), s1)"
    and none: "open_plane_transfer cid s = None"
    and pi: "prepare_plane_transfer_import L projects disk publish bs project r = Inr pi"
    and imp: "import_record L actor' pi now' eid' r = Inr (t', r1)" and unknown: "plane_transfer_of (pt_id t) r = None"
    and eids: "eid2 \<notin> er_id ` set (hs_events s1)" "eid3 \<notin> er_id ` set (hs_events r1)"
  shows "(\<forall>e. relinquish L (Inl e) actor (pt_id t) (pt_bundle t) now2 eid2 s1 = Inl e) \<and>
    (\<exists>f s2 r2 epoch. relinquish L (Inr ()) actor (pt_id t) (pt_bundle t) now2 eid2 s1 = Inr (f, s2) \<and>
      commit_transfer actor' (pt_id t) (pt_bundle t) f now3 eid3 r1 = Inr (with_phase PhaseCommitted now3 t', r2) \<and>
      u64_checked_add (pt_retired_epoch t) 1 = Some epoch \<and>
      authority_of cid s2 = Some \<lparr>au_state = Relinquished, au_epoch = pt_retired_epoch t\<rparr> \<and>
      authority_of cid r2 = Some \<lparr>au_state = Home, au_epoch = epoch\<rparr>)"
proof -
  from prepare_row [OF prep none] obtain b ps where b: "encode_bundle L files b = Inr bs"
    "pt_bundle t = content_hash (format_lib.truncate L) bs" "plane_transfer_of (pt_id t) s1 = Some t" "pt_role t = SourceRole"
    "pt_phase t = PhasePrepared" "pt_conversation t = cid" "tb_transfer b = pt_id t"
    "bundle_info b = (cid, pt_retired_epoch t, hs_plane s, pt_peer t)" "hs_plane s1 = hs_plane s"
    "protections L cid clean_workspace s1 = Inr ps" "\<not> has_live_work ps"
    "authority_of cid s1 = Some \<lparr>au_state = Home, au_epoch = pt_retired_epoch t\<rparr>" by metis
  from pi obtain d where d: "decode_bundle L bs = Inr d" "pi_bundle pi = db_bundle d" "tb_target (db_bundle d) = hs_plane r"
    "pi_sha256 pi = pt_bundle t"
    using b(2) by (auto simp: prepare_plane_transfer_import_def rbind_Inr_iff)
  have db: "pi_bundle pi = b" using decoded_is_encoded [OF laws b(1) d(1)] d(2) by simp
  from b(10,11) relinquish_fresh(1) [OF b(3-5) _ _ eids(1), of L ps actor now2] b(6) obtain s2 where
    rel: "relinquish L (Inr ()) actor (pt_id t) (pt_bundle t) now2 eid2 s1 = Inr (fence_of (with_phase PhaseRelinquished now2 t) (hs_plane s1), s2)" by auto
  have refused: "relinquish L (Inl e) actor (pt_id t) (pt_bundle t) now2 eid2 s1 = Inl e" for e
    by (rule relinquish_fresh(2) [OF b(3-5) _ _ eids(1)]) (use b(6,10-12) in auto)
  let ?f = "fence_of (with_phase PhaseRelinquished now2 t) (hs_plane s1)"
  from imp show ?thesis
  proof (cases rule: import_Inr)
    case again
    then show ?thesis using unknown b(7) db by simp
  next
    case (fresh epoch r0)
    have room: "pt_id t' \<notin> pt_id ` set (hs_transfers r0)"
      using fresh(1,7) make_room_Inr [OF fresh(3)] by auto
    have t': "pt_id t' = pt_id t" "pt_conversation t' = cid" "pt_retired_epoch t' = pt_retired_epoch t" "pt_bundle t' = pt_bundle t"
      "pt_peer t' = hs_plane s" "pt_role t' = TargetRole" "pt_phase t' = PhasePrepared"
      using fresh(7) b(7,8) db d(4) by (auto simp: bundle_info_def)
    have "fence_names ?f t' (hs_plane r1)"
      using t' b(6,8,9) d(2,3) db fresh(6) by (simp add: fence_names_def fence_of_def with_phase_def bundle_info_def)
    moreover have "authority_of (pt_conversation t') r1 = Some \<lparr>au_state = Prepared, au_epoch = epoch\<rparr>"
      using fresh(4,7) by simp
    moreover have e: "u64_checked_add (pt_retired_epoch t') 1 = Some epoch" using fresh(2,7) by simp
    ultimately obtain r2 where com: "commit_transfer actor' (pt_id t) (pt_bundle t) ?f now3 eid3 r1 = Inr (with_phase PhaseCommitted now3 t', r2)"
      using commit_fresh [OF plane_transfer_of_last [OF fresh(5) room] t'(6,7) _ _ _ eids(2), of ?f epoch actor' now3] t'(1,4) by auto
    have "authority_of cid s2 = Some \<lparr>au_state = Relinquished, au_epoch = pt_retired_epoch t\<rparr>"
      using relinquish_fresh_authority [OF rel b(3,5)] b(6) by simp
    moreover have "authority_of cid r2 = Some \<lparr>au_state = Home, au_epoch = epoch\<rparr>"
      using commit_fresh_authority [OF com _ t'(7)] plane_transfer_of_last [OF fresh(5) room] t'(1,2,3) e by simp
    ultimately show ?thesis using refused rel com e t'(3) by (metis (no_types, lifting))
  qed
qed

section \<open>What was sent is there\<close>

text \<open>The row an imported Run becomes, and the Event an imported Event becomes.\<close>

definition imported_run :: "uuid \<Rightarrow> bundled_run \<Rightarrow> run_record" where
  "imported_run cid r =
     (let e = ended_lifecycle (br_lifecycle r) (case br_ended r of None \<Rightarrow> br_created r | Some e \<Rightarrow> e)
        \<lparr>rn_id = br_id r, rn_conversation = cid, rn_revision = 1, rn_lifecycle = L_Created,
         rn_name = fallback_name ''Run '' (br_id r), rn_created = br_created r, rn_ended = None\<rparr>
      in e\<lparr>rn_name := br_name r, rn_revision := rn_revision e + 1\<rparr>)"

definition imported_event :: "uuid \<Rightarrow> bundled_event \<Rightarrow> event_record" where
  "imported_event cid e =
     \<lparr>er_id = be_id e, er_client = be_client e, er_at = be_at e, er_conversation = Some cid, er_run = be_run e,
      er_body = Transcript (be_kind e) (be_version e) (be_payload e)\<rparr>"

lemma update_run_last:
  assumes "rid \<notin> rn_id ` set rs"
  shows "map (\<lambda>r. if rn_id r = rid then f r else r) (rs @ [x]) = rs @ [if rn_id x = rid then f x else x]"
  using assms by (auto intro!: map_idI)

lemma import_run_Inr:
  assumes "import_run cid r s = Inr s'"
  shows "hs_runs s' = hs_runs s @ [imported_run cid r]" "hs_events s' = hs_events s"
proof -
  let ?new = "\<lparr>rn_id = br_id r, rn_conversation = cid, rn_revision = 1, rn_lifecycle = L_Created,
    rn_name = fallback_name ''Run '' (br_id r), rn_created = br_created r, rn_ended = None\<rparr>"
  from assms have f: "br_id r \<notin> rn_id ` set (hs_runs s)"
    by (auto simp: import_run_def insert_run_def rbind_Inr_iff find_None_iff)
  from assms have s': "s' = update_run_name_row (br_id r) (br_name r) (update_run (br_id r)
      (ended_lifecycle (br_lifecycle r) (case br_ended r of None \<Rightarrow> br_created r | Some e \<Rightarrow> e)) (s\<lparr>hs_runs := hs_runs s @ [?new]\<rparr>))"
    by (auto simp: import_run_def insert_run_def update_run_lifecycle_row_def rbind_Inr_iff)
  show "hs_runs s' = hs_runs s @ [imported_run cid r]"
    using update_run_last [OF f] by (simp add: s' update_run_name_row_def update_run_def imported_run_def ended_lifecycle_def Let_def del: map_append)
  show "hs_events s' = hs_events s" by (simp add: s' update_run_name_row_def update_run_def)
qed

lemma import_runs_Inr:
  "rfold (import_run cid) rs s = Inr s' \<Longrightarrow> hs_runs s' = hs_runs s @ map (imported_run cid) rs \<and> hs_events s' = hs_events s"
proof (induction rs arbitrary: s)
  case (Cons r rs)
  then obtain s1 where "import_run cid r s = Inr s1" "rfold (import_run cid) rs s1 = Inr s'" by (auto simp: rbind_Inr_iff)
  then show ?case using Cons.IH import_run_Inr [of cid r s s1] by simp
qed simp

lemma import_event_Inr:
  "import_event cid e s = Inr s' \<Longrightarrow> hs_events s' = hs_events s @ [imported_event cid e] \<and> hs_runs s' = hs_runs s"
  by (auto simp: import_event_def append_event_record_def rbind_Inr_iff imported_event_def)

lemma import_events_Inr:
  "rfold (import_event cid) es s = Inr s' \<Longrightarrow> hs_events s' = hs_events s @ map (imported_event cid) es \<and> hs_runs s' = hs_runs s"
proof (induction es arbitrary: s)
  case (Cons e es)
  then obtain s1 where "import_event cid e s = Inr s1" "rfold (import_event cid) es s1 = Inr s'" by (auto simp: rbind_Inr_iff)
  then show ?case using Cons.IH import_event_Inr [of cid e s s1] by simp
qed simp

lemma import_content_Inr:
  assumes "import_content L b s = Inr s'"
  shows "hs_runs s' = hs_runs s @ map (imported_run (bc_id (tb_conversation b))) (tb_runs b)"
    and "hs_events s' = hs_events s @ map (imported_event (bc_id (tb_conversation b))) (tb_events b)"
proof -
  let ?cid = "bc_id (tb_conversation b)"
  let ?same = "\<lambda>x y :: home_store. hs_runs y = hs_runs x \<and> hs_events y = hs_events x"
  from assms obtain s1 s2 s4 s5 where r: "rfold (import_run ?cid) (tb_runs b) s = Inr s1"
    and e: "rfold (import_event ?cid) (tb_events b) s1 = Inr s2"
    and q: "import_queue L ?cid (tb_turn_queue b) (fold reference_artifact (tb_artifacts b) s2) = Inr s4"
    and w: "rfold (import_schedule L) (tb_schedules b) s4 = Inr s5"
    and s': "s' = fold (import_setting ?cid) (tb_settings b) s5"
    by (auto simp: import_content_def Let_def rbind_Inr_iff)
  have "?same s2 (fold reference_artifact as s2)" for as
    by (induction as arbitrary: s2) (simp_all add: reference_artifact_def)
  moreover have "?same (fold reference_artifact (tb_artifacts b) s2) s4"
    using q by (auto simp: import_queue_def save_turn_queue_def rbind_Inr_iff split: option.splits)
  moreover have "rfold (import_schedule L) ws s4 = Inr s5 \<Longrightarrow> ?same s4 s5" for ws
    by (induction ws arbitrary: s4) (auto simp: import_schedule_def save_schedule_row_def rbind_Inr_iff)
  moreover have "?same s5 (fold (import_setting ?cid) xs s5)" for xs
    by (induction xs arbitrary: s5) (simp_all add: import_setting_def upsert_setting_def)
  ultimately have "?same s2 s'" using w unfolding s' by metis
  then show "hs_runs s' = hs_runs s @ map (imported_run ?cid) (tb_runs b)" "hs_events s' = hs_events s @ map (imported_event ?cid) (tb_events b)"
    using import_runs_Inr [OF r] import_events_Inr [OF e] by simp_all
qed

text \<open>The rows of a Conversation after its import.\<close>

lemma inserted_conversation:
  "insert_conversation n s = Inr s' \<Longrightarrow> conversation_of (nc_id n) s' =
     Some \<lparr>cr_id = nc_id n, cr_revision = 1, cr_retention = nc_retention n, cr_tree = nc_tree n,
       cr_name = fallback_name ''Conversation '' (nc_id n), cr_authority = HOME_AUTHORITY, cr_created = nc_created n\<rparr>"
  by (auto simp: insert_conversation_def rbind_Inr_iff conversation_of_def find_append)

lemma import_record_rows:
  assumes imp: "import_record L actor p now eid s = Inr (t, s')" and unknown: "plane_transfer_of (tb_transfer (pi_bundle p)) s = None"
    and orphans: "authority_of (bc_id (tb_conversation (pi_bundle p))) s = None \<Longrightarrow>
      runs_of (bc_id (tb_conversation (pi_bundle p))) s = [] \<and>
      filter (\<lambda>e. er_conversation e = Some (bc_id (tb_conversation (pi_bundle p)))) (hs_events s) = []"
  shows "runs_of (bc_id (tb_conversation (pi_bundle p))) s' = map (imported_run (bc_id (tb_conversation (pi_bundle p)))) (tb_runs (pi_bundle p))"
    and "filter (\<lambda>e. er_conversation e = Some (bc_id (tb_conversation (pi_bundle p))) \<and> is_transcript (er_body e)) (hs_events s') =
      filter (\<lambda>e. is_transcript (er_body e)) (map (imported_event (bc_id (tb_conversation (pi_bundle p)))) (tb_events (pi_bundle p)))"
    and "\<exists>c. conversation_of (bc_id (tb_conversation (pi_bundle p))) s' = Some c \<and> cr_name c = bc_name (tb_conversation (pi_bundle p)) \<and>
      cr_retention c = bc_retention (tb_conversation (pi_bundle p)) \<and> cr_created c = bc_created (tb_conversation (pi_bundle p))"
proof -
  let ?b = "pi_bundle p"
  let ?c = "tb_conversation ?b"
  let ?cid = "bc_id ?c"
  let ?n = "\<lparr>nc_id = ?cid, nc_retention = bc_retention ?c, nc_tree = pi_tree p, nc_created = bc_created ?c\<rparr>"
  from imp unknown obtain epoch s1 s2 s4 s5 x e where m: "make_room ?cid epoch s = Inr s1" and i: "insert_conversation ?n s1 = Inr s2"
    and c: "import_content L ?b (set_conversation_authority ?cid \<lparr>au_state = Prepared, au_epoch = epoch\<rparr>
        (update_conversation_name_row ?cid (bc_name ?c) s2)) = Inr s4"
    and ins: "insert_plane_transfer x s4 = Inr s5"
    and j: "journal_and_audit eid actor ?cid e D_Imported now s5 = Inr s'"
    by (auto simp: import_record_def Let_def rbind_Inr_iff)
  from ins j have s': "hs_runs s' = hs_runs s4" "hs_events s' = hs_events s4 @ [core_event eid actor ?cid e now]"
    "hs_conversations s' = hs_conversations s4"
    by (auto simp: insert_plane_transfer_Inr journal_and_audit_def append_event_record_def rbind_Inr_iff home_audit_def)
  have s1: "runs_of ?cid s1 = []" "filter (\<lambda>e. er_conversation e = Some ?cid) (hs_events s1) = []"
    using make_room_Inr [OF m] orphans by (auto simp: runs_of_def purge_rows_def Let_def)
  have s3: "hs_runs s4 = hs_runs s1 @ map (imported_run ?cid) (tb_runs ?b)"
    "hs_events s4 = hs_events s1 @ map (imported_event ?cid) (tb_events ?b)"
    using import_content_Inr [OF c] i
    by (auto simp: insert_conversation_def rbind_Inr_iff set_conversation_authority_def update_conversation_name_row_def update_conversation_def)
  show "runs_of ?cid s' = map (imported_run ?cid) (tb_runs ?b)"
    using s1(1) s3(1) s'(1) by (simp add: runs_of_def imported_run_def Let_def ended_lifecycle_def filter_map comp_def)
  have "filter (\<lambda>e. er_conversation e = Some ?cid \<and> is_transcript (er_body e)) (hs_events s1) = []"
    using s1(2) by (auto simp: filter_empty_conv)
  then show "filter (\<lambda>e. er_conversation e = Some ?cid \<and> is_transcript (er_body e)) (hs_events s') =
      filter (\<lambda>e. is_transcript (er_body e)) (map (imported_event ?cid) (tb_events ?b))"
    using s3(2) s'(2) by (simp add: core_event_def imported_event_def filter_map comp_def)
  have "conversation_of ?cid s' = conversation_of ?cid (set_conversation_authority ?cid \<lparr>au_state = Prepared, au_epoch = epoch\<rparr>
      (update_conversation_name_row ?cid (bc_name ?c) s2))"
    using same_core_conversation [OF import_content_core [OF c], of ?cid] s'(3) by (simp add: conversation_of_def)
  then show "\<exists>c. conversation_of ?cid s' = Some c \<and> cr_name c = bc_name ?c \<and> cr_retention c = bc_retention ?c \<and> cr_created c = bc_created ?c"
    using inserted_conversation [OF i] by (simp add: set_conversation_authority_def update_conversation_name_row_def conversation_of_update)
qed

lemma bundled_imported_run:
  "is_terminal (br_lifecycle r) \<Longrightarrow> br_ended r \<noteq> None \<Longrightarrow> bundled_run_of (imported_run cid r) = r"
  by (auto simp: bundled_run_of_def imported_run_def Let_def ended_lifecycle_def)

lemma bundled_imported_event: "bundled_event_of (imported_event cid e) = e"
  by (simp add: bundled_event_of_def imported_event_def)

lemma validate_runs_terminal: "validate_runs rs seen = Inr out \<Longrightarrow> r \<in> set rs \<Longrightarrow> is_terminal (br_lifecycle r)"
  by (induction rs arbitrary: seen) (auto split: if_splits)

lemma validate_events_kinds: "validate_events L runs es seen = Inr () \<Longrightarrow> e \<in> set es \<Longrightarrow> be_kind e \<in> set TRANSCRIPT_KINDS"
  by (induction es arbitrary: seen) (auto split: if_splits)

lemma validate_bundle_parts:
  assumes "validate_bundle L b = Inr ()"
  shows "r \<in> set (tb_runs b) \<Longrightarrow> is_terminal (br_lifecycle r)" "e \<in> set (tb_events b) \<Longrightarrow> be_kind e \<in> set TRANSCRIPT_KINDS"
    "length (tb_events b) \<le> TRANSCRIPT_EVENT_LIMIT"
  using assms validate_runs_terminal validate_events_kinds
  by (fastforce simp: validate_bundle_def Let_def rbind_Inr_iff split: if_splits)+

lemma decoded_valid: "decode_bundle L bs = Inr d \<Longrightarrow> validate_bundle L (db_bundle d) = Inr ()"
  by (auto simp: decode_bundle_def rbind_Inr_iff Let_def split: sum.splits if_splits)

lemma captured:
  assumes "capture t source s = Inr b"
  obtains c es where "conversation_of (pt_conversation t) s = Some c" "transcript_events (pt_conversation t) s = Inr es"
    "bc_id (tb_conversation b) = pt_conversation t" "bc_name (tb_conversation b) = cr_name c" "bc_retention (tb_conversation b) = cr_retention c"
    "bc_created (tb_conversation b) = cr_created c" "tb_runs b = map bundled_run_of (runs_of (pt_conversation t) s)"
    "tb_events b = map bundled_event_of es"
  using assms by (auto simp: capture_def Let_def rbind_Inr_iff)

lemma sent_is_received:
  assumes cap: "capture t source s = Inr b" and cid: "pt_conversation t = cid" and valid: "validate_bundle L b = Inr ()"
    and imp: "import_record L actor p now eid r = Inr (t', r')" and p: "pi_bundle p = b"
    and unknown: "plane_transfer_of (tb_transfer b) r = None"
    and ended: "\<And>x. x \<in> set (runs_of cid s) \<Longrightarrow> rn_ended x \<noteq> None"
    and orphans: "authority_of cid r = None \<Longrightarrow> runs_of cid r = [] \<and> filter (\<lambda>e. er_conversation e = Some cid) (hs_events r) = []"
  shows "map bundled_run_of (runs_of cid r') = map bundled_run_of (runs_of cid s)"
    and "\<exists>es es'. transcript_events cid s = Inr es \<and> transcript_events cid r' = Inr es' \<and> map bundled_event_of es' = map bundled_event_of es"
    and "\<exists>c c'. conversation_of cid s = Some c \<and> conversation_of cid r' = Some c' \<and> cr_name c' = cr_name c \<and>
      cr_retention c' = cr_retention c \<and> cr_created c' = cr_created c"
proof -
  from captured [OF cap, unfolded cid] obtain c es where c: "conversation_of cid s = Some c" "transcript_events cid s = Inr es"
    "bc_id (tb_conversation b) = cid" "bc_name (tb_conversation b) = cr_name c" "bc_retention (tb_conversation b) = cr_retention c"
    "bc_created (tb_conversation b) = cr_created c" "tb_runs b = map bundled_run_of (runs_of cid s)" "tb_events b = map bundled_event_of es" .
  have rows: "runs_of cid r' = map (imported_run cid) (tb_runs b)"
    "filter (\<lambda>e. er_conversation e = Some cid \<and> is_transcript (er_body e)) (hs_events r') =
      filter (\<lambda>e. is_transcript (er_body e)) (map (imported_event cid) (tb_events b))"
    "\<exists>x. conversation_of cid r' = Some x \<and> cr_name x = cr_name c \<and> cr_retention x = cr_retention c \<and> cr_created x = cr_created c"
    using import_record_rows [OF imp, unfolded p c(3), OF unknown orphans] c(4-6) by simp_all
  have "br_ended x \<noteq> None" if "x \<in> set (tb_runs b)" for x
    using that ended by (auto simp: c(7) bundled_run_of_def)
  then have "map (\<lambda>x. bundled_run_of (imported_run cid x)) (tb_runs b) = tb_runs b"
    using bundled_imported_run validate_bundle_parts(1) [OF valid] by (intro map_idI) blast
  then show "map bundled_run_of (runs_of cid r') = map bundled_run_of (runs_of cid s)"
    unfolding rows(1) using c(7) by (simp add: comp_def)
  have "filter (\<lambda>e. is_transcript (er_body e)) (map (imported_event cid) (tb_events b)) = map (imported_event cid) (tb_events b)"
    using validate_bundle_parts(2) [OF valid] by (intro filter_True) (auto simp: imported_event_def)
  then have "transcript_events cid r' = Inr (map (imported_event cid) (tb_events b))"
    using rows(2) validate_bundle_parts(3) [OF valid] by (simp add: transcript_events_def)
  then show "\<exists>es es'. transcript_events cid s = Inr es \<and> transcript_events cid r' = Inr es' \<and> map bundled_event_of es' = map bundled_event_of es"
    using c(2,8) by (simp add: comp_def bundled_imported_event)
  show "\<exists>c c'. conversation_of cid s = Some c \<and> conversation_of cid r' = Some c' \<and> cr_name c' = cr_name c \<and>
      cr_retention c' = cr_retention c \<and> cr_created c' = cr_created c"
    using rows(3) c(1) by auto
qed

end
