(* ===== verification/Jet_Journey.thy ===== *)
theory Jet_Journey
  imports Jet_Holder Jet_Arrival "HOL-Library.Countable"
begin

text \<open>
  Transfers from end to end: what the single holder means for the Planes, that an honest transfer
  completes, and one complete transfer between two concrete Planes, over a concrete JSON and digest.
\<close>

section \<open>A concrete document format\<close>

text \<open>
  A bundle has finitely many fields of countable types, so an injective print exists; the documents
  of the example are printed as the empty string.
\<close>

instance name_source :: countable by countable_datatype
instance run_lifecycle :: countable by countable_datatype
instance retention_policy :: countable by countable_datatype

instance name_ext :: (countable) countable
  by (rule countable_classI [of "\<lambda>r. to_nat (nm_value r, nm_source r, name.more r)"]) (simp add: name.equality)

instance bundled_conversation_ext :: (countable) countable
  by (rule countable_classI [of "\<lambda>r. to_nat (bc_id r, bc_retention r, bc_name r, bc_created r, bc_retired_epoch r,
    bc_in_project r, bundled_conversation.more r)"]) (simp add: bundled_conversation.equality)

instance bundled_run_ext :: (countable) countable
  by (rule countable_classI [of "\<lambda>r. to_nat (br_id r, br_lifecycle r, br_name r, br_created r, br_ended r, bundled_run.more r)"])
    (simp add: bundled_run.equality)

instance bundled_event_ext :: (countable) countable
  by (rule countable_classI [of "\<lambda>r. to_nat (be_id r, be_client r, be_at r, be_run r, be_kind r, be_version r, be_payload r,
    bundled_event.more r)"]) (simp add: bundled_event.equality)

instance bundled_setting_ext :: (countable) countable
  by (rule countable_classI [of "\<lambda>r. to_nat (bs_key r, bs_value r, bs_updated r, bundled_setting.more r)"])
    (simp add: bundled_setting.equality)

instance artifact_reference_ext :: (countable) countable
  by (rule countable_classI [of "\<lambda>r. to_nat (ae_run r, ae_sha256 r, ae_size r, artifact_reference.more r)"])
    (simp add: artifact_reference.equality)

instance transfer_bundle_ext :: (countable) countable
  by (rule countable_classI [of "\<lambda>r. to_nat (tb_format r, tb_transfer r, tb_source r, tb_target r, tb_prepared_at r,
    tb_conversation r, tb_runs r, tb_events r, tb_turn_queue r, tb_schedules r, tb_settings r, tb_artifacts r,
    transfer_bundle.more r)"]) (simp add: transfer_bundle.equality)

instance manifest_component_ext :: (countable) countable
  by (rule countable_classI [of "\<lambda>r. to_nat (mc_name r, mc_size r, mc_sha256 r, manifest_component.more r)"])
    (simp add: manifest_component.equality)

instance manifest_ext :: (countable) countable
  by (rule countable_classI [of "\<lambda>r. to_nat (mf_version r, mf_event_payload_version r, mf_components r, manifest.more r)"])
    (simp add: manifest.equality)

text \<open>\<open>x\<close> is printed as the empty string and every other value in unary.\<close>

definition print_but :: "'a :: countable \<Rightarrow> 'a \<Rightarrow> bytes" where
  "print_but x y = (if y = x then [] else replicate (Suc (to_nat y)) 0)"

definition parse_but :: "'a :: countable \<Rightarrow> bytes \<Rightarrow> 'a option" where
  "parse_but x b = (if b = [] then Some x else Some (from_nat (length b - 1)))"

lemma parse_print_but [simp]: "parse_but x (print_but x y) = Some y"
  by (simp add: parse_but_def print_but_def)

lemma print_but_self [simp]: "print_but x x = []" and parse_but_nil [simp]: "parse_but x [] = Some x"
  by (simp_all add: print_but_def parse_but_def)

definition doc_lib :: "manifest \<Rightarrow> transfer_bundle \<Rightarrow> nat bundle_lib" where
  "doc_lib m b =
     \<lparr>fl_digest = (\<lambda>_. replicate 32 0), fl_hex = (\<lambda>_. replicate 64 48), fl_print = print_but m, fl_parse = parse_but m,
      bl_print = print_but b, bl_parse = parse_but b, bl_is_json = (\<lambda>_. True), bl_parse_queue = (\<lambda>_. None),
      bl_parse_stored = (\<lambda>_. None), bl_print_stored = (\<lambda>_. []), bl_parse_task = (\<lambda>_. None), bl_print_task = (\<lambda>_. [])\<rparr>"

lemma doc_lib_laws [simp]: "bundle_laws (doc_lib m b)"
  by (simp add: bundle_laws_def format_laws_def doc_lib_def format_lib.truncate_def)

section \<open>A complete transfer\<close>

text \<open>Conversation 10 is created on Plane 3 and moves to Plane 4 under transfer 5.\<close>

definition trip_conversation :: new_conversation where
  "trip_conversation = \<lparr>nc_id = 10, nc_retention = Retain, nc_tree = NoProject, nc_created = 0\<rparr>"

definition trip_name :: name where
  "trip_name = \<lparr>nm_value = ucs ''First Run'', nm_source = Deterministic\<rparr>"

definition trip_bundle :: transfer_bundle where
  "trip_bundle =
     \<lparr>tb_format = 1, tb_transfer = 5, tb_source = 3, tb_target = 4, tb_prepared_at = 0,
      tb_conversation = \<lparr>bc_id = 10, bc_retention = Retain, bc_name = fallback_name ''Conversation '' 10, bc_created = 0,
        bc_retired_epoch = 1, bc_in_project = False\<rparr>,
      tb_runs = [\<lparr>br_id = 30, br_lifecycle = L_Completed, br_name = trip_name, br_created = 0, br_ended = Some 0\<rparr>],
      tb_events = [\<lparr>be_id = 31, be_client = 7, be_at = 0, be_run = Some 30, be_kind = ucs ''run.output'', be_version = 1,
        be_payload = ucs ''{}''\<rparr>],
      tb_turn_queue = None, tb_schedules = [], tb_settings = [], tb_artifacts = []\<rparr>"

definition trip_manifest :: manifest where
  "trip_manifest =
     \<lparr>mf_version = 1, mf_event_payload_version = 1,
      mf_components = [\<lparr>mc_name = TRANSFER_JSON, mc_size = 0, mc_sha256 = replicate 64 48\<rparr>]\<rparr>"

definition trip_lib :: "nat bundle_lib" where
  "trip_lib = doc_lib trip_manifest trip_bundle"

definition trip_bytes :: bytes where
  "trip_bytes = ct_magic TRANSFER @ be_bytes 4 0 @ replicate 32 0"

definition trip_row :: "uuid \<Rightarrow> plane_transfer_role \<Rightarrow> uuid \<Rightarrow> int \<Rightarrow> plane_transfer" where
  "trip_row tid role peer now =
     \<lparr>pt_id = tid, pt_conversation = 10, pt_role = role, pt_phase = PhasePrepared, pt_retired_epoch = 1, pt_peer = peer,
      pt_bundle = replicate 64 48, pt_prepared_at = now, pt_settled_at = None\<rparr>"

definition trip_record :: "nat \<Rightarrow> authority_record \<Rightarrow> conversation_record" where
  "trip_record revision a =
     \<lparr>cr_id = 10, cr_revision = revision, cr_retention = Retain, cr_tree = NoProject,
      cr_name = fallback_name ''Conversation '' 10, cr_authority = a, cr_created = 0\<rparr>"

definition trip_run :: "nat \<Rightarrow> run_record" where
  "trip_run revision =
     \<lparr>rn_id = 30, rn_conversation = 10, rn_revision = revision, rn_lifecycle = L_Completed, rn_name = trip_name,
      rn_created = 0, rn_ended = Some 0\<rparr>"

definition trip_output :: event_record where
  "trip_output =
     \<lparr>er_id = 31, er_client = 7, er_at = 0, er_conversation = Some 10, er_run = Some 30,
      er_body = Transcript (ucs ''run.output'') 1 (ucs ''{}'')\<rparr>"

definition trip_started :: home_store where
  "trip_started = (empty_store 3)\<lparr>hs_conversations := [trip_record 1 HOME_AUTHORITY]\<rparr>"

definition trip_created :: home_store where
  "trip_created = trip_started\<lparr>hs_runs := [trip_run 5], hs_events := [trip_output]\<rparr>"

definition trip_prepared :: home_store where
  "trip_prepared = trip_created\<lparr>hs_transfers := [trip_row 5 SourceRole 4 0],
     hs_events := [trip_output, core_event 20 7 10 (TransferPrepared 5 4 1) 0], hs_audit := [(D_Prepared, Some 10, 0)]\<rparr>"

definition trip_imported :: home_store where
  "trip_imported = (empty_store 4)\<lparr>hs_conversations := [trip_record 3 \<lparr>au_state = Prepared, au_epoch = 2\<rparr>],
     hs_transfers := [trip_row 5 TargetRole 3 1], hs_runs := [trip_run 3],
     hs_events := [trip_output, core_event 21 7 10 (TransferImported 5 3 2) 1], hs_audit := [(D_Imported, Some 10, 1)]\<rparr>"

lemmas trip_defs = trip_bundle_def trip_manifest_def trip_lib_def doc_lib_def trip_row_def trip_record_def
  trip_run_def trip_output_def trip_started_def trip_created_def trip_prepared_def trip_imported_def empty_store_def

lemma trip_create: "insert_conversation trip_conversation (empty_store 3) = Inr trip_started"
  by (simp add: insert_conversation_def trip_conversation_def trip_defs conversation_of_def require_def rbind_def)

lemma trip_kind: "ucs ''run.output'' \<in> set TRANSCRIPT_KINDS"
  by (simp add: TRANSCRIPT_KINDS_def)

lemma trip_capture: "capture ((trip_row 5 SourceRole 4 0)\<lparr>pt_bundle := b\<rparr>) 3 trip_created = Inr trip_bundle"
  by (simp add: capture_def trip_defs conversation_of_def transcript_events_def Let_def trip_kind TRANSCRIPT_EVENT_LIMIT_def
    BUNDLE_FORMAT_def bundled_run_of_def bundled_event_of_def run_artifacts_def runs_of_def turn_queue_of_def scheduled_tasks_of_def settings_for_conversation_def HOME_AUTHORITY_def)

lemma trip_magic: "length (ct_magic TRANSFER) = 14"
  by (simp add: TRANSFER_def ascii_bytes_def)

lemma trip_encode: "encode_bundle trip_lib files trip_bundle = Inr trip_bytes"
proof -
  have m: "container_manifest (format_lib.truncate trip_lib) [(TRANSFER_JSON, [])] = trip_manifest"
    by (simp add: container_manifest_def part_component_def content_hash_def trip_defs format_lib.truncate_def)
  have "encode_in (format_lib.truncate trip_lib) TRANSFER [(TRANSFER_JSON, [])] = Inr trip_bytes"
    unfolding encode_in_def m
    by (simp add: trip_lib_def doc_lib_def format_lib.truncate_def trip_magic trip_bytes_def MAX_BYTES_def MAX_MANIFEST_def usize_max_def Let_def)
  then show ?thesis by (simp add: encode_bundle_def trip_lib_def doc_lib_def trip_bundle_def)
qed

lemma trip_hash: "content_hash (format_lib.truncate trip_lib) b = replicate 64 48"
  by (simp add: content_hash_def trip_defs format_lib.truncate_def)

lemma trip_plan:
  "plan trip_lib 10 4 0 tid trip_created =
     Inr \<lparr>pn_transfer = (trip_row tid SourceRole 4 0)\<lparr>pt_bundle := []\<rparr>, pn_recorded = False, pn_revision = 1\<rparr>"
  by (simp add: plan_def trip_defs conversation_of_def open_plane_transfer_def HOME_AUTHORITY_def protections_def
    load_stored_queue_def turn_queue_of_def runs_of_def scheduled_tasks_of_def clean_workspace_def has_live_work_def
    trash_entry_def empty_queue_def)

lemma trip_prepare:
  "prepare_plane_transfer trip_lib files 7 10 4 0 5 6 20 trip_created trip_created =
     Inr ((trip_row 5 SourceRole 4 0, trip_bytes), trip_prepared)"
proof -
  have "hs_plane trip_created = 3" by (simp add: trip_defs)
  then show ?thesis
    unfolding prepare_plane_transfer_def prepare_write_def trip_plan
    by (simp add: trip_plan trip_capture trip_encode trip_hash)
      (simp add: trip_defs Let_def insert_plane_transfer_def plane_transfer_of_def conversation_of_def journal_and_audit_def
        append_event_record_def home_audit_def core_event_def)
qed

lemma be_bytes_zero: "be_bytes k 0 = replicate k 0"
  by (induction k) simp_all

lemma trip_names:
  "valid_name (fallback_name ''Conversation '' 10)" "valid_name trip_name" "utf8_len (ucs ''{}'') = 2"
proof -
  have zero: "be_bytes 4 0 = [0, 0, 0, 0]" by (simp add: be_bytes_zero eval_nat_numeral)
  have p: "uuid_prefix 10 = [48, 48, 48, 48, 48, 48, 48, 48]"
    by (simp add: uuid_prefix_def zero hex_serialize_def fmt_hex_byte_def hex_digit_def)
  show "valid_name (fallback_name ''Conversation '' 10)"
    by (simp add: valid_name_def fallback_name_def p MAX_NAME_BYTES_def ucs_def is_control_def utf8_len_def utf8_width_def)
  show "valid_name trip_name"
    by (simp add: valid_name_def trip_name_def MAX_NAME_BYTES_def ucs_def is_control_def utf8_len_def utf8_width_def)
  show "utf8_len (ucs ''{}'') = 2" by (simp add: utf8_len_def ucs_def utf8_width_def)
qed

lemma trip_valid: "validate_bundle trip_lib trip_bundle = Inr ()"
  by (simp add: validate_bundle_def trip_names trip_bundle_def validate_queue_def trip_kind RUN_LIMIT_def TRANSCRIPT_EVENT_LIMIT_def
    PAYLOAD_LIMIT_def trip_lib_def doc_lib_def)

lemma trip_decode: "\<exists>payloads. decode_bundle trip_lib trip_bytes = Inr \<lparr>db_bundle = trip_bundle, db_payloads = payloads\<rparr>"
proof -
  have "tb_artifacts trip_bundle = []" "tb_format trip_bundle = BUNDLE_FORMAT" by (simp_all add: trip_bundle_def BUNDLE_FORMAT_def)
  then show ?thesis
    using bundle_roundtrip [OF _ trip_encode trip_valid] by (simp add: sizes_agree_def trip_lib_def)
qed

definition trip_import :: prepared_import where
  "trip_import = \<lparr>pi_bundle = trip_bundle, pi_sha256 = replicate 64 48, pi_tree = NoProject\<rparr>"

lemma trip_prepare_import:
  "prepare_plane_transfer_import trip_lib projects (Inr ()) (\<lambda>_. Inr ()) trip_bytes None (empty_store 4) = Inr trip_import"
proof -
  have "\<not> bc_in_project (tb_conversation trip_bundle)" "tb_target trip_bundle = hs_plane (empty_store 4)"
    by (simp_all add: trip_bundle_def empty_store_def)
  then show ?thesis
    using trip_decode by (auto simp: prepare_plane_transfer_import_def trip_hash trip_import_def)
qed

lemma trip_import_record:
  "import_record trip_lib 7 trip_import 1 21 (empty_store 4) = Inr (trip_row 5 TargetRole 3 1, trip_imported)"
  by (simp add: import_record_def trip_import_def trip_defs plane_transfer_of_def u64_checked_add_def make_room_def conversation_of_def
    insert_conversation_def set_conversation_authority_def update_conversation_name_row_def update_conversation_def Let_def
    import_content_def import_run_def import_event_def insert_run_def update_run_lifecycle_row_def update_run_name_row_def update_run_def
    ended_lifecycle_def import_queue_def insert_plane_transfer_def journal_and_audit_def append_event_record_def
    home_audit_def core_event_def)

text \<open>The five steps as a history of the world.\<close>

definition trip_fence :: authority_fence where
  "trip_fence = \<lparr>af_conversation = 10, af_retired_epoch = 1, af_transfer = 5, af_source = 3, af_target = 4, af_fenced_at = 2\<rparr>"

definition trip_retired :: home_store where
  "trip_retired = trip_prepared\<lparr>
     hs_conversations := [trip_record 2 \<lparr>au_state = Relinquished, au_epoch = 1\<rparr>],
     hs_transfers := [with_phase PhaseRelinquished 2 (trip_row 5 SourceRole 4 0)],
     hs_trash := [\<lparr>tr_conversation = 10, tr_reason = PlaneTransferred, tr_trashed_at = 2, tr_expires_at = i64_sat_add 2 TOMBSTONE_MS\<rparr>],
     hs_fences := [\<lparr>fr_fenced_at = 2, fr_conversation = 10, fr_retired_epoch = 1, fr_transfer = 5, fr_target = 4\<rparr>],
     hs_fences_applied := 1,
     hs_events := hs_events trip_prepared @ [core_event 22 7 10 (TransferRelinquished trip_fence (i64_sat_add 2 TOMBSTONE_MS)) 2],
     hs_audit := hs_audit trip_prepared @ [(D_Relinquished, Some 10, 2)]\<rparr>"

definition trip_committed :: home_store where
  "trip_committed = trip_imported\<lparr>
     hs_conversations := [trip_record 4 \<lparr>au_state = Home, au_epoch = 2\<rparr>],
     hs_transfers := [with_phase PhaseCommitted 3 (trip_row 5 TargetRole 3 1)],
     hs_events := hs_events trip_imported @ [core_event 23 7 10 (TransferCommitted 5 3 2) 3],
     hs_audit := hs_audit trip_imported @ [(D_Committed, Some 10, 3)]\<rparr>"

lemma trip_relinquish: "relinquish trip_lib (Inr ()) 7 5 (replicate 64 48) 2 22 trip_prepared = Inr (trip_fence, trip_retired)"
proof -
  have "protections trip_lib 10 clean_workspace trip_prepared = Inr []"
    by (simp add: protections_def trip_defs load_stored_queue_def conversation_of_def turn_queue_of_def runs_of_def
      scheduled_tasks_of_def clean_workspace_def empty_queue_def)
  then show ?thesis
    by (simp add: relinquish_def recorded_transfer_def plane_transfer_of_def require_bundle_def has_live_work_def
      relinquish_plane_transfer_def Let_def trip_fence_def trip_retired_def trip_defs insert_trash_def trash_entry_def conversation_of_def
      set_conversation_authority_def update_conversation_def settle_plane_transfer_def with_phase_def record_fence_def commit_fences_def
      fence_of_def HOME_AUTHORITY_def journal_and_audit_def append_event_record_def home_audit_def core_event_def)
qed

lemma trip_commit:
  "commit_transfer 7 5 (replicate 64 48) trip_fence 3 23 trip_imported =
     Inr (with_phase PhaseCommitted 3 (trip_row 5 TargetRole 3 1), trip_committed)"
  by (simp add: commit_transfer_def recorded_transfer_def plane_transfer_of_def require_bundle_def fence_names_def trip_fence_def
    trip_committed_def trip_defs conversation_of_def u64_checked_add_def Let_def set_conversation_authority_def
    update_conversation_def settle_plane_transfer_def with_phase_def journal_and_audit_def append_event_record_def
    home_audit_def core_event_def)

definition trip_world :: home_world where
  "trip_world =
     \<lparr>hw_planes = empty_store(3 := trip_retired, 4 := trip_committed), hw_created = [10], hw_transfers = [5],
      hw_bundles = [trip_bytes], hw_fences = [trip_fence], hw_taken = [5]\<rparr>"

lemma trip_reached: "(home_step trip_lib)\<^sup>*\<^sup>* new_world trip_world"
proof -
  let ?w0 = "(set_plane 3 trip_started new_world)\<lparr>hw_created := nc_id trip_conversation # hw_created new_world\<rparr>"
  let ?w1 = "set_plane 3 trip_created ?w0"
  let ?w2 = "(set_plane 3 trip_prepared ?w1)\<lparr>hw_transfers := pt_id (trip_row 5 SourceRole 4 0) # hw_transfers ?w1,
    hw_bundles := trip_bytes # hw_bundles ?w1\<rparr>"
  let ?w3 = "set_plane 4 trip_imported ?w2"
  let ?w4 = "(set_plane 3 trip_retired ?w3)\<lparr>hw_fences := trip_fence # hw_fences ?w3\<rparr>"
  let ?w5 = "(set_plane 4 trip_committed ?w4)\<lparr>hw_taken := 5 # hw_taken ?w4\<rparr>"
  have "home_step trip_lib new_world ?w0"
    by (rule create) (simp_all add: trip_create new_world_def)
  moreover have "home_step trip_lib ?w0 ?w1"
    by (rule work) (simp add: other_work_def trip_created_def authority_of_def conversation_of_def)
  moreover have "home_step trip_lib ?w1 ?w2"
    by (rule prepare [where tid = 5]) (use trip_prepare [of "\<lambda>_. None"] in \<open>simp_all add: new_world_def\<close>)
  moreover have "home_step trip_lib ?w2 ?w3"
  proof (rule import)
    show "prepare_plane_transfer_import trip_lib (\<lambda>_. False) (Inr ()) (\<lambda>_. Inr ()) trip_bytes None (hw_planes ?w2 4) = Inr trip_import"
      using trip_prepare_import by (simp add: new_world_def)
    show "importable (tb_transfer (pi_bundle trip_import)) 4 ?w2" by (simp add: importable_def new_world_def)
    show "import_record trip_lib 7 trip_import 1 21 (hw_planes ?w2 4) = Inr (trip_row 5 TargetRole 3 1, trip_imported)"
      using trip_import_record by (simp add: new_world_def)
  qed simp
  moreover have "home_step trip_lib ?w3 ?w4"
    by (rule relinquish [where tid = 5]) (use trip_relinquish in simp)
  moreover have "home_step trip_lib ?w4 ?w5"
    by (rule commit [where tid = 5 and f = trip_fence]) (use trip_commit in simp_all)
  moreover have "?w5 = trip_world"
    by (simp add: trip_world_def set_plane_def new_world_def trip_conversation_def trip_row_def fun_upd_twist)
  ultimately show ?thesis by (metis (no_types, lifting) r_into_rtranclp rtranclp_trans)
qed

section \<open>One Home\<close>

text \<open>
  C3: One Home Plane. In every history of any number of Planes in which clients carry genuine bundles
  and fences, with crashes between a fence and its
  commit, deletions, aborts and reopened stores at any point, a Conversation is Home on at most one Plane. A bundle may be
  imported at any time, after an abort or a relinquishment too, except again on a target that has committed
  the transfer and discarded its record of it.
\<close>
theorem one_home_plane:
  assumes "bundle_laws L" and "(home_step L)\<^sup>*\<^sup>* new_world W"
    and "authority_of cid (hw_planes W p) = Some a" and "au_state a = Home"
    and "authority_of cid (hw_planes W q) = Some b" and "au_state b = Home"
  shows "p = q \<and> a = b"
proof -
  from reachable_holders [OF assms(1,2)] obtain H I where "sim L W H I" .
  then have "H cid = Some (Held p (au_epoch a))" "H cid = Some (Held q (au_epoch b))"
    using home_held [OF sim_plane] assms(3-6) by blast+
  then show ?thesis using assms(4,6) by (cases a; cases b) auto
qed

lemma trip_authority:
  "authority_of 10 (hw_planes trip_world 4) = Some \<lparr>au_state = Home, au_epoch = 2\<rparr>"
  "authority_of 10 (hw_planes trip_world 3) = Some \<lparr>au_state = Relinquished, au_epoch = 1\<rparr>"
  by (simp_all add: trip_world_def trip_committed_def trip_retired_def authority_of_def conversation_of_def trip_record_def)

theorem one_home_plane_witness:
  "(home_step trip_lib)\<^sup>*\<^sup>* new_world trip_world \<and> (\<forall>q b. authority_of 10 (hw_planes trip_world q) = Some b \<and> au_state b = Home \<longleftrightarrow>
     q = 4 \<and> b = \<lparr>au_state = Home, au_epoch = 2\<rparr>)"
proof -
  have "bundle_laws trip_lib" by (simp add: trip_lib_def)
  note one = one_home_plane [OF this trip_reached trip_authority(1)]
  show ?thesis
  proof (intro conjI allI iffI)
    fix q b assume "authority_of 10 (hw_planes trip_world q) = Some b \<and> au_state b = Home"
    then show "q = 4" "b = \<lparr>au_state = Home, au_epoch = 2\<rparr>" using one [of q b] by simp_all
  qed (use trip_reached trip_authority(1) in auto)
qed



section \<open>A transfer completes and keeps the Conversation\<close>

text \<open>
  C11: An honest transfer completes. Once a fresh prepare has returned its bundle and the target has recorded the
  import of that bundle, relinquishing at the source succeeds when the fence ledger takes the fence, and the fence it returns
  is accepted by the target: the source ends Relinquished in its epoch and the target Home in the next. When the ledger
  refuses the fence, the relinquishment is refused with that error.
\<close>
theorem transfer_completes:
  assumes "bundle_laws L"
    and "prepare_plane_transfer L files actor cid target now tid tid' eid s s = Inr ((t, bs), s1)"
    and "open_plane_transfer cid s = None"
    and "prepare_plane_transfer_import L projects disk publish bs project r = Inr pi"
    and "import_record L actor' pi now' eid' r = Inr (t', r1)" and "plane_transfer_of (pt_id t) r = None"
    and "eid2 \<notin> er_id ` set (hs_events s1)" and "eid3 \<notin> er_id ` set (hs_events r1)"
  shows "(\<forall>e. relinquish L (Inl e) actor (pt_id t) (pt_bundle t) now2 eid2 s1 = Inl e) \<and>
    (\<exists>f s2 r2 epoch. relinquish L (Inr ()) actor (pt_id t) (pt_bundle t) now2 eid2 s1 = Inr (f, s2) \<and>
      commit_transfer actor' (pt_id t) (pt_bundle t) f now3 eid3 r1 = Inr (with_phase PhaseCommitted now3 t', r2) \<and>
      u64_checked_add (pt_retired_epoch t) 1 = Some epoch \<and>
      authority_of cid s2 = Some \<lparr>au_state = Relinquished, au_epoch = pt_retired_epoch t\<rparr> \<and>
      authority_of cid r2 = Some \<lparr>au_state = Home, au_epoch = epoch\<rparr>)"
  by (rule transfer_completes_lemma [OF assms])

lemma trip_fresh:
  "bundle_laws trip_lib" "open_plane_transfer 10 trip_created = None" "plane_transfer_of k (empty_store 4) = None"
  "22 \<notin> er_id ` set (hs_events trip_prepared)" "23 \<notin> er_id ` set (hs_events trip_imported)"
  by (simp_all add: trip_lib_def open_plane_transfer_def plane_transfer_of_def trip_created_def trip_started_def empty_store_def
    trip_prepared_def trip_imported_def core_event_def trip_output_def)

theorem transfer_completes_witness:
  "relinquish trip_lib (Inl (internal ''store.failed'')) 7 5 (replicate 64 48) 2 22 trip_prepared = Inl (internal ''store.failed'') \<and>
   (\<exists>f s2 r2 epoch. relinquish trip_lib (Inr ()) 7 5 (replicate 64 48) 2 22 trip_prepared = Inr (f, s2) \<and>
      commit_transfer 7 5 (replicate 64 48) f 3 23 trip_imported = Inr (with_phase PhaseCommitted 3 (trip_row 5 TargetRole 3 1), r2) \<and>
      u64_checked_add 1 1 = Some epoch \<and>
      authority_of 10 s2 = Some \<lparr>au_state = Relinquished, au_epoch = 1\<rparr> \<and>
      authority_of 10 r2 = Some \<lparr>au_state = Home, au_epoch = epoch\<rparr>)"
  using transfer_completes [OF trip_fresh(1) trip_prepare trip_fresh(2) trip_prepare_import trip_import_record trip_fresh(3-5), where ?now2.0 = 2 and ?now3.0 = 3]
  by (simp add: trip_row_def)

text \<open>
  C12: What was sent is received. The Conversation a transfer imports has, on the target, the name,
  retention and creation time it had at the source, the same Runs with their outcomes and times, and the
  same transcript in the same order, byte for byte.
\<close>
theorem moved_content_arrives:
  assumes "bundle_laws L"
    and "prepare_plane_transfer L files actor cid target now tid tid' eid s s = Inr ((t, bs), s1)"
    and "open_plane_transfer cid s = None"
    and "prepare_plane_transfer_import L projects disk publish bs project r = Inr pi"
    and "import_record L actor' pi now' eid' r = Inr (t', r1)" and "plane_transfer_of (pt_id t) r = None"
    and "\<And>x. x \<in> set (runs_of cid s) \<Longrightarrow> rn_ended x \<noteq> None"
    and "authority_of cid r = None \<Longrightarrow> runs_of cid r = [] \<and> filter (\<lambda>e. er_conversation e = Some cid) (hs_events r) = []"
  shows "map bundled_run_of (runs_of cid r1) = map bundled_run_of (runs_of cid s) \<and>
    (\<exists>es es'. transcript_events cid s = Inr es \<and> transcript_events cid r1 = Inr es' \<and> map bundled_event_of es' = map bundled_event_of es) \<and>
    (\<exists>c c'. conversation_of cid s = Some c \<and> conversation_of cid r1 = Some c' \<and> cr_name c' = cr_name c \<and>
      cr_retention c' = cr_retention c \<and> cr_created c' = cr_created c)"
proof -
  from prepare_row [OF assms(2,3)] obtain b where b: "encode_bundle L files b = Inr bs" "pt_conversation t = cid" "tb_transfer b = pt_id t"
    "capture (t\<lparr>pt_bundle := []\<rparr>) (hs_plane s) s = Inr b" by metis
  from import_target [OF assms(4)] obtain d where d: "decode_bundle L bs = Inr d" "pi_bundle pi = db_bundle d" .
  have "db_bundle d = b" using decoded_is_encoded [OF assms(1) b(1) d(1)] by simp
  then have "pi_bundle pi = b" "validate_bundle L b = Inr ()" using d(2) decoded_valid [OF d(1)] by simp_all
  from sent_is_received [OF b(4) _ this(2) assms(5) this(1), of cid] assms(6-8) b(2,3) show ?thesis by simp
qed

theorem moved_content_arrives_witness:
  "map bundled_run_of (runs_of 10 trip_imported) = map bundled_run_of (runs_of 10 trip_created) \<and> runs_of 10 trip_created = [trip_run 5] \<and>
   (\<exists>es'. transcript_events 10 trip_imported = Inr es' \<and> map bundled_event_of es' = map bundled_event_of [trip_output])"
proof -
  have runs: "runs_of 10 trip_created = [trip_run 5]" by (simp add: runs_of_def trip_created_def trip_run_def)
  have es: "transcript_events 10 trip_created = Inr [trip_output]"
    by (simp add: transcript_events_def trip_created_def trip_output_def trip_kind TRANSCRIPT_EVENT_LIMIT_def)
  have orphans: "runs_of 10 (empty_store 4) = [] \<and> filter (\<lambda>e. er_conversation e = Some 10) (hs_events (empty_store 4)) = []"
    by (simp add: runs_of_def empty_store_def)
  have ended: "rn_ended x \<noteq> None" if "x \<in> set (runs_of 10 trip_created)" for x
    using that unfolding runs by (simp add: trip_run_def)
  show ?thesis
    using moved_content_arrives [OF trip_fresh(1) trip_prepare trip_fresh(2) trip_prepare_import trip_import_record trip_fresh(3) ended orphans]
    by (simp add: runs es)
qed

text \<open>
  C13: A bundle survives the wire. A valid bundle of the current format that was encoded decodes to itself, with the
  payload of every Artifact it references, when its references to one hash agree on the size; when two of them do not,
  the encoded bundle is refused as invalid.
\<close>
theorem transfer_bundle_roundtrip:
  assumes "bundle_laws L" and "encode_bundle L files b = Inr bs" and "validate_bundle L b = Inr ()"
    and "tb_format b = BUNDLE_FORMAT"
  shows "if sizes_agree (tb_artifacts b)
    then \<exists>payloads. decode_bundle L bs = Inr \<lparr>db_bundle = b, db_payloads = payloads\<rparr> \<and>
      (\<forall>a\<in>set (tb_artifacts b). map_of payloads (ae_sha256 a) = files (ae_sha256 a))
    else decode_bundle L bs = Inl invalid_bundle"
  using bundle_roundtrip [OF assms] sizes_refused [OF assms] by simp

text \<open>A bundle whose Run references one payload of two bytes, with the sizes \<open>ns\<close>.\<close>

definition photo_hash :: ustring where
  "photo_hash = replicate 64 48"

definition photo_bundle :: "nat list \<Rightarrow> transfer_bundle" where
  "photo_bundle ns = trip_bundle\<lparr>tb_artifacts := map (\<lambda>n. \<lparr>ae_run = 30, ae_sha256 = photo_hash, ae_size = n\<rparr>) ns\<rparr>"

definition photo_files :: "ustring \<Rightarrow> bytes option" where
  "photo_files h = (if h = photo_hash then Some [1, 2] else None)"

definition photo_parts :: components where
  "photo_parts = [(ARTIFACT_PREFIX @ photo_hash, [1, 2]), (TRANSFER_JSON, [])]"

definition photo_lib :: "nat list \<Rightarrow> nat bundle_lib" where
  "photo_lib ns = doc_lib (container_manifest (format_lib.truncate trip_lib) photo_parts) (photo_bundle ns)"

lemma photo_parts_encoded: "\<exists>bs. encode_in (format_lib.truncate (photo_lib ns)) TRANSFER photo_parts = Inr bs"
proof -
  have m: "container_manifest (format_lib.truncate (photo_lib ns)) photo_parts = container_manifest (format_lib.truncate trip_lib) photo_parts"
    by (simp add: container_manifest_def part_component_def content_hash_def photo_parts_def photo_lib_def trip_defs format_lib.truncate_def)
  show ?thesis
    unfolding encode_in_def m
    by (simp add: photo_lib_def doc_lib_def format_lib.truncate_def trip_magic photo_parts_def MAX_BYTES_def MAX_MANIFEST_def usize_max_def Let_def)
qed

lemma photo_encoded: "ns = [2] \<or> ns = [2, 3] \<Longrightarrow> \<exists>bs. encode_bundle (photo_lib ns) photo_files (photo_bundle ns) = Inr bs"
proof -
  assume "ns = [2] \<or> ns = [2, 3]"
  moreover have "(ARTIFACT_PREFIX @ photo_hash = TRANSFER_JSON) = False" "ARTIFACT_PREFIX @ photo_hash < TRANSFER_JSON"
    "bl_print (photo_lib ns) (photo_bundle ns) = []" "fl_hex (photo_lib ns) d = photo_hash" for d
    using json_not_prefixed [of photo_hash] by (simp_all add: ARTIFACT_PREFIX_def TRANSFER_JSON_def ucs_def photo_lib_def doc_lib_def photo_hash_def)
  ultimately have "encode_artifacts (photo_lib ns) photo_files (tb_artifacts (photo_bundle ns)) MAX_BYTES
      [(TRANSFER_JSON, bl_print (photo_lib ns) (photo_bundle ns))] = Inr photo_parts"
    by (auto simp: photo_bundle_def photo_files_def photo_parts_def verify_payload_def read_bounded_def MAX_BYTES_def Let_def)
  then show ?thesis using photo_parts_encoded [of ns] by (auto simp: encode_bundle_def)
qed

lemma photo_valid: "ns = [2] \<or> ns = [2, 3] \<Longrightarrow> validate_bundle (photo_lib ns) (photo_bundle ns) = Inr ()"
proof -
  have "artifact_name (ARTIFACT_PREFIX @ photo_hash) \<noteq> None"
    by (simp add: artifact_name_def strip_prefix_def photo_hash_def list_all_iff is_lower_hex_def utf8_len_def utf8_width_def sum_list_replicate)
  then show "ns = [2] \<or> ns = [2, 3] \<Longrightarrow> ?thesis"
    by (auto simp: validate_bundle_def photo_bundle_def trip_names trip_bundle_def validate_queue_def trip_kind RUN_LIMIT_def
      TRANSCRIPT_EVENT_LIMIT_def ARTIFACT_LIMIT_def PAYLOAD_LIMIT_def photo_lib_def doc_lib_def)
qed

theorem transfer_bundle_roundtrip_witness:
  "(\<exists>bs payloads. encode_bundle (photo_lib [2]) photo_files (photo_bundle [2]) = Inr bs \<and>
      decode_bundle (photo_lib [2]) bs = Inr \<lparr>db_bundle = photo_bundle [2], db_payloads = payloads\<rparr> \<and>
      map_of payloads photo_hash = Some [1, 2]) \<and>
   (\<exists>bs. encode_bundle (photo_lib [2, 3]) photo_files (photo_bundle [2, 3]) = Inr bs \<and>
      decode_bundle (photo_lib [2, 3]) bs = Inl invalid_bundle)"
proof -
  have laws: "bundle_laws (photo_lib ns)" and f: "tb_format (photo_bundle ns) = BUNDLE_FORMAT" for ns
    by (simp_all add: photo_lib_def photo_bundle_def trip_bundle_def BUNDLE_FORMAT_def)
  note rt = transfer_bundle_roundtrip [OF laws _ _ f]
  obtain bs where b: "encode_bundle (photo_lib [2]) photo_files (photo_bundle [2]) = Inr bs" using photo_encoded by blast
  obtain bs' where b': "encode_bundle (photo_lib [2, 3]) photo_files (photo_bundle [2, 3]) = Inr bs'" using photo_encoded by blast
  have agree: "sizes_agree (tb_artifacts (photo_bundle [2]))" "\<not> sizes_agree (tb_artifacts (photo_bundle [2, 3]))"
    "\<exists>a\<in>set (tb_artifacts (photo_bundle [2])). ae_sha256 a = photo_hash"
    by (simp_all add: sizes_agree_def photo_bundle_def)
  have v: "validate_bundle (photo_lib [2]) (photo_bundle [2]) = Inr ()" "validate_bundle (photo_lib [2, 3]) (photo_bundle [2, 3]) = Inr ()"
    by (rule photo_valid, simp)+
  from rt [OF b v(1)] agree(1,3) obtain payloads where
    "decode_bundle (photo_lib [2]) bs = Inr \<lparr>db_bundle = photo_bundle [2], db_payloads = payloads\<rparr>"
    "map_of payloads photo_hash = photo_files photo_hash" by (auto split: if_splits)
  then show ?thesis using b b' rt [OF b' v(2)] agree(2) by (auto simp: photo_files_def)
qed

section \<open>Where the code and its document part\<close>

text \<open>
  A queue stored in its guarded envelope, which \<open>turn::queue::save\<close> writes for every queue that waits on a
  quota, is not the \<open>Queue\<close> that \<open>validate\<close> parses: the prepare succeeds and no Plane can import its bundle.
\<close>

lemma guarded_queue_never_moves:
  assumes "bundle_laws L"
    and "prepare_plane_transfer L files actor cid target now tid tid' eid s s = Inr ((t, bs), s1)"
    and "open_plane_transfer cid s = None" and "turn_queue_of cid s = Some w" and "bl_parse_queue L w = None"
  shows "prepare_plane_transfer_import L projects disk publish bs project r \<noteq> Inr pi"
proof
  assume pi: "prepare_plane_transfer_import L projects disk publish bs project r = Inr pi"
  from prepare_row [OF assms(2,3)] obtain b where b: "encode_bundle L files b = Inr bs" "pt_conversation t = cid"
    "capture (t\<lparr>pt_bundle := []\<rparr>) (hs_plane s) s = Inr b" by metis
  from import_target [OF pi] obtain d where d: "decode_bundle L bs = Inr d" .
  have "db_bundle d = b" using decoded_is_encoded [OF assms(1) b(1) d] by simp
  moreover have "tb_turn_queue b = Some w" using b(2,3) assms(4) by (auto simp: capture_def Let_def rbind_Inr_iff)
  ultimately show False
    using decoded_valid [OF d] assms(5) by (auto simp: validate_bundle_def validate_queue_def Let_def rbind_Inr_iff split: if_splits)
qed

text \<open>
  A Conversation whose tombstone expired on a Plane is in that Plane's Deletion ledger. When it comes
  back there in a later epoch and is Home, the next open purges it.
\<close>

lemma import_keeps_deletions:
  assumes "import_record L actor p now eid s = Inr (t, s')"
  shows "hs_deletions s' = hs_deletions s"
proof (cases "plane_transfer_of (tb_transfer (pi_bundle p)) s")
  case None
  let ?cid = "bc_id (tb_conversation (pi_bundle p))"
  from assms None obtain epoch s1 s2 s3 s4 s5 x n e where m: "make_room ?cid epoch s = Inr s1" and i: "insert_conversation n s1 = Inr s2"
    and s3: "s3 = set_conversation_authority ?cid \<lparr>au_state = Prepared, au_epoch = epoch\<rparr>
        (update_conversation_name_row ?cid (bc_name (tb_conversation (pi_bundle p))) s2)"
    and c: "import_content L (pi_bundle p) s3 = Inr s4" and ins: "insert_plane_transfer x s4 = Inr s5"
    and j: "journal_and_audit eid actor ?cid e D_Imported now s5 = Inr s'"
    by (auto simp: import_record_def Let_def rbind_Inr_iff)
  have "hs_deletions s1 = hs_deletions s" using make_room_Inr [OF m] by auto
  moreover have "hs_deletions s3 = hs_deletions s1"
    using i by (auto simp: s3 insert_conversation_def rbind_Inr_iff set_conversation_authority_def update_conversation_name_row_def update_conversation_def)
  ultimately show ?thesis
    using import_content_core [OF c] journal_and_audit_core [OF j] ins by (auto simp: same_core_def insert_plane_transfer_Inr)
qed (use assms in \<open>auto simp: import_record_def Let_def rbind_Inr_iff\<close>)

lemma commit_keeps_deletions:
  assumes "commit_transfer actor tid sha f now eid s = Inr (t', s')"
  shows "hs_deletions s' = hs_deletions s"
proof -
  from assms obtain t where t: "recorded_transfer tid TargetRole s = Inr t" by (auto simp: commit_transfer_def rbind_Inr_iff)
  then show ?thesis using assms
    by (cases "pt_phase t") (auto simp: commit_transfer_def rbind_Inr_iff Let_def settle_plane_transfer_def
      set_conversation_authority_def update_conversation_def same_core_def dest!: journal_and_audit_core)
qed

lemma returned_conversation_is_purged:
  assumes "delete_for_good L r now s = Inr (True, s1)"
    and "import_record L actor p now1 eid1 s1 = Inr (t, s2)" and "bc_id (tb_conversation (pi_bundle p)) = tr_conversation r"
    and "commit_transfer actor (tb_transfer (pi_bundle p)) sha f now2 eid2 s2 = Inr (t', s3)"
  shows "authority_of (tr_conversation r) (reopen s3) = None"
proof -
  have "tr_conversation r \<in> set (hs_deletions s1)"
    using assms(1) by (auto simp: delete_for_good_def rbind_Inr_iff anonymize_home_audit_def home_audit_def delete_conversation_def split: if_splits)
  then show ?thesis
    using fades_authority(1) [OF fades_reopen] import_keeps_deletions [OF assms(2)] commit_keeps_deletions [OF assms(4)] by simp
qed

text \<open>
  \<open>settings_for_scope\<close> answers every row that applies to the Conversation. The Plane's own value travels too,
  is stored on the target as the Conversation's, and replaces the value the Conversation had.
\<close>

lemma plane_setting_replaces_own:
  "hs_settings (fold (import_setting 10)
     (map bundled_setting_of (settings_for_conversation 10 (trip_created\<lparr>hs_settings :=
        [\<lparr>sr_key = ucs ''k'', sr_scope = ScopePlane, sr_value = ucs ''plane'', sr_updated = 0\<rparr>,
         \<lparr>sr_key = ucs ''k'', sr_scope = ScopeConversation 10, sr_value = ucs ''own'', sr_updated = 0\<rparr>]\<rparr>))) trip_imported) =
   [\<lparr>sr_key = ucs ''k'', sr_scope = ScopeConversation 10, sr_value = ucs ''plane'', sr_updated = 0\<rparr>]"
  by (simp add: settings_for_conversation_def bundled_setting_of_def import_setting_def upsert_setting_def trip_imported_def
    empty_store_def)

text \<open>
  A crash between the fence and its commit leaves the transfer prepared and, after the reopen, the authority
  retired. An abort then succeeds and removes the transfer, and the Conversation takes no new work: no Plane is Home.
\<close>

lemma aborted_after_crash:
  "\<exists>s. abort_transfer 7 5 3 24 (reopen (trip_prepared\<lparr>hs_fences := hs_fences trip_retired\<rparr>)) = Inr s \<and>
     authority_of 10 s = Some \<lparr>au_state = Relinquished, au_epoch = 1\<rparr> \<and> hs_transfers s = []"
  by (simp add: reopen_def reapply_fences_def reapply_deletions_def Let_def trip_retired_def retire_fenced_def update_conversation_def
    abort_transfer_def recorded_transfer_def plane_transfer_of_def journal_and_audit_def append_event_record_def home_audit_def
    delete_plane_transfer_def authority_of_def conversation_of_def trip_defs HOME_AUTHORITY_def core_event_def)

end
