(* ===== verification/Jet_Ledger.thy ===== *)
theory Jet_Ledger
  imports Jet_Path Jet_Codec Jet_Pairing Jet_Container "HOL-Library.Sublist"
begin

text \<open>
  The chained evidence ledgers beside the database: \<open>jet-store/src/evidence/{mod,files}.rs\<close>. \<open>Jet_Fences\<close> holds its two
  instances, the Deletion ledger and the Authority fences.

  The trait \<open>Ledger\<close> is a record of its constants and functions (\<open>ledger\<close>), and what its implementations promise is the
  locale \<open>evidence\<close>. A file is absent, not UTF-8, or a text; byte offsets are UTF-8 lengths. The first system call of an
  append that fails is an argument, with the number of characters a failed write left behind: the files it returns are
  also what a crash at that point leaves. SHA-256 and the text of a UUID are parameters.
\<close>

section \<open>Text\<close>

fun split_inclusive :: "ustring \<Rightarrow> ustring list" where
  "split_inclusive [] = []"
| "split_inclusive (c # s) =
     (if c = 10 then [c] # split_inclusive s
      else (case split_inclusive s of [] \<Rightarrow> [[c]] | l # ls \<Rightarrow> (c # l) # ls))"

definition trim_newline :: "ustring \<Rightarrow> ustring" where
  "trim_newline l = rev (dropWhile (\<lambda>c. c = 10) (rev l))"

text \<open>\<open>str::lines\<close>, which also takes a carriage return before the newline.\<close>

definition str_line :: "ustring \<Rightarrow> ustring" where
  "str_line l =
     (if l \<noteq> [] \<and> last l = 10
      then (let b = butlast l in if b \<noteq> [] \<and> last b = 13 then butlast b else b)
      else l)"

definition str_lines :: "ustring \<Rightarrow> ustring list" where
  "str_lines t = map str_line (split_inclusive t)"

definition show_nat :: "nat \<Rightarrow> ustring" where
  "show_nat n = map unat (fmt_decimal n)"

definition show_int :: "int \<Rightarrow> ustring" where
  "show_int i = (if i < 0 then 45 # show_nat (nat (- i)) else show_nat (nat i))"

definition all_digits :: "ustring \<Rightarrow> bool" where
  "all_digits s \<longleftrightarrow> s \<noteq> [] \<and> list_all (\<lambda>c. 48 \<le> c \<and> c \<le> 57) s"

definition digits_value :: "ustring \<Rightarrow> nat" where
  "digits_value s = foldl (\<lambda>acc c. 10 * acc + (c - 48)) 0 s"

definition parse_digits :: "nat \<Rightarrow> ustring \<Rightarrow> nat option" where
  "parse_digits limit s = (if all_digits s \<and> digits_value s \<le> limit then Some (digits_value s) else None)"

fun parse_natural :: "ustring \<Rightarrow> nat option" where
  "parse_natural [] = None"
| "parse_natural (c # s) = parse_digits (2 ^ 64 - 1) (if c = 43 then s else c # s)"

fun parse_integer :: "ustring \<Rightarrow> int option" where
  "parse_integer [] = None"
| "parse_integer (c # s) =
     (if c = 45 then map_option (\<lambda>n. - int n) (parse_digits (2 ^ 63) s)
      else map_option int (parse_digits (2 ^ 63 - 1) (if c = 43 then s else c # s)))"

definition hex_value :: "nat \<Rightarrow> nat option" where
  "hex_value c =
     (if 48 \<le> c \<and> c \<le> 57 then Some (c - 48)
      else if 97 \<le> c \<and> c \<le> 102 then Some (c - 87)
      else if 65 \<le> c \<and> c \<le> 70 then Some (c - 55)
      else None)"

text \<open>\<open>u8::from_str_radix\<close> on two characters: two digits, or a plus sign and one.\<close>

definition radix_pair :: "nat \<Rightarrow> nat \<Rightarrow> byte option" where
  "radix_pair a b =
     (if a = 43 then map_option of_nat (hex_value b)
      else (case (hex_value a, hex_value b) of (Some x, Some y) \<Rightarrow> Some (of_nat (16 * x + y)) | _ \<Rightarrow> None))"

fun link_pairs :: "ustring \<Rightarrow> bytes option" where
  "link_pairs [] = Some []"
| "link_pairs [c] = None"
| "link_pairs (a # b # s) =
     (case (radix_pair a b, link_pairs s) of (Some x, Some xs) \<Rightarrow> Some (x # xs) | _ \<Rightarrow> None)"

section \<open>The ledger\<close>

record evidence_lib =
  ev_sha :: "bytes \<Rightarrow> bytes"
  ev_uuid_text :: "uuid \<Rightarrow> ustring"
  ev_uuid_parse :: "ustring \<Rightarrow> uuid option"

record 'r ledger =
  lg_ledger_format :: ustring
  lg_head_format :: ustring
  lg_genesis_domain :: bytes
  lg_record_domain :: bytes
  lg_sequence :: "'r \<Rightarrow> nat"
  lg_fold :: "'r \<Rightarrow> bytes"
  lg_spell :: "'r \<Rightarrow> ustring"
  lg_parse :: "nat \<Rightarrow> ustring list \<Rightarrow> 'r option"

datatype evidence_file = NoFile | NotText | Content ustring

record evidence_files =
  ef_ledger :: evidence_file
  ef_head :: evidence_file
  ef_pending :: evidence_file

record evidence_head =
  eh_sequence :: nat
  eh_link :: bytes

record 'r ledger_file =
  lf_records :: "('r \<times> bytes) list"
  lf_ends :: "nat list"
  lf_header_end :: nat

datatype 'r reading = Vouches "'r list" | Corrupt_Ledger

definition link_text :: "bytes \<Rightarrow> ustring" where
  "link_text l = map unat (hex_serialize l)"

definition link_parse :: "ustring \<Rightarrow> bytes option" where
  "link_parse t = (if utf8_len t \<noteq> 64 then None else link_pairs t)"

definition link_genesis :: "evidence_lib \<Rightarrow> 'r ledger \<Rightarrow> uuid \<Rightarrow> bytes" where
  "link_genesis V L plane = ev_sha V (lg_genesis_domain L @ uuid_bytes plane)"

definition link_after :: "evidence_lib \<Rightarrow> 'r ledger \<Rightarrow> bytes \<Rightarrow> 'r \<Rightarrow> bytes" where
  "link_after V L previous r = ev_sha V (lg_record_domain L @ previous @ be_bytes 8 (lg_sequence L r) @ lg_fold L r)"

definition check_plane :: "evidence_lib \<Rightarrow> ustring \<Rightarrow> uuid \<Rightarrow> store_error + uuid" where
  "check_plane V line plane =
     (case strip_prefix (ucs ''plane '') line of
        None \<Rightarrow> Inl StoreIntegrity
      | Some t \<Rightarrow>
          (case ev_uuid_parse V t of
             None \<Rightarrow> Inl StoreIntegrity
           | Some named \<Rightarrow> if plane \<noteq> 0 \<and> named \<noteq> plane then Inl StoreIntegrity else Inr named))"

definition parse_record :: "'r ledger \<Rightarrow> ustring \<Rightarrow> ('r \<times> bytes) option" where
  "parse_record L line =
     (case split_on 32 line of
        [] \<Rightarrow> None
      | [s] \<Rightarrow> None
      | s # rest \<Rightarrow>
          (case parse_natural s of
             None \<Rightarrow> None
           | Some n \<Rightarrow>
               (case lg_parse L n (butlast rest) of
                  None \<Rightarrow> None
                | Some r \<Rightarrow> map_option (Pair r) (link_parse (last rest)))))"

fun fold_lines ::
    "evidence_lib \<Rightarrow> 'r ledger \<Rightarrow> bytes \<Rightarrow> nat \<Rightarrow> nat \<Rightarrow> ustring list \<Rightarrow> store_error + ('r \<times> bytes) list \<times> nat list" where
  "fold_lines V L link n offset [] = Inr ([], [])"
| "fold_lines V L link n offset (l # ls) =
     (case parse_record L (trim_newline l) of
        None \<Rightarrow> Inl StoreIntegrity
      | Some (r, named) \<Rightarrow>
          (let next = link_after V L link r in
           if lg_sequence L r \<noteq> n + 1 \<or> named \<noteq> next then Inl StoreIntegrity
           else
             rbind (fold_lines V L next (n + 1) (offset + utf8_len l) ls) (\<lambda>(rs, ends).
               Inr ((r, next) # rs, (offset + utf8_len l) # ends))))"

definition read_ledger_file ::
    "evidence_lib \<Rightarrow> 'r ledger \<Rightarrow> uuid \<Rightarrow> evidence_file \<Rightarrow> store_error + 'r ledger_file option" where
  "read_ledger_file V L plane f =
     (case f of
        NoFile \<Rightarrow> Inr None
      | NotText \<Rightarrow> Inl StoreUnavailable
      | Content t \<Rightarrow>
          (let ls = split_inclusive t;
               format = (case ls of [] \<Rightarrow> [] | l # _ \<Rightarrow> trim_newline l);
               header = (case ls of a # b # _ \<Rightarrow> (trim_newline b, utf8_len a + utf8_len b) | _ \<Rightarrow> ([], 0))
           in if format \<noteq> lg_ledger_format L then Inl StoreIntegrity
              else
                rbind (check_plane V (fst header) plane) (\<lambda>p.
                rbind (fold_lines V L (link_genesis V L p) 0 (snd header) (drop 2 ls)) (\<lambda>(rs, ends).
                  Inr (Some \<lparr>lf_records = rs, lf_ends = ends, lf_header_end = snd header\<rparr>)))))"

definition read_head ::
    "evidence_lib \<Rightarrow> 'r ledger \<Rightarrow> uuid \<Rightarrow> evidence_file \<Rightarrow> store_error + evidence_head option" where
  "read_head V L plane f =
     (case f of
        NoFile \<Rightarrow> Inr None
      | NotText \<Rightarrow> Inl StoreUnavailable
      | Content t \<Rightarrow>
          (let ls = str_lines t;
               line = (\<lambda>i. if i < length ls then Some (ls ! i) else None)
           in if (case line 0 of None \<Rightarrow> [] | Some l \<Rightarrow> l) \<noteq> lg_head_format L then Inl StoreIntegrity
              else
                rbind (check_plane V (case line 1 of None \<Rightarrow> [] | Some l \<Rightarrow> l) plane) (\<lambda>_.
                rbind (ok_or (Option.bind (Option.bind (line 2) (strip_prefix (ucs ''sequence ''))) parse_natural) StoreIntegrity) (\<lambda>n.
                rbind (ok_or (Option.bind (Option.bind (line 3) (strip_prefix (ucs ''link ''))) link_parse) StoreIntegrity) (\<lambda>link.
                  if n = 0 then Inl StoreIntegrity else Inr (Some \<lparr>eh_sequence = n, eh_link = link\<rparr>))))))"

definition vouched ::
    "evidence_lib \<Rightarrow> 'r ledger \<Rightarrow> uuid \<Rightarrow> evidence_files \<Rightarrow> store_error + ('r \<times> bytes) list \<times> nat option" where
  "vouched V L plane F =
     rbind (read_head V L plane (ef_head F)) (\<lambda>head.
     rbind (read_ledger_file V L plane (ef_ledger F)) (\<lambda>file.
       case (head, file) of
         (None, None) \<Rightarrow> Inr ([], None)
       | (Some h, None) \<Rightarrow> Inl StoreIntegrity
       | (None, Some f) \<Rightarrow>
           if length (lf_records f) \<le> 1 then Inr ([], Some (lf_header_end f)) else Inl StoreIntegrity
       | (Some h, Some f) \<Rightarrow>
           (let v = eh_sequence h; count = length (lf_records f) in
            if count < v then Inl StoreIntegrity
            else if v + 1 < count then Inl StoreIntegrity
            else if snd (lf_records f ! (v - 1)) \<noteq> eh_link h then Inl StoreIntegrity
            else Inr (take v (lf_records f), Some (lf_ends f ! (v - 1))))))"

definition trusted_ledger ::
    "evidence_lib \<Rightarrow> 'r ledger \<Rightarrow> uuid \<Rightarrow> nat \<Rightarrow> evidence_files \<Rightarrow> store_error + ('r \<times> bytes) list \<times> nat option" where
  "trusted_ledger V L plane applied F =
     rbind (vouched V L plane F) (\<lambda>(rs, end).
       if length rs < applied then Inl StoreIntegrity else Inr (rs, end))"

definition evidence_read ::
    "evidence_lib \<Rightarrow> 'r ledger \<Rightarrow> uuid \<Rightarrow> nat \<Rightarrow> evidence_files \<Rightarrow> store_error + 'r reading" where
  "evidence_read V L plane applied F =
     (case trusted_ledger V L plane applied F of
        Inr (rs, _) \<Rightarrow> Inr (Vouches (map fst rs))
      | Inl StoreIntegrity \<Rightarrow> Inr Corrupt_Ledger
      | Inl StoreUnavailable \<Rightarrow> Inl StoreUnavailable)"

section \<open>Writing\<close>

text \<open>The system calls of an append, in order.\<close>

datatype evidence_call =
    MakeDirectory | OpenLedger | CutLedger | WriteLedger nat
  | OpenPending | WritePending nat | RenameHead | SyncDirectory

definition ledger_header :: "evidence_lib \<Rightarrow> 'r ledger \<Rightarrow> uuid \<Rightarrow> ustring" where
  "ledger_header V L plane = lg_ledger_format L @ [10] @ ucs ''plane '' @ ev_uuid_text V plane @ [10]"

fun file_text :: "evidence_file \<Rightarrow> ustring" where
  "file_text (Content t) = t"
| "file_text _ = []"

definition write_lines ::
    "evidence_lib \<Rightarrow> 'r ledger \<Rightarrow> evidence_call option \<Rightarrow> uuid \<Rightarrow> nat option \<Rightarrow> ustring \<Rightarrow> evidence_files \<Rightarrow>
     (store_error + unit) \<times> evidence_files" where
  "write_lines V L fault plane end lines F =
     (if fault = Some MakeDirectory \<or> fault = Some OpenLedger then (Inl StoreUnavailable, F)
      else
        (let old = file_text (ef_ledger F);
             kept = (case end of None \<Rightarrow> old | Some e \<Rightarrow> fst (take_bytes e old));
             body = (case end of None \<Rightarrow> ledger_header V L plane @ lines | Some _ \<Rightarrow> lines)
         in if end \<noteq> None \<and> fault = Some CutLedger then (Inl StoreUnavailable, F)
            else
              (case fault of
                 Some (WriteLedger n) \<Rightarrow> (Inl StoreUnavailable, F\<lparr>ef_ledger := Content (kept @ take n body)\<rparr>)
               | _ \<Rightarrow> (Inr (), F\<lparr>ef_ledger := Content (kept @ body)\<rparr>))))"

definition head_text :: "evidence_lib \<Rightarrow> 'r ledger \<Rightarrow> uuid \<Rightarrow> evidence_head \<Rightarrow> ustring" where
  "head_text V L plane h =
     lg_head_format L @ [10] @ ucs ''plane '' @ ev_uuid_text V plane @ [10] @
     ucs ''sequence '' @ show_nat (eh_sequence h) @ [10] @ ucs ''link '' @ link_text (eh_link h) @ [10]"

definition write_head ::
    "evidence_lib \<Rightarrow> 'r ledger \<Rightarrow> evidence_call option \<Rightarrow> uuid \<Rightarrow> evidence_head \<Rightarrow> evidence_files \<Rightarrow>
     (store_error + unit) \<times> evidence_files" where
  "write_head V L fault plane h F =
     (let body = head_text V L plane h in
      case fault of
        Some OpenPending \<Rightarrow> (Inl StoreUnavailable, F)
      | Some (WritePending n) \<Rightarrow> (Inl StoreUnavailable, F\<lparr>ef_pending := Content (take n body)\<rparr>)
      | Some RenameHead \<Rightarrow> (Inl StoreUnavailable, F\<lparr>ef_pending := Content body\<rparr>)
      | Some SyncDirectory \<Rightarrow> (Inl StoreUnavailable, F\<lparr>ef_head := Content body, ef_pending := NoFile\<rparr>)
      | _ \<Rightarrow> (Inr (), F\<lparr>ef_head := Content body, ef_pending := NoFile\<rparr>))"

definition line_text :: "'r ledger \<Rightarrow> 'r \<Rightarrow> bytes \<Rightarrow> ustring" where
  "line_text L r link = show_nat (lg_sequence L r) @ [32] @ lg_spell L r @ [32] @ link_text link @ [10]"

fun append_lines ::
    "evidence_lib \<Rightarrow> 'r ledger \<Rightarrow> (nat \<Rightarrow> 'p \<Rightarrow> 'r) \<Rightarrow> 'p list \<Rightarrow> evidence_head \<Rightarrow> evidence_head \<times> ustring" where
  "append_lines V L mk [] h = (h, [])"
| "append_lines V L mk (p # ps) h =
     (let r = mk (eh_sequence h + 1) p;
          h' = \<lparr>eh_sequence = lg_sequence L r, eh_link = link_after V L (eh_link h) r\<rparr>;
          (h'', body) = append_lines V L mk ps h'
      in (h'', line_text L r (eh_link h') @ body))"

definition ledger_head :: "evidence_lib \<Rightarrow> 'r ledger \<Rightarrow> uuid \<Rightarrow> ('r \<times> bytes) list \<Rightarrow> evidence_head" where
  "ledger_head V L plane rs =
     (if rs = [] then \<lparr>eh_sequence = 0, eh_link = link_genesis V L plane\<rparr>
      else \<lparr>eh_sequence = lg_sequence L (fst (last rs)), eh_link = snd (last rs)\<rparr>)"

definition evidence_append ::
    "evidence_lib \<Rightarrow> 'r ledger \<Rightarrow> evidence_call option \<Rightarrow> uuid \<Rightarrow> nat \<Rightarrow> (nat \<Rightarrow> 'p \<Rightarrow> 'r) \<Rightarrow> 'p list \<Rightarrow> evidence_files \<Rightarrow>
     (store_error + nat) \<times> evidence_files" where
  "evidence_append V L fault plane applied mk pending F =
     (case trusted_ledger V L plane applied F of
        Inl e \<Rightarrow> (Inl e, F)
      | Inr (rs, end) \<Rightarrow>
          (let (h, body) = append_lines V L mk pending (ledger_head V L plane rs) in
           case write_lines V L fault plane end body F of
             (Inl e, F1) \<Rightarrow> (Inl e, F1)
           | (Inr _, F1) \<Rightarrow>
               (case write_head V L fault plane h F1 of
                  (Inl e, F2) \<Rightarrow> (Inl e, F2)
                | (Inr _, F2) \<Rightarrow> (Inr (eh_sequence h), F2))))"

section \<open>Text that was written reads back\<close>

lemma split_inclusive_line: "10 \<notin> set l \<Longrightarrow> split_inclusive (l @ 10 # t) = (l @ [10]) # split_inclusive t"
  by (induction l) auto

lemma split_inclusive_whole: "10 \<notin> set l \<Longrightarrow> split_inclusive ((l @ [10]) @ t) = (l @ [10]) # split_inclusive t"
  using split_inclusive_line [of l t] by simp

lemma trim_newline_line [simp]: "10 \<notin> set l \<Longrightarrow> trim_newline (l @ [10]) = l"
proof -
  assume "10 \<notin> set l"
  then have "dropWhile (\<lambda>c. c = 10) (rev l) = rev l"
    by (simp add: dropWhile_eq_self hd_rev) (metis last_in_set)
  then show ?thesis by (simp add: trim_newline_def)
qed

lemma str_line_line: "l = [] \<or> last l \<noteq> 13 \<Longrightarrow> str_line (l @ [10]) = l"
  by (auto simp: str_line_def Let_def)

lemma str_line_clean:
  assumes "13 \<notin> set x"
  shows "str_line (x @ [10]) = x"
proof (rule str_line_line)
  show "x = [] \<or> last x \<noteq> 13" using assms last_in_set [of x] by metis
qed

lemma split_on_append: "split_on d (a @ d # b) = split_on d a @ split_on d b"
proof (induction a)
  case (Cons c a)
  then show ?case by (cases "split_on d a") (auto split: list.splits)
qed simp

lemma take_bytes_utf8_len: "take_bytes (utf8_len a) (a @ b) = (a, b)"
proof (induction a)
  case Nil
  then show ?case by (cases b) (auto simp: utf8_width_def)
qed simp

lemma digit_chars: "list_all is_ascii_digit bs \<Longrightarrow> c \<in> set (map unat bs) \<Longrightarrow> 48 \<le> c \<and> c \<le> 57"
  by (induction bs) (auto simp: is_ascii_digit_def)

lemma show_nat_chars: "c \<in> set (show_nat n) \<Longrightarrow> 48 \<le> c \<and> c \<le> 57"
  unfolding show_nat_def using fmt_decimal_props [of n] digit_chars by blast

lemma show_nat_nonempty [simp]: "show_nat n \<noteq> []"
  using fmt_decimal_props [of n] by (simp add: show_nat_def)

lemma digits_value_show [simp]: "digits_value (show_nat n) = n"
proof -
  have "digits_value (map unat bs) = decimal_value bs" for bs
    by (simp add: digits_value_def decimal_value_def digit_value_def foldl_map)
  then show ?thesis using fmt_decimal_props [of n] by (simp add: show_nat_def)
qed

lemma parse_digits_show: "n \<le> limit \<Longrightarrow> parse_digits limit (show_nat n) = Some n"
  using show_nat_chars by (auto simp: parse_digits_def all_digits_def list_all_iff)

lemma parse_natural_show [simp]: "n < 2 ^ 64 \<Longrightarrow> parse_natural (show_nat n) = Some n"
  using parse_digits_show [of n "2 ^ 64 - 1"] show_nat_chars [of _ n]
  by (cases "show_nat n") (fastforce simp: Suc_le_eq)+

lemma parse_integer_show [simp]:
  assumes "- (2 ^ 63) \<le> i" "i < 2 ^ 63"
  shows "parse_integer (show_int i) = Some i"
proof (cases "i < 0")
  case True
  then show ?thesis using assms parse_digits_show [of "nat (- i)" "2 ^ 63"] by (simp add: show_int_def nat_le_iff)
next
  case False
  then have "nat i \<le> 2 ^ 63 - 1" using assms by (simp add: nat_le_iff)
  note n = parse_digits_show [OF this]
  obtain c s where c: "show_nat (nat i) = c # s" using show_nat_nonempty by (cases "show_nat (nat i)") auto
  then have "48 \<le> c" using show_nat_chars [of c "nat i"] by simp
  then show ?thesis using n False c by (simp add: show_int_def)
qed

lemma show_int_chars: "c \<in> set (show_int i) \<Longrightarrow> c = 45 \<or> (48 \<le> c \<and> c \<le> 57)"
  using show_nat_chars by (auto simp: show_int_def split: if_splits)

lemma hex_digit_char: "n < 16 \<Longrightarrow> hex_value (unat (hex_digit n)) = Some n \<and> unat (hex_digit n) \<in> {48..57} \<union> {97..102}"
  using unat_hex_digit [of n] by (auto simp: hex_value_def split: if_splits)

lemma link_pairs_text: "link_pairs (link_text l) = Some l"
proof (induction l)
  case (Cons b l)
  have "unat b div 16 < 16" "unat b mod 16 < 16" using unat_byte_bound [of b] by auto
  note h = hex_digit_char [OF this(1)] hex_digit_char [OF this(2)]
  have "radix_pair (unat (hex_digit (unat b div 16))) (unat (hex_digit (unat b mod 16))) = Some b"
    using h by (auto simp: radix_pair_def)
  then show ?case using Cons by (simp add: link_text_def hex_serialize_def fmt_hex_byte_def)
qed (simp add: link_text_def hex_serialize_def)

lemma link_text_chars: "c \<in> set (link_text l) \<Longrightarrow> c \<in> {48..57} \<union> {97..102}"
proof (induction l)
  case (Cons b l)
  have "unat b div 16 < 16" "unat b mod 16 < 16" using unat_byte_bound [of b] by auto
  note h = hex_digit_char [OF this(1)] hex_digit_char [OF this(2)]
  from Cons.prems consider "c = unat (hex_digit (unat b div 16))" | "c = unat (hex_digit (unat b mod 16))" | "c \<in> set (link_text l)"
    by (auto simp: link_text_def hex_serialize_def fmt_hex_byte_def)
  then show ?case using h Cons.IH by cases auto
qed (simp add: link_text_def hex_serialize_def)

lemma utf8_len_ascii: "(\<And>c. c \<in> set s \<Longrightarrow> c < 128) \<Longrightarrow> utf8_len s = length s"
  by (induction s) (simp_all add: utf8_width_def)

lemma link_parse_text [simp]: "length l = 32 \<Longrightarrow> link_parse (link_text l) = Some l"
proof -
  assume l: "length l = 32"
  have "utf8_len (link_text l) = length (link_text l)" using link_text_chars by (intro utf8_len_ascii) fastforce
  then show ?thesis using l length_hex_serialize [of l] link_pairs_text by (simp add: link_parse_def link_text_def)
qed

lemma parse_natural_bound: "parse_natural s = Some n \<Longrightarrow> n < 2 ^ 64"
  by (cases s) (auto simp: parse_digits_def Let_def split: if_splits)

section \<open>What an implementation of the trait promises\<close>

fun ledger_chain :: "evidence_lib \<Rightarrow> 'r ledger \<Rightarrow> bytes \<Rightarrow> 'r list \<Rightarrow> ('r \<times> bytes) list" where
  "ledger_chain V L link [] = []"
| "ledger_chain V L link (r # rs) = (let next = link_after V L link r in (r, next) # ledger_chain V L next rs)"

definition ledger_text :: "evidence_lib \<Rightarrow> 'r ledger \<Rightarrow> uuid \<Rightarrow> 'r list \<Rightarrow> ustring" where
  "ledger_text V L plane rs =
     ledger_header V L plane @ concat (map (\<lambda>(r, link). line_text L r link) (ledger_chain V L (link_genesis V L plane) rs))"

fun numbered :: "(nat \<Rightarrow> 'p \<Rightarrow> 'r) \<Rightarrow> nat \<Rightarrow> 'p list \<Rightarrow> 'r list" where
  "numbered mk n [] = []"
| "numbered mk n (p # ps) = mk (Suc n) p # numbered mk (Suc n) ps"

text \<open>
  \<open>rs\<close> is what the head vouches for; at most one further line was written before its head could follow.
\<close>

definition ledger_state :: "evidence_lib \<Rightarrow> 'r ledger \<Rightarrow> uuid \<Rightarrow> ('r \<Rightarrow> bool) \<Rightarrow> 'r list \<Rightarrow> evidence_files \<Rightarrow> bool" where
  "ledger_state V L plane good rs F \<longleftrightarrow>
     ef_head F = (if rs = [] then NoFile
       else Content (head_text V L plane (ledger_head V L plane (ledger_chain V L (link_genesis V L plane) rs)))) \<and>
     (ef_ledger F = NoFile \<and> rs = [] \<or>
      (\<exists>tail. length tail \<le> 1 \<and> list_all good (rs @ tail) \<and> map (lg_sequence L) (rs @ tail) = [1..<Suc (length (rs @ tail))] \<and>
         ef_ledger F = Content (ledger_text V L plane (rs @ tail))))"

definition no_files :: evidence_files where
  "no_files = \<lparr>ef_ledger = NoFile, ef_head = NoFile, ef_pending = NoFile\<rparr>"

text \<open>
  Every way the files of one Plane come about when no write to the ledger is torn and no append of several records stops
  between the ledger and its head (such an append is the subject of \<open>several_unvouched\<close> below): otherwise an append may
  fail or stop at any system call, the store commits the sequence an append returned or does not, and opening the
  store applies what the ledger vouches for. \<open>acknowledged\<close> lists the records whose append returned.
\<close>

fun before_head :: "evidence_call \<Rightarrow> bool" where
  "before_head OpenPending = True"
| "before_head (WritePending _) = True"
| "before_head RenameHead = True"
| "before_head _ = False"

inductive ledger_history ::
    "evidence_lib \<Rightarrow> 'r ledger \<Rightarrow> uuid \<Rightarrow> (nat \<Rightarrow> 'p \<Rightarrow> 'r) \<Rightarrow> ('p \<Rightarrow> bool) \<Rightarrow> evidence_files \<Rightarrow> nat \<Rightarrow> 'r list \<Rightarrow> bool"
  for V L plane mk ok where
  start: "ledger_history V L plane mk ok no_files 0 []"
| attempt: "ledger_history V L plane mk ok F applied acknowledged \<Longrightarrow> list_all ok ps \<Longrightarrow> ps \<noteq> [] \<Longrightarrow>
    (\<And>rs. evidence_read V L plane applied F = Inr (Vouches rs) \<Longrightarrow> length rs + length ps < 2 ^ 64) \<Longrightarrow>
    (\<And>n. fault \<noteq> Some (WriteLedger n)) \<Longrightarrow>
    length ps = 1 \<or> \<not> (\<exists>c. fault = Some c \<and> before_head c) \<Longrightarrow>
    evidence_append V L fault plane applied mk ps F = (res, F') \<Longrightarrow>
    applied' = applied \<or> res = Inr applied' \<Longrightarrow>
    ledger_history V L plane mk ok F' applied'
      (acknowledged @ (case res of Inl _ \<Rightarrow> [] | Inr n \<Rightarrow> numbered mk (n - length ps) ps))"
| reopened: "ledger_history V L plane mk ok F applied acknowledged \<Longrightarrow>
    evidence_read V L plane applied F = Inr (Vouches rs) \<Longrightarrow>
    ledger_history V L plane mk ok F (max applied (length rs)) acknowledged"

locale evidence =
  fixes V :: evidence_lib and L :: "'r ledger" and plane :: uuid and mk :: "nat \<Rightarrow> 'p \<Rightarrow> 'r" and ok :: "'p \<Rightarrow> bool"
  assumes sha_length: "length (ev_sha V b) = 32"
    and plane_parse: "ev_uuid_parse V (ev_uuid_text V plane) = Some plane"
    and plane_text: "10 \<notin> set (ev_uuid_text V plane)" "13 \<notin> set (ev_uuid_text V plane)"
    and formats: "10 \<notin> set (lg_ledger_format L)" "10 \<notin> set (lg_head_format L)" "13 \<notin> set (lg_head_format L)"
    and sequence_mk: "lg_sequence L (mk n p) = n"
    and spell_mk: "ok p \<Longrightarrow> 10 \<notin> set (lg_spell L (mk n p))"
    and parse_mk: "ok p \<Longrightarrow> lg_parse L n (split_on 32 (lg_spell L (mk n p))) = Some (mk n p)"
begin

definition good :: "'r \<Rightarrow> bool" where
  "good r \<longleftrightarrow> (\<exists>n p. r = mk n p \<and> n < 2 ^ 64 \<and> ok p)"

lemma link_length [simp]: "length (link_genesis V L p) = 32" "length (link_after V L l r) = 32"
  by (simp_all add: link_genesis_def link_after_def sha_length)

lemma good_sequence: "good r \<Longrightarrow> lg_sequence L r < 2 ^ 64"
  by (auto simp: good_def sequence_mk)

lemma line_body_no_newline:
  assumes "good r" shows "10 \<notin> set (show_nat (lg_sequence L r) @ [32] @ lg_spell L r @ [32] @ link_text link)"
  using assms spell_mk show_nat_chars [of 10] link_text_chars [of 10 link] by (auto simp: good_def)

lemma parse_record_line:
  assumes "good r" and "length link = 32"
  shows "parse_record L (show_nat (lg_sequence L r) @ [32] @ lg_spell L r @ [32] @ link_text link) = Some (r, link)"
proof -
  from assms(1) obtain n p where r: "r = mk n p" "n < 2 ^ 64" "ok p" by (auto simp: good_def)
  have "32 \<notin> set (show_nat n)" "32 \<notin> set (link_text link)"
    using show_nat_chars [of 32 n] link_text_chars [of 32 link] by auto
  then have "split_on 32 (show_nat n @ 32 # lg_spell L r @ 32 # link_text link) =
      show_nat n # split_on 32 (lg_spell L r) @ [link_text link]"
    by (simp add: split_append split_on_append split_no_sep)
  then show ?thesis
    using r assms(2) parse_mk [OF r(3), of n]
    by (simp add: parse_record_def sequence_mk split: list.splits) (cases "split_on 32 (lg_spell L (mk n p))"; simp)
qed

lemma fold_written:
  assumes "\<And>r. r \<in> set rs \<Longrightarrow> good r" and "map (lg_sequence L) rs = [Suc n..<Suc n + length rs]"
  shows "\<exists>ends. fold_lines V L link n offset (split_inclusive (concat (map (\<lambda>(r, l). line_text L r l) (ledger_chain V L link rs)))) =
      Inr (ledger_chain V L link rs, ends) \<and> length ends = length rs \<and>
    (\<forall>k<length rs. ends ! k = offset + utf8_len (concat (map (\<lambda>(r, l). line_text L r l) (take (Suc k) (ledger_chain V L link rs)))))"
  using assms
proof (induction rs arbitrary: link n offset)
  case (Cons r rs)
  let ?next = "link_after V L link r"
  define b where "b = show_nat (lg_sequence L r) @ [32] @ lg_spell L r @ [32] @ link_text ?next"
  have g: "good r" using Cons.prems by simp
  have nl: "10 \<notin> set b" unfolding b_def by (rule line_body_no_newline [OF g])
  have parsed: "parse_record L b = Some (r, ?next)" unfolding b_def by (rule parse_record_line [OF g]) simp
  have line: "line_text L r ?next = b @ [10]" by (simp add: line_text_def b_def)
  have seq: "lg_sequence L r = Suc n" "map (lg_sequence L) rs = [Suc (Suc n)..<Suc (Suc n) + length rs]"
    using Cons.prems(2) by (simp_all add: upt_conv_Cons del: upt_Suc)
  from Cons.IH [of "Suc n" ?next "offset + utf8_len (b @ [10])"] Cons.prems(1) seq(2) obtain ends
    where e: "fold_lines V L ?next (Suc n) (offset + utf8_len (b @ [10]))
        (split_inclusive (concat (map (\<lambda>(r, l). line_text L r l) (ledger_chain V L ?next rs)))) = Inr (ledger_chain V L ?next rs, ends)"
      "length ends = length rs"
      "\<And>k. k < length rs \<Longrightarrow> ends ! k = offset + utf8_len (b @ [10]) +
         utf8_len (concat (map (\<lambda>(r, l). line_text L r l) (take (Suc k) (ledger_chain V L ?next rs))))"
    by auto
  have "fold_lines V L link n offset (split_inclusive (concat (map (\<lambda>(r, l). line_text L r l) (ledger_chain V L link (r # rs))))) =
      Inr (ledger_chain V L link (r # rs), (offset + utf8_len (b @ [10])) # ends)"
    using parsed e(1) seq(1) nl
    by (simp add: line Let_def split_inclusive_whole del: utf8_len_simps append_assoc)
  moreover have "(\<forall>k<length (r # rs). ((offset + utf8_len (b @ [10])) # ends) ! k =
      offset + utf8_len (concat (map (\<lambda>(r, l). line_text L r l) (take (Suc k) (ledger_chain V L link (r # rs))))))"
    using e(3) by (auto simp: less_Suc_eq_0_disj line Let_def)
  ultimately show ?case using e(2) by (intro exI conjI) simp_all
qed simp

lemma chain_length [simp]: "length (ledger_chain V L link rs) = length rs"
  by (induction rs arbitrary: link) (simp_all add: Let_def)

lemma chain_fst [simp]: "map fst (ledger_chain V L link rs) = rs"
  by (induction rs arbitrary: link) (simp_all add: Let_def)

lemma chain_take: "take k (ledger_chain V L link rs) = ledger_chain V L link (take k rs)"
proof (induction rs arbitrary: k link)
  case (Cons r rs)
  then show ?case by (cases k) (simp_all add: Let_def)
qed simp

lemma chain_links: "x \<in> set (ledger_chain V L link rs) \<Longrightarrow> length (snd x) = 32"
  by (induction rs arbitrary: link) (auto simp: Let_def)

lemma plane_line: "check_plane V (ucs ''plane '' @ ev_uuid_text V plane) plane = Inr plane"
  by (simp add: check_plane_def strip_prefix_def plane_parse)

lemma plane_line_clean: "10 \<notin> set (ucs ''plane '' @ ev_uuid_text V plane)" "13 \<notin> set (ucs ''plane '' @ ev_uuid_text V plane)"
  using plane_text by (auto simp: ucs_def)

lemma split_header:
  "split_inclusive (ledger_header V L plane @ t) =
     (lg_ledger_format L @ [10]) # ((ucs ''plane '' @ ev_uuid_text V plane) @ [10]) # split_inclusive t"
  using split_inclusive_line [OF formats(1), of "(ucs ''plane '' @ ev_uuid_text V plane) @ 10 # t"]
    split_inclusive_line [OF plane_line_clean(1), of t] by (simp add: ledger_header_def)

lemma read_written:
  assumes "list_all good rs" and "map (lg_sequence L) rs = [1..<Suc (length rs)]"
  shows "\<exists>ends. read_ledger_file V L plane (Content (ledger_text V L plane rs)) =
      Inr (Some \<lparr>lf_records = ledger_chain V L (link_genesis V L plane) rs, lf_ends = ends, lf_header_end = utf8_len (ledger_header V L plane)\<rparr>) \<and>
    (\<forall>k<length rs. ends ! k = utf8_len (ledger_text V L plane (take (Suc k) rs)))"
proof -
  let ?g = "link_genesis V L plane"
  from fold_written [of rs 0 ?g "utf8_len (ledger_header V L plane)"] assms obtain ends
    where e: "fold_lines V L ?g 0 (utf8_len (ledger_header V L plane))
        (split_inclusive (concat (map (\<lambda>(r, l). line_text L r l) (ledger_chain V L ?g rs)))) = Inr (ledger_chain V L ?g rs, ends)"
      "\<And>k. k < length rs \<Longrightarrow> ends ! k = utf8_len (ledger_header V L plane) +
         utf8_len (concat (map (\<lambda>(r, l). line_text L r l) (take (Suc k) (ledger_chain V L ?g rs))))"
    by (auto simp: list_all_iff)
  have len: "utf8_len (lg_ledger_format L @ [10]) + utf8_len ((ucs ''plane '' @ ev_uuid_text V plane) @ [10]) = utf8_len (ledger_header V L plane)"
    by (simp add: ledger_header_def)
  have "read_ledger_file V L plane (Content (ledger_text V L plane rs)) =
      Inr (Some \<lparr>lf_records = ledger_chain V L ?g rs, lf_ends = ends, lf_header_end = utf8_len (ledger_header V L plane)\<rparr>)"
    using e(1) formats(1) plane_line_clean(1) plane_line
    by (simp add: read_ledger_file_def ledger_text_def split_header len Let_def del: utf8_len_simps append_assoc)
  moreover have "\<forall>k<length rs. ends ! k = utf8_len (ledger_text V L plane (take (Suc k) rs))"
    using e(2) by (simp add: ledger_text_def chain_take)
  ultimately show ?thesis by blast
qed

lemma head_lines:
  assumes "length (eh_link h) = 32"
  shows "str_lines (head_text V L plane h) =
    [lg_head_format L, ucs ''plane '' @ ev_uuid_text V plane, ucs ''sequence '' @ show_nat (eh_sequence h), ucs ''link '' @ link_text (eh_link h)]"
proof -
  have s: "10 \<notin> set (ucs ''sequence '' @ show_nat (eh_sequence h))" "13 \<notin> set (ucs ''sequence '' @ show_nat (eh_sequence h))"
    using show_nat_chars [of 10] show_nat_chars [of 13] by (auto simp: ucs_def)
  have l: "10 \<notin> set (ucs ''link '' @ link_text (eh_link h))" "13 \<notin> set (ucs ''link '' @ link_text (eh_link h))"
    using link_text_chars [of 10] link_text_chars [of 13] by (auto simp: ucs_def)
  have "head_text V L plane h = (lg_head_format L @ [10]) @ ((ucs ''plane '' @ ev_uuid_text V plane) @ [10]) @
      ((ucs ''sequence '' @ show_nat (eh_sequence h)) @ [10]) @ ((ucs ''link '' @ link_text (eh_link h)) @ [10]) @ []"
    by (simp add: head_text_def)
  then show ?thesis
    unfolding str_lines_def using formats(2,3) plane_line_clean s l
    by (simp only: split_inclusive_whole list.map str_line_clean split_inclusive.simps simp_thms)
qed

lemma read_head_written:
  assumes "length (eh_link h) = 32" "eh_sequence h < 2 ^ 64" "0 < eh_sequence h"
  shows "read_head V L plane (Content (head_text V L plane h)) = Inr (Some h)"
  using assms plane_line by (simp add: read_head_def head_lines strip_prefix_def Let_def del: append_assoc)

lemma chain_last:
  "rs \<noteq> [] \<Longrightarrow> fst (last (ledger_chain V L link rs)) = last rs"
  by (metis chain_fst chain_length last_map length_0_conv)

lemma chain_last_link:
  "rs \<noteq> [] \<Longrightarrow> length (snd (last (ledger_chain V L link rs))) = 32"
  by (metis chain_length chain_links last_in_set length_0_conv)

lemma sequence_last:
  assumes "rs \<noteq> []" "map (lg_sequence L) (rs @ tail) = [1..<Suc (length (rs @ tail))]"
  shows "lg_sequence L (last rs) = length rs"
proof -
  have "lg_sequence L (last rs) = map (lg_sequence L) (rs @ tail) ! (length rs - 1)"
    using assms(1) by (simp add: last_conv_nth nth_append)
  also have "\<dots> = length rs" using assms by (simp add: nth_append del: upt_Suc)
  finally show ?thesis .
qed

lemma state_head:
  assumes "rs \<noteq> []" "list_all good rs" "map (lg_sequence L) (rs @ tail) = [1..<Suc (length (rs @ tail))]"
  shows "read_head V L plane (Content (head_text V L plane (ledger_head V L plane (ledger_chain V L (link_genesis V L plane) rs)))) =
    Inr (Some (ledger_head V L plane (ledger_chain V L (link_genesis V L plane) rs)))"
    and "eh_sequence (ledger_head V L plane (ledger_chain V L (link_genesis V L plane) rs)) = length rs"
proof -
  let ?c = "ledger_chain V L (link_genesis V L plane) rs"
  have ne: "?c \<noteq> []" using assms(1) by (metis chain_length length_0_conv)
  show seq: "eh_sequence (ledger_head V L plane ?c) = length rs"
    using ne sequence_last [OF assms(1,3)] chain_last [OF assms(1)] by (simp add: ledger_head_def)
  have "length rs < 2 ^ 64"
    using sequence_last [OF assms(1,3)] good_sequence [of "last rs"] assms(1,2) by (simp add: list_all_iff)
  then show "read_head V L plane (Content (head_text V L plane (ledger_head V L plane ?c))) = Inr (Some (ledger_head V L plane ?c))"
    using ne seq assms(1) chain_last_link [OF assms(1)] by (intro read_head_written) (simp_all add: ledger_head_def)
qed

lemma text_prefix: "ledger_text V L plane (rs @ tail) =
    ledger_text V L plane rs @ drop (length (ledger_text V L plane rs)) (ledger_text V L plane (rs @ tail))"
proof -
  let ?g = "link_genesis V L plane"
  have "ledger_chain V L ?g (rs @ tail) = ledger_chain V L ?g rs @ drop (length rs) (ledger_chain V L ?g (rs @ tail))"
    using append_take_drop_id [of "length rs" "ledger_chain V L ?g (rs @ tail)"] by (simp add: chain_take)
  then have "\<exists>x. ledger_text V L plane (rs @ tail) = ledger_text V L plane rs @ x"
    unfolding ledger_text_def by (metis append.assoc concat_append map_append)
  then show ?thesis by auto
qed

lemma vouched_state:
  assumes "ledger_state V L plane good rs F"
  obtains (empty) "rs = []" "ef_ledger F = NoFile" "vouched V L plane F = Inr ([], None)"
  | (written) tail where "ef_ledger F = Content (ledger_text V L plane (rs @ tail))" "list_all good rs"
      "map (lg_sequence L) rs = [1..<Suc (length rs)]"
      "vouched V L plane F = Inr (ledger_chain V L (link_genesis V L plane) rs, Some (utf8_len (ledger_text V L plane rs)))"
proof -
  let ?g = "link_genesis V L plane"
  have head: "ef_head F = (if rs = [] then NoFile else Content (head_text V L plane (ledger_head V L plane (ledger_chain V L ?g rs))))"
    using assms by (simp add: ledger_state_def)
  from assms consider "ef_ledger F = NoFile" "rs = []"
    | tail where "length tail \<le> 1" "list_all good (rs @ tail)" "map (lg_sequence L) (rs @ tail) = [1..<Suc (length (rs @ tail))]"
        "ef_ledger F = Content (ledger_text V L plane (rs @ tail))"
    by (auto simp: ledger_state_def)
  then show thesis
  proof cases
    case 1
    then show thesis using empty head by (simp add: vouched_def read_head_def read_ledger_file_def)
  next
    case (2 tail)
    from read_written [OF 2(2,3)] obtain ends where e: "read_ledger_file V L plane (ef_ledger F) =
        Inr (Some \<lparr>lf_records = ledger_chain V L ?g (rs @ tail), lf_ends = ends, lf_header_end = utf8_len (ledger_header V L plane)\<rparr>)"
      "\<And>k. k < length (rs @ tail) \<Longrightarrow> ends ! k = utf8_len (ledger_text V L plane (take (Suc k) (rs @ tail)))"
      using 2(4) by auto
    have seq: "map (lg_sequence L) rs = [1..<Suc (length rs)]"
      using arg_cong [OF 2(3), of "take (length rs)"] by (simp add: take_upt del: upt_Suc)
    show thesis
    proof (cases "rs = []")
      case True
      then show thesis using written [of tail] 2 e head seq
        by (simp add: vouched_def read_head_def ledger_text_def)
    next
      case False
      note h = state_head [OF False _ 2(3)]
      have lr: "list_all good rs" using 2(2) by simp
      have "snd (ledger_chain V L ?g (rs @ tail) ! (length rs - 1)) = snd (ledger_chain V L ?g rs ! (length rs - 1))"
        using chain_take [of "length rs" ?g "rs @ tail"] False by (metis append_eq_conv_conj diff_less length_greater_0_conv nth_take zero_less_one)
      also have "\<dots> = eh_link (ledger_head V L plane (ledger_chain V L ?g rs))"
        using False by (simp add: ledger_head_def last_conv_nth) (metis chain_length length_0_conv)
      finally have link: "snd (ledger_chain V L ?g (rs @ tail) ! (length rs - 1)) = eh_link (ledger_head V L plane (ledger_chain V L ?g rs))" .
      have "vouched V L plane F = Inr (ledger_chain V L ?g rs, Some (ends ! (length rs - 1)))"
        using h [OF lr] head False e(1) 2(1) link by (simp add: vouched_def chain_take)
      moreover have "ends ! (length rs - 1) = utf8_len (ledger_text V L plane rs)"
        using e(2) [of "length rs - 1"] False by (cases rs) simp_all
      ultimately show thesis using written [of tail] 2(4) lr seq by metis
    qed
  qed
qed

lemma chain_snoc:
  "ledger_chain V L link (rs @ [r]) =
     ledger_chain V L link rs @ [(r, link_after V L (if rs = [] then link else snd (last (ledger_chain V L link rs))) r)]"
proof (induction rs arbitrary: link)
  case (Cons x rs)
  then show ?case by (cases rs) (simp_all add: Let_def)
qed (simp add: Let_def)

lemma head_link: "eh_link (ledger_head V L plane (ledger_chain V L (link_genesis V L plane) rs)) =
    (if rs = [] then link_genesis V L plane else snd (last (ledger_chain V L (link_genesis V L plane) rs)))"
  using chain_length [of "link_genesis V L plane" rs] by (cases rs) (simp_all add: ledger_head_def Let_def)

lemma text_snoc:
  "ledger_text V L plane (rs @ [r]) = ledger_text V L plane rs @
     line_text L r (link_after V L (eh_link (ledger_head V L plane (ledger_chain V L (link_genesis V L plane) rs))) r)"
  by (simp add: ledger_text_def chain_snoc head_link)

lemma head_snoc:
  "ledger_head V L plane (ledger_chain V L (link_genesis V L plane) (rs @ [r])) =
     \<lparr>eh_sequence = lg_sequence L r,
      eh_link = link_after V L (eh_link (ledger_head V L plane (ledger_chain V L (link_genesis V L plane) rs))) r\<rparr>"
  by (simp add: ledger_head_def [of _ _ _ "_ @ _"] chain_snoc head_link)

lemma numbered_length [simp]: "length (numbered mk n ps) = length ps"
  by (induction ps arbitrary: n) simp_all

lemma numbered_good: "list_all ok ps \<Longrightarrow> n + length ps < 2 ^ 64 \<Longrightarrow> list_all good (numbered mk n ps)"
proof (induction ps arbitrary: n)
  case (Cons p ps)
  then have "good (mk (Suc n) p)" unfolding good_def by (intro exI [of _ "Suc n"] exI [of _ p]) simp
  then show ?case using Cons by simp
qed simp

lemma numbered_sequence: "map (lg_sequence L) (numbered mk n ps) = [Suc n..<Suc n + length ps]"
  by (induction ps arbitrary: n) (simp_all add: sequence_mk upt_conv_Cons del: upt_Suc)

lemma append_lines_written:
  assumes "eh_sequence (ledger_head V L plane (ledger_chain V L (link_genesis V L plane) rs)) = length rs"
  shows "\<exists>body. append_lines V L mk ps (ledger_head V L plane (ledger_chain V L (link_genesis V L plane) rs)) =
      (ledger_head V L plane (ledger_chain V L (link_genesis V L plane) (rs @ numbered mk (length rs) ps)), body) \<and>
    ledger_text V L plane (rs @ numbered mk (length rs) ps) = ledger_text V L plane rs @ body"
  using assms
proof (induction ps arbitrary: rs)
  case (Cons p ps)
  let ?r = "mk (Suc (length rs)) p"
  have "eh_sequence (ledger_head V L plane (ledger_chain V L (link_genesis V L plane) (rs @ [?r]))) = length (rs @ [?r])"
    by (simp add: head_snoc sequence_mk)
  from Cons.IH [OF this] obtain body where
    b: "append_lines V L mk ps (ledger_head V L plane (ledger_chain V L (link_genesis V L plane) (rs @ [?r]))) =
      (ledger_head V L plane (ledger_chain V L (link_genesis V L plane) (rs @ ?r # numbered mk (Suc (length rs)) ps)), body)"
      "ledger_text V L plane (rs @ ?r # numbered mk (Suc (length rs)) ps) = ledger_text V L plane (rs @ [?r]) @ body"
    by auto
  then show ?case using Cons.prems by (simp add: head_snoc text_snoc sequence_mk Let_def)
qed simp

lemma state_pending [simp]: "ledger_state V L plane good rs (F\<lparr>ef_pending := x\<rparr>) = ledger_state V L plane good rs F"
  by (simp add: ledger_state_def)

lemma append_written:
  assumes state: "ledger_state V L plane good rs F"
    and new: "list_all good new" "map (lg_sequence L) new = [Suc (length rs)..<Suc (length rs) + length new]" "new \<noteq> []"
    and v: "vouched V L plane F = Inr (c, stop)"
    and body: "ledger_text V L plane (rs @ new) = ledger_text V L plane rs @ body"
    and w: "write_lines V L fault plane stop body F = (res, F1)"
    and whole: "\<And>n. fault \<noteq> Some (WriteLedger n)"
  shows "res = Inl StoreUnavailable \<and> F1 = F \<or> res = Inr () \<and> F1 = F\<lparr>ef_ledger := Content (ledger_text V L plane (rs @ new))\<rparr>"
    and "list_all good (rs @ new) \<and> map (lg_sequence L) (rs @ new) = [1..<Suc (length (rs @ new))]"
    and "fault = None \<Longrightarrow> res = Inr ()"
proof -
  have "(res = Inl StoreUnavailable \<and> F1 = F \<or> res = Inr () \<and> F1 = F\<lparr>ef_ledger := Content (ledger_text V L plane (rs @ new))\<rparr>) \<and>
     list_all good rs \<and> map (lg_sequence L) rs = [1..<Suc (length rs)]"
    using state
  proof (cases rule: vouched_state)
    case empty
    then show ?thesis using w v whole body
      by (auto simp: write_lines_def ledger_text_def Let_def split: if_splits option.splits evidence_call.splits)
  next
    case (written tail)
    have "fst (take_bytes (utf8_len (ledger_text V L plane rs)) (ledger_text V L plane (rs @ tail))) = ledger_text V L plane rs"
      by (subst text_prefix) (simp add: take_bytes_utf8_len)
    then show ?thesis using written w v whole body
      by (auto simp: write_lines_def Let_def simp del: upt_Suc split: if_splits option.splits evidence_call.splits)
  qed
  then show "res = Inl StoreUnavailable \<and> F1 = F \<or> res = Inr () \<and> F1 = F\<lparr>ef_ledger := Content (ledger_text V L plane (rs @ new))\<rparr>"
    and "list_all good (rs @ new) \<and> map (lg_sequence L) (rs @ new) = [1..<Suc (length (rs @ new))]"
    using new(1,2) upt_add_eq_append [of 1 "Suc (length rs)" "length new"] by (auto simp del: upt_Suc)
  show "fault = None \<Longrightarrow> res = Inr ()" using w by (auto simp: write_lines_def Let_def split: if_splits)
qed

lemma head_written:
  assumes "write_head V L fault plane h F = (res, F')"
  shows "(\<exists>x. F' = F\<lparr>ef_pending := x\<rparr> \<and> res = Inl StoreUnavailable) \<or>
    F' = F\<lparr>ef_head := Content (head_text V L plane h), ef_pending := NoFile\<rparr>"
    and "res = Inr () \<Longrightarrow> F' = F\<lparr>ef_head := Content (head_text V L plane h), ef_pending := NoFile\<rparr>"
    and "fault = None \<Longrightarrow> res = Inr ()"
  using assms by (auto simp: write_head_def Let_def split: option.splits evidence_call.splits intro: exI [of _ "ef_pending F"])

lemma append_steps:
  assumes state: "ledger_state V L plane good rs F" and ps: "list_all ok ps" "length rs + length ps < 2 ^ 64" "ps \<noteq> []"
    and applied: "applied \<le> length rs"
    and a: "evidence_append V L fault plane applied mk ps F = (res, F')"
    and whole: "\<And>n. fault \<noteq> Some (WriteLedger n)"
  obtains wres F1 hres F2 where
    "wres = Inl StoreUnavailable \<and> F1 = F \<or>
     wres = Inr () \<and> F1 = F\<lparr>ef_ledger := Content (ledger_text V L plane (rs @ numbered mk (length rs) ps))\<rparr>"
    "list_all good (rs @ numbered mk (length rs) ps) \<and>
     map (lg_sequence L) (rs @ numbered mk (length rs) ps) = [1..<Suc (length (rs @ numbered mk (length rs) ps))]"
    "fault = None \<or> (\<exists>c. fault = Some c \<and> before_head c) \<longrightarrow> wres = Inr ()"
    "write_head V L fault plane
       (ledger_head V L plane (ledger_chain V L (link_genesis V L plane) (rs @ numbered mk (length rs) ps))) F1 = (hres, F2)"
    "(res, F') = (case wres of Inl e \<Rightarrow> (Inl e, F1) | Inr _ \<Rightarrow>
      (case hres of Inl e \<Rightarrow> (Inl e, F2) | Inr _ \<Rightarrow> (Inr (length (rs @ numbered mk (length rs) ps)), F2)))"
proof -
  let ?g = "link_genesis V L plane"
  let ?new = "numbered mk (length rs) ps"
  let ?c = "ledger_chain V L ?g rs"
  let ?h = "ledger_head V L plane (ledger_chain V L ?g (rs @ ?new))"
  obtain stop where v: "vouched V L plane F = Inr (?c, stop)" using state by (cases rule: vouched_state) auto
  have n: "eh_sequence (ledger_head V L plane ?c) = length rs"
    using state
  proof (cases rule: vouched_state)
    case empty
    then show ?thesis by (simp add: ledger_head_def)
  next
    case (written tail)
    then show ?thesis using state_head(2) [of rs "[]"] by (cases "rs = []") (simp_all add: ledger_head_def del: upt_Suc)
  qed
  from append_lines_written [OF n, of ps] obtain body
    where al: "append_lines V L mk ps (ledger_head V L plane ?c) = (?h, body)"
      and body: "ledger_text V L plane (rs @ ?new) = ledger_text V L plane rs @ body" by blast
  have nn: "?new \<noteq> []" using ps(3) by (metis length_0_conv numbered_length)
  obtain wres F1 where w: "write_lines V L fault plane stop body F = (wres, F1)" by fastforce
  have sq: "map (lg_sequence L) ?new = [Suc (length rs)..<Suc (length rs) + length ?new]"
    using numbered_sequence [of "length rs" ps] by simp
  note st = append_written [OF state numbered_good [OF ps(1,2)] sq nn v body w whole]
  have written: "fault = None \<or> (\<exists>c. fault = Some c \<and> before_head c) \<longrightarrow> wres = Inr ()"
    using w by (auto simp: write_lines_def Let_def split: if_splits elim: before_head.elims)
  obtain hres F2 where hw: "write_head V L fault plane ?h F1 = (hres, F2)" by fastforce
  have seq: "eh_sequence ?h = length (rs @ ?new)"
    using state_head(2) [of "rs @ ?new" "[]"] st(2) nn by (simp del: upt_Suc)
  have tr: "trusted_ledger V L plane applied F = Inr (?c, stop)" using v applied by (simp add: trusted_ledger_def)
  have "(res, F') = (case wres of Inl e \<Rightarrow> (Inl e, F1) | Inr _ \<Rightarrow>
      (case hres of Inl e \<Rightarrow> (Inl e, F2) | Inr _ \<Rightarrow> (Inr (length (rs @ ?new)), F2)))"
    using a unfolding evidence_append_def tr by (simp add: al w hw seq split: sum.splits prod.splits)
  then show thesis using that [OF st(1,2) written hw] by simp
qed

lemma append_good:
  assumes state: "ledger_state V L plane good rs F" and ps: "list_all ok ps" "length rs + length ps < 2 ^ 64" "ps \<noteq> []"
    and applied: "applied \<le> length rs"
    and a: "evidence_append V L fault plane applied mk ps F = (res, F')"
    and whole: "\<And>n. fault \<noteq> Some (WriteLedger n)"
    and single: "length ps = 1 \<or> \<not> (\<exists>c. fault = Some c \<and> before_head c)"
  shows "\<exists>rs'. ledger_state V L plane good rs' F' \<and> (rs' = rs \<or> rs' = rs @ numbered mk (length rs) ps) \<and>
    (\<forall>n. res = Inr n \<longrightarrow> n = length rs' \<and> rs' = rs @ numbered mk (length rs) ps) \<and> (fault = None \<longrightarrow> (\<exists>n. res = Inr n))"
proof -
  let ?new = "numbered mk (length rs) ps"
  let ?h = "ledger_head V L plane (ledger_chain V L (link_genesis V L plane) (rs @ ?new))"
  obtain wres F1 hres F2 where st: "wres = Inl StoreUnavailable \<and> F1 = F \<or>
      wres = Inr () \<and> F1 = F\<lparr>ef_ledger := Content (ledger_text V L plane (rs @ ?new))\<rparr>"
    and new: "list_all good (rs @ ?new) \<and> map (lg_sequence L) (rs @ ?new) = [1..<Suc (length (rs @ ?new))]"
    and written: "fault = None \<or> (\<exists>c. fault = Some c \<and> before_head c) \<longrightarrow> wres = Inr ()"
    and hw: "write_head V L fault plane ?h F1 = (hres, F2)"
    and res: "(res, F') = (case wres of Inl e \<Rightarrow> (Inl e, F1) | Inr _ \<Rightarrow>
      (case hres of Inl e \<Rightarrow> (Inl e, F2) | Inr _ \<Rightarrow> (Inr (length (rs @ ?new)), F2)))"
    by (rule append_steps [OF state ps applied a whole])
  have nn: "?new \<noteq> []" using ps(3) by (metis length_0_conv numbered_length)
  note hd = head_written [OF hw]
  have finished: "ledger_state V L plane good (rs @ ?new) (F1\<lparr>ef_head := Content (head_text V L plane ?h), ef_pending := NoFile\<rparr>)"
    if "wres = Inr ()" using st new that nn by (auto simp: ledger_state_def simp del: upt_Suc intro: exI [of _ "[]"])
  have kept: "ledger_state V L plane good rs F1" if "length ps = 1"
    using st new that state by (auto simp: ledger_state_def simp del: upt_Suc intro: exI [of _ ?new])
  show ?thesis
  proof (cases wres)
    case (Inl e)
    then show ?thesis using res st written state by (intro exI [of _ rs]) auto
  next
    case (Inr u)
    show ?thesis
    proof (cases "F2 = F1\<lparr>ef_head := Content (head_text V L plane ?h), ef_pending := NoFile\<rparr>")
      case True
      then show ?thesis using Inr res finished hd(3) by (intro exI [of _ "rs @ ?new"]) (cases hres; auto)
    next
      case False
      then obtain x where x: "F2 = F1\<lparr>ef_pending := x\<rparr>" "hres = Inl StoreUnavailable" using hd(1) by auto
      have "\<exists>c. fault = Some c \<and> before_head c"
        using hw False by (auto simp: write_head_def Let_def split: option.splits evidence_call.splits)
      then show ?thesis using x Inr res kept single by (intro exI [of _ rs]) auto
    qed
  qed
qed

text \<open>
  Several records whose head did not follow: the reader allows for one line past the head, so the ledger reads as corrupt.
\<close>

lemma several_unvouched:
  assumes state: "ledger_state V L plane good rs F" and ps: "list_all ok ps" "length rs + length ps < 2 ^ 64" "2 \<le> length ps"
    and applied: "applied \<le> length rs" and c: "before_head c"
  shows "\<exists>F'. evidence_append V L (Some c) plane applied mk ps F = (Inl StoreUnavailable, F') \<and>
    evidence_read V L plane applied F' = Inr Corrupt_Ledger"
proof -
  let ?g = "link_genesis V L plane" and ?new = "numbered mk (length rs) ps"
  obtain res F' where a: "evidence_append V L (Some c) plane applied mk ps F = (res, F')" by fastforce
  have ne: "ps \<noteq> []" and whole: "Some c \<noteq> Some (WriteLedger n)" for n using ps(3) c by auto
  obtain wres F1 hres F2 where st: "wres = Inl StoreUnavailable \<and> F1 = F \<or>
      wres = Inr () \<and> F1 = F\<lparr>ef_ledger := Content (ledger_text V L plane (rs @ ?new))\<rparr>"
    and new: "list_all good (rs @ ?new) \<and> map (lg_sequence L) (rs @ ?new) = [1..<Suc (length (rs @ ?new))]"
    and written: "Some c = None \<or> (\<exists>d. Some c = Some d \<and> before_head d) \<longrightarrow> wres = Inr ()"
    and hw: "write_head V L (Some c) plane (ledger_head V L plane (ledger_chain V L ?g (rs @ ?new))) F1 = (hres, F2)"
    and res: "(res, F') = (case wres of Inl e \<Rightarrow> (Inl e, F1) | Inr _ \<Rightarrow>
      (case hres of Inl e \<Rightarrow> (Inl e, F2) | Inr _ \<Rightarrow> (Inr (length (rs @ ?new)), F2)))"
    by (rule append_steps [OF state ps(1,2) ne applied a whole])
  have "wres = Inr ()" using written c by blast
  moreover have "hres = Inl StoreUnavailable \<and> ef_ledger F2 = ef_ledger F1 \<and> ef_head F2 = ef_head F1"
    using hw c by (cases c) (auto simp: write_head_def Let_def)
  ultimately have F': "res = Inl StoreUnavailable" "ef_ledger F' = Content (ledger_text V L plane (rs @ ?new))" "ef_head F' = ef_head F"
    using res st by auto
  have head: "ef_head F = (if rs = [] then NoFile else Content (head_text V L plane (ledger_head V L plane (ledger_chain V L ?g rs))))"
    using state by (simp add: ledger_state_def)
  from read_written [of "rs @ ?new"] new F'(2) obtain ends where lf: "read_ledger_file V L plane (ef_ledger F') =
      Inr (Some \<lparr>lf_records = ledger_chain V L ?g (rs @ ?new), lf_ends = ends, lf_header_end = utf8_len (ledger_header V L plane)\<rparr>)" by auto
  have "vouched V L plane F' = Inl StoreIntegrity"
  proof (cases "rs = []")
    case True
    then show ?thesis using lf F'(3) head ps(3) by (simp add: vouched_def read_head_def)
  next
    case False
    have "list_all good rs" using new by simp
    note h = state_head [OF False this conjunct2 [OF new]]
    then show ?thesis using lf F'(3) head False ps(3) by (simp add: vouched_def Let_def)
  qed
  then have "evidence_read V L plane applied F' = Inr Corrupt_Ledger" by (simp add: evidence_read_def trusted_ledger_def)
  then show ?thesis using a F'(1) by blast
qed

lemma read_good:
  assumes "ledger_state V L plane good rs F" "applied \<le> length rs"
  shows "evidence_read V L plane applied F = Inr (Vouches rs)"
  using assms(1)
proof (cases rule: vouched_state)
  case empty
  then show ?thesis using assms(2) by (simp add: evidence_read_def trusted_ledger_def)
next
  case (written tail)
  then show ?thesis using assms(2) by (simp add: evidence_read_def trusted_ledger_def)
qed

lemma refused_yet_vouched:
  assumes state: "ledger_state V L plane good rs F" and ps: "list_all ok ps" "length rs + length ps < 2 ^ 64" "ps \<noteq> []"
    and applied: "applied \<le> length rs"
  shows "\<exists>F'. evidence_append V L (Some SyncDirectory) plane applied mk ps F = (Inl StoreUnavailable, F') \<and>
    evidence_read V L plane applied F' = Inr (Vouches (rs @ numbered mk (length rs) ps))"
proof -
  obtain res F' where a: "evidence_append V L None plane applied mk ps F = (res, F')" by fastforce
  obtain n where g: "ledger_state V L plane good (rs @ numbered mk (length rs) ps) F'" "res = Inr n"
    using append_good [OF state ps applied a] by auto
  have w: "write_lines V L (Some SyncDirectory) plane stop b F = write_lines V L None plane stop b F" for stop b
    by (simp add: write_lines_def Let_def)
  have h: "write_head V L None plane h F1 = (Inr u, F2) \<Longrightarrow> write_head V L (Some SyncDirectory) plane h F1 = (Inl StoreUnavailable, F2)" for h F1 F2 u
    by (auto simp: write_head_def Let_def)
  have "evidence_append V L (Some SyncDirectory) plane applied mk ps F = (Inl StoreUnavailable, F')"
    using a g(2) by (auto simp: evidence_append_def w Let_def dest!: h split: sum.splits prod.splits)
  moreover have "evidence_read V L plane applied F' = Inr (Vouches (rs @ numbered mk (length rs) ps))"
    by (rule read_good [OF g(1)]) (use applied in simp)
  ultimately show ?thesis by blast
qed

lemma history_state:
  assumes "ledger_history V L plane mk ok F applied acknowledged"
  shows "\<exists>rs. ledger_state V L plane good rs F \<and> applied \<le> length rs \<and> subseq acknowledged rs"
  using assms
proof induction
  case start
  then show ?case by (intro exI [of _ "[]"]) (simp add: ledger_state_def no_files_def)
next
  case (attempt F applied acknowledged ps fault res F' applied')
  then obtain rs where rs: "ledger_state V L plane good rs F" "applied \<le> length rs" "subseq acknowledged rs" by auto
  have "length rs + length ps < 2 ^ 64" using attempt read_good [OF rs(1,2)] by auto
  from append_good [OF rs(1) attempt(2) this attempt(3) rs(2) attempt(7,5,6)] obtain rs'
    where r: "ledger_state V L plane good rs' F'" "rs' = rs \<or> rs' = rs @ numbered mk (length rs) ps"
      "\<And>n. res = Inr n \<Longrightarrow> n = length rs' \<and> rs' = rs @ numbered mk (length rs) ps" by (elim exE conjE) blast
  have "subseq (acknowledged @ (case res of Inl _ \<Rightarrow> [] | Inr n \<Rightarrow> numbered mk (n - length ps) ps)) rs'"
  proof (cases res)
    case (Inl e)
    then show ?thesis using r(2) rs(3) by (auto intro: subseq_order.trans)
  next
    case (Inr n)
    then show ?thesis using r(3) [OF Inr] rs(3) by (auto intro: list_emb_append_mono)
  qed
  moreover have "applied' \<le> length rs'" using attempt(8) r(2,3) rs(2) by (auto split: sum.splits)
  ultimately show ?case using r(1) by blast
next
  case (reopened F applied acknowledged rs)
  then obtain rs' where rs: "ledger_state V L plane good rs' F" "applied \<le> length rs'" "subseq acknowledged rs'" by auto
  then show ?case using read_good [OF rs(1,2)] reopened(2) by (intro exI [of _ rs']) auto
qed

lemma history_vouched:
  assumes "ledger_history V L plane mk ok F applied acknowledged"
  shows "\<exists>rs. evidence_read V L plane applied F = Inr (Vouches rs) \<and> map (lg_sequence L) rs = [1..<Suc (length rs)] \<and>
    applied \<le> length rs \<and> subseq acknowledged rs"
proof -
  obtain rs where rs: "ledger_state V L plane good rs F" "applied \<le> length rs" "subseq acknowledged rs"
    using history_state [OF assms] by blast
  from rs(1) have "map (lg_sequence L) rs = [1..<Suc (length rs)]" by (cases rule: vouched_state) (simp_all del: upt_Suc)
  then show ?thesis using read_good [OF rs(1,2)] rs(2,3) by blast
qed

end

section \<open>A head vouches for one sequence of records\<close>

text \<open>What each link of a chain hashes; two chains clash when two of these inputs differ and hash alike.\<close>

fun link_inputs :: "evidence_lib \<Rightarrow> 'r ledger \<Rightarrow> bytes \<Rightarrow> 'r list \<Rightarrow> bytes list" where
  "link_inputs V L link [] = []"
| "link_inputs V L link (r # rs) =
     (lg_record_domain L @ link @ be_bytes 8 (lg_sequence L r) @ lg_fold L r) # link_inputs V L (link_after V L link r) rs"

definition chains_clash :: "evidence_lib \<Rightarrow> 'r ledger \<Rightarrow> bytes \<Rightarrow> 'r list \<Rightarrow> 'r list \<Rightarrow> bool" where
  "chains_clash V L link rs rs' \<longleftrightarrow>
     (\<exists>x\<in>set (link_inputs V L link rs). \<exists>y\<in>set (link_inputs V L link rs'). x \<noteq> y \<and> ev_sha V x = ev_sha V y)"

locale chained_evidence = evidence +
  assumes parse_sequence: "lg_parse L n fs = Some r \<Longrightarrow> lg_sequence L r = n"
    and fold_inj: "lg_parse L n fs = Some r \<Longrightarrow> lg_parse L n fs' = Some r' \<Longrightarrow> lg_fold L r = lg_fold L r' \<Longrightarrow> r = r'"
begin

definition readable :: "'a \<Rightarrow> bool" where
  "readable r \<longleftrightarrow> (\<exists>fs. lg_parse L (lg_sequence L r) fs = Some r \<and> lg_sequence L r < 2 ^ 64)"

lemma parsed_readable: "parse_record L line = Some (r, link) \<Longrightarrow> readable r"
  using parse_sequence parse_natural_bound
  by (fastforce simp: parse_record_def readable_def split: list.splits option.splits)

lemma fold_lines_chain:
  "fold_lines V L link n offset ls = Inr (rs, ends) \<Longrightarrow>
     rs = ledger_chain V L link (map fst rs) \<and> list_all readable (map fst rs)"
proof (induction ls arbitrary: link n offset rs ends)
  case (Cons l ls)
  from Cons.prems obtain r rs' ends' where
    "parse_record L (trim_newline l) = Some (r, link_after V L link r)" "rs = (r, link_after V L link r) # rs'"
    "fold_lines V L (link_after V L link r) (n + 1) (offset + utf8_len l) ls = Inr (rs', ends')"
    by (auto simp: Let_def rbind_def split: option.splits if_splits sum.splits)
  then show ?case using Cons.IH parsed_readable by (fastforce simp: Let_def)
qed simp

lemma link_after_inj:
  assumes "readable r" "readable r'" "length x = 32" "length y = 32" "link_after V L x r = link_after V L y r'"
    and "lg_record_domain L @ x @ be_bytes 8 (lg_sequence L r) @ lg_fold L r = lg_record_domain L @ y @ be_bytes 8 (lg_sequence L r') @ lg_fold L r'"
  shows "r = r' \<and> x = y"
proof -
  have "x = y" "be_bytes 8 (lg_sequence L r) = be_bytes 8 (lg_sequence L r')" "lg_fold L r = lg_fold L r'"
    using assms(3,4,6) by simp_all
  moreover have "lg_sequence L r = lg_sequence L r'"
    by (rule be_bytes_inj [OF calculation(2)]) (use assms(1,2) in \<open>simp_all add: readable_def\<close>)
  ultimately show ?thesis using assms(1,2) fold_inj by (metis readable_def)
qed

lemma inputs_snoc:
  "link_inputs V L link (rs @ [r]) = link_inputs V L link rs @
     [lg_record_domain L @ (if rs = [] then link else snd (last (ledger_chain V L link rs))) @ be_bytes 8 (lg_sequence L r) @ lg_fold L r]"
proof (induction rs arbitrary: link)
  case (Cons x rs)
  then show ?case by (cases rs) (simp_all add: Let_def)
qed simp

lemma chain_inj:
  assumes "length rs = length rs'" "list_all readable rs" "list_all readable rs'" "length link = 32" "\<not> chains_clash V L link rs rs'"
    and "rs \<noteq> []" "snd (last (ledger_chain V L link rs)) = snd (last (ledger_chain V L link rs'))"
  shows "rs = rs'"
  using assms
proof (induction rs arbitrary: rs' rule: rev_induct)
  case (snoc r rs)
  from snoc.prems(1) obtain qs q where q: "rs' = qs @ [q]" "length qs = length rs" by (cases rs' rule: rev_cases) auto
  let ?last = "\<lambda>zs. if zs = [] then link else snd (last (ledger_chain V L link zs))"
  let ?in = "\<lambda>zs z. lg_record_domain L @ ?last zs @ be_bytes 8 (lg_sequence L z) @ lg_fold L z"
  have len: "length (?last zs) = 32" for zs using snoc.prems(4) chain_last_link by simp
  have eq: "link_after V L (?last rs) r = link_after V L (?last qs) q"
    using snoc.prems(7) unfolding q(1) chain_snoc by simp
  have "?in rs r \<in> set (link_inputs V L link (rs @ [r]))" "?in qs q \<in> set (link_inputs V L link rs')"
    unfolding q(1) inputs_snoc by simp_all
  then have same: "?in rs r = ?in qs q"
    using snoc.prems(5) eq unfolding chains_clash_def link_after_def by blast
  have "r = q \<and> ?last rs = ?last qs"
    by (rule link_after_inj [OF _ _ len len eq same]) (use snoc.prems q in simp_all)
  moreover have "\<not> chains_clash V L link rs qs" using snoc.prems(5) by (simp add: q(1) chains_clash_def inputs_snoc)
  then have "rs = qs" if "rs \<noteq> []"
    by (intro snoc.IH) (use that snoc.prems q calculation in \<open>auto split: if_splits\<close>)
  ultimately show ?case using q by (cases "rs = []") simp_all
qed simp

lemma vouched_chain:
  assumes "vouched V L plane F = Inr (c, stop)" "plane \<noteq> 0" "c \<noteq> []"
  shows "\<exists>h. read_head V L plane (ef_head F) = Inr (Some h) \<and> eh_link h = snd (last c) \<and> eh_sequence h = length c \<and>
    c = ledger_chain V L (link_genesis V L plane) (map fst c) \<and> list_all readable (map fst c)"
proof -
  from assms(1,3) obtain h f where h: "read_head V L plane (ef_head F) = Inr (Some h)"
    and f: "read_ledger_file V L plane (ef_ledger F) = Inr (Some f)"
    and c: "c = take (eh_sequence h) (lf_records f)" "eh_sequence h \<le> length (lf_records f)"
      "snd (lf_records f ! (eh_sequence h - 1)) = eh_link h"
    by (auto simp: vouched_def rbind_def Let_def split: sum.splits option.splits if_splits)
  from f obtain n offset ls ends where "fold_lines V L (link_genesis V L plane) n offset ls = Inr (lf_records f, ends)"
    using assms(2) by (auto simp: read_ledger_file_def check_plane_def rbind_def Let_def split: evidence_file.splits sum.splits option.splits if_splits)
  note g = fold_lines_chain [OF this]
  have "c = ledger_chain V L (link_genesis V L plane) (map fst c)"
    using g c(1) by (metis chain_take take_map)
  moreover have "list_all readable (map fst c)" using g c(1) by (auto simp: list_all_iff dest: in_set_takeD)
  moreover have "eh_link h = snd (last c)" "eh_sequence h = length c"
    using c assms(3) by (auto simp: last_conv_nth min_def)
  ultimately show ?thesis using h by blast
qed

lemma vouched_empty:
  assumes "vouched V L plane F = Inr (c, stop)" shows "c = [] \<longleftrightarrow> read_head V L plane (ef_head F) = Inr None"
proof -
  have "read_head V L plane f = Inr (Some h) \<Longrightarrow> 0 < eh_sequence h" for f h
    by (auto simp: read_head_def rbind_def Let_def split: evidence_file.splits sum.splits option.splits if_splits)
  then show ?thesis using assms
    by (fastforce simp: vouched_def rbind_def Let_def split: sum.splits option.splits if_splits)
qed

lemma head_vouches_once:
  assumes "evidence_read V L plane a F = Inr (Vouches rs)" "evidence_read V L plane b G = Inr (Vouches rs')"
    and "plane \<noteq> 0" "ef_head F = ef_head G" "\<not> chains_clash V L (link_genesis V L plane) rs rs'"
  shows "rs = rs'"
proof -
  obtain c stop c' stop' where v: "vouched V L plane F = Inr (c, stop)" "rs = map fst c" "vouched V L plane G = Inr (c', stop')" "rs' = map fst c'"
    using assms(1,2) by (auto simp: evidence_read_def trusted_ledger_def rbind_def split: sum.splits store_error.splits if_splits)
  show ?thesis
  proof (cases "c = []")
    case True
    then show ?thesis using vouched_empty [OF v(1)] vouched_empty [OF v(3)] assms(4) v by simp
  next
    case False
    then have "c' \<noteq> []" using vouched_empty [OF v(1)] vouched_empty [OF v(3)] assms(4) by simp
    note c = vouched_chain [OF v(1) assms(3) False] vouched_chain [OF v(3) assms(3) this]
    have len: "length c = length c'" "snd (last c) = snd (last c')" using c assms(4) by auto
    have "snd (last (ledger_chain V L (link_genesis V L plane) (map fst c))) = snd (last (ledger_chain V L (link_genesis V L plane) (map fst c')))"
      using c len(2) by metis
    then show ?thesis using c len(1) assms(5) False unfolding v by (intro chain_inj [of _ _ "link_genesis V L plane"]) auto
  qed
qed

end

end
