(* ===== verification/Jet_Fences.thy ===== *)
theory Jet_Fences
  imports Jet_Ledger Jet_Bundle
begin

text \<open>
  The two evidence ledgers of a Plane: the Deletion ledger (\<open>jet-store/src/deletion/ledger.rs\<close>) and the Authority fences
  (\<open>jet-store/src/authority/fence.rs\<close>). A record is its sequence with the pending deletion or fence it was made from. SHA-256 and the
  text of a UUID are the parameter \<open>evidence_lib\<close>, under the laws of the locale \<open>evidence_library\<close>.
\<close>

section \<open>The Deletion ledger\<close>

datatype deleted_identity_kind = DeletedAccountBinding | DeletedPairedClient | DeletedSchedule | DeletedConversation | DeletedProject

fun deleted_kind_str :: "deleted_identity_kind \<Rightarrow> ustring" where
  "deleted_kind_str DeletedAccountBinding = ucs ''account_binding''"
| "deleted_kind_str DeletedPairedClient = ucs ''paired_client''"
| "deleted_kind_str DeletedSchedule = ucs ''schedule''"
| "deleted_kind_str DeletedConversation = ucs ''conversation''"
| "deleted_kind_str DeletedProject = ucs ''project''"

definition deleted_kind_parse :: "ustring \<Rightarrow> deleted_identity_kind option" where
  "deleted_kind_parse t =
     (if t = ucs ''account_binding'' then Some DeletedAccountBinding
      else if t = ucs ''paired_client'' then Some DeletedPairedClient
      else if t = ucs ''schedule'' then Some DeletedSchedule
      else if t = ucs ''conversation'' then Some DeletedConversation
      else if t = ucs ''project'' then Some DeletedProject
      else None)"

record pending_deletion =
  del_kind :: deleted_identity_kind
  del_identity :: uuid
  del_at :: int

type_synonym deletion_record = "nat \<times> pending_deletion"

definition deletion_fold :: "deletion_record \<Rightarrow> bytes" where
  "deletion_fold r =
     i64_be (del_at (snd r)) @ field_bytes (utf8_bytes (deleted_kind_str (del_kind (snd r)))) @ uuid_bytes (del_identity (snd r))"

definition deletion_spell :: "evidence_lib \<Rightarrow> deletion_record \<Rightarrow> ustring" where
  "deletion_spell V r =
     show_int (del_at (snd r)) @ [32] @ deleted_kind_str (del_kind (snd r)) @ [32] @ ev_uuid_text V (del_identity (snd r))"

definition deletion_parse :: "evidence_lib \<Rightarrow> nat \<Rightarrow> ustring list \<Rightarrow> deletion_record option" where
  "deletion_parse V n fs =
     (case fs of
        [d, k, i] \<Rightarrow>
          (case (parse_integer d, deleted_kind_parse k, ev_uuid_parse V i) of
             (Some t, Some kind, Some u) \<Rightarrow> Some (n, \<lparr>del_kind = kind, del_identity = u, del_at = t\<rparr>)
           | _ \<Rightarrow> None)
      | _ \<Rightarrow> None)"

definition deletions_ledger :: "evidence_lib \<Rightarrow> deletion_record ledger" where
  "deletions_ledger V =
     \<lparr>lg_ledger_format = ucs ''jet-deletion-ledger 1'', lg_head_format = ucs ''jet-deletion-ledger-head 1'',
      lg_genesis_domain = text_bytes ''jet-deletion-ledger-genesis-v1'',
      lg_record_domain = text_bytes ''jet-deletion-ledger-record-v1'',
      lg_sequence = fst, lg_fold = deletion_fold, lg_spell = deletion_spell V, lg_parse = deletion_parse V\<rparr>"

definition deletion_append ::
    "evidence_lib \<Rightarrow> evidence_call option \<Rightarrow> uuid \<Rightarrow> nat \<Rightarrow> pending_deletion list \<Rightarrow> evidence_files \<Rightarrow> (store_error + nat) \<times> evidence_files" where
  "deletion_append V fault plane applied deletions F = evidence_append V (deletions_ledger V) fault plane applied Pair deletions F"

definition deletion_read :: "evidence_lib \<Rightarrow> uuid \<Rightarrow> nat \<Rightarrow> evidence_files \<Rightarrow> store_error + deletion_record reading" where
  "deletion_read V plane applied F = evidence_read V (deletions_ledger V) plane applied F"

definition deletion_ok :: "pending_deletion \<Rightarrow> bool" where
  "deletion_ok d \<longleftrightarrow> - (2 ^ 63) \<le> del_at d \<and> del_at d < 2 ^ 63 \<and> del_identity d < 2 ^ 128"

section \<open>The Authority fences\<close>

type_synonym authority_fence_record = "nat \<times> fence_record"

definition fence_fold :: "authority_fence_record \<Rightarrow> bytes" where
  "fence_fold r =
     i64_be (fr_fenced_at (snd r)) @ uuid_bytes (fr_conversation (snd r)) @ be_bytes 8 (unat (fr_retired_epoch (snd r))) @
     uuid_bytes (fr_transfer (snd r)) @ uuid_bytes (fr_target (snd r))"

definition fence_spell :: "evidence_lib \<Rightarrow> authority_fence_record \<Rightarrow> ustring" where
  "fence_spell V r =
     show_int (fr_fenced_at (snd r)) @ [32] @ ev_uuid_text V (fr_conversation (snd r)) @ [32] @
     show_nat (unat (fr_retired_epoch (snd r))) @ [32] @ ev_uuid_text V (fr_transfer (snd r)) @ [32] @ ev_uuid_text V (fr_target (snd r))"

definition fence_parse :: "evidence_lib \<Rightarrow> nat \<Rightarrow> ustring list \<Rightarrow> authority_fence_record option" where
  "fence_parse V n fs =
     (case fs of
        [d, i, j, k, l] \<Rightarrow>
          (case (parse_integer d, ev_uuid_parse V i, parse_natural j, ev_uuid_parse V k, ev_uuid_parse V l) of
             (Some t, Some c, Some e, Some x, Some p) \<Rightarrow>
               Some (n, \<lparr>fr_fenced_at = t, fr_conversation = c, fr_retired_epoch = of_nat e, fr_transfer = x, fr_target = p\<rparr>)
           | _ \<Rightarrow> None)
      | _ \<Rightarrow> None)"

definition fences_ledger :: "evidence_lib \<Rightarrow> authority_fence_record ledger" where
  "fences_ledger V =
     \<lparr>lg_ledger_format = ucs ''jet-authority-fences 1'', lg_head_format = ucs ''jet-authority-fences-head 1'',
      lg_genesis_domain = text_bytes ''jet-authority-fence-genesis-v1'',
      lg_record_domain = text_bytes ''jet-authority-fence-record-v1'',
      lg_sequence = fst, lg_fold = fence_fold, lg_spell = fence_spell V, lg_parse = fence_parse V\<rparr>"

definition fence_append ::
    "evidence_lib \<Rightarrow> evidence_call option \<Rightarrow> uuid \<Rightarrow> nat \<Rightarrow> fence_record list \<Rightarrow> evidence_files \<Rightarrow> (store_error + nat) \<times> evidence_files" where
  "fence_append V fault plane applied fences F = evidence_append V (fences_ledger V) fault plane applied Pair fences F"

definition fence_read :: "evidence_lib \<Rightarrow> uuid \<Rightarrow> nat \<Rightarrow> evidence_files \<Rightarrow> store_error + authority_fence_record reading" where
  "fence_read V plane applied F = evidence_read V (fences_ledger V) plane applied F"

definition fence_ok :: "fence_record \<Rightarrow> bool" where
  "fence_ok f \<longleftrightarrow> - (2 ^ 63) \<le> fr_fenced_at f \<and> fr_fenced_at f < 2 ^ 63 \<and>
     fr_conversation f < 2 ^ 128 \<and> fr_transfer f < 2 ^ 128 \<and> fr_target f < 2 ^ 128"

section \<open>Both keep the ledger's laws\<close>

text \<open>SHA-256 gives 32 bytes; the text of a UUID is hexadecimal digits and hyphens, and parses to a 128-bit value.\<close>

locale evidence_library =
  fixes V :: evidence_lib and plane :: uuid
  assumes sha_bytes: "length (ev_sha V b) = 32"
    and uuid_text_parse: "u < 2 ^ 128 \<Longrightarrow> ev_uuid_parse V (ev_uuid_text V u) = Some u"
    and uuid_text_chars: "c \<in> set (ev_uuid_text V u) \<Longrightarrow> 45 \<le> c"
    and uuid_parse_bound: "ev_uuid_parse V t = Some u \<Longrightarrow> u < 2 ^ 128"
    and plane_bound: "plane < 2 ^ 128"
begin

lemma no_separator: "10 \<notin> set (ev_uuid_text V u)" "13 \<notin> set (ev_uuid_text V u)" "32 \<notin> set (ev_uuid_text V u)"
  using uuid_text_chars by fastforce+

end

lemma show_int_plain: "10 \<notin> set (show_int i)" "32 \<notin> set (show_int i)"
  using show_int_chars [of _ i] by fastforce+

lemma show_nat_plain: "10 \<notin> set (show_nat n)" "32 \<notin> set (show_nat n)"
  using show_nat_chars [of _ n] by fastforce+

lemma deleted_kind_plain: "10 \<notin> set (deleted_kind_str k)" "32 \<notin> set (deleted_kind_str k)"
  by (cases k; simp add: ucs_def)+

lemma deleted_kind_roundtrip [simp]: "deleted_kind_parse (deleted_kind_str k) = Some k"
  by (cases k) (simp_all add: deleted_kind_parse_def ucs_def)

lemma split_field: "32 \<notin> set a \<Longrightarrow> split_on 32 (a @ 32 # b) = a # split_on 32 b"
  by (simp add: split_on_append split_no_sep)

lemma kind_length: "length (utf8_bytes (deleted_kind_str k)) =
    (case k of DeletedAccountBinding \<Rightarrow> 15 | DeletedPairedClient \<Rightarrow> 13 | DeletedSchedule \<Rightarrow> 8 | DeletedConversation \<Rightarrow> 12 | DeletedProject \<Rightarrow> 7)"
  by (cases k) (simp_all add: ucs_def utf8_bytes_def utf8_char_def)

lemma kind_field_inj:
  assumes "field_bytes (utf8_bytes (deleted_kind_str k)) @ x = field_bytes (utf8_bytes (deleted_kind_str k')) @ y"
  shows "k = k' \<and> x = y"
proof -
  have short: "length (utf8_bytes (deleted_kind_str k)) < 2 ^ 64" for k unfolding kind_length by (cases k) simp_all
  note e = field_bytes_inj [OF short short assms]
  then have "length (utf8_bytes (deleted_kind_str k)) = length (utf8_bytes (deleted_kind_str k'))" by simp
  then have "k = k'" unfolding kind_length by (cases k; cases k') simp_all
  then show ?thesis using e by simp
qed

lemma length_uuid_bytes [simp]: "length (uuid_bytes u) = 16"
  by (simp add: uuid_bytes_def)

lemma parse_digits_bound: "parse_digits limit s = Some n \<Longrightarrow> n \<le> limit"
  by (auto simp: parse_digits_def split: if_splits)

lemma parse_integer_bound:
  assumes "parse_integer s = Some i" shows "- (2 ^ 63) \<le> i" "i < 2 ^ 63"
  using assms by (cases s; auto dest!: parse_digits_bound split: if_splits)+

context evidence_library
begin

lemma deletion_fold_inj:
  assumes "deletion_parse V n fs = Some r" "deletion_parse V n fs' = Some r'" "deletion_fold r = deletion_fold r'"
  shows "r = r'"
proof -
  from assms(1,2) have b: "fst r = n" "fst r' = n" "deletion_ok (snd r)" "deletion_ok (snd r')"
    by (auto simp: deletion_parse_def deletion_ok_def dest: uuid_parse_bound parse_integer_bound split: list.splits option.splits)
  have "i64_be (del_at (snd r)) = i64_be (del_at (snd r'))" and
    "field_bytes (utf8_bytes (deleted_kind_str (del_kind (snd r)))) @ uuid_bytes (del_identity (snd r)) =
     field_bytes (utf8_bytes (deleted_kind_str (del_kind (snd r')))) @ uuid_bytes (del_identity (snd r'))"
    using assms(3) by (simp_all add: deletion_fold_def)
  then have "del_at (snd r) = del_at (snd r')" "del_kind (snd r) = del_kind (snd r')" "del_identity (snd r) = del_identity (snd r')"
    using b kind_field_inj i64_be_inj uuid_bytes_inj unfolding deletion_ok_def by metis+
  then show ?thesis using b by (simp add: prod_eq_iff)
qed

lemma fence_fold_inj:
  assumes "fence_parse V n fs = Some r" "fence_parse V n fs' = Some r'" "fence_fold r = fence_fold r'"
  shows "r = r'"
proof -
  from assms(1,2) have b: "fst r = n" "fst r' = n" "fence_ok (snd r)" "fence_ok (snd r')"
    by (auto simp: fence_parse_def fence_ok_def dest: uuid_parse_bound parse_integer_bound split: list.splits option.splits)
  have "i64_be (fr_fenced_at (snd r)) = i64_be (fr_fenced_at (snd r'))"
    "uuid_bytes (fr_conversation (snd r)) = uuid_bytes (fr_conversation (snd r'))"
    "be_bytes 8 (unat (fr_retired_epoch (snd r))) = be_bytes 8 (unat (fr_retired_epoch (snd r')))"
    "uuid_bytes (fr_transfer (snd r)) = uuid_bytes (fr_transfer (snd r'))"
    "uuid_bytes (fr_target (snd r)) = uuid_bytes (fr_target (snd r'))"
    using assms(3) by (simp_all add: fence_fold_def)
  moreover have "unat (e :: u64) < 256 ^ 8" for e using unsigned_less [of e] by simp
  ultimately have "fr_fenced_at (snd r) = fr_fenced_at (snd r')" "fr_conversation (snd r) = fr_conversation (snd r')"
    "fr_retired_epoch (snd r) = fr_retired_epoch (snd r')" "fr_transfer (snd r) = fr_transfer (snd r')" "fr_target (snd r) = fr_target (snd r')"
    using b i64_be_inj uuid_bytes_inj be_bytes_inj word_unat_eq_iff unfolding fence_ok_def by metis+
  then show ?thesis using b by (simp add: prod_eq_iff)
qed

end

sublocale evidence_library < deletions: chained_evidence V "deletions_ledger V" plane Pair deletion_ok
proof
  show "length (ev_sha V b) = 32" for b by (rule sha_bytes)
  show "ev_uuid_parse V (ev_uuid_text V plane) = Some plane" by (rule uuid_text_parse [OF plane_bound])
  show "10 \<notin> set (ev_uuid_text V plane)" "13 \<notin> set (ev_uuid_text V plane)" by (rule no_separator)+
  show "10 \<notin> set (lg_ledger_format (deletions_ledger V))" "10 \<notin> set (lg_head_format (deletions_ledger V))"
    "13 \<notin> set (lg_head_format (deletions_ledger V))" by (simp_all add: deletions_ledger_def ucs_def)
  show "lg_sequence (deletions_ledger V) (n, p) = n" for n p by (simp add: deletions_ledger_def)
  show "10 \<notin> set (lg_spell (deletions_ledger V) (n, p))" for n p
    using no_separator show_int_plain deleted_kind_plain by (simp add: deletions_ledger_def deletion_spell_def)
  show "lg_parse (deletions_ledger V) n (split_on 32 (lg_spell (deletions_ledger V) (n, p))) = Some (n, p)" if "deletion_ok p" for n p
    using that no_separator(3) show_int_plain(2) deleted_kind_plain(2) uuid_text_parse
    by (simp add: deletions_ledger_def deletion_spell_def deletion_parse_def deletion_ok_def split_field split_no_sep)
  show "lg_parse (deletions_ledger V) n fs = Some r \<Longrightarrow> lg_sequence (deletions_ledger V) r = n" for n fs r
    by (auto simp: deletions_ledger_def deletion_parse_def split: list.splits option.splits)
  show "lg_parse (deletions_ledger V) n fs = Some r \<Longrightarrow> lg_parse (deletions_ledger V) n fs' = Some r' \<Longrightarrow>
      lg_fold (deletions_ledger V) r = lg_fold (deletions_ledger V) r' \<Longrightarrow> r = r'" for n fs r fs' r'
    using deletion_fold_inj by (simp add: deletions_ledger_def)
qed

sublocale evidence_library < fences: chained_evidence V "fences_ledger V" plane Pair fence_ok
proof
  show "10 \<notin> set (lg_ledger_format (fences_ledger V))" "10 \<notin> set (lg_head_format (fences_ledger V))"
    "13 \<notin> set (lg_head_format (fences_ledger V))" by (simp_all add: fences_ledger_def ucs_def)
  show "lg_sequence (fences_ledger V) (n, p) = n" for n p by (simp add: fences_ledger_def)
  show "10 \<notin> set (lg_spell (fences_ledger V) (n, p))" for n p
    using no_separator show_int_plain show_nat_plain by (simp add: fences_ledger_def fence_spell_def)
  show "lg_parse (fences_ledger V) n (split_on 32 (lg_spell (fences_ledger V) (n, p))) = Some (n, p)" if "fence_ok p" for n p
  proof -
    have "unat (fr_retired_epoch p) < 2 ^ 64" using unsigned_less [of "fr_retired_epoch p"] by simp
    then show ?thesis
      using that no_separator(3) show_int_plain(2) show_nat_plain(2) uuid_text_parse
      by (simp add: fences_ledger_def fence_spell_def fence_parse_def fence_ok_def split_field split_no_sep)
  qed
  show "lg_parse (fences_ledger V) n fs = Some r \<Longrightarrow> lg_sequence (fences_ledger V) r = n" for n fs r
    by (auto simp: fences_ledger_def fence_parse_def split: list.splits option.splits)
  show "lg_parse (fences_ledger V) n fs = Some r \<Longrightarrow> lg_parse (fences_ledger V) n fs' = Some r' \<Longrightarrow>
      lg_fold (fences_ledger V) r = lg_fold (fences_ledger V) r' \<Longrightarrow> r = r'" for n fs r fs' r'
    using fence_fold_inj by (simp add: fences_ledger_def)
qed (rule sha_bytes uuid_text_parse [OF plane_bound] no_separator)+

context evidence_library
begin

lemmas deletions_history = deletions.history_vouched
lemmas fences_history = fences.history_vouched
lemmas deletions_once = deletions.head_vouches_once
lemmas fences_once = fences.head_vouches_once
lemmas fence_refused_yet_vouched = fences.refused_yet_vouched
lemmas deletions_append = deletions.append_good
lemmas fences_read = fences.read_good
lemmas deletions_unvouched = deletions.several_unvouched

end

section \<open>A library\<close>

text \<open>A hash and a spelling of UUIDs that keep the library's laws: padding to 32 bytes, and decimal digits.\<close>

definition sample_library :: evidence_lib where
  "sample_library =
     \<lparr>ev_sha = (\<lambda>b. take 32 (b @ replicate 32 0)), ev_uuid_text = show_nat, ev_uuid_parse = parse_digits (2 ^ 128 - 1)\<rparr>"

interpretation sample: evidence_library sample_library 1
proof
  show "c \<in> set (ev_uuid_text sample_library u) \<Longrightarrow> 45 \<le> c" for c u
    using show_nat_chars [of c u] by (simp add: sample_library_def)
  show "u < 2 ^ 128 \<Longrightarrow> ev_uuid_parse sample_library (ev_uuid_text sample_library u) = Some u" for u
    using parse_digits_show [of u "2 ^ 128 - 1"] by (simp add: sample_library_def)
  show "ev_uuid_parse sample_library t = Some u \<Longrightarrow> u < 2 ^ 128" for t u
    using parse_digits_bound [of "2 ^ 128 - 1" t u] by (simp add: sample_library_def)
qed (simp_all add: sample_library_def)

definition sample_deletion :: pending_deletion where
  "sample_deletion = \<lparr>del_kind = DeletedSchedule, del_identity = 7, del_at = 5\<rparr>"

lemma sample_append: "\<exists>F. evidence_append sample_library (deletions_ledger sample_library) None 1 0 Pair [sample_deletion] no_files = (Inr 1, F)"
proof -
  obtain res F where a: "evidence_append sample_library (deletions_ledger sample_library) None 1 0 Pair [sample_deletion] no_files = (res, F)"
    by fastforce
  have s: "ledger_state sample_library (deletions_ledger sample_library) 1 sample.deletions.good [] no_files"
    by (simp add: ledger_state_def no_files_def)
  have "list_all deletion_ok [sample_deletion]" by (simp add: deletion_ok_def sample_deletion_def)
  from sample.deletions_append [OF s this _ _ _ a] have "res = Inr 1" by fastforce
  then show ?thesis using a by blast
qed

definition sample_fence :: "uuid \<Rightarrow> fence_record" where
  "sample_fence t = \<lparr>fr_fenced_at = 5, fr_conversation = 7, fr_retired_epoch = 1, fr_transfer = t, fr_target = 2\<rparr>"

text \<open>Fences of which the head names the first.\<close>

definition sample_fences :: "authority_fence_record list \<Rightarrow> evidence_files" where
  "sample_fences rs =
     (let L = fences_ledger sample_library in
      \<lparr>ef_ledger = Content (ledger_text sample_library L 1 rs),
       ef_head = Content (head_text sample_library L 1
         (ledger_head sample_library L 1 (ledger_chain sample_library L (link_genesis sample_library L 1) (take 1 rs)))),
       ef_pending = NoFile\<rparr>)"

lemma sample_fences_read:
  assumes "rs = [(1, sample_fence 3)] \<or> rs = [(1, sample_fence 3), (2, sample_fence 4)]"
  shows "fence_read sample_library 1 1 (sample_fences rs) = Inr (Vouches [(1, sample_fence 3)])"
proof -
  have good: "sample.fences.good (n, sample_fence t)" if "n < 2 ^ 64" "t < 2 ^ 128" for n t
    using that by (auto simp: sample.fences.good_def fence_ok_def sample_fence_def)
  have "ledger_state sample_library (fences_ledger sample_library) 1 sample.fences.good [(1, sample_fence 3)] (sample_fences rs)"
    using assms good [of 1 3] good [of 2 4]
    by (auto simp: ledger_state_def sample_fences_def Let_def intro!: exI [of _ "tl rs"] simp del: ledger_chain.simps)
      (simp_all add: fences_ledger_def)
  from sample.fences_read [OF this] show ?thesis by (simp add: fence_read_def)
qed

section \<open>Nothing acknowledged is lost\<close>

text \<open>
  C14: Over every history of the Deletion ledger in which no write to it is torn and no append of several deletions stops
  after the ledger was written and before its head was, whatever other system call of an append fails
  or is the last before a crash, and whether or not the store commits the sequence it was given, the ledger reads as
  verified: its records are numbered from one, it reaches what the store has applied, and every deletion whose append
  returned is in it, in order.
\<close>

theorem deletions_survive:
  assumes "evidence_library V plane" and "ledger_history V (deletions_ledger V) plane Pair deletion_ok F applied acknowledged"
  shows "\<exists>rs. deletion_read V plane applied F = Inr (Vouches rs) \<and> map fst rs = [1..<Suc (length rs)] \<and>
    applied \<le> length rs \<and> subseq acknowledged rs"
  using evidence_library.deletions_history [OF assms]
  by (simp add: deletion_read_def deletions_ledger_def)

theorem deletions_survive_witness:
  "\<exists>F rs. deletion_append sample_library None 1 0 [sample_deletion] no_files = (Inr 1, F) \<and>
     deletion_read sample_library 1 1 F = Inr (Vouches rs) \<and> subseq [(1, sample_deletion)] rs"
proof -
  let ?L = "deletions_ledger sample_library"
  obtain F where a: "evidence_append sample_library ?L None 1 0 Pair [sample_deletion] no_files = (Inr 1, F)"
    using sample_append by blast
  have "ledger_history sample_library ?L 1 Pair deletion_ok F 1
      ([] @ (case Inr 1 of Inl (_ :: store_error) \<Rightarrow> [] | Inr n \<Rightarrow> numbered Pair (n - length [sample_deletion]) [sample_deletion]))"
    by (rule ledger_history.attempt [OF ledger_history.start _ _ _ _ _ a])
      (auto simp: deletion_ok_def sample_deletion_def evidence_read_def trusted_ledger_def vouched_def no_files_def
        read_head_def read_ledger_file_def)
  from deletions_survive [OF sample.evidence_library_axioms this] show ?thesis
    using a by (auto simp: deletion_append_def)
qed

text \<open>
  C15: The head of the Authority fences names one sequence of fences: whatever else the ledger holds, two ledgers of a Plane
  with the same head that both read as verified vouch for the same fences, unless two of the inputs their links hash
  are a collision of SHA-256.
\<close>

theorem fence_head_vouches_once:
  assumes "evidence_library V plane" "plane \<noteq> 0" "ef_head F = ef_head G"
    and "fence_read V plane a F = Inr (Vouches rs)" "fence_read V plane b G = Inr (Vouches rs')"
    and "\<not> chains_clash V (fences_ledger V) (link_genesis V (fences_ledger V) plane) rs rs'"
  shows "rs = rs'"
  using evidence_library.fences_once [OF assms(1) _ _ assms(2,3,6)] assms(4,5) by (simp add: fence_read_def)

theorem fence_head_vouches_once_witness:
  "\<exists>F G rs rs'. F \<noteq> G \<and> rs \<noteq> [] \<and> fence_read sample_library 1 1 F = Inr (Vouches rs) \<and>
     fence_read sample_library 1 1 G = Inr (Vouches rs') \<and> rs = rs'"
proof -
  have c: "\<not> chains_clash sample_library (fences_ledger sample_library) (link_genesis sample_library (fences_ledger sample_library) 1)
      [(1, sample_fence 3)] [(1, sample_fence 3)]" by (simp add: chains_clash_def)
  have "ef_head (sample_fences [(1, sample_fence 3)]) = ef_head (sample_fences [(1, sample_fence 3), (2, sample_fence 4)])"
    by (simp add: sample_fences_def Let_def)
  note e = fence_head_vouches_once [OF sample.evidence_library_axioms _ this sample_fences_read sample_fences_read c]
  show ?thesis
  proof (intro exI conjI)
    show "sample_fences [(1, sample_fence 3)] \<noteq> sample_fences [(1, sample_fence 3), (2, sample_fence 4)]"
      by (simp add: sample_fences_def ledger_text_def Let_def line_text_def)
    show "[(1 :: nat, sample_fence 3)] \<noteq> []" by simp
    show "fence_read sample_library 1 1 (sample_fences [(1, sample_fence 3)]) = Inr (Vouches [(1, sample_fence 3)])"
      "fence_read sample_library 1 1 (sample_fences [(1, sample_fence 3), (2, sample_fence 4)]) = Inr (Vouches [(1, sample_fence 3)])"
      by (rule sample_fences_read, simp)+
    show "[(1 :: nat, sample_fence 3)] = [(1, sample_fence 3)]" by (rule e) simp_all
  qed
qed

section \<open>Writes that fail\<close>

text \<open>
  A first append that created the ledger and could write nothing to it leaves an empty file. It reads as corrupt, and
  every later append is refused.
\<close>

lemma torn_first_write:
  "\<exists>F. deletion_append V (Some (WriteLedger 0)) plane 0 ds no_files = (Inl StoreUnavailable, F) \<and>
     deletion_read V plane 0 F = Inr Corrupt_Ledger \<and> deletion_append V fault plane applied ds' F = (Inl StoreIntegrity, F)"
  by (simp add: deletion_append_def deletion_read_def evidence_append_def evidence_read_def trusted_ledger_def vouched_def no_files_def
    read_head_def read_ledger_file_def write_lines_def deletions_ledger_def ucs_def Let_def split: prod.splits)

text \<open>
  Two deletions of one transaction whose lines were written and whose head was not: the ledger holds two lines past
  its head, reads as corrupt, and every later append is refused.
\<close>

lemma two_deletions_unvouched:
  assumes "evidence_library V plane" "deletion_ok d" "deletion_ok d'" "before_head c"
  shows "\<exists>F. deletion_append V (Some c) plane 0 [d, d'] no_files = (Inl StoreUnavailable, F) \<and>
    deletion_read V plane 0 F = Inr Corrupt_Ledger"
proof -
  have "ledger_state V (deletions_ledger V) plane sample.deletions.good [] no_files"
    by (simp add: ledger_state_def no_files_def)
  from evidence_library.deletions_unvouched [OF assms(1) this, of "[d, d']" 0 c] assms(2-4)
  show ?thesis by (simp add: deletion_append_def deletion_read_def)
qed

text \<open>
  An append that could not sync the directory is reported as failed and its transaction is abandoned, and the head it
  wrote vouches for the fence, which the next open applies.
\<close>

lemma failed_fence_is_vouched:
  assumes "evidence_library V plane" "fence_ok f"
  shows "\<exists>F. fence_append V (Some SyncDirectory) plane 0 [f] no_files = (Inl StoreUnavailable, F) \<and>
    fence_read V plane 0 F = Inr (Vouches [(1, f)])"
proof -
  have "ledger_state V (fences_ledger V) plane sample.fences.good [] no_files"
    by (simp add: ledger_state_def no_files_def)
  from evidence_library.fence_refused_yet_vouched [OF assms(1) this, of "[f]" 0] assms(2)
  show ?thesis by (simp add: fence_append_def fence_read_def)
qed

end
