(* ===== verification/Spec2Isabelle.thy ===== *)
theory Spec2Isabelle
  imports Jet_Codec Jet_Session Jet_Schedule Jet_Review Jet_Remote Jet_Journey Jet_Fences
begin

text \<open>
  A verification library for Jet, a local daemon (the Plane) that runs coding agents, keeps their
  Conversations in an SQLite store and serves clients over a framed connection. Every definition is
  a shallow embedding of Rust code under \<open>src/packages\<close>; the file and function names below are
  those of the repository.

  \<^bold>\<open>How the program works.\<close> A client connection (\<open>jet-daemon\<close>, \<open>jet-protocol\<close>) reads length-prefixed
  frames, checks control frames strictly and queues replies, Events and raw data by priority and
  credit. A Command enters \<open>jet-core\<close> through one pipeline: authorization under the security state,
  the receipt of its identity, one write transaction, the receipt of its result. Commands admit turns
  to the queue of a Conversation, create schedules that admit turns later, and control Runs. A Run
  claims the oldest turn, reports observations of its native process, and each batch of observations
  is one transaction that projects the Run's lifecycle, settles the turn, captures a change
  checkpoint and journals Events. An observation may ask for an approval, which automatic review may
  settle for the user. Security decisions go to an append-only hash-chained audit whose head is kept
  outside the store. A client of another machine is paired in a ceremony and opens remote sessions
  under the access it was given. A Conversation moves to another Plane by a transfer in phases, fenced by a ledger that is
  written before the store commits.

  \<^bold>\<open>Theories.\<close>
  \<^item> \<open>Jet_Prelude\<close>: machine types, the errors of \<open>jet-core/src/error.rs\<close>, Rust's result chaining
    (\<open>rbind\<close>), UTF-8 lengths, trimming and joining of strings, and the interfaces of the components:
    \<open>codec\<close> (a partial decoder inverse to an encoder), \<open>machine\<close> (operations that keep an
    invariant) and \<open>measured_machine\<close> (and never move a cursor back). They are interpreted on
    the frame envelopes, the decimal and hexadecimal fields, the stream queue, the turn queue, the
    schedules, the review guard, the Run and the remote Plane. Two further interfaces stand with their
    component: \<open>ceremony_invariant\<close> (\<open>Jet_Remote\<close>) and \<open>simulation\<close> (\<open>Jet_Holder\<close>).
  \<^item> \<open>Jet_Frame\<close>, \<open>Jet_Codec\<close>, \<open>Jet_Control\<close>: \<open>jet-protocol/src/transport/{frame,decimal,hex,control}.rs\<close>.
    Frames round-trip, exactly the canonical encodings are accepted, a refusal is final, and
    \<open>validate_shape\<close> accepts exactly the JSON texts within the nesting and item bounds.
  \<^item> \<open>Jet_Stream\<close>: \<open>transport/{stream,terminal_queue,stream_error}.rs\<close>, the outbound queue. It refines a
    written priority schedule, is bounded in bytes and frames over every history, delivers Events
    once in cursor order, and reports a resume cursor that loses nothing.
  \<^item> \<open>Jet_Session\<close>: the reading and the writing loop of \<open>jet-daemon/src/connection/session\<close>.
  \<^item> \<open>Jet_Turn\<close>: \<open>jet-core/src/turn/{mod,queue,dispatch}.rs\<close> with the Conversation's journal and the
    transfer gate of \<open>plane_transfer/mod.rs\<close>. The queue is well-formed over every history; an input
    is claimed at most once and in order.
  \<^item> \<open>Jet_Schedule\<close>: \<open>jet-core/src/schedule\<close> and \<open>jet-store/src/schedule.rs\<close>. Every occurrence is admitted at
    most once and the clock search returns.
  \<^item> \<open>Jet_Audit\<close>, \<open>Jet_Security\<close>: \<open>jet-store/src/audit\<close> and \<open>jet-core/src/security.rs\<close>. Every honest history
    validates, save for two lost heads that the code does not repair and two lemmas exhibit; records that validate against
    a head are the only ones that do as far as the inputs their links hash do not collide; and a store rolled
    back behind the head is refused.
  \<^item> \<open>Jet_Command\<close>: \<open>jet-core/src/command/{execute,receipt,preparation,outcome}.rs\<close> on
    \<open>jet-store/src/command.rs\<close>. A Command acts once, and its retry gets the first answer when
    \<open>replay\<close> reads the version it was recorded in. The handler of a command kind is a parameter.
  \<^item> \<open>Jet_Name\<close>, \<open>Jet_Path\<close>, \<open>Jet_Evidence\<close>: \<open>conversation/name.rs\<close>, \<open>filesystem/relative_path.rs\<close>,
    \<open>checkpoint/change_evidence.rs\<close>. Where the operating system arrives on a resolved path is under its root, and a file is attributed to
    an origin exactly when a complete chain of receipts says so.
  \<^item> \<open>Jet_Guard\<close>, \<open>Jet_Review\<close>: \<open>jet-core/src/review\<close>. Work once denied needs a user's grant; an automatic
    allowance was decided, eligible, admitted, consented to and still permitted when it committed.
  \<^item> \<open>Jet_Run\<close>: \<open>jet-core/src/run/state\<close>, \<open>run/execution_control*.rs\<close>, \<open>checkpoint/state.rs\<close> and
    \<open>command/{lifecycle,mutation}.rs\<close>. The lifecycle follows its progression, checkpoints are numbered
    without gaps (the \<open>u32\<close> counter included), a requested stop owns the end, and the end of a Run releases the queue.
  \<^item> \<open>Jet_Pairing\<close>, \<open>Jet_Ceremony\<close>, \<open>Jet_Remote\<close>: \<open>jet-core/src/pairing\<close>, \<open>jet-core/src/remote/mod.rs\<close> and
    \<open>jet-store/src/pairing\<close>. A client is registered only by a ceremony its user confirmed and with a key it
    proved to hold, attempts are bounded, and a session acts under the access its client has now. That the gate is open when a
    key is granted needs a clock that was never set back.
  \<^item> \<open>Jet_Container\<close>, \<open>Jet_Bundle\<close>: \<open>store_recovery/bundle/format.rs\<close> and \<open>plane_transfer/bundle.rs\<close> over the rows of
    \<open>jet-store\<close>. A container decodes to the parts it was made of, a valid bundle to itself unless
    two of its references give one hash two sizes.
  \<^item> \<open>Jet_Transfer\<close>, \<open>Jet_Arrival\<close>: \<open>plane_transfer/{mod,prepare,import,settle}.rs\<close>, \<open>jet-store/src/authority\<close>, Jet Trash
    (\<open>retention/{command,protection,sweep}.rs\<close>, \<open>conversation/{trash,purge}.rs\<close>) and the ledgers an open reapplies. An honest
    transfer completes and the target has what the source had.
  \<^item> \<open>Jet_Home\<close>, \<open>Jet_Holder\<close>, \<open>Jet_Journey\<close>: several Planes and the clients between them, as a step relation that
    simulates a single holder per Conversation. Clients carry what a Plane returned, and import it anywhere and at any time
    but on a target that has committed the transfer and discarded its record; one complete transfer between two concrete Planes; and the places where the code
    and its document part.
  \<^item> \<open>Jet_Ledger\<close>, \<open>Jet_Fences\<close>: \<open>jet-store/src/evidence\<close> with its instances \<open>deletion/ledger.rs\<close> and
    \<open>authority/fence.rs\<close>: the text of the files, the chain, and an append with a failure or a crash at each system call. The
    locale \<open>evidence\<close> is what a ledger promises, \<open>evidence_library\<close> what SHA-256 and the text of a UUID promise. Without a torn
    write, and without an append of several records that stops before its head, nothing acknowledged is lost, and a head vouches for one sequence of records.

  \<^bold>\<open>State and errors.\<close> A row or an in-memory struct is a record with the fields the operations use; a
  write transaction is a function that returns \<open>core_error + state\<close>, and an error leaves the old
  state, as a rolled-back transaction does. The SQL of an operation is modelled by what its statement
  and its triggers do to those fields. Interleavings are lists of operations, each one transaction.

  \<^bold>\<open>Bounds.\<close> Lengths, offsets and credits are kept at their width where the code checks or saturates
  them (\<open>u32\<close>, \<open>u64\<close>, \<open>usize\<close>); the turn counter of a Run is a \<open>u32\<close> that wraps; revisions, which
  the code cannot exhaust, are natural numbers. Loops are structural recursions or have a measure; the search for the next local time of a
  schedule is a \<open>partial_function\<close> and is proved to return. No fuel is used.

  \<^bold>\<open>Parameters.\<close> SHA-256, the JSON parser of reviewer output, the calendar and time-zone library, the
  filesystem, Git, the reviewer and the operating system are arguments of the definitions; what a
  property needs of them is a hypothesis in its statement, with a witness on a concrete instance.

  \<^bold>\<open>Not modelled.\<close> The SQL layer beyond the rows above, process supervision, pseudo-terminals, TLS, Git commands, full-text search, the desktop application and the clients are
  I/O or third-party behaviour; the primitives of pairing (SHA-256, Ed25519, the random source) are arguments.
  Within modelled parts: Usage observations of a Run, the dispatch of a
  request into the core (\<open>process_requests\<close>), capturing and paging of checkpoint bytes, recovery of
  orphaned Runs, the decision of auto-continue, deleting a Conversation everywhere, Autodelete rules,
  and the publication of Artifact payloads on import.

  \<^bold>\<open>Plan.\<close> Next come auto-continue, version negotiation, usage records, and the spools.
\<close>

end
